(* ===== verification/Prelude.thy ===== *)
theory Prelude
  imports Main "HOL-Library.Word"
begin

text \<open>
  Shared vocabulary of the development: the machine types of the C++ sources, the two ways a
  modelled operation can fail, the sequencing of fallible operations, the number formats used by
  the race message, and generic lemmas on folds, maps and fallible sequences.
\<close>

named_theorems clk_simps \<open>reading a vector clock after an operation on it\<close>
named_theorems tsan_defs \<open>definitions of the detector's operations\<close>
named_theorems hook_defs \<open>definitions of the hooks and callbacks\<close>

type_synonym u32 = "32 word"
type_synonym u64 = "64 word"

text \<open>
  Addresses, byte offsets, sizes and thread ids are natural numbers; where the source computes
  with them in \<open>size_t\<close> and the result can leave the range, \<open>size_t\<close> reduces modulo \<open>2 ^ 64\<close>.
\<close>

type_synonym addr = nat
type_synonym tid = nat

definition UINT32_MAX :: nat where
  "UINT32_MAX = 4294967295"

definition size_t :: "nat \<Rightarrow> nat" where
  "size_t n = n mod 18446744073709551616"

lemma size_t_id [simp]: "n < 18446744073709551616 \<Longrightarrow> size_t n = n"
  by (simp add: size_t_def)

lemma size_t_less [simp]: "size_t n < 18446744073709551616"
  by (simp add: size_t_def)

text \<open>A 64-bit counter below its maximum steps up by one; at its maximum it wraps to 0.\<close>

definition UINT64_MAX :: nat where
  "UINT64_MAX = 18446744073709551615"

lemma unat_inc: "unat v < UINT64_MAX \<Longrightarrow> unat (v + 1) = unat v + 1" for v :: u64
  by (simp add: unat_word_ariths UINT64_MAX_def)

lemma inc_greater: "unat v < UINT64_MAX \<Longrightarrow> v < v + 1" for v :: u64
  by (simp add: word_less_nat_alt unat_inc)

lemma unat_max: "unat (max a b) = max (unat a) (unat b)" for a b :: u64
  by (auto simp: max_def word_le_nat_alt)

lemma unat_inc32: "unat v + 1 < 4294967296 \<Longrightarrow> unat (v + 1) = unat v + 1" for v :: u32
  by (simp add: unat_word_ariths)

lemma inc32_neq_0: "unat v + 1 < 4294967296 \<Longrightarrow> v + 1 \<noteq> 0" for v :: u32
  using unat_inc32 [of v] by auto

text \<open>
  Failures: an index outside a fixed-size array (undefined in C++), a failed \<open>CHECK\<close>, a
  dereferenced null pointer or pointer to a deleted object, and a loop over a linked structure
  that has not ended within the fuel its model gives it.
\<close>

datatype crash = OutOfBounds | CheckFailed | BadPointer | Unfinished

type_synonym 'a result = "crash + 'a"

fun bindE :: "'a result \<Rightarrow> ('a \<Rightarrow> 'b result) \<Rightarrow> 'b result" where
  "bindE (Inl e) f = Inl e"
| "bindE (Inr x) f = f x"

lemma bindE_assoc: "bindE (bindE m f) g = bindE m (\<lambda>x. bindE (f x) g)"
  by (cases m) simp_all

lemma bindE_Inr [simp]: "bindE m Inr = m"
  by (cases m) simp_all

lemma bindE_eq_Inr: "bindE m f = Inr y \<longleftrightarrow> (\<exists>x. m = Inr x \<and> f x = Inr y)"
  by (cases m) simp_all

lemma bindE_InrE:
  assumes "bindE m f = Inr y"
  obtains x where "m = Inr x" and "f x = Inr y"
  using assms by (auto simp: bindE_eq_Inr)

text \<open>Running a list of fallible steps, stopping at the first failure.\<close>

fun runE :: "('o \<Rightarrow> 's \<Rightarrow> 's result) \<Rightarrow> 'o list \<Rightarrow> 's \<Rightarrow> 's result" where
  "runE f [] s = Inr s"
| "runE f (x # xs) s = bindE (f x s) (runE f xs)"

lemma runE_append: "runE f (xs @ ys) s = bindE (runE f xs s) (runE f ys)"
proof (induction xs arbitrary: s)
  case Nil
  then show ?case by simp
next
  case (Cons x xs)
  then show ?case by (cases "f x s") simp_all
qed

lemma runE_invariant:
  assumes "\<And>x s s'. P s \<Longrightarrow> f x s = Inr s' \<Longrightarrow> P s'"
  shows "P s \<Longrightarrow> runE f xs s = Inr s' \<Longrightarrow> P s'"
proof (induction xs arbitrary: s)
  case Nil
  then show ?case by simp
next
  case (Cons x xs)
  then obtain t where "f x s = Inr t" and "runE f xs t = Inr s'"
    by (auto elim: bindE_InrE)
  with Cons assms show ?case by blast
qed

text \<open>Pointwise effect of a loop that visits distinct indices and changes one entry per index.\<close>

lemma fold_upd_apply:
  assumes "distinct is"
  shows "fold (\<lambda>i c. c(i := g i (c i))) is c j = (if j \<in> set is then g j (c j) else c j)"
  using assms by (induction "is" arbitrary: c) auto

text \<open>Decimal and hexadecimal formatting of \<open>snprintf\<close>.\<close>

definition digit :: "nat \<Rightarrow> char" where
  "digit d = ''0123456789abcdef'' ! d"

fun digits :: "nat \<Rightarrow> nat \<Rightarrow> nat \<Rightarrow> string" where
  "digits b 0 n = ''''"
| "digits b (Suc k) n =
     (if n < b then [digit n] else digits b k (n div b) @ [digit (n mod b)])"

definition dec :: "nat \<Rightarrow> string" where
  "dec n = digits 10 20 n"

definition hex :: "nat \<Rightarrow> string" where
  "hex n = digits 16 16 n"

lemma length_digits: "length (digits b k n) \<le> k"
proof (induction k arbitrary: n)
  case 0
  then show ?case by simp
next
  case (Suc k)
  then show ?case by (auto simp: le_SucI)
qed

lemma length_dec: "length (dec n) \<le> 20"
  by (simp add: dec_def length_digits)

lemma length_hex: "length (hex n) \<le> 16"
  by (simp add: hex_def length_digits)

end
