(* ===== verification/VClock.thy ===== *)
theory VClock
  imports Prelude
begin

text \<open>
  The class \<open>VClock\<close> of \<open>web_tsan.h\<close>: an array of \<open>kMaxThreads\<close> 64-bit counters. The type holds
  exactly the arrays of that length (entries past the end are pinned to 0 and never read), so the
  order given by \<open>HappensBefore\<close> and the join given by \<open>Join\<close> are a genuine bounded semilattice,
  and the library's order and lattice automation applies to clocks.
\<close>

definition kMaxThreads :: nat where
  "kMaxThreads = 64"

lemma kMaxThreads_pos [simp]: "0 < kMaxThreads"
  by (simp add: kMaxThreads_def)

typedef vclock = "{f :: nat \<Rightarrow> u64. \<forall>i \<ge> kMaxThreads. f i = 0}"
  by (rule exI [of _ "\<lambda>_. 0"]) simp

lemma Rep_vclock_beyond: "kMaxThreads \<le> i \<Longrightarrow> Rep_vclock c i = 0"
  using Rep_vclock [of c] by simp

lemma vclock_abstype [code abstype]: "Abs_vclock (Rep_vclock c) = c"
  by (rule Rep_vclock_inverse)

definition empty_clock :: vclock where
  "empty_clock = Abs_vclock (\<lambda>_. 0)"

definition Get :: "vclock \<Rightarrow> tid \<Rightarrow> u64" where
  "Get c tid = Rep_vclock c tid"

definition Set :: "tid \<Rightarrow> u64 \<Rightarrow> vclock \<Rightarrow> vclock" where
  "Set tid val c =
     Abs_vclock (if tid < kMaxThreads then (Rep_vclock c)(tid := val) else Rep_vclock c)"

definition Increment :: "tid \<Rightarrow> vclock \<Rightarrow> vclock" where
  "Increment tid c = Set tid (Get c tid + 1) c"

text \<open>The early return of \<open>HappensBefore\<close> and the loop of \<open>Join\<close>, index by index.\<close>

fun hb_loop :: "nat list \<Rightarrow> (nat \<Rightarrow> u64) \<Rightarrow> (nat \<Rightarrow> u64) \<Rightarrow> bool" where
  "hb_loop [] clk other = True"
| "hb_loop (i # is) clk other = (if clk i > other i then False else hb_loop is clk other)"

definition join_loop :: "(nat \<Rightarrow> u64) \<Rightarrow> (nat \<Rightarrow> u64) \<Rightarrow> nat \<Rightarrow> u64" where
  "join_loop clk other =
     fold (\<lambda>i c. c(i := (if other i > c i then other i else c i))) [0..<kMaxThreads] clk"

definition HappensBefore_clk :: "vclock \<Rightarrow> vclock \<Rightarrow> bool" where
  "HappensBefore_clk c other = hb_loop [0..<kMaxThreads] (Get c) (Get other)"

definition Join :: "vclock \<Rightarrow> vclock \<Rightarrow> vclock" where
  "Join c other = Abs_vclock (join_loop (Get c) (Get other))"

lemma hb_loop_iff: "hb_loop is a b \<longleftrightarrow> (\<forall>i \<in> set is. a i \<le> b i)"
  by (induction "is") auto

lemma join_loop_apply:
  "join_loop a b i = (if i < kMaxThreads then max (a i) (b i) else a i)"
  unfolding join_loop_def
  by (subst fold_upd_apply [where g = "\<lambda>i v. if b i > v then b i else v"]) (auto simp: max_def)

lemma Rep_empty_clock [code abstract]: "Rep_vclock empty_clock = (\<lambda>_. 0)"
  by (simp add: empty_clock_def Abs_vclock_inverse)

lemma Rep_Set [code abstract]:
  "Rep_vclock (Set t v c) = (if t < kMaxThreads then (Rep_vclock c)(t := v) else Rep_vclock c)"
  by (simp add: Set_def Abs_vclock_inverse Rep_vclock_beyond)

lemma Rep_Join [code abstract]: "Rep_vclock (Join a b) = join_loop (Get a) (Get b)"
  by (simp add: Join_def Abs_vclock_inverse join_loop_apply Get_def Rep_vclock_beyond)

subsection \<open>Reading a clock\<close>

lemma Get_empty [simp, clk_simps]: "Get empty_clock t = 0"
  by (simp add: Get_def Rep_empty_clock)

lemma Get_beyond: "kMaxThreads \<le> t \<Longrightarrow> Get c t = 0"
  by (simp add: Get_def Rep_vclock_beyond)

lemma Get_Set [simp, clk_simps]:
  "Get (Set u v c) t = (if t = u \<and> u < kMaxThreads then v else Get c t)"
  by (simp add: Get_def Rep_Set)

lemma Get_Increment [simp, clk_simps]:
  "Get (Increment u c) t = (if t = u \<and> u < kMaxThreads then Get c t + 1 else Get c t)"
  by (simp add: Increment_def)

lemma Get_Join [simp, clk_simps]: "Get (Join a b) t = max (Get a t) (Get b t)"
proof (cases "t < kMaxThreads")
  case True
  then show ?thesis by (simp add: Get_def [of "Join a b"] Rep_Join join_loop_apply)
next
  case False
  then show ?thesis by (simp add: Get_beyond)
qed

lemma vclock_eqI:
  assumes "\<And>t. t < kMaxThreads \<Longrightarrow> Get a t = Get b t"
  shows "a = b"
proof -
  have "Rep_vclock a t = Rep_vclock b t" for t
    using assms [of t] by (cases "t < kMaxThreads") (simp_all add: Get_def Rep_vclock_beyond)
  then have "Rep_vclock a = Rep_vclock b" by blast
  then show ?thesis by (simp add: Rep_vclock_inject)
qed

lemma HappensBefore_clk_iff: "HappensBefore_clk a b \<longleftrightarrow> (\<forall>t. Get a t \<le> Get b t)"
proof -
  have "Get a t \<le> Get b t" if "\<forall>t < kMaxThreads. Get a t \<le> Get b t" for t
    using that by (cases "t < kMaxThreads") (simp_all add: Get_beyond)
  then show ?thesis by (auto simp: HappensBefore_clk_def hb_loop_iff)
qed

subsection \<open>Clocks as a bounded semilattice\<close>

instantiation vclock :: "{semilattice_sup, order_bot}"
begin

definition less_eq_vclock :: "vclock \<Rightarrow> vclock \<Rightarrow> bool" where
  "less_eq_vclock a b = HappensBefore_clk a b"

definition less_vclock :: "vclock \<Rightarrow> vclock \<Rightarrow> bool" where
  "less_vclock a b \<longleftrightarrow> HappensBefore_clk a b \<and> \<not> HappensBefore_clk b a"

definition sup_vclock :: "vclock \<Rightarrow> vclock \<Rightarrow> vclock" where
  "sup_vclock a b = Join a b"

definition bot_vclock :: vclock where
  "bot_vclock = empty_clock"

instance
proof
  fix a b c :: vclock
  show "a < b \<longleftrightarrow> a \<le> b \<and> \<not> b \<le> a"
    by (simp add: less_eq_vclock_def less_vclock_def)
  show "a \<le> a"
    by (simp add: less_eq_vclock_def HappensBefore_clk_iff)
  show "a \<le> b \<Longrightarrow> b \<le> c \<Longrightarrow> a \<le> c"
    by (auto simp: less_eq_vclock_def HappensBefore_clk_iff intro: order_trans)
  show "a \<le> b \<Longrightarrow> b \<le> a \<Longrightarrow> a = b"
    by (auto simp: less_eq_vclock_def HappensBefore_clk_iff intro!: vclock_eqI order_antisym)
  show "a \<le> sup a b" and "b \<le> sup a b"
    by (simp_all add: less_eq_vclock_def sup_vclock_def HappensBefore_clk_iff)
  show "b \<le> a \<Longrightarrow> c \<le> a \<Longrightarrow> sup b c \<le> a"
    by (simp add: less_eq_vclock_def sup_vclock_def HappensBefore_clk_iff)
  show "bot \<le> a"
    by (simp add: less_eq_vclock_def bot_vclock_def HappensBefore_clk_iff)
qed

end

lemma vclock_le_iff: "a \<le> b \<longleftrightarrow> (\<forall>t. Get a t \<le> Get b t)" for a b :: vclock
  by (simp add: less_eq_vclock_def HappensBefore_clk_iff)

lemma vclock_leD: "a \<le> b \<Longrightarrow> Get a t \<le> Get b t" for a b :: vclock
  by (simp add: vclock_le_iff)

lemma Join_sup: "Join a b = sup a b"
  by (simp add: sup_vclock_def)

lemma Increment_ge: "unat (Get c t) < UINT64_MAX \<Longrightarrow> c \<le> Increment t c"
  by (auto simp: vclock_le_iff intro: less_imp_le inc_greater)

subsection \<open>What the detector needs of a clock\<close>

text \<open>
  A clock covers a set of accesses when, for each access, its component for the accessing thread
  has reached the access's epoch. The laws below are all the detector uses of clocks: its
  happens-before argument is carried out over them, in the locale.
\<close>

definition covers :: "('c \<Rightarrow> nat \<Rightarrow> 'v::ord) \<Rightarrow> ('e \<Rightarrow> nat) \<Rightarrow> ('e \<Rightarrow> 'v) \<Rightarrow> 'e set \<Rightarrow> 'c \<Rightarrow> bool" where
  "covers get who stamp S c \<longleftrightarrow> (\<forall>e \<in> S. stamp e \<le> get c (who e))"

locale causal_clock =
  fixes get :: "'c \<Rightarrow> nat \<Rightarrow> 'v::linorder"
    and join :: "'c \<Rightarrow> 'c \<Rightarrow> 'c"
    and inc :: "nat \<Rightarrow> 'c \<Rightarrow> 'c"
    and room :: "'c \<Rightarrow> nat \<Rightarrow> bool"
  assumes get_join: "get (join a b) t = max (get a t) (get b t)"
    and get_inc_other: "t \<noteq> u \<Longrightarrow> get (inc u c) t = get c t"
    and get_inc_room: "room c u \<Longrightarrow> get c u \<le> get (inc u c) u"
begin

lemma covers_empty: "covers get who stamp {} c"
  by (simp add: covers_def)

lemma covers_mono: "covers get who stamp S c \<Longrightarrow> T \<subseteq> S \<Longrightarrow> covers get who stamp T c"
  by (auto simp: covers_def)

lemma covers_insert:
  "covers get who stamp (insert e S) c \<longleftrightarrow> stamp e \<le> get c (who e) \<and> covers get who stamp S c"
  by (auto simp: covers_def)

lemma covers_join1: "covers get who stamp S c \<Longrightarrow> covers get who stamp S (join c d)"
  by (auto simp: covers_def get_join le_max_iff_disj)

lemma covers_join2: "covers get who stamp S d \<Longrightarrow> covers get who stamp S (join c d)"
  by (auto simp: covers_def get_join le_max_iff_disj)

lemma covers_join:
  "covers get who stamp S c \<Longrightarrow> covers get who stamp T d \<Longrightarrow>
     covers get who stamp (S \<union> T) (join c d)"
  by (auto simp: covers_def get_join le_max_iff_disj)

lemma covers_inc:
  assumes "covers get who stamp S c" and "room c u"
  shows "covers get who stamp S (inc u c)"
proof -
  have "get c t \<le> get (inc u c) t" for t
    using assms(2) by (cases "t = u") (simp_all add: get_inc_other get_inc_room)
  with assms(1) show ?thesis by (auto simp: covers_def intro: order_trans)
qed

text \<open>The contrapositive the race check rests on: an access the clock has not reached is not covered.\<close>

lemma not_covered: "covers get who stamp S c \<Longrightarrow> get c (who e) < stamp e \<Longrightarrow> e \<notin> S"
  by (auto simp: covers_def)

end

definition has_room :: "vclock \<Rightarrow> nat \<Rightarrow> bool" where
  "has_room c t \<longleftrightarrow> unat (Get c t) < UINT64_MAX"

interpretation vc: causal_clock Get Join Increment has_room
  by unfold_locales (auto simp: has_room_def intro: less_imp_le inc_greater)

subsection \<open>Properties\<close>

text \<open>
  The loop of \<open>Join\<close> computes the least upper bound for the order that the loop of
  \<open>HappensBefore\<close> decides: the result is above both clocks, and below every clock above both;
  in particular joining is idempotent, commutative and associative, so the order in which
  edges reach a thread does not matter.
\<close>

lemma Join_least_upper_bound:
  "HappensBefore_clk a (Join a b) \<and> HappensBefore_clk b (Join a b) \<and>
   (HappensBefore_clk (Join a b) c \<longleftrightarrow> HappensBefore_clk a c \<and> HappensBefore_clk b c) \<and>
   Join a a = a \<and> Join a b = Join b a \<and> Join (Join a b) c = Join a (Join b c)"
  by (simp add: Join_sup less_eq_vclock_def [symmetric] sup_aci)

end
