(* ===== verification/ShadowBuffer.thy ===== *)
theory ShadowBuffer
  imports VClock
begin

text \<open>
  Shadow memory: \<open>ShadowCell\<close>, \<open>RaceReport\<close> and the class \<open>ShadowBuffer\<close> of \<open>web_tsan.h\<close> and
  \<open>web_tsan.cc\<close>. A page is the array of its cells; the page table is the map from page indices to
  allocated pages. \<open>RecordAccess\<close> and \<open>ClearRange\<close> are proved to be the byte-wise operations one
  expects of a flat array of cells, and the paged \<open>RecordAccess\<close> to agree with the flat-array
  detector that the repository's own test inlines.
\<close>

subsection \<open>Cells, reports, buffers\<close>

definition kShadowCellsPerByte :: nat where
  "kShadowCellsPerByte = 2"

definition kPageBytes :: nat where
  "kPageBytes = 4096"

definition kStripeBytes :: nat where
  "kStripeBytes = 64"

definition kMaxStripes :: nat where
  "kMaxStripes = 65536"

lemmas shadow_consts = kShadowCellsPerByte_def kPageBytes_def kStripeBytes_def kMaxStripes_def

record ShadowCell =
  sc_tid :: tid
  sc_epoch :: u64
  sc_is_write :: bool
  sc_valid :: bool

definition default_cell :: ShadowCell where
  "default_cell = \<lparr>sc_tid = 0, sc_epoch = 0, sc_is_write = False, sc_valid = False\<rparr>"

record RaceReport =
  sab_offset :: nat
  sab_backing_store :: addr
  sab_byte_length :: nat
  tid1 :: tid
  is_write1 :: bool
  epoch1 :: u64
  tid2 :: tid
  is_write2 :: bool
  epoch2 :: u64

type_synonym ShadowPage = "nat \<Rightarrow> ShadowCell"

record ShadowBuffer =
  sb_backing_store :: addr
  sb_byte_length :: nat
  sb_stripe_locks :: nat \<comment> \<open>the number of stripe locks\<close>
  sb_pages :: "nat \<rightharpoonup> ShadowPage"

definition new_ShadowBuffer :: "addr \<Rightarrow> nat \<Rightarrow> ShadowBuffer" where
  "new_ShadowBuffer bs len =
     \<lparr>sb_backing_store = bs, sb_byte_length = len,
      sb_stripe_locks = min (size_t (len + kStripeBytes - 1) div kStripeBytes) kMaxStripes,
      sb_pages = Map.empty\<rparr>"

definition PageIndex :: "nat \<Rightarrow> nat" where
  "PageIndex byte_offset = byte_offset div kPageBytes"

definition InPageOffset :: "nat \<Rightarrow> nat" where
  "InPageOffset byte_offset = byte_offset mod kPageBytes"

definition InPageShadowIndex :: "nat \<Rightarrow> nat \<Rightarrow> nat" where
  "InPageShadowIndex in_page_offset c = in_page_offset * kShadowCellsPerByte + c"

definition StripeIndex :: "ShadowBuffer \<Rightarrow> nat \<Rightarrow> nat" where
  "StripeIndex sb byte_offset = (byte_offset div kStripeBytes) mod sb_stripe_locks sb"

definition new_ShadowPage :: ShadowPage where
  "new_ShadowPage = (\<lambda>_. default_cell)"

definition GetOrCreatePage :: "nat \<Rightarrow> ShadowBuffer \<Rightarrow> ShadowPage \<times> ShadowBuffer" where
  "GetOrCreatePage page_index sb =
     (case sb_pages sb page_index of
        Some page \<Rightarrow> (page, sb)
      | None \<Rightarrow> (new_ShadowPage, sb\<lparr>sb_pages := (sb_pages sb)(page_index \<mapsto> new_ShadowPage)\<rparr>))"

subsection \<open>RaceReport::ToString\<close>

definition rw_name :: "bool \<Rightarrow> string" where
  "rw_name w = (if w then ''WRITE'' else ''READ'')"

text \<open>\<open>snprintf\<close> into a buffer of 512 characters keeps at most 511 of them.\<close>

definition snprintf :: "nat \<Rightarrow> string \<Rightarrow> string" where
  "snprintf buf_size s = take (buf_size - 1) s"

definition ToString :: "RaceReport \<Rightarrow> string" where
  "ToString r = snprintf 512
     (''DATA RACE detected at SAB offset 0x'' @ hex (sab_offset r) @
      '' (backing_store=0x'' @ hex (sab_backing_store r) @
      '', size='' @ dec (sab_byte_length r) @ '')'' @ '':'' @ [CHR 0x0A] @
      ''  Access 1: tid='' @ dec (tid1 r) @ '' '' @ rw_name (is_write1 r) @
      '' epoch='' @ dec (unat (epoch1 r)) @ [CHR 0x0A] @
      ''  Access 2: tid='' @ dec (tid2 r) @ '' '' @ rw_name (is_write2 r) @
      '' epoch='' @ dec (unat (epoch2 r)) @ [CHR 0x0A] @
      ''  (at least one is a write, no happens-before ordering)'' @ [CHR 0x0A])"

subsection \<open>RecordAccess\<close>

text \<open>The four \<open>continue\<close>s of the cell loop: what is left is a race.\<close>

definition racy :: "ShadowCell \<Rightarrow> tid \<Rightarrow> bool \<Rightarrow> vclock \<Rightarrow> bool" where
  "racy cell tid is_write thread_clock =
     (if \<not> sc_valid cell then False
      else if sc_tid cell = tid then False
      else if \<not> sc_is_write cell \<and> \<not> is_write then False
      else if Get thread_clock (sc_tid cell) \<ge> sc_epoch cell then False
      else True)"

definition make_report ::
  "ShadowBuffer \<Rightarrow> nat \<Rightarrow> ShadowCell \<Rightarrow> tid \<Rightarrow> bool \<Rightarrow> vclock \<Rightarrow> RaceReport" where
  "make_report sb byte cell tid is_write thread_clock =
     \<lparr>sab_offset = byte, sab_backing_store = sb_backing_store sb,
      sab_byte_length = sb_byte_length sb,
      tid1 = sc_tid cell, is_write1 = sc_is_write cell, epoch1 = sc_epoch cell,
      tid2 = tid, is_write2 = is_write, epoch2 = Get thread_clock tid\<rparr>"

text \<open>The cell loop, leaving at the first race (\<open>break\<close>).\<close>

fun scan_cells ::
  "nat list \<Rightarrow> ShadowPage \<Rightarrow> nat \<Rightarrow> tid \<Rightarrow> bool \<Rightarrow> vclock \<Rightarrow> ShadowCell option" where
  "scan_cells [] page in_page tid is_write clk = None"
| "scan_cells (c # cs) page in_page tid is_write clk =
     (let cell = page (InPageShadowIndex in_page c)
      in if racy cell tid is_write clk then Some cell
         else scan_cells cs page in_page tid is_write clk)"

text \<open>One byte: scan, then overwrite the cell of the thread's slot, race or not.\<close>

definition record_byte ::
  "nat \<Rightarrow> tid \<Rightarrow> bool \<Rightarrow> vclock \<Rightarrow> ShadowBuffer \<Rightarrow> RaceReport option \<times> ShadowBuffer" where
  "record_byte byte tid is_write clk sb =
     (let (page, sb1) = GetOrCreatePage (PageIndex byte) sb;
          in_page = InPageOffset byte;
          found = scan_cells [0..<kShadowCellsPerByte] page in_page tid is_write clk;
          evict_slot = tid mod kShadowCellsPerByte;
          page' = page(InPageShadowIndex in_page evict_slot :=
                    \<lparr>sc_tid = tid, sc_epoch = Get clk tid, sc_is_write = is_write,
                     sc_valid = True\<rparr>)
      in (map_option (\<lambda>cell. make_report sb byte cell tid is_write clk) found,
          sb1\<lparr>sb_pages := (sb_pages sb1)(PageIndex byte \<mapsto> page')\<rparr>))"

text \<open>The byte loop: \<open>n\<close> bytes are left, \<open>byte\<close> is \<open>offset + i\<close>; it returns at the first race.\<close>

fun record_loop ::
  "nat \<Rightarrow> nat \<Rightarrow> tid \<Rightarrow> bool \<Rightarrow> vclock \<Rightarrow> ShadowBuffer \<Rightarrow> RaceReport option \<times> ShadowBuffer" where
  "record_loop 0 byte tid is_write clk sb = (None, sb)"
| "record_loop (Suc n) byte tid is_write clk sb =
     (if size_t byte < sb_byte_length sb then
        (case record_byte (size_t byte) tid is_write clk sb of
           (Some r, sb') \<Rightarrow> (Some r, sb')
         | (None, sb') \<Rightarrow> record_loop n (Suc byte) tid is_write clk sb')
      else (None, sb))"

definition RecordAccess ::
  "nat \<Rightarrow> nat \<Rightarrow> tid \<Rightarrow> bool \<Rightarrow> vclock \<Rightarrow> ShadowBuffer \<Rightarrow> RaceReport option \<times> ShadowBuffer" where
  "RecordAccess offset sz tid is_write thread_clock sb =
     record_loop sz offset tid is_write thread_clock sb"

subsection \<open>ClearRange\<close>

text \<open>
  The inner loop resets the \<open>valid\<close> flag of both cells of each byte; the outer loop jumps over
  pages that were never allocated. \<open>(page_idx + 1) * kPageBytes\<close> stays below \<open>2 ^ 64\<close> for every
  buffer whose length is at most \<open>2 ^ 64 - kPageBytes\<close>, far above the engine's limits.
\<close>

definition clear_cell :: "nat \<Rightarrow> ShadowPage \<Rightarrow> ShadowPage" where
  "clear_cell idx page = page(idx := (page idx)\<lparr>sc_valid := False\<rparr>)"

definition clear_byte :: "nat \<Rightarrow> ShadowPage \<Rightarrow> ShadowPage" where
  "clear_byte byte page =
     fold (\<lambda>c. clear_cell (InPageShadowIndex (InPageOffset byte) c)) [0..<kShadowCellsPerByte] page"

definition clear_page_bytes :: "nat \<Rightarrow> nat \<Rightarrow> ShadowPage \<Rightarrow> ShadowPage" where
  "clear_page_bytes byte page_end page = fold clear_byte [byte..<page_end] page"

lemma next_page_greater: "byte < (PageIndex byte + 1) * kPageBytes"
  using dividend_less_div_times [of kPageBytes byte] by (simp add: PageIndex_def kPageBytes_def)

function clear_loop :: "nat \<Rightarrow> nat \<Rightarrow> ShadowBuffer \<Rightarrow> ShadowBuffer" where
  "clear_loop byte end sb =
     (if byte < end then
        let page_idx = PageIndex byte in
        case sb_pages sb page_idx of
          None \<Rightarrow> clear_loop ((page_idx + 1) * kPageBytes) end sb
        | Some page \<Rightarrow>
            let page_end = min end ((page_idx + 1) * kPageBytes) in
            clear_loop page_end end
              (sb\<lparr>sb_pages := (sb_pages sb)(page_idx \<mapsto> clear_page_bytes byte page_end page)\<rparr>)
      else sb)"
  by pat_completeness auto
termination
proof (relation "measure (\<lambda>(byte, end, sb). end - byte)", goal_cases)
  case 1
  then show ?case by simp
next
  case (2 byte "end" sb page_idx)
  then show ?case using next_page_greater [of byte] by auto
next
  case (3 byte "end" sb page_idx page page_end)
  then show ?case using next_page_greater [of byte] by auto
qed

declare clear_loop.simps [simp del]

definition ClearRange :: "nat \<Rightarrow> nat \<Rightarrow> ShadowBuffer \<Rightarrow> ShadowBuffer" where
  "ClearRange offset sz sb =
     (let end = size_t (offset + sz);
          end' = (if end > sb_byte_length sb then sb_byte_length sb else end)
      in clear_loop offset end' sb)"

subsection \<open>The cells of a byte\<close>

definition cell_at :: "ShadowBuffer \<Rightarrow> nat \<Rightarrow> nat \<Rightarrow> ShadowCell" where
  "cell_at sb byte c =
     (case sb_pages sb (PageIndex byte) of
        None \<Rightarrow> default_cell
      | Some page \<Rightarrow> page (InPageShadowIndex (InPageOffset byte) c))"

definition access_cell :: "tid \<Rightarrow> bool \<Rightarrow> vclock \<Rightarrow> ShadowCell" where
  "access_cell tid is_write clk =
     \<lparr>sc_tid = tid, sc_epoch = Get clk tid, sc_is_write = is_write, sc_valid = True\<rparr>"

lemma InPageShadowIndex_bound:
  "c < kShadowCellsPerByte \<Longrightarrow>
     InPageShadowIndex (InPageOffset byte) c < kPageBytes * kShadowCellsPerByte"
proof -
  assume "c < kShadowCellsPerByte"
  moreover have "byte mod 4096 < 4096" by simp
  ultimately show ?thesis
    unfolding InPageShadowIndex_def InPageOffset_def shadow_consts by linarith
qed

lemma InPageShadowIndex_eq_iff:
  assumes "c < kShadowCellsPerByte" and "d < kShadowCellsPerByte"
  shows "InPageShadowIndex m c = InPageShadowIndex n d \<longleftrightarrow> m = n \<and> c = d"
  using assms unfolding InPageShadowIndex_def shadow_consts by (auto, presburger+)

lemma byte_eq_iff:
  "PageIndex a = PageIndex b \<and> InPageOffset a = InPageOffset b \<longleftrightarrow> a = b"
  unfolding PageIndex_def InPageOffset_def by (metis div_mult_mod_eq)

lemma scan_cells_Some:
  "scan_cells cs page i t w clk = Some cell \<Longrightarrow>
     \<exists>c \<in> set cs. cell = page (InPageShadowIndex i c) \<and> racy cell t w clk"
  by (induction cs) (auto simp: Let_def split: if_splits)

lemma scan_cells_None:
  "scan_cells cs page i t w clk = None \<longleftrightarrow>
     (\<forall>c \<in> set cs. \<not> racy (page (InPageShadowIndex i c)) t w clk)"
  by (induction cs) (auto simp: Let_def)

lemma not_racy_default [simp]: "\<not> racy default_cell t w clk"
  by (simp add: racy_def default_cell_def)

lemma not_racy_own [simp]: "\<not> racy (access_cell t w' clk') t w clk"
  by (simp add: racy_def access_cell_def)

lemma record_byte_frame [simp]:
  "sb_backing_store (snd (record_byte b t w clk sb)) = sb_backing_store sb"
  "sb_byte_length (snd (record_byte b t w clk sb)) = sb_byte_length sb"
  "sb_stripe_locks (snd (record_byte b t w clk sb)) = sb_stripe_locks sb"
  by (simp_all add: record_byte_def GetOrCreatePage_def Let_def split: option.split)

lemma page_of_byte:
  "GetOrCreatePage (PageIndex byte) sb = (page, sb1) \<Longrightarrow>
     page (InPageShadowIndex (InPageOffset byte) c) = cell_at sb byte c"
  by (auto simp: GetOrCreatePage_def cell_at_def new_ShadowPage_def split: option.splits)

lemma record_byte_Some:
  assumes "fst (record_byte byte t w clk sb) = Some r"
  shows "\<exists>c < kShadowCellsPerByte. racy (cell_at sb byte c) t w clk \<and>
           r = make_report sb byte (cell_at sb byte c) t w clk"
proof -
  obtain page sb1 where p: "GetOrCreatePage (PageIndex byte) sb = (page, sb1)"
    by fastforce
  from assms p obtain cell where
    cell: "scan_cells [0..<kShadowCellsPerByte] page (InPageOffset byte) t w clk = Some cell"
    and r: "r = make_report sb byte cell t w clk"
    by (auto simp: record_byte_def Let_def)
  from scan_cells_Some [OF cell] r page_of_byte [OF p] show ?thesis by auto
qed

lemma record_byte_None:
  "fst (record_byte byte t w clk sb) = None \<longleftrightarrow>
     (\<forall>c < kShadowCellsPerByte. \<not> racy (cell_at sb byte c) t w clk)"
proof -
  obtain page sb1 where p: "GetOrCreatePage (PageIndex byte) sb = (page, sb1)"
    by fastforce
  then show ?thesis
    by (simp add: record_byte_def Let_def scan_cells_None page_of_byte [OF p]) auto
qed

lemma cell_at_record_byte:
  assumes "c < kShadowCellsPerByte"
  shows "cell_at (snd (record_byte byte t w clk sb)) b c =
           (if b = byte \<and> c = t mod kShadowCellsPerByte then access_cell t w clk
            else cell_at sb b c)"
proof -
  obtain page sb1 where p: "GetOrCreatePage (PageIndex byte) sb = (page, sb1)"
    by fastforce
  have slot: "t mod kShadowCellsPerByte < kShadowCellsPerByte"
    by (simp add: kShadowCellsPerByte_def)
  have same: "cell_at sb b c = page (InPageShadowIndex (InPageOffset b) c)"
    if "PageIndex b = PageIndex byte"
    using p that by (auto simp: cell_at_def GetOrCreatePage_def new_ShadowPage_def split: option.splits)
  have other: "sb_pages sb1 i = sb_pages sb i" if "i \<noteq> PageIndex byte" for i
    using p that by (auto simp: GetOrCreatePage_def split: option.splits)
  show ?thesis
  proof (cases "PageIndex b = PageIndex byte")
    case True
    then have "InPageOffset b = InPageOffset byte \<longleftrightarrow> b = byte"
      using byte_eq_iff by metis
    with True same p show ?thesis
      by (simp add: record_byte_def Let_def cell_at_def [of "_\<lparr>sb_pages := _\<rparr>"] access_cell_def
          InPageShadowIndex_eq_iff [OF assms slot])
  next
    case False
    with p other show ?thesis
      by (auto simp: record_byte_def Let_def cell_at_def)
  qed
qed

subsection \<open>RecordAccess, byte by byte\<close>

definition no_race_at :: "ShadowBuffer \<Rightarrow> nat \<Rightarrow> tid \<Rightarrow> bool \<Rightarrow> vclock \<Rightarrow> bool" where
  "no_race_at sb b t w clk \<longleftrightarrow> (\<forall>c < kShadowCellsPerByte. \<not> racy (cell_at sb b c) t w clk)"

definition stamped :: "ShadowBuffer \<Rightarrow> (nat \<Rightarrow> bool) \<Rightarrow> tid \<Rightarrow> bool \<Rightarrow> vclock \<Rightarrow> ShadowBuffer \<Rightarrow> bool" where
  "stamped sb hit t w clk sb' \<longleftrightarrow>
     (\<forall>b c. c < kShadowCellsPerByte \<longrightarrow>
        cell_at sb' b c =
          (if hit b \<and> c = t mod kShadowCellsPerByte then access_cell t w clk else cell_at sb b c))"

lemma stamped_record_byte:
  "stamped sb (\<lambda>b. b = byte) t w clk (snd (record_byte byte t w clk sb))"
  by (simp add: stamped_def cell_at_record_byte)

lemma stamped_trans:
  "stamped sb p t w clk sb1 \<Longrightarrow> stamped sb1 q t w clk sb2 \<Longrightarrow>
     stamped sb (\<lambda>b. p b \<or> q b) t w clk sb2"
  by (auto simp: stamped_def)

lemma stamped_cong:
  "stamped sb p t w clk sb' \<Longrightarrow> (\<And>b. p b \<longleftrightarrow> q b) \<Longrightarrow> stamped sb q t w clk sb'"
  by (simp add: stamped_def)

lemma no_race_at_stamped:
  "stamped sb p t w clk sb' \<Longrightarrow> no_race_at sb' b t w clk \<Longrightarrow> \<not> p b \<Longrightarrow> no_race_at sb b t w clk"
  by (auto simp: stamped_def no_race_at_def)

lemma record_loop_None:
  assumes "byte + n \<le> 18446744073709551616"
    and "record_loop n byte t w clk sb = (None, sb')"
  shows "(\<forall>b. byte \<le> b \<and> b < byte + n \<and> b < sb_byte_length sb \<longrightarrow> no_race_at sb b t w clk) \<and>
         stamped sb (\<lambda>b. byte \<le> b \<and> b < byte + n \<and> b < sb_byte_length sb) t w clk sb'"
  using assms
proof (induction n arbitrary: byte sb)
  case 0
  then show ?case by (auto simp: stamped_def)
next
  case (Suc n)
  have id: "size_t byte = byte" using Suc.prems(1) by simp
  show ?case
  proof (cases "byte < sb_byte_length sb")
    case False
    with Suc.prems id show ?thesis by (auto simp: stamped_def)
  next
    case True
    define sb1 where "sb1 = snd (record_byte byte t w clk sb)"
    from True Suc.prems id have none: "fst (record_byte byte t w clk sb) = None"
      and rest: "record_loop n (Suc byte) t w clk sb1 = (None, sb')"
      by (auto simp: sb1_def split: prod.splits option.splits)
    have st: "stamped sb (\<lambda>b. b = byte) t w clk sb1"
      unfolding sb1_def by (rule stamped_record_byte)
    have len: "sb_byte_length sb1 = sb_byte_length sb" by (simp add: sb1_def)
    from Suc.prems(1) have "Suc byte + n \<le> 18446744073709551616" by simp
    from Suc.IH [OF this rest] len
    have IH1: "\<And>b. Suc byte \<le> b \<Longrightarrow> b < Suc byte + n \<Longrightarrow> b < sb_byte_length sb \<Longrightarrow>
                 no_race_at sb1 b t w clk"
      and IH2: "stamped sb1 (\<lambda>b. Suc byte \<le> b \<and> b < Suc byte + n \<and> b < sb_byte_length sb) t w clk sb'"
      by auto
    have "no_race_at sb b t w clk" if "byte \<le> b" "b < byte + Suc n" "b < sb_byte_length sb" for b
    proof (cases "b = byte")
      case True
      with none show ?thesis by (simp add: no_race_at_def record_byte_None)
    next
      case False
      with that IH1 have "no_race_at sb1 b t w clk" by simp
      with st False show ?thesis by (blast intro: no_race_at_stamped)
    qed
    moreover have "stamped sb (\<lambda>b. byte \<le> b \<and> b < byte + Suc n \<and> b < sb_byte_length sb) t w clk sb'"
      by (rule stamped_cong [OF stamped_trans [OF st IH2]]) (use True in auto)
    ultimately show ?thesis by blast
  qed
qed

lemma make_report_frame:
  "sb_backing_store sb1 = sb_backing_store sb \<Longrightarrow> sb_byte_length sb1 = sb_byte_length sb \<Longrightarrow>
     make_report sb1 b cell t w clk = make_report sb b cell t w clk"
  by (simp add: make_report_def)

definition race_report :: "ShadowBuffer \<Rightarrow> tid \<Rightarrow> bool \<Rightarrow> vclock \<Rightarrow> RaceReport \<Rightarrow> bool" where
  "race_report sb t w clk r \<longleftrightarrow>
     (\<exists>c < kShadowCellsPerByte. racy (cell_at sb (sab_offset r) c) t w clk \<and>
        r = make_report sb (sab_offset r) (cell_at sb (sab_offset r) c) t w clk)"

lemma race_report_stamped:
  assumes "stamped sb p t w clk sb1" and "sb_backing_store sb1 = sb_backing_store sb"
    and "sb_byte_length sb1 = sb_byte_length sb" and "race_report sb1 t w clk r"
  shows "race_report sb t w clk r"
proof -
  from assms(4) obtain c where c: "c < kShadowCellsPerByte"
    and race: "racy (cell_at sb1 (sab_offset r) c) t w clk"
    and r: "r = make_report sb1 (sab_offset r) (cell_at sb1 (sab_offset r) c) t w clk"
    by (auto simp: race_report_def)
  from assms(1) c race have "cell_at sb1 (sab_offset r) c = cell_at sb (sab_offset r) c"
    by (auto simp: stamped_def split: if_splits)
  with c race r assms(2,3) show ?thesis
    unfolding race_report_def by (metis make_report_frame)
qed

lemma record_loop_Some:
  assumes "byte + n \<le> 18446744073709551616"
    and "record_loop n byte t w clk sb = (Some r, sb')"
  shows "byte \<le> sab_offset r \<and> sab_offset r < byte + n \<and> sab_offset r < sb_byte_length sb \<and>
         race_report sb t w clk r \<and>
         (\<forall>b. byte \<le> b \<and> b < sab_offset r \<longrightarrow> no_race_at sb b t w clk) \<and>
         stamped sb (\<lambda>b. byte \<le> b \<and> b \<le> sab_offset r) t w clk sb'"
  using assms
proof (induction n arbitrary: byte sb)
  case 0
  then show ?case by simp
next
  case (Suc n)
  have id: "size_t byte = byte" using Suc.prems(1) by simp
  from Suc.prems id have lt: "byte < sb_byte_length sb" by (auto split: if_splits)
  define sb1 where "sb1 = snd (record_byte byte t w clk sb)"
  have st: "stamped sb (\<lambda>b. b = byte) t w clk sb1"
    unfolding sb1_def by (rule stamped_record_byte)
  show ?case
  proof (cases "fst (record_byte byte t w clk sb)")
    case (Some r')
    with Suc.prems id lt have "r' = r" and sb': "sb' = sb1"
      by (auto simp: sb1_def split: prod.splits option.splits)
    with record_byte_Some [OF Some] have r: "sab_offset r = byte" "race_report sb t w clk r"
      by (auto simp: race_report_def make_report_def)
    with st sb' lt show ?thesis by (auto elim: stamped_cong)
  next
    case None
    with Suc.prems id lt have rest: "record_loop n (Suc byte) t w clk sb1 = (Some r, sb')"
      by (auto simp: sb1_def split: prod.splits option.splits)
    have fr: "sb_byte_length sb1 = sb_byte_length sb" "sb_backing_store sb1 = sb_backing_store sb"
      by (simp_all add: sb1_def)
    from Suc.prems(1) have "Suc byte + n \<le> 18446744073709551616" by simp
    from Suc.IH [OF this rest] fr
    have IH: "Suc byte \<le> sab_offset r" "sab_offset r < Suc byte + n"
        "sab_offset r < sb_byte_length sb" "race_report sb1 t w clk r"
        "\<And>b. Suc byte \<le> b \<Longrightarrow> b < sab_offset r \<Longrightarrow> no_race_at sb1 b t w clk"
        "stamped sb1 (\<lambda>b. Suc byte \<le> b \<and> b \<le> sab_offset r) t w clk sb'"
      by auto
    have "no_race_at sb b t w clk" if "byte \<le> b" "b < sab_offset r" for b
    proof (cases "b = byte")
      case True
      with None show ?thesis by (simp add: no_race_at_def record_byte_None)
    next
      case False
      with that IH(5) have "no_race_at sb1 b t w clk" by simp
      with st False show ?thesis by (blast intro: no_race_at_stamped)
    qed
    moreover have "stamped sb (\<lambda>b. byte \<le> b \<and> b \<le> sab_offset r) t w clk sb'"
      by (rule stamped_cong [OF stamped_trans [OF st IH(6)]]) (use IH(1) in auto)
    moreover have "race_report sb t w clk r"
      using race_report_stamped [OF st fr(2) fr(1) IH(4)] .
    ultimately show ?thesis using IH(1,2,3) by auto
  qed
qed

lemma record_loop_frames:
  "sb_backing_store (snd (record_loop n byte t w clk sb)) = sb_backing_store sb \<and>
   sb_byte_length (snd (record_loop n byte t w clk sb)) = sb_byte_length sb \<and>
   sb_stripe_locks (snd (record_loop n byte t w clk sb)) = sb_stripe_locks sb"
proof (induction n arbitrary: byte sb)
  case (Suc n)
  obtain res sb1 where rb: "record_byte (size_t byte) t w clk sb = (res, sb1)" by fastforce
  then have "sb_backing_store sb1 = sb_backing_store sb" "sb_byte_length sb1 = sb_byte_length sb"
    "sb_stripe_locks sb1 = sb_stripe_locks sb"
    using record_byte_frame [of "size_t byte" t w clk sb] by simp_all
  with Suc rb show ?case by (simp split: option.splits)
qed simp

lemma RecordAccess_frame:
  assumes "RecordAccess off n t w clk sb = (res, sb')"
  shows "sb_backing_store sb' = sb_backing_store sb" and "sb_byte_length sb' = sb_byte_length sb"
    and "sb_stripe_locks sb' = sb_stripe_locks sb"
  using assms record_loop_frames [of n off t w clk sb] by (simp_all add: RecordAccess_def)

subsection \<open>The contract of a shadow memory\<close>

text \<open>
  What the detector relies on: a report names the first byte of the range with a cell that races,
  no report means no cell of the range raced, and the range (up to the reported byte) now holds
  the access in the thread's slot. The flat array of the repository's test satisfies it too.
\<close>

locale shadow_memory =
  fixes view :: "'s \<Rightarrow> nat \<Rightarrow> nat \<Rightarrow> ShadowCell"
    and limit :: "'s \<Rightarrow> nat"
    and access :: "nat \<Rightarrow> nat \<Rightarrow> tid \<Rightarrow> bool \<Rightarrow> vclock \<Rightarrow> 's \<Rightarrow> RaceReport option \<times> 's"
  assumes silent: "off + n \<le> 18446744073709551616 \<Longrightarrow> access off n t w clk s = (None, s') \<Longrightarrow>
      off \<le> b \<Longrightarrow> b < off + n \<Longrightarrow> b < limit s \<Longrightarrow> c < kShadowCellsPerByte \<Longrightarrow>
      \<not> racy (view s b c) t w clk"
    and silent_view: "off + n \<le> 18446744073709551616 \<Longrightarrow> access off n t w clk s = (None, s') \<Longrightarrow>
      c < kShadowCellsPerByte \<Longrightarrow>
      view s' b c = (if off \<le> b \<and> b < off + n \<and> b < limit s \<and> c = t mod kShadowCellsPerByte
                     then access_cell t w clk else view s b c)"
    and reported: "off + n \<le> 18446744073709551616 \<Longrightarrow> access off n t w clk s = (Some r, s') \<Longrightarrow>
      off \<le> sab_offset r \<and> sab_offset r < off + n \<and> sab_offset r < limit s \<and>
      tid2 r = t \<and> is_write2 r = w \<and> epoch2 r = Get clk t \<and>
      (\<exists>c < kShadowCellsPerByte. let cell = view s (sab_offset r) c in
         racy cell t w clk \<and> tid1 r = sc_tid cell \<and> is_write1 r = sc_is_write cell \<and>
         epoch1 r = sc_epoch cell)"
    and reported_first: "off + n \<le> 18446744073709551616 \<Longrightarrow> access off n t w clk s = (Some r, s') \<Longrightarrow>
      off \<le> b \<Longrightarrow> b < sab_offset r \<Longrightarrow> c < kShadowCellsPerByte \<Longrightarrow>
      \<not> racy (view s b c) t w clk"
    and reported_view: "off + n \<le> 18446744073709551616 \<Longrightarrow> access off n t w clk s = (Some r, s') \<Longrightarrow>
      c < kShadowCellsPerByte \<Longrightarrow>
      view s' b c = (if off \<le> b \<and> b \<le> sab_offset r \<and> c = t mod kShadowCellsPerByte
                     then access_cell t w clk else view s b c)"
    and limit_record: "access off n t w clk s = (res, s') \<Longrightarrow> limit s' = limit s"
begin

text \<open>Detection: a racing cell in the range always yields a report.\<close>

lemma detects:
  assumes "off + n \<le> 18446744073709551616" and "off \<le> b" and "b < off + n" and "b < limit s"
    and "c < kShadowCellsPerByte" and "racy (view s b c) t w clk"
  shows "fst (access off n t w clk s) \<noteq> None"
proof
  assume "fst (access off n t w clk s) = None"
  then have "access off n t w clk s = (None, snd (access off n t w clk s))"
    by (metis prod.collapse)
  with silent [OF assms(1) this assms(2-5)] assms(6) show False by blast
qed

text \<open>Silence: when no cell of the range races, nothing is reported.\<close>

lemma stays_silent:
  assumes "off + n \<le> 18446744073709551616"
    and "\<And>b c. off \<le> b \<Longrightarrow> b < off + n \<Longrightarrow> b < limit s \<Longrightarrow> c < kShadowCellsPerByte \<Longrightarrow>
           \<not> racy (view s b c) t w clk"
  shows "fst (access off n t w clk s) = None"
proof (rule ccontr)
  assume "fst (access off n t w clk s) \<noteq> None"
  then obtain r where "access off n t w clk s = (Some r, snd (access off n t w clk s))"
    by (metis option.exhaust prod.collapse)
  from reported [OF assms(1) this] assms(2) show False by (auto simp: Let_def)
qed

text \<open>
  Two accesses, one after the other: if the second comes from another thread, overlaps the first,
  one of the two writes, and its clock has not reached the first one's epoch, it is reported.
\<close>

lemma unordered_pair_detected:
  assumes first: "access off1 n1 t1 w1 clk1 s = (None, s1)"
    and bounds: "off1 + n1 \<le> 18446744073709551616" "off2 + n2 \<le> 18446744073709551616"
    and overlap: "off1 \<le> b" "b < off1 + n1" "off2 \<le> b" "b < off2 + n2" "b < limit s"
    and other: "t1 \<noteq> t2" and conflict: "w1 \<or> w2"
    and unordered: "Get clk2 t1 < Get clk1 t1"
  shows "fst (access off2 n2 t2 w2 clk2 s1) \<noteq> None"
proof (rule detects [OF bounds(2) overlap(3,4), where c = "t1 mod kShadowCellsPerByte"])
  have slot: "t1 mod kShadowCellsPerByte < kShadowCellsPerByte"
    by (simp add: kShadowCellsPerByte_def)
  then show "t1 mod kShadowCellsPerByte < kShadowCellsPerByte" .
  from silent_view [OF bounds(1) first slot, of b] overlap
  have "view s1 b (t1 mod kShadowCellsPerByte) = access_cell t1 w1 clk1" by simp
  then show "racy (view s1 b (t1 mod kShadowCellsPerByte)) t2 w2 clk2"
    using other conflict unordered by (simp add: racy_def access_cell_def)
  show "b < limit s1" using limit_record [OF first] overlap(5) by simp
qed

end

interpretation paged: shadow_memory cell_at sb_byte_length RecordAccess
proof (unfold_locales, goal_cases)
  case (1 off n t w clk s s' b c)
  then show ?case using record_loop_None [of off n t w clk s s']
    by (auto simp: RecordAccess_def no_race_at_def)
next
  case (2 off n t w clk s s' c b)
  then show ?case using record_loop_None [of off n t w clk s s']
    by (auto simp: RecordAccess_def stamped_def)
next
  case (3 off n t w clk s r s')
  then show ?case using record_loop_Some [of off n t w clk s r s']
    by (auto simp: RecordAccess_def race_report_def make_report_def Let_def)
      (metis RaceReport.select_convs)+
next
  case (4 off n t w clk s r s' b c)
  then show ?case using record_loop_Some [of off n t w clk s r s']
    by (auto simp: RecordAccess_def no_race_at_def)
next
  case (5 off n t w clk s r s' c b)
  then show ?case using record_loop_Some [of off n t w clk s r s']
    by (auto simp: RecordAccess_def stamped_def)
next
  case (6 off n t w clk s res s')
  then show ?case by (rule RecordAccess_frame)
qed

subsection \<open>ClearRange, byte by byte\<close>

lemma cells_list: "[0..<kShadowCellsPerByte] = [0, 1]"
  by (simp add: kShadowCellsPerByte_def upt_rec)

lemma clear_byte_apply:
  assumes "c < kShadowCellsPerByte"
  shows "clear_byte byte page (InPageShadowIndex m c) =
           (if m = InPageOffset byte then (page (InPageShadowIndex m c))\<lparr>sc_valid := False\<rparr>
            else page (InPageShadowIndex m c))"
proof -
  have "0 < kShadowCellsPerByte" "1 < kShadowCellsPerByte" by (simp_all add: kShadowCellsPerByte_def)
  moreover have "c = 0 \<or> c = 1" using assms by (auto simp: kShadowCellsPerByte_def)
  ultimately show ?thesis using assms
    by (auto simp: clear_byte_def cells_list clear_cell_def InPageShadowIndex_eq_iff)
qed

lemma fold_clear_byte:
  assumes "c < kShadowCellsPerByte"
  shows "fold clear_byte bs page (InPageShadowIndex m c) =
           (if m \<in> InPageOffset ` set bs then (page (InPageShadowIndex m c))\<lparr>sc_valid := False\<rparr>
            else page (InPageShadowIndex m c))"
  by (induction bs arbitrary: page) (auto simp: clear_byte_apply [OF assms])

lemma PageIndex_eqI:
  "PageIndex byte * kPageBytes \<le> b \<Longrightarrow> b < (PageIndex byte + 1) * kPageBytes \<Longrightarrow>
     PageIndex b = PageIndex byte"
  unfolding PageIndex_def kPageBytes_def
  by (metis Suc_eq_plus1 div_nat_eqI mult.commute)

lemma PageIndex_le: "PageIndex byte * kPageBytes \<le> byte"
  by (simp add: PageIndex_def)

lemma clear_page_bytes_cell:
  assumes pe: "page_end \<le> (PageIndex byte + 1) * kPageBytes" and c: "c < kShadowCellsPerByte"
    and b: "PageIndex b = PageIndex byte"
  shows "clear_page_bytes byte page_end page (InPageShadowIndex (InPageOffset b) c) =
           (if byte \<le> b \<and> b < page_end
            then (page (InPageShadowIndex (InPageOffset b) c))\<lparr>sc_valid := False\<rparr>
            else page (InPageShadowIndex (InPageOffset b) c))"
proof -
  have same: "PageIndex x = PageIndex b" if "byte \<le> x" "x < page_end" for x
    using that pe b PageIndex_le [of byte] PageIndex_eqI [of byte x] by simp
  have inj: "x = b" if "InPageOffset b = InPageOffset x" "byte \<le> x" "x < page_end" for x
    using that same byte_eq_iff [of x b] by simp
  have "InPageOffset b \<in> InPageOffset ` {byte..<page_end} \<longleftrightarrow> byte \<le> b \<and> b < page_end"
  proof
    assume "InPageOffset b \<in> InPageOffset ` {byte..<page_end}"
    then obtain x where "InPageOffset b = InPageOffset x" "byte \<le> x" "x < page_end" by auto
    with inj [of x] show "byte \<le> b \<and> b < page_end" by simp
  qed simp
  then show ?thesis
    unfolding clear_page_bytes_def fold_clear_byte [OF c] set_upt by (simp only:)
qed

definition cleared :: "ShadowBuffer \<Rightarrow> nat \<Rightarrow> nat \<Rightarrow> nat \<Rightarrow> nat \<Rightarrow> ShadowCell" where
  "cleared sb lo hi b c =
     (if lo \<le> b \<and> b < hi then (cell_at sb b c)\<lparr>sc_valid := False\<rparr> else cell_at sb b c)"

lemma clear_loop_cell:
  "c < kShadowCellsPerByte \<Longrightarrow> cell_at (clear_loop byte end sb) b c = cleared sb byte end b c"
proof (induction byte "end" sb rule: clear_loop.induct)
  case (1 byte "end" sb)
  let ?next = "(PageIndex byte + 1) * kPageBytes"
  show ?case
  proof (cases "byte < end")
    case False
    then show ?thesis by (auto simp: clear_loop.simps [of byte "end" sb] cleared_def)
  next
    case lt: True
    show ?thesis
    proof (cases "sb_pages sb (PageIndex byte)")
      case None
      have skip: "PageIndex b = PageIndex byte" if "byte \<le> b" "b < ?next"
        using that PageIndex_le [of byte] by (intro PageIndex_eqI) auto
      have "cleared sb ?next end b c = cleared sb byte end b c"
        using skip None next_page_greater [of byte]
        by (auto simp: cleared_def cell_at_def default_cell_def not_le)
      with "1.IH"(1) [OF lt refl None "1.prems"] lt None show ?thesis
        by (simp add: clear_loop.simps [of byte "end" sb] Let_def)
    next
      case (Some page)
      define pe where "pe = min end ?next"
      define sb1 where "sb1 =
        sb\<lparr>sb_pages := (sb_pages sb)(PageIndex byte \<mapsto> clear_page_bytes byte pe page)\<rparr>"
      have pe: "byte < pe" "pe \<le> end" "pe \<le> ?next"
        using lt next_page_greater [of byte] by (auto simp: pe_def)
      have out: "PageIndex b = PageIndex byte" if "byte \<le> b" "b < pe"
        using that pe PageIndex_le [of byte] by (intro PageIndex_eqI) auto
      have cell1: "cell_at sb1 b c = cleared sb byte pe b c"
        using clear_page_bytes_cell [OF pe(3) "1.prems", of b page] Some out
        by (auto simp: sb1_def cell_at_def cleared_def)
      have "cell_at (clear_loop pe end sb1) b c = cleared sb1 pe end b c"
        using "1.IH"(2) [OF lt refl Some refl] "1.prems" by (simp add: sb1_def pe_def)
      moreover have "clear_loop byte end sb = clear_loop pe end sb1"
        using lt Some by (simp add: clear_loop.simps [of byte "end" sb] Let_def sb1_def pe_def)
      ultimately show ?thesis
        using cell1 pe(1,2) by (auto simp: cleared_def)
    qed
  qed
qed

lemma clear_loop_frame:
  "sb_backing_store (clear_loop byte end sb) = sb_backing_store sb \<and>
   sb_byte_length (clear_loop byte end sb) = sb_byte_length sb \<and>
   sb_stripe_locks (clear_loop byte end sb) = sb_stripe_locks sb"
proof (induction byte "end" sb rule: clear_loop.induct)
  case (1 byte "end" sb)
  then show ?case
    by (subst (1 2 3) clear_loop.simps) (auto simp: Let_def split: option.splits)
qed

lemma length_ToString: "length (ToString r) < 511"
proof -
  have rw: "length (rw_name w) \<le> 5" for w by (simp add: rw_name_def)
  show ?thesis
    using length_hex [of "sab_offset r"] length_hex [of "sab_backing_store r"]
      length_dec [of "sab_byte_length r"] length_dec [of "tid1 r"] length_dec [of "tid2 r"]
      length_dec [of "unat (epoch1 r)"] length_dec [of "unat (epoch2 r)"]
      rw [of "is_write1 r"] rw [of "is_write2 r"]
    by (simp add: ToString_def snprintf_def)
qed

subsection \<open>Properties\<close>

text \<open>
  C7: detection is exact for the cells held. An access is reported precisely when some cell of
  a byte in its range (cut at the buffer's length) holds an access of another thread, one of the
  two is a write, and the accessing thread's clock has not reached that access's epoch.
\<close>

theorem RecordAccess_detects_exactly:
  assumes "off + n \<le> 18446744073709551616"
  shows "fst (RecordAccess off n t w clk sb) \<noteq> None \<longleftrightarrow>
    (\<exists>b c. off \<le> b \<and> b < off + n \<and> b < sb_byte_length sb \<and> c < kShadowCellsPerByte \<and>
       sc_valid (cell_at sb b c) \<and> sc_tid (cell_at sb b c) \<noteq> t \<and>
       (sc_is_write (cell_at sb b c) \<or> w) \<and>
       Get clk (sc_tid (cell_at sb b c)) < sc_epoch (cell_at sb b c))"
proof -
  have racy_iff: "racy cell t w clk \<longleftrightarrow> sc_valid cell \<and> sc_tid cell \<noteq> t \<and>
      (sc_is_write cell \<or> w) \<and> Get clk (sc_tid cell) < sc_epoch cell" for cell
    by (auto simp: racy_def)
  show ?thesis
    unfolding racy_iff [symmetric]
    using paged.detects [OF assms] paged.stays_silent [OF assms] by metis
qed

theorem RecordAccess_detects_exactly_witness:
  "fst (RecordAccess 10 4 1 True empty_clock (new_ShadowBuffer 4096 128)) = None"
proof -
  have "(10::nat) + 4 \<le> 18446744073709551616" by simp
  from RecordAccess_detects_exactly [OF this, of 1 True empty_clock "new_ShadowBuffer 4096 128"]
  show ?thesis by (auto simp: new_ShadowBuffer_def cell_at_def default_cell_def)
qed

text \<open>
  A report is about the first racing byte of the range; it carries the racing cell and the
  current access, and names two different threads at least one of which writes. The bytes up to it
  hold the current access in the thread's slot afterwards, later bytes are untouched.
\<close>

lemma RecordAccess_report:
  assumes "off + n \<le> 18446744073709551616" and "RecordAccess off n t w clk sb = (Some r, sb')"
  shows "off \<le> sab_offset r \<and> sab_offset r < off + n \<and> sab_offset r < sb_byte_length sb \<and>
         tid1 r \<noteq> tid2 r \<and> tid2 r = t \<and> is_write2 r = w \<and> (is_write1 r \<or> is_write2 r) \<and>
         Get clk (tid1 r) < epoch1 r \<and>
         (\<forall>b c. c < kShadowCellsPerByte \<longrightarrow> off \<le> b \<and> b < sab_offset r \<longrightarrow>
            \<not> racy (cell_at sb b c) t w clk) \<and>
         (\<forall>b c. c < kShadowCellsPerByte \<longrightarrow> cell_at sb' b c =
            (if off \<le> b \<and> b \<le> sab_offset r \<and> c = t mod kShadowCellsPerByte
             then access_cell t w clk else cell_at sb b c))"
  using paged.reported [OF assms] paged.reported_first [OF assms] paged.reported_view [OF assms]
  by (auto simp: racy_def Let_def split: if_splits)

definition demo_buffer :: ShadowBuffer where
  "demo_buffer = snd (RecordAccess 10 1 0 True (Increment 0 empty_clock) (new_ShadowBuffer 4096 128))"

lemma demo_buffer_race:
  "fst (RecordAccess 10 1 1 True (Increment 1 empty_clock) demo_buffer) =
     Some \<lparr>sab_offset = 10, sab_backing_store = 4096, sab_byte_length = 128, tid1 = 0,
           is_write1 = True, epoch1 = 1, tid2 = 1, is_write2 = True, epoch2 = 1\<rparr>"
  by (simp add: demo_buffer_def RecordAccess_def new_ShadowBuffer_def record_byte_def
      GetOrCreatePage_def Let_def racy_def new_ShadowPage_def default_cell_def make_report_def
      PageIndex_def InPageOffset_def InPageShadowIndex_def shadow_consts kMaxThreads_def
      cells_list [unfolded kShadowCellsPerByte_def])

lemma RecordAccess_report_example:
  "\<exists>r. fst (RecordAccess 10 1 1 True (Increment 1 empty_clock) demo_buffer) = Some r \<and>
       tid1 r \<noteq> tid2 r"
proof -
  let ?res = "RecordAccess 10 1 1 True (Increment 1 empty_clock) demo_buffer"
  obtain r where r: "fst ?res = Some r" using demo_buffer_race by blast
  then have "?res = (Some r, snd ?res)" by (metis prod.collapse)
  moreover have "(10::nat) + 1 \<le> 18446744073709551616" by simp
  ultimately have "tid1 r \<noteq> tid2 r" using RecordAccess_report by blast
  with r show ?thesis by blast
qed

text \<open>
  C9: \<open>ClearRange\<close> invalidates both cells of exactly the bytes of the range (cut at the buffer's
  length), across page boundaries and unallocated pages, and keeps everything else.
\<close>

theorem ClearRange_clears:
  assumes "off + n < 18446744073709551616"
  shows "\<forall>b c. c < kShadowCellsPerByte \<longrightarrow> cell_at (ClearRange off n sb) b c =
    (if off \<le> b \<and> b < off + n \<and> b < sb_byte_length sb
     then (cell_at sb b c)\<lparr>sc_valid := False\<rparr> else cell_at sb b c)"
  using assms by (auto simp: ClearRange_def Let_def clear_loop_cell cleared_def)

theorem ClearRange_clears_witness:
  "sc_valid (cell_at demo_buffer 10 0) \<and> \<not> sc_valid (cell_at (ClearRange 8 4 demo_buffer) 10 0)"
proof -
  have "(8::nat) + 4 < 18446744073709551616" by simp
  moreover have "sc_valid (cell_at demo_buffer 10 0)" and "sb_byte_length demo_buffer = 128"
    by (simp_all add: demo_buffer_def RecordAccess_def new_ShadowBuffer_def record_byte_def
      GetOrCreatePage_def Let_def racy_def new_ShadowPage_def default_cell_def cell_at_def
      PageIndex_def InPageOffset_def InPageShadowIndex_def shadow_consts kMaxThreads_def
      cells_list [unfolded kShadowCellsPerByte_def])
  ultimately show ?thesis
    using ClearRange_clears [of 8 4 demo_buffer] by (simp add: kShadowCellsPerByte_def)
qed

text \<open>
  A race message always fits the 512-byte buffers it is formatted into and copied through:
  formatting it again into such a buffer changes nothing, so nothing is cut off.
\<close>

lemma ToString_fits: "snprintf 512 (ToString r) = ToString r \<and> length (ToString r) < 511"
  using length_ToString [of r] by (simp add: snprintf_def)

text \<open>
  A thread has one cell per byte, so its later read replaces its earlier write. Directly after
  the write another thread's unordered read is reported; once the writer has read the byte again,
  the same unordered read is not reported, although the write still conflicts with it.
\<close>

lemma own_read_hides_own_write:
  assumes "t \<noteq> u" and "b < len" and "b < 18446744073709551615"
    and "Get clk_u t < Get clk_t t"
  shows "let wrote = snd (RecordAccess b 1 t True clk_t (new_ShadowBuffer bs len));
             reread = snd (RecordAccess b 1 t False clk_t wrote)
         in fst (RecordAccess b 1 u False clk_u wrote) \<noteq> None \<and>
            fst (RecordAccess b 1 u False clk_u reread) = None"
proof -
  let ?s0 = "new_ShadowBuffer bs len"
  have fresh: "cell_at ?s0 x c = default_cell" for x c
    by (simp add: cell_at_def new_ShadowBuffer_def)
  have id: "size_t b = b" "b < sb_byte_length ?s0" using assms by (simp_all add: new_ShadowBuffer_def)
  have byte: "RecordAccess b 1 v w clk s = (fst (record_byte b v w clk s), snd (record_byte b v w clk s))"
    if "b < sb_byte_length s" for v w clk s
    using that id by (simp add: RecordAccess_def split: prod.split option.split)
  define s1 where "s1 = snd (record_byte b t True clk_t ?s0)"
  define s2 where "s2 = snd (record_byte b t False clk_t s1)"
  have slot: "t mod kShadowCellsPerByte < kShadowCellsPerByte" by (simp add: kShadowCellsPerByte_def)
  have "fst (record_byte b u False clk_u s1) \<noteq> None"
    unfolding record_byte_None s1_def
    using slot assms(1,4) by (auto simp: cell_at_record_byte racy_def access_cell_def
        intro!: exI [of _ "t mod kShadowCellsPerByte"])
  moreover have "fst (record_byte b u False clk_u s2) = None"
    unfolding record_byte_None s2_def s1_def
    by (auto simp: cell_at_record_byte racy_def access_cell_def fresh default_cell_def)
  moreover have "b < sb_byte_length s1" "b < sb_byte_length s2"
    using id by (simp_all add: s1_def s2_def)
  ultimately show ?thesis
    using id byte by (simp add: Let_def s1_def s2_def)
qed

lemma own_read_hides_own_write_example:
  "fst (RecordAccess 10 1 1 False empty_clock
     (snd (RecordAccess 10 1 0 False (Increment 0 empty_clock) demo_buffer))) = None"
proof -
  have "(0::nat) \<noteq> 1" "(10::nat) < 128" "(10::nat) < 18446744073709551615"
    "Get empty_clock 0 < Get (Increment 0 empty_clock) 0" by (simp_all add: kMaxThreads_def)
  from own_read_hides_own_write [OF this, of 4096]
  show ?thesis by (simp add: Let_def demo_buffer_def)
qed

end
