(* ===== verification/FlatShadow.thy ===== *)
theory FlatShadow
  imports ShadowBuffer
begin

text \<open>
  The reference detector of \<open>tests/web_tsan_test.cc\<close>: the same cells in one flat array indexed by
  \<open>byte * kShadowCellsPerByte + c\<close>, with the report and the store made inside the cell loop. The
  paged \<open>ShadowBuffer\<close> of the product refines it: same report, same cells.
\<close>

record FlatShadow =
  fs_backing_store :: addr
  fs_byte_length :: nat
  fs_shadow :: "nat \<Rightarrow> ShadowCell"

definition new_FlatShadow :: "addr \<Rightarrow> nat \<Rightarrow> FlatShadow" where
  "new_FlatShadow bs len =
     \<lparr>fs_backing_store = bs, fs_byte_length = len, fs_shadow = (\<lambda>_. default_cell)\<rparr>"

definition flat_report ::
  "FlatShadow \<Rightarrow> nat \<Rightarrow> ShadowCell \<Rightarrow> tid \<Rightarrow> bool \<Rightarrow> vclock \<Rightarrow> RaceReport" where
  "flat_report fs byte cell tid is_write thread_clock =
     \<lparr>sab_offset = byte, sab_backing_store = fs_backing_store fs,
      sab_byte_length = fs_byte_length fs,
      tid1 = sc_tid cell, is_write1 = sc_is_write cell, epoch1 = sc_epoch cell,
      tid2 = tid, is_write2 = is_write, epoch2 = Get thread_clock tid\<rparr>"

definition flat_store :: "nat \<Rightarrow> tid \<Rightarrow> bool \<Rightarrow> vclock \<Rightarrow> FlatShadow \<Rightarrow> FlatShadow" where
  "flat_store byte tid is_write thread_clock fs =
     (let slot = tid mod kShadowCellsPerByte; si = byte * kShadowCellsPerByte + slot
      in fs\<lparr>fs_shadow := (fs_shadow fs)(si :=
           \<lparr>sc_tid = tid, sc_epoch = Get thread_clock tid, sc_is_write = is_write,
            sc_valid = True\<rparr>)\<rparr>)"

text \<open>One byte: the cell loop stores and returns at the first race, or falls through and stores.\<close>

fun flat_byte ::
  "nat list \<Rightarrow> nat \<Rightarrow> tid \<Rightarrow> bool \<Rightarrow> vclock \<Rightarrow> FlatShadow \<Rightarrow> RaceReport option \<times> FlatShadow" where
  "flat_byte [] byte tid is_write clk fs = (None, flat_store byte tid is_write clk fs)"
| "flat_byte (c # cs) byte tid is_write clk fs =
     (let cell = fs_shadow fs (byte * kShadowCellsPerByte + c)
      in if \<not> sc_valid cell \<or> sc_tid cell = tid then flat_byte cs byte tid is_write clk fs
         else if \<not> sc_is_write cell \<and> \<not> is_write then flat_byte cs byte tid is_write clk fs
         else if Get clk (sc_tid cell) \<ge> sc_epoch cell then flat_byte cs byte tid is_write clk fs
         else (Some (flat_report fs byte cell tid is_write clk),
               flat_store byte tid is_write clk fs))"

fun flat_loop ::
  "nat \<Rightarrow> nat \<Rightarrow> tid \<Rightarrow> bool \<Rightarrow> vclock \<Rightarrow> FlatShadow \<Rightarrow> RaceReport option \<times> FlatShadow" where
  "flat_loop 0 byte tid is_write clk fs = (None, fs)"
| "flat_loop (Suc n) byte tid is_write clk fs =
     (if size_t byte < fs_byte_length fs then
        (case flat_byte [0..<kShadowCellsPerByte] (size_t byte) tid is_write clk fs of
           (Some r, fs') \<Rightarrow> (Some r, fs')
         | (None, fs') \<Rightarrow> flat_loop n (Suc byte) tid is_write clk fs')
      else (None, fs))"

definition flat_RecordAccess ::
  "nat \<Rightarrow> nat \<Rightarrow> tid \<Rightarrow> bool \<Rightarrow> vclock \<Rightarrow> FlatShadow \<Rightarrow> RaceReport option \<times> FlatShadow" where
  "flat_RecordAccess offset sz tid is_write thread_clock fs =
     flat_loop sz offset tid is_write thread_clock fs"

text \<open>The flat array a paged buffer stands for.\<close>

definition flatten :: "ShadowBuffer \<Rightarrow> FlatShadow" where
  "flatten sb =
     \<lparr>fs_backing_store = sb_backing_store sb, fs_byte_length = sb_byte_length sb,
      fs_shadow = (\<lambda>i. cell_at sb (i div kShadowCellsPerByte) (i mod kShadowCellsPerByte))\<rparr>"

lemma fs_shadow_flatten [simp]:
  "c < kShadowCellsPerByte \<Longrightarrow>
     fs_shadow (flatten sb) (b * kShadowCellsPerByte + c) = cell_at sb b c"
  by (simp add: flatten_def)

lemma flat_report_flatten: "flat_report (flatten sb) = make_report sb"
  by (intro ext) (simp add: flat_report_def make_report_def flatten_def)

lemma flat_byte_scan:
  assumes "GetOrCreatePage (PageIndex byte) sb = (page, sb1)"
  shows "set cs \<subseteq> {..<kShadowCellsPerByte} \<Longrightarrow>
     flat_byte cs byte t w clk (flatten sb) =
       (map_option (\<lambda>cell. make_report sb byte cell t w clk)
          (scan_cells cs page (InPageOffset byte) t w clk),
        flat_store byte t w clk (flatten sb))"
  by (induction cs)
    (auto simp: Let_def racy_def page_of_byte [OF assms] flat_report_flatten)

lemma index_split:
  "i = b * kShadowCellsPerByte + c \<longleftrightarrow>
     i div kShadowCellsPerByte = b \<and> i mod kShadowCellsPerByte = c"
  if "c < kShadowCellsPerByte"
  using that by (auto simp: kShadowCellsPerByte_def)

lemma flatten_record_byte:
  "flatten (snd (record_byte byte t w clk sb)) = flat_store byte t w clk (flatten sb)"
proof -
  have slot: "t mod kShadowCellsPerByte < kShadowCellsPerByte"
    and cells: "i mod kShadowCellsPerByte < kShadowCellsPerByte" for i
    by (simp_all add: kShadowCellsPerByte_def)
  show ?thesis
    by (auto simp: flatten_def flat_store_def Let_def fun_eq_iff cell_at_record_byte [OF cells]
        index_split [OF slot] access_cell_def)
qed

lemma flat_byte_record_byte:
  "flat_byte [0..<kShadowCellsPerByte] byte t w clk (flatten sb) =
     (fst (record_byte byte t w clk sb), flatten (snd (record_byte byte t w clk sb)))"
proof -
  obtain page sb1 where p: "GetOrCreatePage (PageIndex byte) sb = (page, sb1)" by fastforce
  have "fst (record_byte byte t w clk sb) =
      map_option (\<lambda>cell. make_report sb byte cell t w clk)
        (scan_cells [0..<kShadowCellsPerByte] page (InPageOffset byte) t w clk)"
    using p by (simp add: record_byte_def Let_def)
  then show ?thesis
    by (simp add: flat_byte_scan [OF p] flatten_record_byte atLeast0LessThan)
qed

lemma flat_loop_flatten:
  "flat_loop n byte t w clk (flatten sb) =
     map_prod id flatten (record_loop n byte t w clk sb)"
proof (induction n arbitrary: byte sb)
  case (Suc n)
  have len: "fs_byte_length (flatten sb) = sb_byte_length sb" by (simp add: flatten_def)
  obtain res sb1 where rb: "record_byte (size_t byte) t w clk sb = (res, sb1)" by fastforce
  with flat_byte_record_byte [of "size_t byte" t w clk sb] Suc len show ?case
    by (cases res) simp_all
qed simp

text \<open>
  C4: the paged shadow memory implements the flat reference detector: for every access, whatever
  its range, both give the same race report and end in the same cells.
\<close>

theorem paged_refines_flat:
  "flat_RecordAccess off n t w clk (flatten sb) =
     map_prod id flatten (RecordAccess off n t w clk sb)"
  by (simp add: flat_RecordAccess_def RecordAccess_def flat_loop_flatten)

lemma flatten_new: "flatten (new_ShadowBuffer bs len) = new_FlatShadow bs len"
  by (simp add: flatten_def new_ShadowBuffer_def new_FlatShadow_def cell_at_def fun_eq_iff)

end
