(* ===== verification/WebTSan.thy ===== *)
theory WebTSan
  imports ShadowBuffer
begin

text \<open>
  The singleton \<open>WebTSan\<close> of \<open>web_tsan.h\<close> and \<open>web_tsan.cc\<close>: its state, thread lifecycle, memory
  accesses, acquire / release, mutexes, thread join / detach / absorb, happens-before edges and
  shadow management. Every entry point runs under the detector's locks, so each is one atomic
  state transformer; the lock objects themselves carry no data. A C++ array access with an index
  that no guard bounds yields \<open>OutOfBounds\<close>. Informational log lines are left out; the single
  \<open>LOG(ERROR)\<close> line and the calls of the race callback are kept as lists.
\<close>

subsection \<open>State\<close>

record WebTSan =
  enabled :: bool
  thread_clocks :: "tid \<Rightarrow> vclock"
  thread_alive :: "tid \<Rightarrow> bool"
  next_tid :: nat
  orphan_clock :: vclock
  sync_clocks :: "addr \<rightharpoonup> vclock"
  hb_edges :: "u64 \<rightharpoonup> vclock"
  next_edge_id :: u64
  shadow_buffers :: "addr \<rightharpoonup> ShadowBuffer"
  race_callback :: bool \<comment> \<open>a callback is installed\<close>
  first_race_logged :: bool
  races_detected :: u64
  accesses_checked :: u64
  accesses_suppressed :: u64
  reported_race_sites :: "u64 set"
  error_log :: "string list" \<comment> \<open>LOG(ERROR) lines\<close>
  delivered :: "RaceReport list" \<comment> \<open>calls of the race callback\<close>

text \<open>Thread-local state (\<open>web_tsan_hooks.h\<close>); the message is the C string in the 512-byte buffer.\<close>

record tls =
  g_current_tsan_tid :: nat
  g_race_detected :: bool
  g_race_message :: string
  g_current_suppress_depth :: u32
  g_in_race_report :: bool

definition init_tls :: tls where
  "init_tls = \<lparr>g_current_tsan_tid = UINT32_MAX, g_race_detected = False, g_race_message = '''',
     g_current_suppress_depth = 0, g_in_race_report = False\<rparr>"

definition new_WebTSan :: WebTSan where
  "new_WebTSan =
     \<lparr>enabled = False, thread_clocks = (\<lambda>_. empty_clock), thread_alive = (\<lambda>_. False),
      next_tid = 0, orphan_clock = empty_clock, sync_clocks = Map.empty, hb_edges = Map.empty,
      next_edge_id = 1, shadow_buffers = Map.empty, race_callback = False,
      first_race_logged = False, races_detected = 0, accesses_checked = 0,
      accesses_suppressed = 0, reported_race_sites = {}, error_log = [], delivered = []\<rparr>"

definition Reset :: "WebTSan \<Rightarrow> WebTSan" where
  "Reset W = W\<lparr>thread_clocks := (\<lambda>_. empty_clock), thread_alive := (\<lambda>_. False),
     next_tid := 0, sync_clocks := Map.empty, hb_edges := Map.empty, next_edge_id := 1,
     shadow_buffers := Map.empty, races_detected := 0, accesses_checked := 0,
     accesses_suppressed := 0, orphan_clock := empty_clock, reported_race_sites := {}\<rparr>"

definition Enable :: "WebTSan \<Rightarrow> WebTSan" where
  "Enable W = W\<lparr>enabled := True\<rparr>"

definition Disable :: "WebTSan \<Rightarrow> WebTSan" where
  "Disable W = W\<lparr>enabled := False\<rparr>"

text \<open>The flag says whether the pointer passed is not null.\<close>

definition SetRaceCallback :: "bool \<Rightarrow> WebTSan \<Rightarrow> WebTSan" where
  "SetRaceCallback cb W = W\<lparr>race_callback := cb\<rparr>"

definition IncrementSuppressedCount :: "WebTSan \<Rightarrow> WebTSan" where
  "IncrementSuppressedCount W = W\<lparr>accesses_suppressed := accesses_suppressed W + 1\<rparr>"

text \<open>\<open>thread_clocks_[tid].Join(c)\<close> and \<open>thread_clocks_[tid].Increment(tid)\<close>, index unchecked.\<close>

definition join_thread :: "tid \<Rightarrow> vclock \<Rightarrow> WebTSan \<Rightarrow> WebTSan" where
  "join_thread tid c W =
     W\<lparr>thread_clocks := (thread_clocks W)(tid := Join (thread_clocks W tid) c)\<rparr>"

definition tick_thread :: "tid \<Rightarrow> WebTSan \<Rightarrow> WebTSan" where
  "tick_thread tid W =
     W\<lparr>thread_clocks := (thread_clocks W)(tid := Increment tid (thread_clocks W tid))\<rparr>"

definition index_tid :: "tid \<Rightarrow> WebTSan \<Rightarrow> WebTSan result" where
  "index_tid tid W = (if tid < kMaxThreads then Inr W else Inl OutOfBounds)"

subsection \<open>Thread lifecycle\<close>

definition find_slot :: "WebTSan \<Rightarrow> nat" where
  "find_slot W =
     (case find (\<lambda>i. \<not> thread_alive W ((next_tid W + i) mod kMaxThreads)) [0..<kMaxThreads] of
        Some i \<Rightarrow> (next_tid W + i) mod kMaxThreads
      | None \<Rightarrow> next_tid W)"

definition ThreadCreate :: "nat \<Rightarrow> WebTSan \<Rightarrow> (tid \<times> WebTSan) result" where
  "ThreadCreate parent_tid W =
     (let tid = find_slot W in
      if \<not> tid < kMaxThreads then Inl CheckFailed
      else
        let W1 = W\<lparr>thread_alive := (thread_alive W)(tid := True)\<rparr>;
            base = (if parent_tid \<noteq> UINT32_MAX \<and> parent_tid < kMaxThreads \<and>
                       thread_alive W1 parent_tid
                    then thread_clocks W1 parent_tid else empty_clock);
            W2 = W1\<lparr>thread_clocks := (thread_clocks W1)(tid := base)\<rparr>;
            W3 = tick_thread tid (join_thread tid (orphan_clock W2) W2)
        in Inr (tid, W3\<lparr>next_tid := (tid + 1) mod kMaxThreads\<rparr>))"

definition ThreadFinish :: "tid \<Rightarrow> WebTSan \<Rightarrow> WebTSan" where
  "ThreadFinish tid W =
     (if \<not> enabled W then W
      else if tid \<ge> kMaxThreads then W
      else
        let finishing = thread_clocks W tid;
            W1 = W\<lparr>orphan_clock := Join (orphan_clock W) finishing\<rparr>
        in fold (\<lambda>i U. if i = tid \<or> \<not> thread_alive U i then U else join_thread i finishing U)
             [0..<kMaxThreads] W1)"

text \<open>In the enabled branch the store \<open>thread_alive_[tid] = false\<close> is outside the bounds check.\<close>

definition ThreadDestroy :: "tid \<Rightarrow> WebTSan \<Rightarrow> WebTSan result" where
  "ThreadDestroy tid W =
     (if enabled W then
        let W1 = (if tid < kMaxThreads \<and> thread_alive W tid
                  then W\<lparr>orphan_clock := Join (orphan_clock W) (thread_clocks W tid)\<rparr> else W)
        in bindE (index_tid tid W1)
             (\<lambda>W1. Inr (W1\<lparr>thread_alive := (thread_alive W1)(tid := False)\<rparr>))
      else if tid < kMaxThreads then Inr (W\<lparr>thread_alive := (thread_alive W)(tid := False)\<rparr>)
      else Inr W)"

definition ThreadJoin :: "tid \<Rightarrow> tid \<Rightarrow> WebTSan \<Rightarrow> WebTSan" where
  "ThreadJoin joiner_tid child_tid W =
     (if \<not> enabled W then W
      else if joiner_tid \<ge> kMaxThreads \<or> child_tid \<ge> kMaxThreads then W
      else (join_thread joiner_tid (thread_clocks W child_tid) W)
             \<lparr>thread_alive := (thread_alive W)(child_tid := False)\<rparr>)"

definition ThreadDetach :: "tid \<Rightarrow> WebTSan \<Rightarrow> WebTSan" where
  "ThreadDetach child_tid W = W"

definition ThreadAbsorb :: "tid \<Rightarrow> tid \<Rightarrow> WebTSan \<Rightarrow> WebTSan" where
  "ThreadAbsorb dst_tid src_tid W =
     (if \<not> enabled W then W
      else if dst_tid \<ge> kMaxThreads \<or> src_tid \<ge> kMaxThreads then W
      else if dst_tid = src_tid then W
      else join_thread dst_tid (thread_clocks W src_tid) W)"

subsection \<open>Acquire and release, mutexes\<close>

definition sync_clock :: "WebTSan \<Rightarrow> addr \<Rightarrow> vclock" where
  "sync_clock W a = (case sync_clocks W a of Some c \<Rightarrow> c | None \<Rightarrow> empty_clock)"

definition Acquire :: "tid \<Rightarrow> addr \<Rightarrow> WebTSan \<Rightarrow> WebTSan result" where
  "Acquire tid sync_addr W =
     (if \<not> enabled W then Inr W
      else case sync_clocks W sync_addr of
             None \<Rightarrow> Inr W
           | Some c \<Rightarrow> bindE (index_tid tid W) (\<lambda>W. Inr (join_thread tid c W)))"

definition publish :: "tid \<Rightarrow> addr \<Rightarrow> WebTSan \<Rightarrow> WebTSan" where
  "publish tid a W =
     tick_thread tid
       (W\<lparr>sync_clocks := (sync_clocks W)(a \<mapsto> Join (sync_clock W a) (thread_clocks W tid))\<rparr>)"

definition Release :: "tid \<Rightarrow> addr \<Rightarrow> WebTSan \<Rightarrow> WebTSan result" where
  "Release tid sync_addr W =
     (if \<not> enabled W then Inr W
      else bindE (index_tid tid W) (\<lambda>W. Inr (publish tid sync_addr W)))"

definition MutexCreate :: "addr \<Rightarrow> WebTSan \<Rightarrow> WebTSan" where
  "MutexCreate a W =
     (if \<not> enabled W then W else W\<lparr>sync_clocks := (sync_clocks W)(a := None)\<rparr>)"

definition MutexDestroy :: "addr \<Rightarrow> WebTSan \<Rightarrow> WebTSan" where
  "MutexDestroy a W =
     (if \<not> enabled W then W else W\<lparr>sync_clocks := (sync_clocks W)(a := None)\<rparr>)"

definition MutexPreLock :: "tid \<Rightarrow> addr \<Rightarrow> WebTSan \<Rightarrow> WebTSan" where
  "MutexPreLock tid a W = W"

definition MutexPostLock :: "tid \<Rightarrow> addr \<Rightarrow> WebTSan \<Rightarrow> WebTSan" where
  "MutexPostLock tid a W =
     (if \<not> enabled W \<or> tid \<ge> kMaxThreads then W
      else case sync_clocks W a of None \<Rightarrow> W | Some c \<Rightarrow> join_thread tid c W)"

definition MutexUnlock :: "tid \<Rightarrow> addr \<Rightarrow> WebTSan \<Rightarrow> WebTSan" where
  "MutexUnlock tid a W =
     (if \<not> enabled W \<or> tid \<ge> kMaxThreads then W else publish tid a W)"

definition MutexReadLock :: "tid \<Rightarrow> addr \<Rightarrow> WebTSan \<Rightarrow> WebTSan" where
  "MutexReadLock tid a W =
     (if \<not> enabled W \<or> tid \<ge> kMaxThreads then W
      else case sync_clocks W a of None \<Rightarrow> W | Some c \<Rightarrow> join_thread tid c W)"

definition MutexReadUnlock :: "tid \<Rightarrow> addr \<Rightarrow> WebTSan \<Rightarrow> WebTSan" where
  "MutexReadUnlock tid a W = W"

subsection \<open>Happens-before edges\<close>

definition HappensBefore :: "tid \<Rightarrow> WebTSan \<Rightarrow> (u64 \<times> WebTSan) result" where
  "HappensBefore sender_tid W =
     (if \<not> enabled W then Inr (0, W)
      else bindE (index_tid sender_tid W) (\<lambda>W.
        let eid = next_edge_id W
        in Inr (eid, W\<lparr>next_edge_id := eid + 1,
                       hb_edges := (hb_edges W)(eid \<mapsto> thread_clocks W sender_tid)\<rparr>)))"

definition HappensAfter :: "tid \<Rightarrow> u64 \<Rightarrow> WebTSan \<Rightarrow> WebTSan result" where
  "HappensAfter receiver_tid edge_id W =
     (if \<not> enabled W \<or> edge_id = 0 then Inr W
      else case hb_edges W edge_id of
             None \<Rightarrow> Inr W
           | Some c \<Rightarrow> bindE (index_tid receiver_tid W) (\<lambda>W.
               Inr ((join_thread receiver_tid c W)\<lparr>hb_edges := (hb_edges W)(edge_id := None)\<rparr>)))"

subsection \<open>Shadow buffers\<close>

definition RemoveShadow :: "addr \<Rightarrow> WebTSan \<Rightarrow> WebTSan" where
  "RemoveShadow bs W =
     (if \<not> enabled W then W
      else W\<lparr>shadow_buffers := (shadow_buffers W)(bs := None)\<rparr>)"

definition ClearShadow :: "addr \<Rightarrow> nat \<Rightarrow> nat \<Rightarrow> WebTSan \<Rightarrow> WebTSan" where
  "ClearShadow bs offset sz W =
     (if \<not> enabled W then W
      else case shadow_buffers W bs of
             None \<Rightarrow> W
           | Some sb \<Rightarrow> W\<lparr>shadow_buffers := (shadow_buffers W)(bs \<mapsto> ClearRange offset sz sb)\<rparr>)"

text \<open>An existing shadow is returned as it is, with the length it was created with.\<close>

definition GetOrCreateShadow :: "addr \<Rightarrow> nat \<Rightarrow> WebTSan \<Rightarrow> ShadowBuffer \<times> WebTSan" where
  "GetOrCreateShadow bs byte_length W =
     (case shadow_buffers W bs of
        Some sb \<Rightarrow> (sb, W)
      | None \<Rightarrow>
          let sb = new_ShadowBuffer bs byte_length
          in (sb, W\<lparr>shadow_buffers := (shadow_buffers W)(bs \<mapsto> sb)\<rparr>))"

subsection \<open>Memory accesses\<close>

unbundle bit_operations_syntax

definition site_key :: "addr \<Rightarrow> nat \<Rightarrow> u64" where
  "site_key bs offset = word_of_nat bs XOR (word_of_nat offset AND NOT 7)"

definition report_race :: "addr \<Rightarrow> RaceReport \<Rightarrow> WebTSan \<times> tls \<Rightarrow> WebTSan \<times> tls" where
  "report_race bs report WT =
     (let (W, T) = WT; key = site_key bs (sab_offset report) in
      if key \<in> reported_race_sites W then (W, T)
      else
        let msg = ToString report;
            W1 = W\<lparr>reported_race_sites := insert key (reported_race_sites W),
                   races_detected := races_detected W + 1\<rparr>;
            W2 = (if first_race_logged W1 then W1
                  else W1\<lparr>first_race_logged := True,
                          error_log := error_log W1 @ [''WebTSan: '' @ msg]\<rparr>);
            T' = T\<lparr>g_race_detected := True, g_race_message := snprintf 512 msg\<rparr>
        in (if race_callback W2 then W2\<lparr>delivered := delivered W2 @ [report]\<rparr> else W2, T'))"

text \<open>The shadow to use: with length 0 only an existing one, otherwise found or created.\<close>

definition lookup_shadow :: "addr \<Rightarrow> nat \<Rightarrow> WebTSan \<Rightarrow> (ShadowBuffer \<times> WebTSan) option" where
  "lookup_shadow bs byte_len W =
     (if byte_len = 0 then map_option (\<lambda>sb. (sb, W)) (shadow_buffers W bs)
      else Some (GetOrCreateShadow bs byte_len W))"

definition MemoryAccess ::
  "addr \<Rightarrow> nat \<Rightarrow> nat \<Rightarrow> nat \<Rightarrow> tid \<Rightarrow> bool \<Rightarrow> WebTSan \<times> tls \<Rightarrow> (WebTSan \<times> tls) result" where
  "MemoryAccess bs byte_len offset sz tid is_write WT =
     (let (W, T) = WT in
      if \<not> enabled W then Inr (W, T)
      else
        let W1 = W\<lparr>accesses_checked := accesses_checked W + 1\<rparr> in
        case lookup_shadow bs byte_len W1 of
          None \<Rightarrow> Inr (W1, T)
        | Some (shadow, W2) \<Rightarrow>
            bindE (index_tid tid W2) (\<lambda>W2.
              let clock_snapshot = thread_clocks W2 tid;
                  (res, shadow') = RecordAccess offset sz tid is_write clock_snapshot shadow;
                  W3 = W2\<lparr>shadow_buffers := (shadow_buffers W2)(bs \<mapsto> shadow')\<rparr>
              in case res of
                   None \<Rightarrow> Inr (W3, T)
                 | Some report \<Rightarrow> Inr (report_race bs report (W3, T))))"

subsection \<open>Reading the state after an operation\<close>

lemma join_thread_sel [simp]:
  "thread_clocks (join_thread t c W) u =
     (if u = t then Join (thread_clocks W t) c else thread_clocks W u)"
  "enabled (join_thread t c W) = enabled W"
  "thread_alive (join_thread t c W) = thread_alive W"
  "next_tid (join_thread t c W) = next_tid W"
  "orphan_clock (join_thread t c W) = orphan_clock W"
  "sync_clocks (join_thread t c W) = sync_clocks W"
  "hb_edges (join_thread t c W) = hb_edges W"
  "next_edge_id (join_thread t c W) = next_edge_id W"
  "shadow_buffers (join_thread t c W) = shadow_buffers W"
  "delivered (join_thread t c W) = delivered W"
  by (simp_all add: join_thread_def)

lemma tick_thread_sel [simp]:
  "thread_clocks (tick_thread t W) u =
     (if u = t then Increment t (thread_clocks W t) else thread_clocks W u)"
  "enabled (tick_thread t W) = enabled W"
  "thread_alive (tick_thread t W) = thread_alive W"
  "next_tid (tick_thread t W) = next_tid W"
  "orphan_clock (tick_thread t W) = orphan_clock W"
  "sync_clocks (tick_thread t W) = sync_clocks W"
  "hb_edges (tick_thread t W) = hb_edges W"
  "next_edge_id (tick_thread t W) = next_edge_id W"
  "shadow_buffers (tick_thread t W) = shadow_buffers W"
  "delivered (tick_thread t W) = delivered W"
  by (simp_all add: tick_thread_def)

lemma publish_sel [simp]:
  "thread_clocks (publish t a W) u =
     (if u = t then Increment t (thread_clocks W t) else thread_clocks W u)"
  "enabled (publish t a W) = enabled W"
  "thread_alive (publish t a W) = thread_alive W"
  "next_tid (publish t a W) = next_tid W"
  "orphan_clock (publish t a W) = orphan_clock W"
  "sync_clocks (publish t a W) = (sync_clocks W)(a \<mapsto> Join (sync_clock W a) (thread_clocks W t))"
  "hb_edges (publish t a W) = hb_edges W"
  "shadow_buffers (publish t a W) = shadow_buffers W"
  "delivered (publish t a W) = delivered W"
  by (simp_all add: publish_def)

text \<open>The broadcast loop of \<open>ThreadFinish\<close>, thread by thread.\<close>

definition broadcast :: "tid \<Rightarrow> vclock \<Rightarrow> nat list \<Rightarrow> WebTSan \<Rightarrow> WebTSan" where
  "broadcast tid c is W =
     fold (\<lambda>i U. if i = tid \<or> \<not> thread_alive U i then U else join_thread i c U) is W"

lemma broadcast_sel:
  "enabled (broadcast t c is W) = enabled W"
  "thread_alive (broadcast t c is W) = thread_alive W"
  "next_tid (broadcast t c is W) = next_tid W"
  "orphan_clock (broadcast t c is W) = orphan_clock W"
  "sync_clocks (broadcast t c is W) = sync_clocks W"
  "hb_edges (broadcast t c is W) = hb_edges W"
  "shadow_buffers (broadcast t c is W) = shadow_buffers W"
  "delivered (broadcast t c is W) = delivered W"
  unfolding broadcast_def by (induction "is" arbitrary: W, simp_all)+

lemma broadcast_clocks:
  assumes "distinct is"
  shows "thread_clocks (broadcast t c is W) u =
    (if u \<in> set is \<and> u \<noteq> t \<and> thread_alive W u then Join (thread_clocks W u) c
     else thread_clocks W u)"
  using assms unfolding broadcast_def
  by (induction "is" arbitrary: W) auto

lemma ThreadFinish_sel:
  assumes "enabled W" and "t < kMaxThreads"
  shows "thread_clocks (ThreadFinish t W) u =
      (if u < kMaxThreads \<and> u \<noteq> t \<and> thread_alive W u
       then Join (thread_clocks W u) (thread_clocks W t) else thread_clocks W u)"
    and "orphan_clock (ThreadFinish t W) = Join (orphan_clock W) (thread_clocks W t)"
    and "enabled (ThreadFinish t W) = enabled W"
    and "thread_alive (ThreadFinish t W) = thread_alive W"
    and "next_tid (ThreadFinish t W) = next_tid W"
    and "sync_clocks (ThreadFinish t W) = sync_clocks W"
    and "hb_edges (ThreadFinish t W) = hb_edges W"
    and "shadow_buffers (ThreadFinish t W) = shadow_buffers W"
    and "delivered (ThreadFinish t W) = delivered W"
  using assms
  by (simp_all add: ThreadFinish_def Let_def broadcast_def [symmetric] broadcast_sel broadcast_clocks)

lemma ThreadFinish_skip: "\<not> (enabled W \<and> t < kMaxThreads) \<Longrightarrow> ThreadFinish t W = W"
  by (auto simp: ThreadFinish_def)

lemma index_tid_Inr [simp]: "index_tid t W = Inr W' \<longleftrightarrow> t < kMaxThreads \<and> W' = W"
  by (auto simp: index_tid_def)

lemma index_tid_Inl [simp]: "index_tid t W = Inl e \<longleftrightarrow> kMaxThreads \<le> t \<and> e = OutOfBounds"
  by (auto simp: index_tid_def)

lemma report_race_sel [simp]:
  "enabled (fst (report_race bs r WT)) = enabled (fst WT)"
  "thread_clocks (fst (report_race bs r WT)) = thread_clocks (fst WT)"
  "thread_alive (fst (report_race bs r WT)) = thread_alive (fst WT)"
  "next_tid (fst (report_race bs r WT)) = next_tid (fst WT)"
  "orphan_clock (fst (report_race bs r WT)) = orphan_clock (fst WT)"
  "sync_clocks (fst (report_race bs r WT)) = sync_clocks (fst WT)"
  "hb_edges (fst (report_race bs r WT)) = hb_edges (fst WT)"
  "shadow_buffers (fst (report_race bs r WT)) = shadow_buffers (fst WT)"
  "race_callback (fst (report_race bs r WT)) = race_callback (fst WT)"
  by (simp_all add: report_race_def Let_def split: prod.split)

lemma report_race_known:
  "site_key bs (sab_offset r) \<in> reported_race_sites (fst WT) \<Longrightarrow> report_race bs r WT = WT"
  by (cases WT) (simp add: report_race_def Let_def)

lemma report_race_records:
  "site_key bs (sab_offset r) \<in> reported_race_sites (fst (report_race bs r WT))"
  by (cases WT) (simp add: report_race_def Let_def)

lemma find_slot_less: "next_tid W < kMaxThreads \<Longrightarrow> find_slot W < kMaxThreads"
  by (simp add: find_slot_def split: option.split)

lemma find_slot_next:
  assumes "\<not> thread_alive W (next_tid W)" and "next_tid W < kMaxThreads"
  shows "find_slot W = next_tid W"
proof -
  have "[0..<kMaxThreads] = 0 # [1..<kMaxThreads]" by (simp add: upt_conv_Cons)
  with assms show ?thesis by (simp add: find_slot_def)
qed

lemma find_slot_free:
  assumes "\<not> thread_alive W u" and "u < kMaxThreads" and "next_tid W < kMaxThreads"
  shows "\<not> thread_alive W (find_slot W)"
proof -
  let ?P = "\<lambda>i. \<not> thread_alive W ((next_tid W + i) mod kMaxThreads)"
  define i where "i = (if next_tid W \<le> u then u - next_tid W else u + kMaxThreads - next_tid W)"
  have i: "i < kMaxThreads" "(next_tid W + i) mod kMaxThreads = u"
    using assms(2,3) by (auto simp: i_def)
  with assms(1) have "find ?P [0..<kMaxThreads] \<noteq> None"
    by (auto simp: find_None_iff)
  then obtain j where j: "find ?P [0..<kMaxThreads] = Some j" by blast
  then have "?P j" by (auto simp: find_Some_iff)
  with j show ?thesis by (simp add: find_slot_def)
qed

lemma find_slot_exhausted:
  assumes "\<forall>u < kMaxThreads. thread_alive W u" and "next_tid W < kMaxThreads"
  shows "find_slot W = next_tid W"
proof -
  have "thread_alive W ((next_tid W + i) mod kMaxThreads)" for i
    using assms(1) by simp
  then have "find (\<lambda>i. \<not> thread_alive W ((next_tid W + i) mod kMaxThreads)) [0..<kMaxThreads] = None"
    by (simp add: find_None_iff)
  then show ?thesis by (simp add: find_slot_def)
qed

definition inherits :: "nat \<Rightarrow> WebTSan \<Rightarrow> bool" where
  "inherits parent W \<longleftrightarrow> parent \<noteq> UINT32_MAX \<and> parent < kMaxThreads \<and>
     (parent = find_slot W \<or> thread_alive W parent)"

lemma ThreadCreate_eq:
  assumes "next_tid W < kMaxThreads"
  shows "\<exists>W'. ThreadCreate p W = Inr (find_slot W, W') \<and>
    enabled W' = enabled W \<and> sync_clocks W' = sync_clocks W \<and> hb_edges W' = hb_edges W \<and>
    orphan_clock W' = orphan_clock W \<and> shadow_buffers W' = shadow_buffers W \<and>
    delivered W' = delivered W \<and>
    thread_alive W' = (thread_alive W)(find_slot W := True) \<and>
    next_tid W' = (find_slot W + 1) mod kMaxThreads \<and> next_tid W' < kMaxThreads \<and>
    thread_clocks W' = (thread_clocks W)(find_slot W :=
      Increment (find_slot W) (Join (if inherits p W then thread_clocks W p else empty_clock)
        (orphan_clock W)))"
  using find_slot_less [OF assms]
  by (auto simp: ThreadCreate_def Let_def fun_eq_iff inherits_def)

subsection \<open>Properties\<close>

text \<open>
  C10: as long as a slot is free, \<open>ThreadCreate\<close> hands out a slot that no live thread uses, marks
  it alive, leaves every other clock alone, and starts the new thread with a clock that has
  reached its live parent's clock and the orphan clock and is strictly ahead of both in its own
  component.
\<close>

theorem ThreadCreate_fresh_slot:
  assumes "next_tid W < kMaxThreads" and "u < kMaxThreads" and "\<not> thread_alive W u"
    and "thread_alive W p" and "p < kMaxThreads"
    and "\<And>c t. c = thread_clocks W p \<or> c = orphan_clock W \<Longrightarrow> has_room c t"
  shows "\<exists>tid W'. ThreadCreate p W = Inr (tid, W') \<and> tid < kMaxThreads \<and>
    \<not> thread_alive W tid \<and> thread_alive W' = (thread_alive W)(tid := True) \<and>
    thread_clocks W p \<le> thread_clocks W' tid \<and> orphan_clock W \<le> thread_clocks W' tid \<and>
    Get (thread_clocks W p) tid < Get (thread_clocks W' tid) tid \<and>
    Get (orphan_clock W) tid < Get (thread_clocks W' tid) tid \<and>
    (\<forall>v. v \<noteq> tid \<longrightarrow> thread_clocks W' v = thread_clocks W v) \<and> next_tid W' < kMaxThreads"
proof -
  let ?tid = "find_slot W" and ?c = "Join (thread_clocks W p) (orphan_clock W)"
  from ThreadCreate_eq [OF assms(1), of p] obtain W' where
    W': "ThreadCreate p W = Inr (?tid, W')" "thread_alive W' = (thread_alive W)(?tid := True)"
      "next_tid W' < kMaxThreads"
      "thread_clocks W' = (thread_clocks W)(?tid :=
         Increment ?tid (Join (if inherits p W then thread_clocks W p else empty_clock) (orphan_clock W)))"
    by blast
  have tid: "?tid < kMaxThreads" "\<not> thread_alive W ?tid"
    using find_slot_less [OF assms(1)] find_slot_free [OF assms(3,2,1)] by simp_all
  have "inherits p W" using assms(4,5) by (simp add: inherits_def UINT32_MAX_def kMaxThreads_def)
  then have clk: "thread_clocks W' ?tid = Increment ?tid ?c" using W' by simp
  have room: "unat (Get ?c ?tid) < UINT64_MAX"
    using assms(6) [of "thread_clocks W p"] assms(6) [of "orphan_clock W"]
    by (simp add: has_room_def unat_max)
  then have le: "?c \<le> thread_clocks W' ?tid" unfolding clk by (rule Increment_ge)
  have "Get ?c ?tid < Get (thread_clocks W' ?tid) ?tid"
    unfolding clk using room tid by (simp only: Get_Increment inc_greater simp_thms if_True)
  then have "Get (thread_clocks W p) ?tid < Get (thread_clocks W' ?tid) ?tid"
    "Get (orphan_clock W) ?tid < Get (thread_clocks W' ?tid) ?tid" by simp_all
  moreover have "thread_clocks W p \<le> thread_clocks W' ?tid" "orphan_clock W \<le> thread_clocks W' ?tid"
    using le by (simp_all add: Join_sup)
  ultimately show ?thesis using W' tid by auto
qed

definition one_thread :: WebTSan where
  "one_thread = new_WebTSan\<lparr>enabled := True, race_callback := True,
     thread_alive := (\<lambda>i. i = 0), next_tid := 1,
     thread_clocks := (\<lambda>i. if i = 0 then Increment 0 empty_clock else empty_clock)\<rparr>"

theorem ThreadCreate_fresh_slot_witness:
  "\<exists>tid W'. ThreadCreate 0 one_thread = Inr (tid, W') \<and> tid < kMaxThreads \<and>
     \<not> thread_alive one_thread tid"
proof -
  have "next_tid one_thread < kMaxThreads" "(1::nat) < kMaxThreads" "\<not> thread_alive one_thread 1"
    "thread_alive one_thread 0" "0 < kMaxThreads"
    by (simp_all add: one_thread_def kMaxThreads_def)
  moreover have "c = thread_clocks one_thread 0 \<or> c = orphan_clock one_thread \<Longrightarrow> has_room c t" for c t
    by (auto simp: one_thread_def new_WebTSan_def has_room_def UINT64_MAX_def)
  ultimately show ?thesis using ThreadCreate_fresh_slot [of one_thread 1 0] by blast
qed

text \<open>
  The \<open>CHECK\<close> for too many threads can never fail. When all 64 slots are alive,
  \<open>ThreadCreate\<close> succeeds and hands the slot of a live thread to the new one, replacing its clock.
\<close>

lemma ThreadCreate_exhausted:
  assumes "next_tid W < kMaxThreads"
  shows "ThreadCreate p W \<noteq> Inl CheckFailed \<and>
    ((\<forall>u < kMaxThreads. thread_alive W u) \<longrightarrow>
      (\<exists>W'. ThreadCreate p W = Inr (next_tid W, W') \<and> thread_alive W (next_tid W) \<and>
         thread_clocks W' (next_tid W) =
           Increment (next_tid W) (Join (if inherits p W then thread_clocks W p else empty_clock)
             (orphan_clock W))))"
  using ThreadCreate_eq [OF assms, of p] find_slot_exhausted [OF _ assms] assms by auto

lemma ThreadCreate_exhausted_example:
  "\<exists>W'. ThreadCreate UINT32_MAX (one_thread\<lparr>thread_alive := (\<lambda>_. True)\<rparr>) = Inr (1, W')"
proof -
  let ?W = "one_thread\<lparr>thread_alive := (\<lambda>_. True)\<rparr>"
  have "next_tid ?W < kMaxThreads" by (simp add: one_thread_def kMaxThreads_def)
  from ThreadCreate_exhausted [OF this, of UINT32_MAX] show ?thesis
    by (auto simp: one_thread_def)
qed

text \<open>
  \<open>ThreadDestroy\<close> checks its index only while the detector is disabled. Enabled, an id out of
  range writes outside \<open>thread_alive_\<close>; disabled, the same call is a no-op. In range it frees the
  slot and saves a live thread's clock in the orphan clock.
\<close>

lemma ThreadDestroy_bounds:
  "ThreadDestroy tid W =
     (if tid < kMaxThreads then
        Inr (W\<lparr>thread_alive := (thread_alive W)(tid := False),
               orphan_clock := (if enabled W \<and> thread_alive W tid
                 then Join (orphan_clock W) (thread_clocks W tid) else orphan_clock W)\<rparr>)
      else if enabled W then Inl OutOfBounds else Inr W)"
  by (auto simp: ThreadDestroy_def Let_def index_tid_def)

text \<open>
  C8: release then acquire on one address orders: the acquirer's clock reaches everything the
  releaser had reached, and the releaser's own component has moved on, so an access it makes after
  the release is still unordered with the acquirer, who would see it as a race.
\<close>

theorem release_acquire_orders:
  assumes "enabled W" and "t < kMaxThreads" and "u < kMaxThreads" and "t \<noteq> u"
    and "has_room (thread_clocks W t) t"
    and "Get (thread_clocks W u) t \<le> Get (thread_clocks W t) t"
    and "Get (sync_clock W a) t \<le> Get (thread_clocks W t) t"
  shows "\<exists>W1 W2. Release t a W = Inr W1 \<and> Acquire u a W1 = Inr W2 \<and>
    thread_clocks W t \<le> thread_clocks W2 u \<and> thread_clocks W u \<le> thread_clocks W2 u \<and>
    \<not> racy (access_cell t w (thread_clocks W t)) u w' (thread_clocks W2 u) \<and>
    racy (access_cell t True (thread_clocks W1 t)) u w' (thread_clocks W2 u)"
proof -
  let ?W1 = "publish t a W"
  let ?c = "Join (sync_clock W a) (thread_clocks W t)"
  let ?W2 = "join_thread u ?c ?W1"
  have "Release t a W = Inr ?W1"
    using assms(1,2) by (simp add: Release_def index_tid_def)
  moreover have "Acquire u a ?W1 = Inr ?W2"
    using assms(1,3) by (simp add: Acquire_def index_tid_def)
  moreover have u2: "thread_clocks ?W2 u = Join (thread_clocks W u) ?c" using assms(4) by simp
  then have le: "thread_clocks W t \<le> thread_clocks ?W2 u" "thread_clocks W u \<le> thread_clocks ?W2 u"
    by (simp_all add: Join_sup le_supI2)
  have "Get (thread_clocks ?W2 u) t = Get (thread_clocks W t) t"
    using assms(6,7) u2 by (simp add: max_absorb2)
  moreover have "Get (thread_clocks W t) t < Get (thread_clocks W t) t + 1"
    using assms(5) by (intro inc_greater) (simp add: has_room_def)
  ultimately show ?thesis
    using le assms(2,4) by (auto simp: racy_def access_cell_def)
qed

definition two_threads :: WebTSan where
  "two_threads = one_thread\<lparr>thread_alive := (\<lambda>i. i < 2), next_tid := 2,
     thread_clocks := (\<lambda>i. if i < 2 then Increment i empty_clock else empty_clock)\<rparr>"

theorem release_acquire_orders_witness:
  "\<exists>W1 W2. Release 0 64 two_threads = Inr W1 \<and> Acquire 1 64 W1 = Inr W2 \<and>
     racy (access_cell 0 True (thread_clocks W1 0)) 1 False (thread_clocks W2 1)"
proof -
  have "enabled two_threads" "0 < kMaxThreads" "1 < kMaxThreads" "(0::nat) \<noteq> 1"
    "has_room (thread_clocks two_threads 0) 0"
    "Get (thread_clocks two_threads 1) 0 \<le> Get (thread_clocks two_threads 0) 0"
    "Get (sync_clock two_threads 64) 0 \<le> Get (thread_clocks two_threads 0) 0"
    by (simp_all add: two_threads_def one_thread_def new_WebTSan_def kMaxThreads_def has_room_def
        sync_clock_def UINT64_MAX_def)
  from release_acquire_orders [OF this] show ?thesis by blast
qed

text \<open>
  A happens-before edge does not separate epochs. \<open>HappensBefore\<close> publishes the sender's
  clock without ticking it, so what the sender accesses after sending carries an epoch the
  receiver has already reached: such an access is never a race for the receiver.
\<close>

lemma message_edge_covers_later_accesses:
  assumes "enabled W" and "t < kMaxThreads" and "u < kMaxThreads" and "t \<noteq> u"
    and "HappensBefore t W = Inr (eid, W1)" and "eid \<noteq> 0" and "HappensAfter u eid W1 = Inr W2"
  shows "thread_clocks W1 t = thread_clocks W t \<and>
    \<not> racy (access_cell t w (thread_clocks W1 t)) u w' (thread_clocks W2 u)"
proof -
  from assms(1,2,5) have eid: "eid = next_edge_id W" and W1: "W1 = W\<lparr>next_edge_id := next_edge_id W + 1,
      hb_edges := (hb_edges W)(next_edge_id W \<mapsto> thread_clocks W t)\<rparr>"
    by (auto simp: HappensBefore_def index_tid_def Let_def)
  from assms(1,3,6,7) eid W1 have "thread_clocks W2 u = Join (thread_clocks W u) (thread_clocks W t)"
    by (auto simp: HappensAfter_def index_tid_def)
  with W1 show ?thesis by (simp add: racy_def access_cell_def)
qed

lemma message_edge_covers_later_accesses_example:
  "\<exists>W1 W2. HappensBefore 0 two_threads = Inr (1, W1) \<and> HappensAfter 1 1 W1 = Inr W2 \<and>
     \<not> racy (access_cell 0 True (thread_clocks W1 0)) 1 True (thread_clocks W2 1)"
proof -
  obtain W1 where W1: "HappensBefore 0 two_threads = Inr (1, W1)"
    by (simp add: HappensBefore_def two_threads_def one_thread_def new_WebTSan_def index_tid_def
        Let_def kMaxThreads_def)
  have "\<exists>W2. HappensAfter 1 1 W1 = Inr W2"
    by (simp add: HappensAfter_def index_tid_def kMaxThreads_def split: option.split)
  then obtain W2 where W2: "HappensAfter 1 1 W1 = Inr W2" by blast
  have "enabled two_threads" "0 < kMaxThreads" "1 < kMaxThreads" "(0::nat) \<noteq> 1" "(1::u64) \<noteq> 0"
    by (simp_all add: two_threads_def one_thread_def kMaxThreads_def)
  with message_edge_covers_later_accesses [OF _ _ _ _ W1 _ W2] W1 W2 show ?thesis by blast
qed

text \<open>
  The shadow of a backing store keeps the length it was created with. Once it exists, an
  access that starts beyond that length is neither reported nor recorded, whatever length the
  caller now passes: the part of a shared memory added by a later grow is not checked.
\<close>

lemma grown_memory_unchecked:
  assumes "enabled W" and "shadow_buffers W bs = Some sb" and "sb_byte_length sb \<le> off"
    and "off < 18446744073709551616" and "tid < kMaxThreads"
  shows "MemoryAccess bs len off n tid w (W, T) =
    Inr (W\<lparr>accesses_checked := accesses_checked W + 1\<rparr>, T)"
proof -
  have "lookup_shadow bs len W' = Some (sb, W')" if "shadow_buffers W' bs = Some sb" for W'
    using that by (simp add: lookup_shadow_def GetOrCreateShadow_def)
  moreover have "RecordAccess off n tid w c sb = (None, sb)" for c
    using assms(3,4) by (cases n) (simp_all add: RecordAccess_def)
  ultimately show ?thesis
    using assms(1,2,5) by (simp add: MemoryAccess_def index_tid_def fun_upd_idem)
qed

lemma grown_memory_unchecked_example:
  "\<exists>W'. MemoryAccess 4096 (131072::nat) 65536 4 1 True
     (two_threads\<lparr>shadow_buffers := [4096 \<mapsto> new_ShadowBuffer 4096 65536]\<rparr>, init_tls) = Inr (W', init_tls)"
proof -
  let ?W = "two_threads\<lparr>shadow_buffers := [4096 \<mapsto> new_ShadowBuffer 4096 65536]\<rparr>"
  have "enabled ?W" "shadow_buffers ?W 4096 = Some (new_ShadowBuffer 4096 65536)"
    "sb_byte_length (new_ShadowBuffer 4096 65536) \<le> 65536"
    "(65536::nat) < 18446744073709551616" "1 < kMaxThreads"
    by (simp_all add: two_threads_def one_thread_def new_ShadowBuffer_def kMaxThreads_def)
  from grown_memory_unchecked [OF this, of 131072 4 True init_tls] show ?thesis by (rule exI)
qed

text \<open>
  One report per site key. A second race with the key of an earlier one changes nothing:
  no count, no message, no callback. The key is the XOR of address and 8-byte bucket, so two
  different sites can share it, as the witness shows.
\<close>

lemma same_key_reported_once:
  assumes "site_key bs1 (sab_offset r1) = site_key bs2 (sab_offset r2)"
  shows "report_race bs2 r2 (report_race bs1 r1 WT) = report_race bs1 r1 WT"
  using report_race_known report_race_records assms by metis

lemma same_key_reported_once_example:
  "\<exists>r1 r2. sab_offset r1 = 16 \<and> sab_offset r2 = 0 \<and>
     report_race 4112 r2 (report_race 4096 r1 (two_threads, init_tls)) =
       report_race 4096 r1 (two_threads, init_tls)"
proof -
  define r1 :: RaceReport where "r1 = make_report (new_ShadowBuffer 4096 64) 16 default_cell 1 True empty_clock"
  define r2 :: RaceReport where "r2 = make_report (new_ShadowBuffer 4112 64) 0 default_cell 1 True empty_clock"
  have off: "sab_offset r1 = 16" "sab_offset r2 = 0" by (simp_all add: r1_def r2_def make_report_def)
  then have "site_key 4096 (sab_offset r1) = site_key 4112 (sab_offset r2)"
    by (simp add: site_key_def)
  from same_key_reported_once [OF this, of "(two_threads, init_tls)"] off show ?thesis by blast
qed

end
