(* ===== verification/HBSpec.thy ===== *)
theory HBSpec
  imports WebTSan
begin

text \<open>
  The detector against the happens-before relation it is meant to track. A run is a list of
  operations executed on the detector, in the order of the detector's locks. Beside the detector's
  state runs a specification that knows nothing of clocks: a history of accesses and, for every
  thread, sync address, message edge and for finished threads, the set of the accesses that happen
  before what it does next. Soundness: an access reported as a race is not ordered after the access
  it is reported against. Exactness, for programs that synchronise through locks and atomics: the
  detector's clock comparison decides happens-before.
\<close>

subsection \<open>Operations and runs\<close>

datatype op =
    Create nat | Finish tid | Destroy tid | JoinOp tid tid | Detach tid | Absorb tid tid
  | Acq tid addr | Rel tid addr
  | MCreate addr | MDestroy addr | MPreLock tid addr | MLock tid addr | MUnlock tid addr
  | MReadLock tid addr | MReadUnlock tid addr
  | Send tid | Receive tid u64
  | Access addr nat nat nat tid bool
  | Remove addr | Clear addr nat nat | Count

fun exec :: "op \<Rightarrow> WebTSan \<times> tls \<Rightarrow> (WebTSan \<times> tls) result" where
  "exec (Create p) (W, T) = bindE (ThreadCreate p W) (\<lambda>(t, W'). Inr (W', T))"
| "exec (Finish t) (W, T) = Inr (ThreadFinish t W, T)"
| "exec (Destroy t) (W, T) = bindE (ThreadDestroy t W) (\<lambda>W'. Inr (W', T))"
| "exec (JoinOp j c) (W, T) = Inr (ThreadJoin j c W, T)"
| "exec (Detach c) (W, T) = Inr (ThreadDetach c W, T)"
| "exec (Absorb d s) (W, T) = Inr (ThreadAbsorb d s W, T)"
| "exec (Acq t a) (W, T) = bindE (Acquire t a W) (\<lambda>W'. Inr (W', T))"
| "exec (Rel t a) (W, T) = bindE (Release t a W) (\<lambda>W'. Inr (W', T))"
| "exec (MCreate a) (W, T) = Inr (MutexCreate a W, T)"
| "exec (MDestroy a) (W, T) = Inr (MutexDestroy a W, T)"
| "exec (MPreLock t a) (W, T) = Inr (MutexPreLock t a W, T)"
| "exec (MLock t a) (W, T) = Inr (MutexPostLock t a W, T)"
| "exec (MUnlock t a) (W, T) = Inr (MutexUnlock t a W, T)"
| "exec (MReadLock t a) (W, T) = Inr (MutexReadLock t a W, T)"
| "exec (MReadUnlock t a) (W, T) = Inr (MutexReadUnlock t a W, T)"
| "exec (Send t) (W, T) = bindE (HappensBefore t W) (\<lambda>(eid, W'). Inr (W', T))"
| "exec (Receive t e) (W, T) = bindE (HappensAfter t e W) (\<lambda>W'. Inr (W', T))"
| "exec (Access bs len off n t w) (W, T) = MemoryAccess bs len off n t w (W, T)"
| "exec (Remove bs) (W, T) = Inr (RemoveShadow bs W, T)"
| "exec (Clear bs off n) (W, T) = Inr (ClearShadow bs off n W, T)"
| "exec Count (W, T) = Inr (IncrementSuppressedCount W, T)"

subsection \<open>Happens-before, without clocks\<close>

text \<open>
  An access is an entry of the history; its index names it. \<open>ev_before\<close> holds the accesses that
  happen before it. \<open>ev_epoch\<close> is the stamp the detector puts on it: no rule below reads it.
\<close>

record event =
  ev_tid :: tid
  ev_bs :: addr
  ev_off :: nat
  ev_size :: nat
  ev_write :: bool
  ev_epoch :: u64
  ev_before :: "nat set"

record hb =
  hist :: "event list"
  know :: "tid \<Rightarrow> nat set" \<comment> \<open>what happens before a thread's next step\<close>
  ksync :: "addr \<Rightarrow> nat set" \<comment> \<open>published at a sync address\<close>
  kedge :: "u64 \<Rightarrow> nat set" \<comment> \<open>carried by a message\<close>
  korphan :: "nat set" \<comment> \<open>published by finished threads\<close>

definition learn :: "tid \<Rightarrow> nat set \<Rightarrow> hb \<Rightarrow> hb" where
  "learn t S G = G\<lparr>know := (know G)(t := know G t \<union> S)\<rparr>"

definition tell :: "tid \<Rightarrow> addr \<Rightarrow> hb \<Rightarrow> hb" where
  "tell t a G = G\<lparr>ksync := (ksync G)(a := ksync G a \<union> know G t)\<rparr>"

definition mk_event :: "WebTSan \<Rightarrow> hb \<Rightarrow> addr \<Rightarrow> nat \<Rightarrow> nat \<Rightarrow> tid \<Rightarrow> bool \<Rightarrow> event" where
  "mk_event W G bs off n t w =
     \<lparr>ev_tid = t, ev_bs = bs, ev_off = off, ev_size = n, ev_write = w,
      ev_epoch = Get (thread_clocks W t) t, ev_before = know G t\<rparr>"

fun hstep :: "op \<Rightarrow> WebTSan \<Rightarrow> hb \<Rightarrow> hb" where
  "hstep (Create p) W G =
     G\<lparr>know := (know G)(find_slot W := (if inherits p W then know G p else {}) \<union> korphan G)\<rparr>"
| "hstep (Finish t) W G =
     (if t < kMaxThreads then
        G\<lparr>korphan := korphan G \<union> know G t,
          know := (\<lambda>u. if u < kMaxThreads \<and> u \<noteq> t \<and> thread_alive W u
                       then know G u \<union> know G t else know G u)\<rparr>
      else G)"
| "hstep (Destroy t) W G =
     (if t < kMaxThreads \<and> thread_alive W t then G\<lparr>korphan := korphan G \<union> know G t\<rparr> else G)"
| "hstep (JoinOp j c) W G =
     (if j < kMaxThreads \<and> c < kMaxThreads then learn j (know G c) G else G)"
| "hstep (Absorb d s) W G =
     (if d < kMaxThreads \<and> s < kMaxThreads then learn d (know G s) G else G)"
| "hstep (Acq t a) W G = (if t < kMaxThreads then learn t (ksync G a) G else G)"
| "hstep (MLock t a) W G = (if t < kMaxThreads then learn t (ksync G a) G else G)"
| "hstep (MReadLock t a) W G = (if t < kMaxThreads then learn t (ksync G a) G else G)"
| "hstep (Rel t a) W G = (if t < kMaxThreads then tell t a G else G)"
| "hstep (MUnlock t a) W G = (if t < kMaxThreads then tell t a G else G)"
| "hstep (MCreate a) W G = G\<lparr>ksync := (ksync G)(a := {})\<rparr>"
| "hstep (MDestroy a) W G = G\<lparr>ksync := (ksync G)(a := {})\<rparr>"
| "hstep (Send t) W G =
     (if t < kMaxThreads then G\<lparr>kedge := (kedge G)(next_edge_id W := know G t)\<rparr> else G)"
| "hstep (Receive t e) W G =
     (if t < kMaxThreads \<and> e \<noteq> 0
      then (learn t (kedge G e) G)\<lparr>kedge := (kedge G)(e := {})\<rparr> else G)"
| "hstep (Access bs len off n t w) W G =
     G\<lparr>hist := hist G @ [mk_event W G bs off n t w],
       know := (know G)(t := insert (length (hist G)) (know G t))\<rparr>"
| "hstep _ W G = G"

definition init_hb :: hb where
  "init_hb = \<lparr>hist = [], know = (\<lambda>_. {}), ksync = (\<lambda>_. {}), kedge = (\<lambda>_. {}), korphan = {}\<rparr>"

definition step :: "op \<Rightarrow> (WebTSan \<times> tls) \<times> hb \<Rightarrow> ((WebTSan \<times> tls) \<times> hb) result" where
  "step x S = bindE (exec x (fst S)) (\<lambda>WT'. Inr (WT', hstep x (fst (fst S)) (snd S)))"

lemma exec_runE_step:
  assumes "runE exec xs WT = Inr WT'"
  shows "\<exists>G'. runE step xs (WT, G) = Inr (WT', G')"
  using assms
proof (induction xs arbitrary: WT G)
  case Nil
  then show ?case by simp
next
  case (Cons x xs)
  then obtain WT1 where "exec x WT = Inr WT1" and "runE exec xs WT1 = Inr WT'"
    by (auto elim: bindE_InrE)
  with Cons.IH [of WT1] show ?case by (simp add: step_def)
qed

text \<open>Two accesses of the history form a race on a byte when no happens-before orders them.\<close>

definition hb_race :: "event list \<Rightarrow> nat \<Rightarrow> nat \<Rightarrow> nat \<Rightarrow> bool" where
  "hb_race H i j byte \<longleftrightarrow> i < j \<and> j < length H \<and> ev_bs (H ! i) = ev_bs (H ! j) \<and>
     ev_tid (H ! i) \<noteq> ev_tid (H ! j) \<and> (ev_write (H ! i) \<or> ev_write (H ! j)) \<and>
     ev_off (H ! i) \<le> byte \<and> byte < ev_off (H ! i) + ev_size (H ! i) \<and>
     ev_off (H ! j) \<le> byte \<and> byte < ev_off (H ! j) + ev_size (H ! j) \<and>
     i \<notin> ev_before (H ! j)"

definition report_of :: "event list \<Rightarrow> nat \<Rightarrow> nat \<Rightarrow> RaceReport \<Rightarrow> bool" where
  "report_of H i j r \<longleftrightarrow> sab_backing_store r = ev_bs (H ! j) \<and>
     tid1 r = ev_tid (H ! i) \<and> is_write1 r = ev_write (H ! i) \<and> epoch1 r = ev_epoch (H ! i) \<and>
     tid2 r = ev_tid (H ! j) \<and> is_write2 r = ev_write (H ! j) \<and> epoch2 r = ev_epoch (H ! j)"

subsection \<open>Clocks cover what is known\<close>

text \<open>
  \<open>known n H S c\<close>: the clock \<open>c\<close> has reached every access of \<open>S\<close>, and no component of it exceeds
  \<open>n\<close>, the number of steps so far; so no component wraps around in a run shorter than \<open>2 ^ 64 - 1\<close>.
\<close>

definition known :: "nat \<Rightarrow> event list \<Rightarrow> nat set \<Rightarrow> vclock \<Rightarrow> bool" where
  "known n H S c \<longleftrightarrow> S \<subseteq> {..<length H} \<and>
     covers Get (\<lambda>i. ev_tid (H ! i)) (\<lambda>i. ev_epoch (H ! i)) S c \<and> (\<forall>t. unat (Get c t) \<le> n)"

lemma known_empty [simp]: "known n H {} empty_clock"
  by (simp add: known_def vc.covers_empty)

lemma known_none: "known n H S c \<Longrightarrow> known n H {} c"
  by (simp add: known_def vc.covers_empty)

lemma known_Suc: "known n H S c \<Longrightarrow> known (Suc n) H S c"
  by (auto simp: known_def intro: le_SucI)

lemma known_join:
  assumes "known n H S c" and "known n H S' c'"
  shows "known n H (S \<union> S') (Join c c')"
  using assms by (auto simp: known_def unat_max intro: vc.covers_join)

lemma known_join_empty: "known n H S empty_clock \<Longrightarrow> known n H S' c \<Longrightarrow> known n H (S' \<union> S) c"
  by (auto simp: known_def covers_def)

lemma known_inc:
  assumes "known n H S c" and "n < UINT64_MAX"
  shows "known (Suc n) H S (Increment t c)"
proof -
  have room: "has_room c u" for u
    using assms by (auto simp: known_def has_room_def intro: le_less_trans)
  then have "unat (Get (Increment t c) u) \<le> Suc n" for u
    using assms(1) by (auto simp: known_def has_room_def unat_inc intro: le_SucI)
  with assms room show ?thesis by (auto simp: known_def intro: vc.covers_inc)
qed

lemma known_append:
  assumes "known n H S c"
  shows "known n (H @ [e]) S c"
proof -
  have "(H @ [e]) ! i = H ! i" if "i \<in> S" for i
    using that assms by (auto simp: known_def nth_append)
  then show ?thesis using assms by (auto simp: known_def covers_def)
qed

lemma known_access:
  assumes "known n H S c" and "ev_tid e = t" and "ev_epoch e = Get c t"
  shows "known n (H @ [e]) (insert (length H) S) c"
  using known_append [OF assms(1), of e] assms(2,3)
  by (auto simp: known_def vc.covers_insert)

definition edge_clock :: "WebTSan \<Rightarrow> u64 \<Rightarrow> vclock" where
  "edge_clock W e = (case hb_edges W e of Some c \<Rightarrow> c | None \<Rightarrow> empty_clock)"

definition causal :: "nat \<Rightarrow> WebTSan \<Rightarrow> hb \<Rightarrow> bool" where
  "causal n W G \<longleftrightarrow>
     (\<forall>t < kMaxThreads. known n (hist G) (know G t) (thread_clocks W t)) \<and>
     (\<forall>a. known n (hist G) (ksync G a) (sync_clock W a)) \<and>
     (\<forall>e. known n (hist G) (kedge G e) (edge_clock W e)) \<and>
     known n (hist G) (korphan G) (orphan_clock W)"

lemma causalD:
  assumes "causal n W G"
  shows "t < kMaxThreads \<Longrightarrow> known n (hist G) (know G t) (thread_clocks W t)"
    and "known n (hist G) (ksync G a) (sync_clock W a)"
    and "known n (hist G) (kedge G e) (edge_clock W e)"
    and "known n (hist G) (korphan G) (orphan_clock W)"
  using assms by (simp_all add: causal_def)

lemma causal_Suc: "causal n W G \<Longrightarrow> causal (Suc n) W G"
  by (auto simp: causal_def intro: known_Suc)

text \<open>Only the clocks matter.\<close>

lemma causal_cong:
  assumes "causal n W G" and "thread_clocks W' = thread_clocks W" and "sync_clocks W' = sync_clocks W"
    and "hb_edges W' = hb_edges W" and "orphan_clock W' = orphan_clock W"
  shows "causal n W' G"
  using assms by (simp add: causal_def sync_clock_def edge_clock_def)

lemma sync_clock_join [simp]: "sync_clock (join_thread t c W) a = sync_clock W a"
  by (simp add: sync_clock_def)

lemma edge_clock_join [simp]: "edge_clock (join_thread t c W) e = edge_clock W e"
  by (simp add: edge_clock_def)

lemma causal_learn:
  assumes "causal n W G" and "t < kMaxThreads" and "known n (hist G) S c"
  shows "causal n (join_thread t c W) (learn t S G)"
  using assms by (auto simp: causal_def learn_def known_join)

lemma causal_publish:
  assumes "causal n W G" and "t < kMaxThreads" and "n < UINT64_MAX"
  shows "causal (Suc n) (publish t a W) (tell t a G)"
proof -
  have "sync_clock (publish t a W) b =
      (if b = a then Join (sync_clock W a) (thread_clocks W t) else sync_clock W b)" for b
    by (simp add: sync_clock_def)
  moreover have "edge_clock (publish t a W) e = edge_clock W e" for e
    by (simp add: edge_clock_def)
  ultimately show ?thesis
    using assms by (auto simp: causal_def tell_def known_inc known_Suc known_join)
qed

text \<open>Learning from a sync address that holds no clock changes nothing and covers nothing new.\<close>

lemma causal_acquire:
  assumes "causal n W G" and "t < kMaxThreads"
  shows "causal n (case sync_clocks W a of None \<Rightarrow> W | Some c \<Rightarrow> join_thread t c W)
           (learn t (ksync G a) G)"
proof (cases "sync_clocks W a")
  case None
  with causalD(2) [OF assms(1), of a] have "known n (hist G) (ksync G a) empty_clock"
    by (simp add: sync_clock_def)
  with assms None show ?thesis
    by (auto simp: causal_def learn_def intro: known_join_empty)
next
  case (Some c)
  with causalD(2) [OF assms(1), of a] have "known n (hist G) (ksync G a) c"
    by (simp add: sync_clock_def)
  with causal_learn [OF assms] Some show ?thesis by simp
qed

lemma causal_erase:
  assumes "causal n W G"
  shows "causal n (W\<lparr>sync_clocks := (sync_clocks W)(a := None)\<rparr>)
           (G\<lparr>ksync := (ksync G)(a := {})\<rparr>)"
  using assms by (auto simp: causal_def sync_clock_def edge_clock_def)

subsection \<open>One step\<close>

fun is_access :: "op \<Rightarrow> bool" where
  "is_access (Access bs len off n t w) = True"
| "is_access _ = False"

lemma causal_create:
  assumes "causal n W G" and "next_tid W < kMaxThreads" and "n < UINT64_MAX"
    and "exec (Create p) (W, T) = Inr (W', T')"
  shows "causal (Suc n) W' (hstep (Create p) W G)"
proof -
  let ?t = "find_slot W"
  let ?S = "if inherits p W then know G p else {}"
  let ?c = "if inherits p W then thread_clocks W p else empty_clock"
  from ThreadCreate_eq [OF assms(2), of p] assms(4) have W':
    "sync_clocks W' = sync_clocks W" "hb_edges W' = hb_edges W" "orphan_clock W' = orphan_clock W"
    "thread_clocks W' = (thread_clocks W)(?t := Increment ?t (Join ?c (orphan_clock W)))"
    by auto
  have "known n (hist G) ?S ?c"
    using causalD(1) [OF assms(1), of p] by (cases "inherits p W") (auto simp: inherits_def)
  with causalD(4) [OF assms(1)] assms(3)
  have "known (Suc n) (hist G) (?S \<union> korphan G) (Increment ?t (Join ?c (orphan_clock W)))"
    by (intro known_inc known_join)
  with causal_Suc [OF assms(1)] W' show ?thesis
    by (cases "inherits p W") (simp_all add: causal_def sync_clock_def edge_clock_def)
qed

lemma causal_finish:
  assumes "causal n W G" and "enabled W"
  shows "causal n (ThreadFinish t W) (hstep (Finish t) W G)"
proof (cases "t < kMaxThreads")
  case True
  with assms show ?thesis
    by (auto simp: causal_def ThreadFinish_sel sync_clock_def edge_clock_def known_join)
next
  case False
  with assms(1) show ?thesis by (simp add: ThreadFinish_skip)
qed

lemma causal_receive:
  assumes "causal n W G" and "enabled W" and "exec (Receive t e) (W, T) = Inr (W', T')"
  shows "causal n W' (hstep (Receive t e) W G)"
proof (cases "e = 0 \<or> \<not> t < kMaxThreads")
  case True
  with assms show ?thesis by (auto simp: HappensAfter_def bindE_eq_Inr split: option.splits if_splits)
next
  case False
  then have t: "t < kMaxThreads" by simp
  show ?thesis
  proof (cases "hb_edges W e")
    case None
    with causalD(3) [OF assms(1), of e] have "known n (hist G) (kedge G e) empty_clock"
      by (simp add: edge_clock_def)
    with assms False None show ?thesis
      by (auto simp: causal_def learn_def HappensAfter_def edge_clock_def intro: known_join_empty)
  next
    case (Some c)
    with causalD(3) [OF assms(1), of e] have "known n (hist G) (kedge G e) c"
      by (simp add: edge_clock_def)
    from causal_learn [OF assms(1) t this] assms(2,3) False Some show ?thesis
      by (auto simp: causal_def HappensAfter_def bindE_eq_Inr sync_clock_def edge_clock_def learn_def)
  qed
qed

lemma causal_step:
  assumes c: "causal n W G" and e: "enabled W" and nt: "next_tid W < kMaxThreads"
    and n: "n < UINT64_MAX" and x: "exec x (W, T) = Inr (W', T')" and na: "\<not> is_access x"
  shows "causal (Suc n) W' (hstep x W G)"
proof (cases x)
  case (Create p)
  with causal_create [OF c nt n] x show ?thesis by blast
next
  case (Finish t)
  with causal_Suc [OF causal_finish [OF c e, of t]] x show ?thesis by simp
next
  case (Destroy t)
  with x c e causal_Suc [OF c] show ?thesis
    by (auto simp: ThreadDestroy_def Let_def bindE_eq_Inr causal_def sync_clock_def edge_clock_def
        known_join known_Suc split: if_splits)
next
  case (JoinOp j d)
  with x e have W': "W' = (if j < kMaxThreads \<and> d < kMaxThreads then (join_thread j (thread_clocks W d) W)
      \<lparr>thread_alive := (thread_alive W)(d := False)\<rparr> else W)"
    by (auto simp: ThreadJoin_def)
  show ?thesis
  proof (cases "j < kMaxThreads \<and> d < kMaxThreads")
    case True
    then have "causal n (join_thread j (thread_clocks W d) W) (learn j (know G d) G)"
      using causal_learn [OF c] causalD(1) [OF c] by blast
    then have "causal n W' (learn j (know G d) G)"
      by (rule causal_cong) (simp_all add: W' True)
    with True show ?thesis using JoinOp causal_Suc by simp
  next
    case False
    with W' JoinOp causal_Suc [OF c] show ?thesis by auto
  qed
next
  case (Absorb d s)
  have id: "causal n W (learn d (know G d) G)"
    using c by (simp add: learn_def causal_def)
  with x e causal_Suc [OF c] causal_learn [OF c, of d] causalD(1) [OF c, of s] Absorb causal_Suc [OF id]
  show ?thesis by (auto simp: ThreadAbsorb_def intro: causal_Suc)
next
  case (Acq t a)
  show ?thesis
  proof (cases "t < kMaxThreads")
    case True
    with x e Acq have "W' = (case sync_clocks W a of None \<Rightarrow> W | Some c \<Rightarrow> join_thread t c W)"
      by (auto simp: Acquire_def bindE_eq_Inr split: option.splits)
    with causal_Suc [OF causal_acquire [OF c True, of a]] Acq True show ?thesis by simp
  next
    case False
    with x e Acq have "W' = W" by (auto simp: Acquire_def bindE_eq_Inr split: option.splits)
    with False Acq causal_Suc [OF c] show ?thesis by simp
  qed
next
  case (MLock t a)
  with x e causal_Suc [OF c] causal_Suc [OF causal_acquire [OF c, of t a]] show ?thesis
    by (auto simp: MutexPostLock_def)
next
  case (MReadLock t a)
  with x e causal_Suc [OF c] causal_Suc [OF causal_acquire [OF c, of t a]] show ?thesis
    by (auto simp: MutexReadLock_def)
next
  case (Rel t a)
  with x e causal_publish [OF c _ n, of t a] show ?thesis
    by (auto simp: Release_def bindE_eq_Inr)
next
  case (MUnlock t a)
  with x e causal_Suc [OF c] causal_publish [OF c _ n, of t a] show ?thesis
    by (auto simp: MutexUnlock_def)
next
  case (Send t)
  with x e causal_Suc [OF c] show ?thesis
    by (auto simp: HappensBefore_def bindE_eq_Inr Let_def causal_def sync_clock_def edge_clock_def)
next
  case (Receive t ed)
  with causal_Suc [OF causal_receive [OF c e]] x show ?thesis by blast
next
  case (Clear bs off m)
  with x causal_Suc [OF c] show ?thesis
    by (auto simp: ClearShadow_def split: option.splits intro: causal_cong)
qed (use x na c e causal_Suc [OF c] causal_Suc [OF causal_erase [OF c]] in
  \<open>auto simp: ThreadDetach_def MutexCreate_def MutexDestroy_def MutexPreLock_def
      MutexReadUnlock_def RemoveShadow_def IncrementSuppressedCount_def intro: causal_cong\<close>)

text \<open>What a step other than an access leaves alone.\<close>

definition shadows_shrink :: "WebTSan \<Rightarrow> WebTSan \<Rightarrow> bool" where
  "shadows_shrink W W' \<longleftrightarrow> (\<forall>bs sb'. shadow_buffers W' bs = Some sb' \<longrightarrow>
     (\<exists>sb. shadow_buffers W bs = Some sb \<and> sb_backing_store sb' = sb_backing_store sb \<and>
       (\<forall>b c. c < kShadowCellsPerByte \<longrightarrow> sc_valid (cell_at sb' b c) \<longrightarrow>
          cell_at sb' b c = cell_at sb b c)))"

lemma shadows_shrink_same: "shadow_buffers W' = shadow_buffers W \<Longrightarrow> shadows_shrink W W'"
  by (auto simp: shadows_shrink_def)

lemma shadows_shrink_clear: "enabled W \<Longrightarrow> shadows_shrink W (ClearShadow bs off n W)"
  by (auto simp: shadows_shrink_def ClearShadow_def ClearRange_def Let_def clear_loop_cell
      cleared_def clear_loop_frame split: option.splits if_splits)

lemma shadows_shrink_remove: "enabled W \<Longrightarrow> shadows_shrink W (RemoveShadow bs W)"
  by (auto simp: shadows_shrink_def RemoveShadow_def)

lemmas step_defs = ThreadDestroy_def ThreadJoin_def ThreadDetach_def ThreadAbsorb_def Acquire_def
  Release_def MutexCreate_def MutexDestroy_def MutexPreLock_def MutexPostLock_def MutexUnlock_def
  MutexReadLock_def MutexReadUnlock_def HappensBefore_def HappensAfter_def Let_def bindE_eq_Inr

definition frame_ok :: "WebTSan \<Rightarrow> WebTSan \<Rightarrow> bool" where
  "frame_ok W W' \<longleftrightarrow> enabled W' \<and> next_tid W' < kMaxThreads \<and> delivered W' = delivered W \<and>
     shadows_shrink W W'"

lemma frame_okI:
  assumes "enabled W'" and "next_tid W' < kMaxThreads" and "delivered W' = delivered W"
    and "shadow_buffers W' = shadow_buffers W"
  shows "frame_ok W W'"
  using assms by (simp add: frame_ok_def shadows_shrink_same)

lemma frame_finish:
  assumes "enabled W" and "next_tid W < kMaxThreads"
  shows "frame_ok W (ThreadFinish t W)"
proof (cases "t < kMaxThreads")
  case True
  with assms show ?thesis by (intro frame_okI) (simp_all add: ThreadFinish_sel)
next
  case False
  with assms show ?thesis by (intro frame_okI) (simp_all add: ThreadFinish_skip)
qed

lemma frame_step:
  assumes e: "enabled W" and nt: "next_tid W < kMaxThreads"
    and x: "exec x (W, T) = Inr (W', T')" and na: "\<not> is_access x"
  shows "frame_ok W W'"
proof (cases x)
  case (Create p)
  with ThreadCreate_eq [OF nt, of p] x e show ?thesis by (intro frame_okI) auto
next
  case (Finish t)
  with frame_finish [OF e nt, of t] x show ?thesis by simp
next
  case (Remove bs)
  with shadows_shrink_remove [OF e, of bs] e nt x show ?thesis
    by (auto simp: frame_ok_def RemoveShadow_def)
next
  case (Clear bs off n)
  with shadows_shrink_clear [OF e, of bs off n] e nt x show ?thesis
    by (auto simp: frame_ok_def ClearShadow_def split: option.splits)
qed (use x na e nt in \<open>auto simp: step_defs IncrementSuppressedCount_def intro!: frame_okI split: option.splits if_splits\<close>)

lemma hist_step: "\<not> is_access x \<Longrightarrow> hist (hstep x W G) = hist G"
  by (cases x) (auto simp: learn_def tell_def)

subsection \<open>An access\<close>

lemma report_race_delivered:
  "delivered (fst (report_race bs r (W, T))) = delivered W \<or>
   delivered (fst (report_race bs r (W, T))) = delivered W @ [r]"
  by (simp add: report_race_def Let_def)

definition same_clocks :: "WebTSan \<Rightarrow> WebTSan \<Rightarrow> bool" where
  "same_clocks W W' \<longleftrightarrow> enabled W' = enabled W \<and> next_tid W' = next_tid W \<and>
     thread_clocks W' = thread_clocks W \<and> thread_alive W' = thread_alive W \<and>
     sync_clocks W' = sync_clocks W \<and> hb_edges W' = hb_edges W \<and> orphan_clock W' = orphan_clock W"

lemma MemoryAccess_run:
  assumes "enabled W" and "MemoryAccess bs len off n t w (W, T) = Inr (W', T')"
  shows "same_clocks W W' \<and>
    (shadow_buffers W' = shadow_buffers W \<and> delivered W' = delivered W \<or>
     (\<exists>sb res sb'. t < kMaxThreads \<and>
        (shadow_buffers W bs = Some sb \<or> shadow_buffers W bs = None \<and> sb = new_ShadowBuffer bs len) \<and>
        RecordAccess off n t w (thread_clocks W t) sb = (res, sb') \<and>
        shadow_buffers W' = (shadow_buffers W)(bs \<mapsto> sb') \<and>
        (delivered W' = delivered W \<or> (\<exists>r. res = Some r \<and> delivered W' = delivered W @ [r]))))"
proof -
  let ?W1 = "W\<lparr>accesses_checked := accesses_checked W + 1\<rparr>"
  show ?thesis
  proof (cases "lookup_shadow bs len ?W1")
    case None
    with assms show ?thesis by (auto simp: MemoryAccess_def same_clocks_def Let_def)
  next
    case (Some p)
    then obtain sb W2 where p: "lookup_shadow bs len ?W1 = Some (sb, W2)" by (cases p) auto
    then have sb: "shadow_buffers W bs = Some sb \<or> shadow_buffers W bs = None \<and> sb = new_ShadowBuffer bs len"
      and W2: "same_clocks W W2" "delivered W2 = delivered W"
        "(shadow_buffers W2)(bs \<mapsto> x) = (shadow_buffers W)(bs \<mapsto> x)" for x
      by (auto simp: lookup_shadow_def GetOrCreateShadow_def Let_def same_clocks_def
          split: option.splits if_splits)
    obtain res sb' where R: "RecordAccess off n t w (thread_clocks W t) sb = (res, sb')"
      by (cases "RecordAccess off n t w (thread_clocks W t) sb")
    let ?W3 = "W2\<lparr>shadow_buffers := (shadow_buffers W2)(bs \<mapsto> sb')\<rparr>"
    have clk: "thread_clocks W2 = thread_clocks W" using W2(1) by (simp add: same_clocks_def)
    from assms p have t: "t < kMaxThreads"
      by (cases "t < kMaxThreads") (auto simp: MemoryAccess_def Let_def index_tid_def)
    with assms p R clk have out: "(W', T') = (case res of None \<Rightarrow> (?W3, T) | Some r \<Rightarrow> report_race bs r (?W3, T))"
      by (cases res) (auto simp: MemoryAccess_def Let_def index_tid_def)
    show ?thesis
    proof (cases res)
      case None
      with out W2 have "same_clocks W W'" "shadow_buffers W' = (shadow_buffers W)(bs \<mapsto> sb')"
        "delivered W' = delivered W" by (simp_all add: same_clocks_def)
      with t sb R show ?thesis by blast
    next
      case (Some r)
      with out have W': "W' = fst (report_race bs r (?W3, T))" by (metis fst_conv option.simps(5))
      with W2 have "same_clocks W W'" "shadow_buffers W' = (shadow_buffers W)(bs \<mapsto> sb')"
        by (simp_all add: same_clocks_def)
      moreover have "delivered W' = delivered W \<or> delivered W' = delivered W @ [r]"
        using report_race_delivered [of bs r ?W3 T] W' W2(2) by simp
      ultimately show ?thesis using t sb R Some by blast
    qed
  qed
qed

text \<open>Every valid cell holds an access of the history; every delivered report is a race of it.\<close>

definition from_event :: "event \<Rightarrow> addr \<Rightarrow> nat \<Rightarrow> ShadowCell \<Rightarrow> bool" where
  "from_event e bs b cell \<longleftrightarrow> ev_bs e = bs \<and> ev_off e \<le> b \<and> b < ev_off e + ev_size e \<and>
     ev_tid e = sc_tid cell \<and> ev_write e = sc_is_write cell \<and> ev_epoch e = sc_epoch cell"

definition cells_ok :: "event list \<Rightarrow> (addr \<rightharpoonup> ShadowBuffer) \<Rightarrow> bool" where
  "cells_ok H sbs \<longleftrightarrow> (\<forall>bs sb. sbs bs = Some sb \<longrightarrow> sb_backing_store sb = bs \<and>
     (\<forall>b c. c < kShadowCellsPerByte \<longrightarrow> sc_valid (cell_at sb b c) \<longrightarrow>
        (\<exists>i < length H. from_event (H ! i) bs b (cell_at sb b c))))"

definition reports_ok :: "event list \<Rightarrow> RaceReport list \<Rightarrow> bool" where
  "reports_ok H rs \<longleftrightarrow>
     (\<forall>r \<in> set rs. \<exists>i j. hb_race H i j (sab_offset r) \<and> report_of H i j r)"

lemma cells_ok_append: "cells_ok H sbs \<Longrightarrow> cells_ok (H @ [e]) sbs"
  by (fastforce simp: cells_ok_def nth_append)

lemma hb_race_append: "hb_race H i j b \<Longrightarrow> hb_race (H @ [e]) i j b"
  by (simp add: hb_race_def nth_append)

lemma reports_ok_append:
  assumes "reports_ok H rs"
  shows "reports_ok (H @ [e]) rs"
proof -
  have "report_of (H @ [e]) i j r" if "hb_race H i j b" "report_of H i j r" for i j b r
    using that by (auto simp: hb_race_def report_of_def nth_append)
  with assms hb_race_append show ?thesis unfolding reports_ok_def by blast
qed

lemma cells_ok_shrink:
  assumes "cells_ok H (shadow_buffers W)" and "shadows_shrink W W'"
  shows "cells_ok H (shadow_buffers W')"
  unfolding cells_ok_def
proof (intro allI impI)
  fix bs sb'
  assume "shadow_buffers W' bs = Some sb'"
  with assms(2) obtain sb where sb: "shadow_buffers W bs = Some sb"
    "sb_backing_store sb' = sb_backing_store sb"
    and cell: "c < kShadowCellsPerByte \<Longrightarrow> sc_valid (cell_at sb' b c) \<Longrightarrow> cell_at sb' b c = cell_at sb b c" for b c
    unfolding shadows_shrink_def by blast
  from assms(1) sb have "sb_backing_store sb' = bs"
    and held: "c < kShadowCellsPerByte \<Longrightarrow> sc_valid (cell_at sb b c) \<Longrightarrow>
      \<exists>i < length H. from_event (H ! i) bs b (cell_at sb b c)" for b c
    by (simp_all add: cells_ok_def)
  moreover have "\<exists>i < length H. from_event (H ! i) bs b (cell_at sb' b c)"
    if "c < kShadowCellsPerByte" "sc_valid (cell_at sb' b c)" for b c
    using that cell [OF that] held [of c b] by simp
  ultimately show "sb_backing_store sb' = bs \<and> (\<forall>b c. c < kShadowCellsPerByte \<longrightarrow>
      sc_valid (cell_at sb' b c) \<longrightarrow> (\<exists>i < length H. from_event (H ! i) bs b (cell_at sb' b c)))"
    by blast
qed

lemma RecordAccess_backing_store:
  assumes "off + n \<le> 18446744073709551616" and "RecordAccess off n t w clk sb = (Some r, sb')"
  shows "sab_backing_store r = sb_backing_store sb"
proof -
  have "race_report sb t w clk r"
    using record_loop_Some [of off n t w clk sb r sb'] assms by (simp add: RecordAccess_def)
  then obtain c where "r = make_report sb (sab_offset r) (cell_at sb (sab_offset r) c) t w clk"
    by (auto simp: race_report_def)
  then have "sab_backing_store r =
      sab_backing_store (make_report sb (sab_offset r) (cell_at sb (sab_offset r) c) t w clk)"
    by (rule arg_cong)
  then show ?thesis by (simp add: make_report_def)
qed

text \<open>Each cell after an access is an old one or holds the access itself, at a byte of its range.\<close>

lemma RecordAccess_cells:
  assumes "off + n \<le> 18446744073709551616" and "RecordAccess off n t w clk sb = (res, sb')"
    and "c < kShadowCellsPerByte"
  shows "cell_at sb' b c = cell_at sb b c \<or>
    off \<le> b \<and> b < off + n \<and> cell_at sb' b c = access_cell t w clk"
proof (cases res)
  case None
  with paged.silent_view [OF assms(1) _ assms(3), of t w clk sb sb' b] assms(2) show ?thesis by simp
next
  case (Some r)
  with paged.reported_view [OF assms(1) _ assms(3), of t w clk sb r sb' b]
    paged.reported [OF assms(1), of t w clk sb r sb'] assms(2) show ?thesis by auto
qed

lemma cells_ok_record:
  assumes ok: "cells_ok H sbs" and bnd: "off + n \<le> 18446744073709551616"
    and R: "RecordAccess off n t w clk sb = (res, sb')"
    and sb: "sbs bs = Some sb \<or> sbs bs = None \<and> sb = new_ShadowBuffer bs len"
    and e: "ev_bs e = bs" "ev_tid e = t" "ev_write e = w" "ev_off e = off" "ev_size e = n"
      "ev_epoch e = Get clk t"
  shows "cells_ok (H @ [e]) (sbs(bs \<mapsto> sb'))"
proof -
  have bs: "sb_backing_store sb = bs"
    using sb ok by (auto simp: cells_ok_def new_ShadowBuffer_def)
  have old: "\<exists>i < length H. from_event (H ! i) bs b (cell_at sb b c)"
    if "c < kShadowCellsPerByte" "sc_valid (cell_at sb b c)" for b c
    using sb ok that
    by (auto simp: cells_ok_def new_ShadowBuffer_def cell_at_def default_cell_def)
  have "\<exists>i < length (H @ [e]). from_event ((H @ [e]) ! i) bs b (cell_at sb' b c)"
    if c: "c < kShadowCellsPerByte" and v: "sc_valid (cell_at sb' b c)" for b c
    using RecordAccess_cells [OF bnd R c, of b]
  proof
    assume same: "cell_at sb' b c = cell_at sb b c"
    with old [OF c] v obtain i where "i < length H" "from_event (H ! i) bs b (cell_at sb' b c)"
      by auto
    then show ?thesis by (intro exI [of _ i]) (simp add: nth_append)
  next
    assume "off \<le> b \<and> b < off + n \<and> cell_at sb' b c = access_cell t w clk"
    then show ?thesis
      using e by (intro exI [of _ "length H"]) (simp add: from_event_def access_cell_def)
  qed
  moreover have "sb_backing_store sb' = bs" using RecordAccess_frame(1) [OF R] bs by simp
  ultimately show ?thesis
    using cells_ok_append [OF ok, of e] by (simp add: cells_ok_def)
qed

text \<open>The heart of soundness: the racing cell's access is unknown to the accessing thread.\<close>

lemma report_is_race:
  assumes bnd: "off + n \<le> 18446744073709551616"
    and R: "RecordAccess off n t w clk sb = (Some r, sb')"
    and bs: "sb_backing_store sb = bs"
    and old: "\<And>b c. c < kShadowCellsPerByte \<Longrightarrow> sc_valid (cell_at sb b c) \<Longrightarrow>
      \<exists>i < length H. from_event (H ! i) bs b (cell_at sb b c)"
    and k: "known m H (ev_before e) clk"
    and e: "ev_bs e = bs" "ev_tid e = t" "ev_write e = w" "ev_off e = off" "ev_size e = n"
      "ev_epoch e = Get clk t"
  shows "\<exists>i. hb_race (H @ [e]) i (length H) (sab_offset r) \<and> report_of (H @ [e]) i (length H) r"
proof -
  from paged.reported [OF bnd R] obtain c where c: "c < kShadowCellsPerByte"
    and racy: "racy (cell_at sb (sab_offset r) c) t w clk"
    and r: "off \<le> sab_offset r" "sab_offset r < off + n" "tid2 r = t" "is_write2 r = w"
      "epoch2 r = Get clk t" "tid1 r = sc_tid (cell_at sb (sab_offset r) c)"
      "is_write1 r = sc_is_write (cell_at sb (sab_offset r) c)"
      "epoch1 r = sc_epoch (cell_at sb (sab_offset r) c)"
    by (auto simp: Let_def)
  from racy have cell: "sc_valid (cell_at sb (sab_offset r) c)" "sc_tid (cell_at sb (sab_offset r) c) \<noteq> t"
    "sc_is_write (cell_at sb (sab_offset r) c) \<or> w"
    "Get clk (sc_tid (cell_at sb (sab_offset r) c)) < sc_epoch (cell_at sb (sab_offset r) c)"
    by (auto simp: racy_def split: if_splits)
  from old [OF c cell(1)] obtain i where i: "i < length H"
    "from_event (H ! i) bs (sab_offset r) (cell_at sb (sab_offset r) c)" by blast
  have "i \<notin> ev_before e"
    using k i(2) cell(4)
    by (intro vc.not_covered [where who = "\<lambda>i. ev_tid (H ! i)" and stamp = "\<lambda>i. ev_epoch (H ! i)"])
      (simp_all add: known_def from_event_def)
  then have "hb_race (H @ [e]) i (length H) (sab_offset r)"
    using i cell r e by (simp add: hb_race_def from_event_def nth_append)
  moreover have "report_of (H @ [e]) i (length H) r"
    using i r e RecordAccess_backing_store [OF bnd R] bs
    by (simp add: report_of_def from_event_def nth_append)
  ultimately show ?thesis by blast
qed

subsection \<open>The simulation\<close>

fun op_ok :: "op \<Rightarrow> bool" where
  "op_ok (Access bs len off n t w) = (off + n \<le> 18446744073709551616)"
| "op_ok _ = True"

definition sim :: "nat \<Rightarrow> (WebTSan \<times> tls) \<times> hb \<Rightarrow> bool" where
  "sim n S \<longleftrightarrow> (let ((W, T), G) = S in
     enabled W \<and> next_tid W < kMaxThreads \<and> causal n W G \<and>
     cells_ok (hist G) (shadow_buffers W) \<and> reports_ok (hist G) (delivered W))"

lemma causal_access:
  assumes "causal n W G" and "same_clocks W W'"
  shows "causal (Suc n) W' (hstep (Access bs len off m t w) W G)"
proof -
  have known: "known (Suc n) (hist G @ [mk_event W G bs off m t w]) S c" if "known n (hist G) S c" for S c
    using that by (intro known_append known_Suc)
  have own: "known (Suc n) (hist G @ [mk_event W G bs off m t w])
      (insert (length (hist G)) (know G t)) (thread_clocks W t)" if "t < kMaxThreads"
    using that causalD(1) [OF assms(1), of t]
    by (intro known_access known_Suc) (simp_all add: mk_event_def)
  show ?thesis
    using assms known own
    by (auto simp: causal_def same_clocks_def sync_clock_def edge_clock_def)
qed

lemma sim_access:
  assumes sim: "sim n ((W, T), G)" and bnd: "off + m \<le> 18446744073709551616"
    and x: "MemoryAccess bs len off m t w (W, T) = Inr (W', T')"
  shows "sim (Suc n) ((W', T'), hstep (Access bs len off m t w) W G)"
proof -
  from sim have e: "enabled W" and nt: "next_tid W < kMaxThreads" and c: "causal n W G"
    and cells: "cells_ok (hist G) (shadow_buffers W)" and reps: "reports_ok (hist G) (delivered W)"
    by (simp_all add: sim_def)
  let ?e = "mk_event W G bs off m t w"
  let ?H = "hist G @ [?e]"
  have ev: "ev_bs ?e = bs" "ev_tid ?e = t" "ev_write ?e = w" "ev_off ?e = off" "ev_size ?e = m"
    "ev_epoch ?e = Get (thread_clocks W t) t" "ev_before ?e = know G t"
    by (simp_all add: mk_event_def)
  from MemoryAccess_run [OF e x] have same: "same_clocks W W'"
    and out: "shadow_buffers W' = shadow_buffers W \<and> delivered W' = delivered W \<or>
     (\<exists>sb res sb'. t < kMaxThreads \<and>
        (shadow_buffers W bs = Some sb \<or> shadow_buffers W bs = None \<and> sb = new_ShadowBuffer bs len) \<and>
        RecordAccess off m t w (thread_clocks W t) sb = (res, sb') \<and>
        shadow_buffers W' = (shadow_buffers W)(bs \<mapsto> sb') \<and>
        (delivered W' = delivered W \<or> (\<exists>r. res = Some r \<and> delivered W' = delivered W @ [r])))"
    by blast+
  have "cells_ok ?H (shadow_buffers W') \<and> reports_ok ?H (delivered W')"
    using out
  proof (rule disjE)
    assume "shadow_buffers W' = shadow_buffers W \<and> delivered W' = delivered W"
    then show ?thesis using cells_ok_append [OF cells] reports_ok_append [OF reps] by simp
  next
    assume "\<exists>sb res sb'. t < kMaxThreads \<and>
        (shadow_buffers W bs = Some sb \<or> shadow_buffers W bs = None \<and> sb = new_ShadowBuffer bs len) \<and>
        RecordAccess off m t w (thread_clocks W t) sb = (res, sb') \<and>
        shadow_buffers W' = (shadow_buffers W)(bs \<mapsto> sb') \<and>
        (delivered W' = delivered W \<or> (\<exists>r. res = Some r \<and> delivered W' = delivered W @ [r]))"
    then obtain sb res sb' where t: "t < kMaxThreads"
      and sb: "shadow_buffers W bs = Some sb \<or> shadow_buffers W bs = None \<and> sb = new_ShadowBuffer bs len"
      and R: "RecordAccess off m t w (thread_clocks W t) sb = (res, sb')"
      and W': "shadow_buffers W' = (shadow_buffers W)(bs \<mapsto> sb')"
      and del: "delivered W' = delivered W \<or> (\<exists>r. res = Some r \<and> delivered W' = delivered W @ [r])"
      by blast
    have "cells_ok ?H (shadow_buffers W')"
      unfolding W' by (rule cells_ok_record [OF cells bnd R sb]) (simp_all add: ev)
    moreover have "reports_ok ?H (delivered W')"
      using del
    proof (elim disjE exE conjE, goal_cases)
      case 1
      then show ?thesis using reports_ok_append [OF reps] by simp
    next
      case r: (2 r)
      have held: "sb_backing_store sb = bs"
        "\<And>b c. c < kShadowCellsPerByte \<Longrightarrow> sc_valid (cell_at sb b c) \<Longrightarrow>
           \<exists>i < length (hist G). from_event (hist G ! i) bs b (cell_at sb b c)"
        using sb cells by (auto simp: cells_ok_def new_ShadowBuffer_def cell_at_def default_cell_def)
      have "known n (hist G) (ev_before ?e) (thread_clocks W t)"
        using causalD(1) [OF c t] by (simp add: ev)
      from report_is_race [OF bnd R [unfolded r] held this ev(1-6)] reports_ok_append [OF reps, of ?e]
      show ?thesis unfolding r reports_ok_def by auto
    qed
    ultimately show ?thesis by blast
  qed
  with causal_access [OF c same] e nt same show ?thesis
    by (simp add: sim_def same_clocks_def)
qed

lemma sim_step:
  assumes sim: "sim n S" and n: "n < UINT64_MAX" and ok: "op_ok x" and x: "step x S = Inr S'"
  shows "sim (Suc n) S'"
proof -
  obtain W T G where S: "S = ((W, T), G)" by (metis prod.collapse)
  from x S obtain W' T' where x': "exec x (W, T) = Inr (W', T')" and S': "S' = ((W', T'), hstep x W G)"
    by (auto simp: step_def elim!: bindE_InrE)
  show ?thesis
  proof (cases "is_access x")
    case True
    then obtain bs len off m t w where "x = Access bs len off m t w" by (cases x) auto
    with sim_access [of n W T G off m bs len t w W' T'] sim ok x' S S' show ?thesis by simp
  next
    case False
    from sim S have *: "enabled W" "next_tid W < kMaxThreads" "causal n W G"
      "cells_ok (hist G) (shadow_buffers W)" "reports_ok (hist G) (delivered W)"
      by (simp_all add: sim_def)
    from frame_step [OF *(1,2) x' False] have "enabled W'" "next_tid W' < kMaxThreads"
      "delivered W' = delivered W" "shadows_shrink W W'" by (simp_all add: frame_ok_def)
    with * causal_step [OF *(3,1,2) n x' False] cells_ok_shrink hist_step [OF False]
    show ?thesis unfolding S' sim_def by simp
  qed
qed

lemma sim_run:
  assumes "sim n S" and "n + length xs \<le> UINT64_MAX" and "list_all op_ok xs"
    and "runE step xs S = Inr S'"
  shows "sim (n + length xs) S'"
  using assms
proof (induction xs arbitrary: n S)
  case Nil
  then show ?case by simp
next
  case (Cons x xs)
  then obtain S1 where S1: "step x S = Inr S1" "runE step xs S1 = Inr S'"
    by (auto elim: bindE_InrE)
  have "sim (Suc n) S1" using Cons.prems S1 by (intro sim_step [OF _ _ _ S1(1)]) auto
  from Cons.IH [OF this _ _ S1(2)] Cons.prems show ?case by simp
qed

definition started :: WebTSan where
  "started = SetRaceCallback True (Enable new_WebTSan)"

lemma sim_started: "sim 0 ((started, init_tls), init_hb)"
  by (simp add: sim_def started_def SetRaceCallback_def Enable_def new_WebTSan_def init_hb_def
      causal_def sync_clock_def edge_clock_def cells_ok_def reports_ok_def)

subsection \<open>Soundness\<close>

lemma reports_are_races:
  assumes "runE exec ops (started, init_tls) = Inr (W, T)" and "length ops \<le> UINT64_MAX"
    and "list_all op_ok ops" and "r \<in> set (delivered W)"
  shows "\<exists>G. runE step ops ((started, init_tls), init_hb) = Inr ((W, T), G) \<and>
    (\<exists>i j. hb_race (hist G) i j (sab_offset r) \<and> report_of (hist G) i j r)"
proof -
  from exec_runE_step [OF assms(1)] obtain G
    where G: "runE step ops ((started, init_tls), init_hb) = Inr ((W, T), G)" by blast
  from sim_run [OF sim_started _ assms(3) G] assms(2) have "reports_ok (hist G) (delivered W)"
    by (simp add: sim_def)
  with assms(4) G show ?thesis by (auto simp: reports_ok_def)
qed


definition demo_ops :: "op list" where
  "demo_ops = [Create UINT32_MAX, Create UINT32_MAX, Access 4096 64 8 1 0 True, Access 4096 64 8 1 1 True]"

definition demo_started :: WebTSan where
  "demo_started = started\<lparr>thread_alive := (\<lambda>_. False)(0 := True, 1 := True), next_tid := 2,
     thread_clocks := (\<lambda>_. empty_clock)(0 := Increment 0 (Join empty_clock empty_clock),
       1 := Increment 1 (Join empty_clock empty_clock))\<rparr>"

lemma demo_creates:
  "runE exec [Create UINT32_MAX, Create UINT32_MAX] (started, init_tls) =
     Inr (demo_started, init_tls)"
  by (simp add: demo_started_def ThreadCreate_def find_slot_next started_def SetRaceCallback_def Enable_def
      new_WebTSan_def Let_def join_thread_def tick_thread_def kMaxThreads_def)

lemma demo_accesses:
  "\<exists>W T r. runE exec [Access 4096 64 8 1 0 True, Access 4096 64 8 1 1 True]
     (demo_started, init_tls) = Inr (W, T) \<and> delivered W = [r]"
  by (simp add: demo_started_def started_def SetRaceCallback_def Enable_def new_WebTSan_def Let_def
      MemoryAccess_def lookup_shadow_def GetOrCreateShadow_def index_tid_def kMaxThreads_def
      RecordAccess_def new_ShadowBuffer_def record_byte_def GetOrCreatePage_def racy_def
      new_ShadowPage_def default_cell_def report_race_def
      PageIndex_def InPageOffset_def InPageShadowIndex_def shadow_consts 
      cells_list [unfolded kShadowCellsPerByte_def])


subsection \<open>Exactness for locks and atomics\<close>

text \<open>
  \<open>lock_op k\<close>: an operation of one of the threads \<open>0..<k\<close> that synchronises only through locks and
  atomics. Every release ticks the releaser, so a clock that has reached an epoch of another
  thread has received a release that came after every access of that epoch.
\<close>

fun lock_op :: "nat \<Rightarrow> op \<Rightarrow> bool" where
  "lock_op k (Acq t a) = (t < k)"
| "lock_op k (Rel t a) = (t < k)"
| "lock_op k (MCreate a) = True"
| "lock_op k (MDestroy a) = True"
| "lock_op k (MPreLock t a) = True"
| "lock_op k (MLock t a) = (t < k)"
| "lock_op k (MUnlock t a) = (t < k)"
| "lock_op k (MReadLock t a) = (t < k)"
| "lock_op k (MReadUnlock t a) = True"
| "lock_op k (Access bs len off n t w) = (t < k)"
| "lock_op k (Remove bs) = True"
| "lock_op k (Clear bs off n) = True"
| "lock_op k Count = True"
| "lock_op k _ = False"

definition complete :: "event list \<Rightarrow> nat set \<Rightarrow> vclock \<Rightarrow> bool" where
  "complete H S c \<longleftrightarrow> (\<forall>i < length H. ev_epoch (H ! i) \<le> Get c (ev_tid (H ! i)) \<longrightarrow> i \<in> S)"

lemma complete_join: "complete H S c \<Longrightarrow> complete H S' c' \<Longrightarrow> complete H (S \<union> S') (Join c c')"
  by (auto simp: complete_def le_max_iff_disj)

lemma complete_append:
  assumes "complete H S c" and "S \<subseteq> S'" and "ev_epoch e \<le> Get c (ev_tid e) \<longrightarrow> length H \<in> S'"
  shows "complete (H @ [e]) S' c"
  using assms by (auto simp: complete_def nth_append less_Suc_eq)

definition ahead :: "nat \<Rightarrow> WebTSan \<Rightarrow> bool" where
  "ahead k W \<longleftrightarrow> (\<forall>t < k.
     (\<forall>u < k. u \<noteq> t \<longrightarrow> Get (thread_clocks W u) t < Get (thread_clocks W t) t) \<and>
     (\<forall>a. Get (sync_clock W a) t < Get (thread_clocks W t) t))"

definition exact :: "nat \<Rightarrow> WebTSan \<Rightarrow> hb \<Rightarrow> bool" where
  "exact k W G \<longleftrightarrow>
     (\<forall>t < k. complete (hist G) (know G t) (thread_clocks W t)) \<and>
     (\<forall>a. complete (hist G) (ksync G a) (sync_clock W a)) \<and>
     (\<forall>i < length (hist G). ev_tid (hist G ! i) < k \<and> i \<in> know G (ev_tid (hist G ! i))) \<and>
     ahead k W"

lemma exact_cong:
  assumes "exact k W G" and "thread_clocks W' = thread_clocks W" and "sync_clocks W' = sync_clocks W"
  shows "exact k W' G"
  using assms by (simp add: exact_def ahead_def sync_clock_def)

lemma exact_learn:
  assumes "exact k W G" and "t < k"
  shows "exact k (join_thread t (sync_clock W a) W) (learn t (ksync G a) G)"
  using assms unfolding exact_def ahead_def
  by (auto simp: learn_def complete_join)

lemma exact_acquire:
  assumes "exact k W G" and "t < k"
  shows "exact k (case sync_clocks W a of None \<Rightarrow> W | Some c \<Rightarrow> join_thread t c W)
           (learn t (ksync G a) G)"
proof (cases "sync_clocks W a")
  case None
  then have "Join (thread_clocks W t) (sync_clock W a) = thread_clocks W t"
    by (intro vclock_eqI) (simp add: sync_clock_def)
  then have "thread_clocks (join_thread t (sync_clock W a) W) = thread_clocks W" by auto
  with exact_cong [OF exact_learn [OF assms, of a], of W] None show ?thesis by simp
next
  case (Some c)
  with exact_learn [OF assms, of a] show ?thesis by (simp add: sync_clock_def)
qed

lemma complete_inc:
  assumes "complete H S c" and "\<forall>i < length H. ev_tid (H ! i) = t \<longrightarrow> i \<in> S"
  shows "complete H S (Increment t c)"
  using assms by (auto simp: complete_def split: if_splits)

lemma exact_publish:
  assumes ex: "exact k W G" and t: "t < k" and k: "k \<le> kMaxThreads"
    and room: "has_room (thread_clocks W t) t"
  shows "exact k (publish t a W) (tell t a G)"
proof -
  let ?c = "thread_clocks W t"
  have sync: "sync_clock (publish t a W) b =
      (if b = a then Join (sync_clock W a) ?c else sync_clock W b)" for b
    by (simp add: sync_clock_def)
  have inc: "Get ?c t < Get (Increment t ?c) t"
    using room t k by (simp add: has_room_def inc_greater)
  from ex have at: "\<forall>t < k. complete (hist G) (know G t) (thread_clocks W t)"
    and as: "\<forall>a. complete (hist G) (ksync G a) (sync_clock W a)"
    and own: "\<forall>i < length (hist G). ev_tid (hist G ! i) < k \<and> i \<in> know G (ev_tid (hist G ! i))"
    and ah: "ahead k W"
    by (simp_all add: exact_def)
  have "\<forall>u < k. complete (hist G) (know G u) (thread_clocks (publish t a W) u)"
    using at own t by (auto intro: complete_inc)
  moreover have "\<forall>b. complete (hist G) (ksync (tell t a G) b) (sync_clock (publish t a W) b)"
    using as at t by (auto simp: sync tell_def intro: complete_join)
  moreover have "ahead k (publish t a W)"
  proof -
    have others: "Get (thread_clocks W u) v < Get (thread_clocks W v) v" if "u < k" "v < k" "u \<noteq> v" for u v
      using ah that by (auto simp: ahead_def)
    have syncs: "Get (sync_clock W b) v < Get (thread_clocks W v) v" if "v < k" for b v
      using ah that by (auto simp: ahead_def)
    have "Get (thread_clocks W u) t < Get (Increment t ?c) t" if "u < k" "u \<noteq> t" for u
      using others [OF that(1) t that(2)] inc by (rule less_trans)
    moreover have "Get (sync_clock W b) t < Get (Increment t ?c) t" for b
      using syncs [OF t] inc by (rule less_trans)
    ultimately show ?thesis
      unfolding ahead_def sync using others syncs inc t k by auto
  qed
  ultimately show ?thesis using own by (simp add: exact_def tell_def)
qed

lemma exact_erase:
  assumes "exact k W G" and "\<forall>i < length (hist G). 0 < ev_epoch (hist G ! i)"
    and "\<forall>t < k. 0 < Get (thread_clocks W t) t"
  shows "exact k (W\<lparr>sync_clocks := (sync_clocks W)(a := None)\<rparr>) (G\<lparr>ksync := (ksync G)(a := {})\<rparr>)"
  using assms by (auto simp: exact_def ahead_def complete_def sync_clock_def)

lemma exact_access:
  assumes ex: "exact k W G" and same: "same_clocks W W'" and t: "t < k"
  shows "exact k W' (hstep (Access bs len off m t w) W G)"
proof -
  let ?e = "mk_event W G bs off m t w"
  have ev: "ev_tid ?e = t" "ev_epoch ?e = Get (thread_clocks W t) t" by (simp_all add: mk_event_def)
  from ex t have ah: "\<And>u. u < k \<Longrightarrow> u \<noteq> t \<Longrightarrow> Get (thread_clocks W u) t < Get (thread_clocks W t) t"
    "\<And>a. Get (sync_clock W a) t < Get (thread_clocks W t) t"
    by (auto simp: exact_def ahead_def)
  have "complete (hist G @ [?e]) (know G u) (thread_clocks W u)" if "u < k" "u \<noteq> t" for u
    using ex that ah(1) [OF that] by (intro complete_append) (auto simp: exact_def ev)
  moreover have "complete (hist G @ [?e]) (insert (length (hist G)) (know G t)) (thread_clocks W t)"
    using ex t by (intro complete_append [where S = "know G t"]) (auto simp: exact_def)
  moreover have "complete (hist G @ [?e]) (ksync G a) (sync_clock W a)" for a
    using ex ah(2) [of a] by (intro complete_append) (auto simp: exact_def ev)
  moreover have "ev_tid ((hist G @ [?e]) ! i) < k \<and>
      i \<in> ((know G)(t := insert (length (hist G)) (know G t))) (ev_tid ((hist G @ [?e]) ! i))"
    if "i < length (hist G @ [?e])" for i
    using ex t that by (auto simp: exact_def nth_append less_Suc_eq ev)
  ultimately have "exact k W (hstep (Access bs len off m t w) W G)"
    using ex by (simp add: exact_def)
  then show ?thesis by (rule exact_cong) (use same in \<open>simp_all add: same_clocks_def\<close>)
qed

text \<open>Epochs of live threads are positive, so an erased sync clock covers no access.\<close>

definition positive :: "nat \<Rightarrow> WebTSan \<Rightarrow> hb \<Rightarrow> bool" where
  "positive k W G \<longleftrightarrow> (\<forall>t < k. 0 < Get (thread_clocks W t) t) \<and>
     (\<forall>i < length (hist G). 0 < ev_epoch (hist G ! i))"

lemma less_le_max: "x < a \<Longrightarrow> x < max a b" for x :: "'a::linorder"
  by (simp add: less_max_iff_disj)

lemma exact_step:
  assumes ex: "exact k W G" and pos: "positive k W G" and k: "k \<le> kMaxThreads"
    and e: "enabled W" and c: "causal n W G" and n: "n < UINT64_MAX"
    and x: "exec x (W, T) = Inr (W', T')" and lk: "lock_op k x"
  shows "exact k W' (hstep x W G) \<and> positive k W' (hstep x W G)"
proof -
  have room: "has_room (thread_clocks W t) t" if "t < k" for t
    using causalD(1) [OF c, of t] that k n by (auto simp: known_def has_room_def intro: le_less_trans)
  have lt: "t < kMaxThreads" if "t < k" for t using that k by simp
  have acq: "exact k W2 (learn t (ksync G a) G) \<and> positive k W2 (learn t (ksync G a) G)"
    if "t < k" "W2 = (case sync_clocks W a of None \<Rightarrow> W | Some c \<Rightarrow> join_thread t c W)" for t a W2
    using exact_acquire [OF ex that(1), of a] pos that
    by (auto simp: positive_def learn_def less_le_max split: option.splits)
  have pub: "exact k (publish t a W) (tell t a G) \<and> positive k (publish t a W) (tell t a G)"
    if "t < k" for t a
    using exact_publish [OF ex that k room [OF that], of a] pos
      inc_greater [of "Get (thread_clocks W t) t"] room [OF that]
    by (auto simp: positive_def tell_def has_room_def intro: less_trans)
  show ?thesis
  proof (cases x)
    case (Acq t a)
    with lk acq [of t _ a] x e lt [of t] show ?thesis
      by (auto simp: Acquire_def bindE_eq_Inr split: option.splits)
  next
    case (MLock t a)
    with lk acq [of t _ a] x e lt [of t] show ?thesis by (auto simp: MutexPostLock_def)
  next
    case (MReadLock t a)
    with lk acq [of t _ a] x e lt [of t] show ?thesis by (auto simp: MutexReadLock_def)
  next
    case (Rel t a)
    with lk pub [of t a] x e lt [of t] show ?thesis by (auto simp: Release_def bindE_eq_Inr)
  next
    case (MUnlock t a)
    with lk pub [of t a] x e lt [of t] show ?thesis by (auto simp: MutexUnlock_def)
  next
    case (MCreate a)
    with exact_erase [OF ex, of a] pos x e show ?thesis by (auto simp: positive_def MutexCreate_def)
  next
    case (MDestroy a)
    with exact_erase [OF ex, of a] pos x e show ?thesis by (auto simp: positive_def MutexDestroy_def)
  next
    case (Access bs len off m t w)
    with MemoryAccess_run [OF e] x have "same_clocks W W'" by (metis exec.simps(18))
    with exact_access [OF ex this] pos Access lk show ?thesis
      by (auto simp: positive_def same_clocks_def mk_event_def nth_append less_Suc_eq)
  next
    case (Remove bs)
    with exact_cong [OF ex] pos x e show ?thesis
      by (auto simp: positive_def RemoveShadow_def)
  next
    case (Clear bs off m)
    with exact_cong [OF ex] pos x e show ?thesis
      by (auto simp: positive_def ClearShadow_def split: option.splits)
  next
    case Count
    with exact_cong [OF ex] pos x show ?thesis by (auto simp: positive_def IncrementSuppressedCount_def)
  qed (use x lk ex pos in \<open>auto simp: MutexPreLock_def MutexReadUnlock_def\<close>)
qed

text \<open>Threads created before the run, without parents: their clocks start apart.\<close>

definition spawn :: "nat \<Rightarrow> op list" where
  "spawn k = replicate k (Create UINT32_MAX)"

definition spawned :: "nat \<Rightarrow> WebTSan" where
  "spawned k = started\<lparr>thread_alive := (\<lambda>t. t < k), next_tid := k mod kMaxThreads,
     thread_clocks := (\<lambda>t. if t < k then Increment t empty_clock else empty_clock)\<rparr>"

lemma ThreadCreate_spawned:
  assumes "k < kMaxThreads"
  shows "ThreadCreate UINT32_MAX (spawned k) = Inr (k, spawned (Suc k))"
proof -
  have "find_slot (spawned k) = k"
    using assms find_slot_next [of "spawned k"] by (simp add: spawned_def)
  moreover have "Join empty_clock empty_clock = empty_clock" by (simp add: Join_sup)
  ultimately show ?thesis
    using assms by (auto simp: ThreadCreate_def Let_def spawned_def started_def SetRaceCallback_def
        Enable_def new_WebTSan_def join_thread_def tick_thread_def fun_eq_iff less_Suc_eq)
qed

lemma step_spawned:
  "k < kMaxThreads \<Longrightarrow>
     step (Create UINT32_MAX) ((spawned k, T), init_hb) = Inr ((spawned (Suc k), T), init_hb)"
  by (simp add: step_def ThreadCreate_spawned init_hb_def inherits_def fun_eq_iff)

lemma run_spawn:
  "k \<le> kMaxThreads \<Longrightarrow>
     runE step (spawn k) ((started, init_tls), init_hb) = Inr ((spawned k, init_tls), init_hb)"
proof (induction k)
  case 0
  then show ?case
    by (simp add: spawn_def spawned_def started_def SetRaceCallback_def Enable_def new_WebTSan_def)
next
  case (Suc k)
  have "spawn (Suc k) = spawn k @ [Create UINT32_MAX]"
    by (simp add: spawn_def replicate_append_same)
  with Suc step_spawned [of k init_tls] show ?case by (simp add: runE_append)
qed

lemma exact_spawned:
  assumes "k \<le> kMaxThreads"
  shows "exact k (spawned k) init_hb \<and> positive k (spawned k) init_hb"
  using assms by (auto simp: exact_def positive_def ahead_def complete_def spawned_def init_hb_def
      started_def SetRaceCallback_def Enable_def new_WebTSan_def sync_clock_def)

lemma exact_run:
  assumes "sim n S" and "exact k (fst (fst S)) (snd S)" and "positive k (fst (fst S)) (snd S)"
    and "k \<le> kMaxThreads" and "n + length xs \<le> UINT64_MAX"
    and "list_all op_ok xs" and "list_all (lock_op k) xs" and "runE step xs S = Inr S'"
  shows "exact k (fst (fst S')) (snd S')"
  using assms
proof (induction xs arbitrary: n S)
  case Nil
  then show ?case by simp
next
  case (Cons x xs)
  obtain W T G where S: "S = ((W, T), G)" by (metis prod.collapse)
  from Cons.prems obtain S1 where S1: "step x S = Inr S1" "runE step xs S1 = Inr S'"
    by (auto elim: bindE_InrE)
  with S obtain W' T' where x: "exec x (W, T) = Inr (W', T')" and S1': "S1 = ((W', T'), hstep x W G)"
    by (auto simp: step_def elim!: bindE_InrE)
  have sim1: "sim (Suc n) S1" using Cons.prems S1 by (intro sim_step [OF _ _ _ S1(1)]) auto
  have "enabled W" "causal n W G" using Cons.prems(1) S by (simp_all add: sim_def)
  with exact_step [of k W G n x T W' T'] Cons.prems S x
  have "exact k W' (hstep x W G) \<and> positive k W' (hstep x W G)" by simp
  with Cons.IH [OF sim1] Cons.prems S1 S1' show ?case by simp
qed

text \<open>
  C3: exactness. Let the threads be created first and then synchronise only through atomics and
  locks. At any point of such a run the detector's clock comparison decides happens-before, for
  every thread and every access of the history; and an access by a thread is reported exactly
  when some held cell of its range stands for an access of another thread, one of the two a
  write, that does not happen before it. So what the detector misses here, it misses because a
  cell was overwritten or cleared, never because of the clocks.
\<close>

theorem lock_programs_exact:
  assumes "runE exec (spawn k @ ops) (started, init_tls) = Inr (W, T)" and "k \<le> kMaxThreads"
    and "list_all (lock_op k) ops" and "list_all op_ok ops" and "length (spawn k @ ops) \<le> UINT64_MAX"
    and "t < k" and "off + m \<le> 18446744073709551616" and "shadow_buffers W bs = Some sb"
  shows "\<exists>G. runE step (spawn k @ ops) ((started, init_tls), init_hb) = Inr ((W, T), G) \<and>
    (\<forall>i < length (hist G). i \<in> know G t \<longleftrightarrow>
       ev_epoch (hist G ! i) \<le> Get (thread_clocks W t) (ev_tid (hist G ! i))) \<and>
    (fst (RecordAccess off m t w (thread_clocks W t) sb) \<noteq> None \<longleftrightarrow>
       (\<exists>b c i. off \<le> b \<and> b < off + m \<and> b < sb_byte_length sb \<and> c < kShadowCellsPerByte \<and>
          sc_valid (cell_at sb b c) \<and> i < length (hist G) \<and>
          from_event (hist G ! i) bs b (cell_at sb b c) \<and> ev_tid (hist G ! i) \<noteq> t \<and>
          (ev_write (hist G ! i) \<or> w) \<and> i \<notin> know G t))"
proof -
  from exec_runE_step [OF assms(1)] obtain G
    where G: "runE step (spawn k @ ops) ((started, init_tls), init_hb) = Inr ((W, T), G)" by blast
  then have ops: "runE step ops ((spawned k, init_tls), init_hb) = Inr ((W, T), G)"
    using run_spawn [OF assms(2)] by (simp add: runE_append)
  have "list_all op_ok (spawn k)" by (induction k) (simp_all add: spawn_def)
  moreover have "length (spawn k) + length ops \<le> UINT64_MAX" using assms(5) by simp
  ultimately have s0: "sim (length (spawn k)) ((spawned k, init_tls), init_hb)"
    using sim_run [OF sim_started _ _ run_spawn [OF assms(2)]] by simp
  from assms(5) have len: "length (spawn k) + length ops \<le> UINT64_MAX" by simp
  from sim_run [OF s0 len assms(4) ops] obtain n where sim: "sim n ((W, T), G)" by blast
  from exact_run [OF s0 _ _ assms(2) len assms(4,3) ops] exact_spawned [OF assms(2)]
  have ex: "exact k W G" by simp
  have t: "t < kMaxThreads" using assms(2,6) by simp
  from sim have k: "known n (hist G) (know G t) (thread_clocks W t)"
    and cells: "cells_ok (hist G) (shadow_buffers W)"
    using causalD(1) [OF _ t] by (auto simp: sim_def)
  have hb: "i \<in> know G t \<longleftrightarrow> ev_epoch (hist G ! i) \<le> Get (thread_clocks W t) (ev_tid (hist G ! i))"
    if "i < length (hist G)" for i
    using that k ex assms(6) by (auto simp: known_def covers_def exact_def complete_def)
  have race: "sc_tid cell \<noteq> t \<and> (sc_is_write cell \<or> w) \<and> Get (thread_clocks W t) (sc_tid cell) < sc_epoch cell \<longleftrightarrow>
      ev_tid (hist G ! i) \<noteq> t \<and> (ev_write (hist G ! i) \<or> w) \<and> i \<notin> know G t"
    if "i < length (hist G)" "from_event (hist G ! i) bs b cell" for i b cell
    using that hb [OF that(1)] by (auto simp: from_event_def)
  have held: "\<exists>i < length (hist G). from_event (hist G ! i) bs b (cell_at sb b c)"
    if "c < kShadowCellsPerByte" "sc_valid (cell_at sb b c)" for b c
    using cells assms(8) that by (simp add: cells_ok_def)
  have "racy cell t w clk \<longleftrightarrow> sc_valid cell \<and> sc_tid cell \<noteq> t \<and> (sc_is_write cell \<or> w) \<and>
      Get clk (sc_tid cell) < sc_epoch cell" for cell clk
    by (auto simp: racy_def)
  with race held have cell: "racy (cell_at sb b c) t w (thread_clocks W t) \<longleftrightarrow>
      sc_valid (cell_at sb b c) \<and> (\<exists>i. i < length (hist G) \<and>
        from_event (hist G ! i) bs b (cell_at sb b c) \<and> ev_tid (hist G ! i) \<noteq> t \<and>
        (ev_write (hist G ! i) \<or> w) \<and> i \<notin> know G t)" if "c < kShadowCellsPerByte" for b c
    using that by meson
  have "fst (RecordAccess off m t w (thread_clocks W t) sb) \<noteq> None \<longleftrightarrow>
      (\<exists>b c. off \<le> b \<and> b < off + m \<and> b < sb_byte_length sb \<and> c < kShadowCellsPerByte \<and>
         racy (cell_at sb b c) t w (thread_clocks W t))"
    using paged.detects [OF assms(7)] paged.stays_silent [OF assms(7)] by metis
  also have "\<dots> \<longleftrightarrow> (\<exists>b c i. off \<le> b \<and> b < off + m \<and> b < sb_byte_length sb \<and> c < kShadowCellsPerByte \<and>
          sc_valid (cell_at sb b c) \<and> i < length (hist G) \<and>
          from_event (hist G ! i) bs b (cell_at sb b c) \<and> ev_tid (hist G ! i) \<noteq> t \<and>
          (ev_write (hist G ! i) \<or> w) \<and> i \<notin> know G t)"
    using cell by blast
  finally show ?thesis using G hb by blast
qed

lemma demo_write:
  "\<exists>W T sb. runE exec [Access 4096 64 8 1 0 True] (demo_started, init_tls) = Inr (W, T) \<and>
     shadow_buffers W 4096 = Some sb"
  by (simp add: demo_started_def started_def SetRaceCallback_def Enable_def new_WebTSan_def Let_def
      MemoryAccess_def lookup_shadow_def GetOrCreateShadow_def index_tid_def kMaxThreads_def
      RecordAccess_def new_ShadowBuffer_def record_byte_def GetOrCreatePage_def racy_def
      new_ShadowPage_def default_cell_def
      PageIndex_def InPageOffset_def InPageShadowIndex_def shadow_consts
      cells_list [unfolded kShadowCellsPerByte_def])

theorem lock_programs_exact_witness:
  "\<exists>W T sb (G :: hb). runE exec (spawn 2 @ [Access 4096 64 8 1 0 True]) (started, init_tls) = Inr (W, T) \<and>
     shadow_buffers W 4096 = Some sb \<and>
     (\<forall>i < length (hist G). i \<in> know G 1 \<longleftrightarrow>
        ev_epoch (hist G ! i) \<le> Get (thread_clocks W 1) (ev_tid (hist G ! i)))"
proof -
  let ?ops = "[Access 4096 64 8 1 0 True]"
  obtain W T sb where run: "runE exec ?ops (demo_started, init_tls) = Inr (W, T)"
    and sb: "shadow_buffers W 4096 = Some sb"
    using demo_write by blast
  have "spawn 2 = [Create UINT32_MAX, Create UINT32_MAX]" by (simp add: spawn_def numeral_2_eq_2)
  then have "runE exec (spawn 2 @ ?ops) (started, init_tls) = Inr (W, T)"
    unfolding runE_append by (simp only: demo_creates bindE.simps run)
  moreover have "2 \<le> kMaxThreads" "list_all (lock_op 2) ?ops" "list_all op_ok ?ops"
    "length (spawn 2 @ ?ops) \<le> UINT64_MAX" "1 < (2::nat)" "(8::nat) + 1 \<le> 18446744073709551616"
    by (simp_all add: kMaxThreads_def spawn_def UINT64_MAX_def)
  ultimately show ?thesis
    using lock_programs_exact [of 2 ?ops W T 1 8 1 4096 sb True] sb by blast
qed

end
