(* ===== verification/Hooks.thy ===== *)
theory Hooks
  imports WebTSan
begin

text \<open>
  The hooks of \<open>web_tsan_hooks.h\<close>: thread-local identity and suppression depth, and the inline
  functions the engine calls at its interception points. A hook works on the detector and the
  calling thread's local state.
\<close>

type_synonym dstate = "WebTSan \<times> tls"

subsection \<open>Thread-local state\<close>

definition WebTSanGetCurrentTid :: "dstate \<Rightarrow> nat" where
  "WebTSanGetCurrentTid D = g_current_tsan_tid (snd D)"

definition WebTSanSetCurrentTid :: "nat \<Rightarrow> dstate \<Rightarrow> dstate" where
  "WebTSanSetCurrentTid tid D = (fst D, (snd D)\<lparr>g_current_tsan_tid := tid\<rparr>)"

definition WebTSanPushSuppress :: "dstate \<Rightarrow> dstate" where
  "WebTSanPushSuppress D =
     (fst D, (snd D)\<lparr>g_current_suppress_depth := g_current_suppress_depth (snd D) + 1\<rparr>)"

definition WebTSanPopSuppress :: "dstate \<Rightarrow> dstate" where
  "WebTSanPopSuppress D =
     (if g_current_suppress_depth (snd D) \<noteq> 0
      then (fst D, (snd D)\<lparr>g_current_suppress_depth := g_current_suppress_depth (snd D) - 1\<rparr>)
      else D)"

definition WebTSanIsSuppressed :: "dstate \<Rightarrow> bool" where
  "WebTSanIsSuppressed D \<longleftrightarrow> g_current_suppress_depth (snd D) > 0"

definition WebTSanResetSuppress :: "dstate \<Rightarrow> dstate" where
  "WebTSanResetSuppress D = (fst D, (snd D)\<lparr>g_current_suppress_depth := 0\<rparr>)"

text \<open>A call of a detector operation that reads and writes the detector only.\<close>

definition call :: "(WebTSan \<Rightarrow> WebTSan) \<Rightarrow> dstate \<Rightarrow> dstate" where
  "call f D = (f (fst D), snd D)"

definition callE :: "(WebTSan \<Rightarrow> WebTSan result) \<Rightarrow> dstate \<Rightarrow> dstate result" where
  "callE f D = bindE (f (fst D)) (\<lambda>W. Inr (W, snd D))"

subsection \<open>Accesses\<close>

definition OnSABAccess ::
  "addr \<Rightarrow> nat \<Rightarrow> nat \<Rightarrow> nat \<Rightarrow> tid \<Rightarrow> bool \<Rightarrow> dstate \<Rightarrow> dstate result" where
  "OnSABAccess bs len offset sz tid is_write D =
     (if \<not> enabled (fst D) then Inr D
      else if WebTSanIsSuppressed D then Inr (call IncrementSuppressedCount D)
      else if g_in_race_report (snd D) then Inr D
      else MemoryAccess bs len offset sz tid is_write D)"

definition OnSABRangeUnsuppressed ::
  "addr \<Rightarrow> nat \<Rightarrow> nat \<Rightarrow> nat \<Rightarrow> tid \<Rightarrow> bool \<Rightarrow> dstate \<Rightarrow> dstate result" where
  "OnSABRangeUnsuppressed bs len offset sz tid is_write D =
     (if \<not> enabled (fst D) then Inr D
      else MemoryAccess bs len offset sz tid is_write D)"

subsection \<open>Atomics and messages\<close>

definition OnAtomicsWaitComplete :: "tid \<Rightarrow> addr \<Rightarrow> dstate \<Rightarrow> dstate result" where
  "OnAtomicsWaitComplete tid loc D =
     (if enabled (fst D) then callE (Acquire tid loc) D else Inr D)"

definition OnAtomicsNotify :: "tid \<Rightarrow> addr \<Rightarrow> dstate \<Rightarrow> dstate result" where
  "OnAtomicsNotify tid loc D =
     (if enabled (fst D) then callE (Release tid loc) D else Inr D)"

definition OnAtomicsStore :: "tid \<Rightarrow> addr \<Rightarrow> dstate \<Rightarrow> dstate result" where
  "OnAtomicsStore tid loc D =
     (if enabled (fst D) then callE (Release tid loc) D else Inr D)"

definition OnAtomicsLoad :: "tid \<Rightarrow> addr \<Rightarrow> dstate \<Rightarrow> dstate result" where
  "OnAtomicsLoad tid loc D =
     (if enabled (fst D) then callE (Acquire tid loc) D else Inr D)"

definition OnAtomicsRMW :: "tid \<Rightarrow> addr \<Rightarrow> dstate \<Rightarrow> dstate result" where
  "OnAtomicsRMW tid loc D =
     (if enabled (fst D)
      then bindE (callE (Acquire tid loc) D) (callE (Release tid loc))
      else Inr D)"

definition OnPostMessageSend :: "tid \<Rightarrow> dstate \<Rightarrow> (u64 \<times> dstate) result" where
  "OnPostMessageSend sender_tid D =
     (if enabled (fst D)
      then bindE (HappensBefore sender_tid (fst D)) (\<lambda>(eid, W). Inr (eid, (W, snd D)))
      else Inr (0, D))"

definition OnPostMessageReceive :: "tid \<Rightarrow> u64 \<Rightarrow> dstate \<Rightarrow> dstate result" where
  "OnPostMessageReceive receiver_tid edge_id D =
     (if enabled (fst D) then callE (HappensAfter receiver_tid edge_id) D else Inr D)"

subsection \<open>Mutexes, threads, workers\<close>

definition OnMutexCreate :: "addr \<Rightarrow> dstate \<Rightarrow> dstate" where
  "OnMutexCreate a D = (if enabled (fst D) then call (MutexCreate a) D else D)"

definition OnMutexDestroy :: "addr \<Rightarrow> dstate \<Rightarrow> dstate" where
  "OnMutexDestroy a D = (if enabled (fst D) then call (MutexDestroy a) D else D)"

definition OnMutexPreLock :: "tid \<Rightarrow> addr \<Rightarrow> dstate \<Rightarrow> dstate" where
  "OnMutexPreLock tid a D = (if enabled (fst D) then call (MutexPreLock tid a) D else D)"

definition OnMutexPostLock :: "tid \<Rightarrow> addr \<Rightarrow> dstate \<Rightarrow> dstate" where
  "OnMutexPostLock tid a D = (if enabled (fst D) then call (MutexPostLock tid a) D else D)"

definition OnMutexUnlock :: "tid \<Rightarrow> addr \<Rightarrow> dstate \<Rightarrow> dstate" where
  "OnMutexUnlock tid a D = (if enabled (fst D) then call (MutexUnlock tid a) D else D)"

definition OnMutexReadLock :: "tid \<Rightarrow> addr \<Rightarrow> dstate \<Rightarrow> dstate" where
  "OnMutexReadLock tid a D = (if enabled (fst D) then call (MutexReadLock tid a) D else D)"

definition OnMutexReadUnlock :: "tid \<Rightarrow> addr \<Rightarrow> dstate \<Rightarrow> dstate" where
  "OnMutexReadUnlock tid a D = (if enabled (fst D) then call (MutexReadUnlock tid a) D else D)"

definition OnPthreadCreate :: "nat \<Rightarrow> dstate \<Rightarrow> (tid \<times> dstate) result" where
  "OnPthreadCreate parent_tid D =
     bindE (ThreadCreate parent_tid (fst D)) (\<lambda>(tid, W). Inr (tid, (W, snd D)))"

definition OnPthreadJoin :: "tid \<Rightarrow> tid \<Rightarrow> dstate \<Rightarrow> dstate" where
  "OnPthreadJoin joiner_tid child_tid D =
     (if enabled (fst D) then call (ThreadJoin joiner_tid child_tid) D else D)"

definition OnPthreadDetach :: "tid \<Rightarrow> dstate \<Rightarrow> dstate" where
  "OnPthreadDetach child_tid D =
     (if enabled (fst D) then call (ThreadDetach child_tid) D else D)"

definition OnWorkerCreate :: "dstate \<Rightarrow> (tid \<times> dstate) result" where
  "OnWorkerCreate D =
     bindE (ThreadCreate UINT32_MAX (fst D)) (\<lambda>(tid, W). Inr (tid, (W, snd D)))"

definition OnWorkerDestroy :: "tid \<Rightarrow> dstate \<Rightarrow> dstate result" where
  "OnWorkerDestroy tid D = callE (ThreadDestroy tid) D"

lemmas hook_bodies [hook_defs] = OnSABAccess_def OnSABRangeUnsuppressed_def
  OnAtomicsWaitComplete_def OnAtomicsNotify_def OnAtomicsStore_def OnAtomicsLoad_def
  OnAtomicsRMW_def OnPostMessageSend_def OnPostMessageReceive_def OnMutexCreate_def
  OnMutexDestroy_def OnMutexPreLock_def OnMutexPostLock_def OnMutexUnlock_def
  OnMutexReadLock_def OnMutexReadUnlock_def OnPthreadJoin_def OnPthreadDetach_def

subsection \<open>Properties\<close>

lemma call_sel [simp]: "fst (call f D) = f (fst D)" "snd (call f D) = snd D"
  by (simp_all add: call_def)

lemma IncrementSuppressedCount_sel [simp]:
  "enabled (IncrementSuppressedCount W) = enabled W"
  by (simp add: IncrementSuppressedCount_def)

lemma pop_push:
  assumes "unat (g_current_suppress_depth (snd D)) + 1 < 4294967296"
  shows "WebTSanPopSuppress (WebTSanPushSuppress D) = D"
  using inc32_neq_0 [OF assms]
  by (cases D) (simp add: WebTSanPopSuppress_def WebTSanPushSuppress_def)

lemma pops_pushes:
  assumes "unat (g_current_suppress_depth (snd D)) + n < 4294967296"
  shows "(WebTSanPopSuppress ^^ n) ((WebTSanPushSuppress ^^ n) D) = D"
  using assms
proof (induction n arbitrary: D)
  case 0
  then show ?case by simp
next
  case (Suc n)
  have "unat (g_current_suppress_depth (snd (WebTSanPushSuppress D))) + n < 4294967296"
    using Suc.prems unat_inc32 [of "g_current_suppress_depth (snd D)"]
    by (simp add: WebTSanPushSuppress_def)
  then have "(WebTSanPopSuppress ^^ n) ((WebTSanPushSuppress ^^ n) (WebTSanPushSuppress D)) =
      WebTSanPushSuppress D" by (rule Suc.IH)
  then show ?case using Suc.prems by (simp add: funpow_swap1 pop_push)
qed

lemma pushes_depth:
  assumes "unat (g_current_suppress_depth (snd D)) + n < 4294967296"
  shows "unat (g_current_suppress_depth (snd ((WebTSanPushSuppress ^^ n) D))) =
           unat (g_current_suppress_depth (snd D)) + n \<and> fst ((WebTSanPushSuppress ^^ n) D) = fst D"
  using assms by (induction n) (simp_all add: WebTSanPushSuppress_def unat_inc32)

text \<open>A pop does not look at the detector, so counting suppressed accesses commutes with it.\<close>

lemma pops_detector: "(WebTSanPopSuppress ^^ n) (f (fst D), snd D) =
    (f (fst ((WebTSanPopSuppress ^^ n) D)), snd ((WebTSanPopSuppress ^^ n) D))"
  by (induction n) (auto simp: WebTSanPopSuppress_def)

type_synonym sab_access = "addr \<times> nat \<times> nat \<times> nat \<times> tid \<times> bool"

fun sab_access :: "sab_access \<Rightarrow> dstate \<Rightarrow> dstate result" where
  "sab_access (bs, len, off, n, t, w) D = OnSABAccess bs len off n t w D"

lemma run_suppressed:
  assumes "enabled (fst D)" and "WebTSanIsSuppressed D"
  shows "runE sab_access xs D =
    Inr (call (\<lambda>W. W\<lparr>accesses_suppressed := accesses_suppressed W + of_nat (length xs)\<rparr>) D)"
  using assms
proof (induction xs arbitrary: D)
  case Nil
  then show ?case by (simp add: call_def)
next
  case (Cons x xs)
  let ?D1 = "call IncrementSuppressedCount D"
  have "sab_access x D = Inr ?D1"
    using Cons.prems by (cases x) (simp add: OnSABAccess_def)
  moreover have "runE sab_access xs ?D1 =
      Inr (call (\<lambda>W. W\<lparr>accesses_suppressed := accesses_suppressed W + of_nat (length xs)\<rparr>) ?D1)"
    using Cons.prems by (intro Cons.IH) (simp_all add: WebTSanIsSuppressed_def)
  ultimately show ?case by (simp add: call_def IncrementSuppressedCount_def algebra_simps)
qed

text \<open>
  A suppressed region. Between \<open>n > 0\<close> nested pushes and their pops, no plain access is checked
  or recorded, whatever the accesses: the only effect is that each one is counted, and the
  depth is back where it was. The 32-bit depth must not overflow.
\<close>

lemma suppressed_region:
  assumes "enabled W" and "0 < n" and "unat (g_current_suppress_depth T) + n < 4294967296"
  shows "bindE (runE sab_access xs ((WebTSanPushSuppress ^^ n) (W, T)))
      (\<lambda>D. Inr ((WebTSanPopSuppress ^^ n) D)) =
    Inr (W\<lparr>accesses_suppressed := accesses_suppressed W + of_nat (length xs)\<rparr>, T)"
proof -
  let ?D = "(WebTSanPushSuppress ^^ n) (W, T)"
  from assms pushes_depth [of "(W, T)" n] have D: "fst ?D = W"
    "unat (g_current_suppress_depth (snd ?D)) = unat (g_current_suppress_depth T) + n"
    by simp_all
  with assms(2) have "WebTSanIsSuppressed ?D"
    by (auto simp: WebTSanIsSuppressed_def word_gt_0 simp flip: unat_gt_0)
  with run_suppressed [of ?D xs] D(1) assms(1) pops_pushes [of "(W, T)" n] assms(3)
    pops_detector [of n "\<lambda>W. W\<lparr>accesses_suppressed := accesses_suppressed W + of_nat (length xs)\<rparr>" ?D]
  show ?thesis by (simp add: call_def)
qed

lemma suppressed_region_example:
  "bindE (runE sab_access [(4096, 64, 8, 1, 0, True)] (WebTSanPushSuppress (two_threads, init_tls)))
      (\<lambda>D. Inr (WebTSanPopSuppress D)) =
    Inr (two_threads\<lparr>accesses_suppressed := accesses_suppressed two_threads + 1\<rparr>, init_tls)"
proof -
  have "enabled two_threads" "0 < (1::nat)" "unat (g_current_suppress_depth init_tls) + 1 < 4294967296"
    by (simp_all add: two_threads_def one_thread_def init_tls_def)
  from suppressed_region [OF this, of "[(4096, 64, 8, 1, 0, True)]"] show ?thesis by simp
qed

text \<open>
  A message carries the sender's clock to the receiver once. After a send and the matching
  receive the receiver's clock has reached the clock the sender had when it sent and has not lost
  anything; receiving the same edge again changes nothing.
\<close>

lemma message_edge_delivered_once:
  assumes "enabled W" and "t < kMaxThreads" and "u < kMaxThreads" and "next_edge_id W \<noteq> 0"
  shows "\<exists>eid W1 W2. OnPostMessageSend t (W, T) = Inr (eid, (W1, T)) \<and>
    OnPostMessageReceive u eid (W1, T) = Inr (W2, T) \<and>
    thread_clocks W t \<le> thread_clocks W2 u \<and> thread_clocks W u \<le> thread_clocks W2 u \<and>
    (\<forall>v. v \<noteq> u \<longrightarrow> thread_clocks W2 v = thread_clocks W v) \<and>
    OnPostMessageReceive u eid (W2, T) = Inr (W2, T)"
  using assms
  by (simp add: OnPostMessageSend_def OnPostMessageReceive_def callE_def HappensBefore_def
      HappensAfter_def index_tid_def Let_def Join_sup)

lemma message_edge_delivered_once_example:
  "\<exists>eid W1 W2. OnPostMessageSend 0 (two_threads, init_tls) = Inr (eid, (W1, init_tls)) \<and>
     OnPostMessageReceive 1 eid (W1, init_tls) = Inr (W2, init_tls)"
proof -
  have "enabled two_threads" "0 < kMaxThreads" "1 < kMaxThreads" "next_edge_id two_threads \<noteq> 0"
    by (simp_all add: two_threads_def one_thread_def new_WebTSan_def kMaxThreads_def)
  from message_edge_delivered_once [OF this, of init_tls] show ?thesis by blast
qed

text \<open>
  A thread without a tid. \<open>OnPostMessageSend\<close> hands the tid to the detector unchecked, so with
  the initial \<open>g_current_tsan_tid = UINT32_MAX\<close> an enabled detector indexes its clock array out of
  range; the same send is harmless while the detector is off.
\<close>

lemma post_without_tid:
  "OnPostMessageSend (WebTSanGetCurrentTid (W, init_tls)) (W, init_tls) =
     (if enabled W then Inl OutOfBounds else Inr (0, (W, init_tls)))"
  by (simp add: OnPostMessageSend_def WebTSanGetCurrentTid_def init_tls_def HappensBefore_def
      index_tid_def UINT32_MAX_def kMaxThreads_def)

end
