(* ===== verification/Callbacks.thy ===== *)
theory Callbacks
  imports Hooks
begin

text \<open>
  The interface between the engine and the detector: the table of function pointers
  \<open>WebTSanCallbacks\<close> of \<open>runtime-tsan.h\<close>, its registration, and the part of a JavaScript realm the
  detector touches (the global functions it installs, the console). A null pointer is \<open>None\<close>.
  What runs when JavaScript code is called is not part of the sources: it is a parameter, a
  function on the engine's state.
\<close>

subsection \<open>JavaScript globals\<close>

datatype js_callback =
    ClearShadowCallback | PushSuppressCallback | PopSuppressCallback | RecordRangeCallback
  | ThreadFinishCallback | MutexCreateCallback | MutexDestroyCallback | MutexPreLockCallback
  | MutexPostLockCallback | MutexUnlockCallback | MutexReadLockCallback | MutexReadUnlockCallback
  | PthreadCreateCallback | SetCurrentTidCallback | PthreadJoinCallback | PthreadDetachCallback

datatype js_global = Native js_callback | OtherFunction | NotAFunction

type_synonym js_globals = "string \<rightharpoonup> js_global"

subsection \<open>The callback table\<close>

record WebTSanCallbacks =
  get_current_tid :: "(dstate \<Rightarrow> nat) option"
  on_sab_access :: "(addr \<Rightarrow> nat \<Rightarrow> nat \<Rightarrow> nat \<Rightarrow> tid \<Rightarrow> nat \<Rightarrow> dstate \<Rightarrow> dstate result) option"
  on_atomics_load :: "(tid \<Rightarrow> addr \<Rightarrow> dstate \<Rightarrow> dstate result) option"
  on_atomics_store :: "(tid \<Rightarrow> addr \<Rightarrow> dstate \<Rightarrow> dstate result) option"
  on_atomics_rmw :: "(tid \<Rightarrow> addr \<Rightarrow> dstate \<Rightarrow> dstate result) option"
  on_atomics_wait_complete :: "(tid \<Rightarrow> addr \<Rightarrow> dstate \<Rightarrow> dstate result) option"
  on_atomics_notify :: "(tid \<Rightarrow> addr \<Rightarrow> dstate \<Rightarrow> dstate result) option"
  remove_shadow :: "(addr \<Rightarrow> dstate \<Rightarrow> dstate) option"
  wasm_access :: "(addr \<Rightarrow> nat \<Rightarrow> nat \<Rightarrow> nat \<Rightarrow> nat \<Rightarrow> dstate \<Rightarrow> dstate result) option"
  clear_shadow :: "(addr \<Rightarrow> nat \<Rightarrow> nat \<Rightarrow> dstate \<Rightarrow> dstate) option"
  consume_race :: "(nat \<Rightarrow> dstate \<Rightarrow> string option \<times> dstate) option"
  install_webtsan_globals :: "(dstate \<Rightarrow> js_globals \<Rightarrow> js_globals) option"
  push_suppress :: "(tid \<Rightarrow> dstate \<Rightarrow> dstate) option"
  pop_suppress :: "(tid \<Rightarrow> dstate \<Rightarrow> dstate) option"
  record_range :: "(addr \<Rightarrow> nat \<Rightarrow> nat \<Rightarrow> nat \<Rightarrow> tid \<Rightarrow> nat \<Rightarrow> dstate \<Rightarrow> dstate result) option"
  mutex_create :: "(addr \<Rightarrow> dstate \<Rightarrow> dstate) option"
  mutex_destroy :: "(addr \<Rightarrow> dstate \<Rightarrow> dstate) option"
  mutex_pre_lock :: "(tid \<Rightarrow> addr \<Rightarrow> dstate \<Rightarrow> dstate) option"
  mutex_post_lock :: "(tid \<Rightarrow> addr \<Rightarrow> dstate \<Rightarrow> dstate) option"
  mutex_unlock :: "(tid \<Rightarrow> addr \<Rightarrow> dstate \<Rightarrow> dstate) option"
  mutex_read_lock :: "(tid \<Rightarrow> addr \<Rightarrow> dstate \<Rightarrow> dstate) option"
  mutex_read_unlock :: "(tid \<Rightarrow> addr \<Rightarrow> dstate \<Rightarrow> dstate) option"
  pthread_create :: "(nat \<Rightarrow> dstate \<Rightarrow> (tid \<times> dstate) result) option"
  set_current_tid :: "(nat \<Rightarrow> dstate \<Rightarrow> dstate) option"
  pthread_join :: "(tid \<Rightarrow> tid \<Rightarrow> dstate \<Rightarrow> dstate) option"
  pthread_detach :: "(tid \<Rightarrow> dstate \<Rightarrow> dstate) option"

definition null_callbacks :: WebTSanCallbacks where
  "null_callbacks =
     \<lparr>get_current_tid = None, on_sab_access = None, on_atomics_load = None,
      on_atomics_store = None, on_atomics_rmw = None, on_atomics_wait_complete = None,
      on_atomics_notify = None, remove_shadow = None, wasm_access = None, clear_shadow = None,
      consume_race = None, install_webtsan_globals = None, push_suppress = None,
      pop_suppress = None, record_range = None, mutex_create = None, mutex_destroy = None,
      mutex_pre_lock = None, mutex_post_lock = None, mutex_unlock = None, mutex_read_lock = None,
      mutex_read_unlock = None, pthread_create = None, set_current_tid = None,
      pthread_join = None, pthread_detach = None\<rparr>"

subsection \<open>The engine's state and the JavaScript it calls\<close>

record engine =
  eng :: dstate
  g_callbacks :: WebTSanCallbacks
  console_lines :: "string list" \<comment> \<open>what console.error printed\<close>
  pending_exception :: bool
  s_in_flush :: bool \<comment> \<open>thread-local guard of \<open>FlushPendingRaceToConsole\<close>\<close>
  s_in_race_report :: bool \<comment> \<open>thread-local guard of \<open>Runtime_WasmTraceMemory\<close>\<close>

definition new_engine :: engine where
  "new_engine = \<lparr>eng = (new_WebTSan, init_tls), g_callbacks = null_callbacks, console_lines = [],
     pending_exception = False, s_in_flush = False, s_in_race_report = False\<rparr>"

record js_env =
  has_context :: bool
  console_is_object :: bool
  error_is_function :: bool
  stack_trace :: string
  call_error :: "string \<Rightarrow> engine \<Rightarrow> engine" \<comment> \<open>console.error, with all the JavaScript it runs\<close>

text \<open>A console that prints its argument and runs nothing else.\<close>

definition plain_env :: js_env where
  "plain_env = \<lparr>has_context = True, console_is_object = True, error_is_function = True,
     stack_trace = ''at main'',
     call_error = (\<lambda>m E. E\<lparr>console_lines := console_lines E @ [m]\<rparr>)\<rparr>"

definition RegisterCallbacks :: "WebTSanCallbacks \<Rightarrow> engine \<Rightarrow> engine" where
  "RegisterCallbacks cb E = E\<lparr>g_callbacks := cb\<rparr>"

definition on_eng :: "(dstate \<Rightarrow> dstate result) \<Rightarrow> engine \<Rightarrow> engine result" where
  "on_eng f E = bindE (f (eng E)) (\<lambda>D. Inr (E\<lparr>eng := D\<rparr>))"

end
