(* ===== verification/RuntimeTsan.thy ===== *)
theory RuntimeTsan
  imports Callbacks
begin

text \<open>
  The engine side, \<open>runtime-tsan.cc\<close>: the runtime functions that the interpreter and the builtins
  call on typed-array accesses and atomics, and \<open>MaybeThrowRace\<close>, which takes a pending report
  from the thread-local buffer and prints it with a stack trace.
\<close>

text \<open>What the runtime functions read of a typed array; the index is a small integer.\<close>

record typed_array =
  is_shared :: bool
  backing_store :: addr
  byte_length :: nat
  byte_offset :: nat
  element_size :: nat

definition GetTid :: "engine \<Rightarrow> nat" where
  "GetTid E = (case get_current_tid (g_callbacks E) of Some fn \<Rightarrow> fn (eng E) | None \<Rightarrow> UINT32_MAX)"

text \<open>\<open>byte_offset + index * element_size\<close> in \<open>size_t\<close>.\<close>

definition element_offset :: "typed_array \<Rightarrow> int \<Rightarrow> nat" where
  "element_offset a index =
     nat ((int (byte_offset a) + index * int (element_size a)) mod 18446744073709551616)"

definition element_address :: "typed_array \<Rightarrow> int \<Rightarrow> addr" where
  "element_address a index = size_t (backing_store a + element_offset a index)"

definition clear_exception :: "engine \<Rightarrow> engine" where
  "clear_exception E = (if pending_exception E then E\<lparr>pending_exception := False\<rparr> else E)"

definition MaybeThrowRace :: "js_env \<Rightarrow> engine \<Rightarrow> engine" where
  "MaybeThrowRace env E =
     (case consume_race (g_callbacks E) of
        None \<Rightarrow> E
      | Some consume \<Rightarrow>
          (case consume 512 (eng E) of
             (None, D) \<Rightarrow> E\<lparr>eng := D\<rparr>
           | (Some msg, D) \<Rightarrow>
               let E1 = E\<lparr>eng := D\<rparr>; combined = msg @ stack_trace env in
               if \<not> console_is_object env then E1
               else if \<not> error_is_function env then E1
               else clear_exception (call_error env combined E1)))"

definition Runtime_WebTSanRecordRead ::
  "bool \<Rightarrow> js_env \<Rightarrow> typed_array \<Rightarrow> int \<Rightarrow> engine \<Rightarrow> engine result" where
  "Runtime_WebTSanRecordRead wasm_tsan env a index E =
     (case on_sab_access (g_callbacks E) of
        None \<Rightarrow> Inr E
      | Some access \<Rightarrow>
          if \<not> wasm_tsan then Inr E
          else if \<not> is_shared a then Inr E
          else let tid = GetTid E in
          if tid = UINT32_MAX then Inr E
          else bindE (on_eng (access (backing_store a) (byte_length a) (element_offset a index)
                        (element_size a) tid 0) E)
                 (\<lambda>E. Inr (MaybeThrowRace env E)))"

definition Runtime_WebTSanRecordWrite ::
  "bool \<Rightarrow> js_env \<Rightarrow> typed_array \<Rightarrow> int \<Rightarrow> engine \<Rightarrow> engine result" where
  "Runtime_WebTSanRecordWrite wasm_tsan env a index E =
     (case on_sab_access (g_callbacks E) of
        None \<Rightarrow> Inr E
      | Some access \<Rightarrow>
          if \<not> wasm_tsan then Inr E
          else if \<not> is_shared a then Inr E
          else let tid = GetTid E in
          if tid = UINT32_MAX then Inr E
          else bindE (on_eng (access (backing_store a) (byte_length a) (element_offset a index)
                        (element_size a) tid 1) E)
                 (\<lambda>E. Inr (MaybeThrowRace env E)))"

definition Runtime_WebTSanAtomicsLoad ::
  "bool \<Rightarrow> js_env \<Rightarrow> typed_array \<Rightarrow> int \<Rightarrow> engine \<Rightarrow> engine result" where
  "Runtime_WebTSanAtomicsLoad wasm_tsan env a index E =
     (case on_atomics_load (g_callbacks E) of
        None \<Rightarrow> Inr E
      | Some load \<Rightarrow>
          if \<not> wasm_tsan then Inr E
          else if \<not> is_shared a then Inr E
          else let tid = GetTid E in
          if tid = UINT32_MAX then Inr E
          else bindE (on_eng (load tid (element_address a index)) E)
                 (\<lambda>E. Inr (MaybeThrowRace env E)))"

definition Runtime_WebTSanAtomicsStore ::
  "bool \<Rightarrow> js_env \<Rightarrow> typed_array \<Rightarrow> int \<Rightarrow> engine \<Rightarrow> engine result" where
  "Runtime_WebTSanAtomicsStore wasm_tsan env a index E =
     (case on_atomics_store (g_callbacks E) of
        None \<Rightarrow> Inr E
      | Some store \<Rightarrow>
          if \<not> wasm_tsan then Inr E
          else if \<not> is_shared a then Inr E
          else let tid = GetTid E in
          if tid = UINT32_MAX then Inr E
          else bindE (on_eng (store tid (element_address a index)) E)
                 (\<lambda>E. Inr (MaybeThrowRace env E)))"

definition Runtime_WebTSanAtomicsRMW ::
  "bool \<Rightarrow> js_env \<Rightarrow> typed_array \<Rightarrow> int \<Rightarrow> engine \<Rightarrow> engine result" where
  "Runtime_WebTSanAtomicsRMW wasm_tsan env a index E =
     (case on_atomics_rmw (g_callbacks E) of
        None \<Rightarrow> Inr E
      | Some rmw \<Rightarrow>
          if \<not> wasm_tsan then Inr E
          else if \<not> is_shared a then Inr E
          else let tid = GetTid E in
          if tid = UINT32_MAX then Inr E
          else bindE (on_eng (rmw tid (element_address a index)) E)
                 (\<lambda>E. Inr (MaybeThrowRace env E)))"

end
