(* ===== verification/Init.thy ===== *)
theory Init
  imports RuntimeTsan
begin

text \<open>
  Start-up and the JavaScript surface, \<open>web_tsan_init.cc\<close>: the switch, the callback table, the
  functions installed on a realm's global object, and the flush of a pending report to the
  console. The conversions of JavaScript values are V8's and enter as the parameter \<open>v8_api\<close>;
  a conversion that fails is \<open>None\<close>.
\<close>

record 'v v8_api =
  IsSharedArrayBuffer :: "'v \<Rightarrow> bool"
  store_data :: "'v \<Rightarrow> addr"
  store_length :: "'v \<Rightarrow> nat"
  Uint32Value :: "'v \<Rightarrow> u32 option"
  BooleanValue :: "'v \<Rightarrow> bool"
  IntegerValue :: "'v \<Rightarrow> 64 word option"

subsection \<open>Start-up\<close>

definition consume_race_cb :: "nat \<Rightarrow> dstate \<Rightarrow> string option \<times> dstate" where
  "consume_race_cb buf_size D =
     (let (W, T) = D in
      if \<not> g_race_detected T then (None, D)
      else (Some (snprintf buf_size (g_race_message T)),
            (W, T\<lparr>g_race_detected := False, g_race_message := ''''\<rparr>)))"

definition wasm_access_cb :: "addr \<Rightarrow> nat \<Rightarrow> nat \<Rightarrow> nat \<Rightarrow> nat \<Rightarrow> dstate \<Rightarrow> dstate result" where
  "wasm_access_cb bs len off sz is_store D =
     (let tid = WebTSanGetCurrentTid D in
      if tid = UINT32_MAX then Inr D
      else OnSABAccess bs len off sz tid (is_store \<noteq> 0) D)"

text \<open>Installing a global: an existing function is kept.\<close>

definition InstallFunction :: "string \<Rightarrow> js_callback \<Rightarrow> js_globals \<Rightarrow> js_globals" where
  "InstallFunction name cb globals =
     (case globals name of
        Some (Native f) \<Rightarrow> globals
      | Some OtherFunction \<Rightarrow> globals
      | _ \<Rightarrow> globals(name \<mapsto> Native cb))"

definition webtsan_globals :: "(string \<times> js_callback) list" where
  "webtsan_globals =
     [(''__webTSanClearShadow'', ClearShadowCallback),
      (''__webTSanPushSuppress'', PushSuppressCallback),
      (''__webTSanPopSuppress'', PopSuppressCallback),
      (''__webTSanRecordRange'', RecordRangeCallback),
      (''__webTSanThreadFinish'', ThreadFinishCallback),
      (''__webTSanMutexCreate'', MutexCreateCallback),
      (''__webTSanMutexDestroy'', MutexDestroyCallback),
      (''__webTSanMutexPreLock'', MutexPreLockCallback),
      (''__webTSanMutexPostLock'', MutexPostLockCallback),
      (''__webTSanMutexUnlock'', MutexUnlockCallback),
      (''__webTSanMutexReadLock'', MutexReadLockCallback),
      (''__webTSanMutexReadUnlock'', MutexReadUnlockCallback),
      (''__webTSanPthreadCreate'', PthreadCreateCallback),
      (''__webTSanSetCurrentTid'', SetCurrentTidCallback),
      (''__webTSanPthreadJoin'', PthreadJoinCallback),
      (''__webTSanPthreadDetach'', PthreadDetachCallback)]"

definition InstallWebTSanGlobals :: "dstate \<Rightarrow> js_globals \<Rightarrow> js_globals" where
  "InstallWebTSanGlobals D globals =
     (if \<not> enabled (fst D) then globals
      else fold (\<lambda>(name, cb). InstallFunction name cb) webtsan_globals globals)"

definition webtsan_callbacks :: WebTSanCallbacks where
  "webtsan_callbacks =
     \<lparr>get_current_tid = Some WebTSanGetCurrentTid,
      on_sab_access = Some (\<lambda>bs len off sz tid is_write.
        OnSABAccess bs len off sz tid (is_write \<noteq> 0)),
      on_atomics_load = Some OnAtomicsLoad,
      on_atomics_store = Some OnAtomicsStore,
      on_atomics_rmw = Some OnAtomicsRMW,
      on_atomics_wait_complete = Some OnAtomicsWaitComplete,
      on_atomics_notify = Some OnAtomicsNotify,
      remove_shadow = Some (\<lambda>bs. call (RemoveShadow bs)),
      wasm_access = Some wasm_access_cb,
      clear_shadow = Some (\<lambda>bs offset sz. call (ClearShadow bs offset sz)),
      consume_race = Some consume_race_cb,
      install_webtsan_globals = Some InstallWebTSanGlobals,
      push_suppress = Some (\<lambda>_. WebTSanPushSuppress),
      pop_suppress = Some (\<lambda>_. WebTSanPopSuppress),
      record_range = Some (\<lambda>bs len off sz tid is_write.
        OnSABRangeUnsuppressed bs len off sz tid (is_write \<noteq> 0)),
      mutex_create = Some OnMutexCreate,
      mutex_destroy = Some OnMutexDestroy,
      mutex_pre_lock = Some OnMutexPreLock,
      mutex_post_lock = Some OnMutexPostLock,
      mutex_unlock = Some OnMutexUnlock,
      mutex_read_lock = Some OnMutexReadLock,
      mutex_read_unlock = Some OnMutexReadUnlock,
      pthread_create = Some OnPthreadCreate,
      set_current_tid = Some WebTSanSetCurrentTid,
      pthread_join = Some OnPthreadJoin,
      pthread_detach = Some OnPthreadDetach\<rparr>"

definition InitializeWebTSan :: "bool \<Rightarrow> engine \<Rightarrow> engine result" where
  "InitializeWebTSan has_switch E =
     (if \<not> has_switch then Inr E
      else
        let E1 = RegisterCallbacks webtsan_callbacks E;
            D1 = call Enable (eng E1)
        in bindE (ThreadCreate UINT32_MAX (fst D1)) (\<lambda>(main_tid, W).
             Inr (E1\<lparr>eng := WebTSanSetCurrentTid main_tid (W, snd D1)\<rparr>)))"

subsection \<open>The installed functions\<close>

definition arg_uint32 :: "'v v8_api \<Rightarrow> 'v \<Rightarrow> nat \<Rightarrow> nat" where
  "arg_uint32 api v fallback = (case Uint32Value api v of Some w \<Rightarrow> unat w | None \<Rightarrow> fallback)"

definition ArgToAddr :: "'v v8_api \<Rightarrow> 'v \<Rightarrow> addr" where
  "ArgToAddr api v = (case IntegerValue api v of Some w \<Rightarrow> unat w | None \<Rightarrow> 0)"

definition FlushPendingRaceToConsole :: "js_env \<Rightarrow> engine \<Rightarrow> engine" where
  "FlushPendingRaceToConsole env E =
     (let (W, T) = eng E in
      if s_in_flush E then E
      else if \<not> g_race_detected T then E
      else
        let msg = g_race_message T;
            E1 = E\<lparr>s_in_flush := True,
                   eng := (W, T\<lparr>g_race_detected := False, g_race_message := ''''\<rparr>)\<rparr>
        in if \<not> has_context env then E1\<lparr>s_in_flush := False\<rparr>
           else if \<not> console_is_object env then E1\<lparr>s_in_flush := False\<rparr>
           else if \<not> error_is_function env then E1\<lparr>s_in_flush := False\<rparr>
           else (clear_exception (call_error env msg E1))\<lparr>s_in_flush := False\<rparr>)"

definition clear_shadow_js :: "'v v8_api \<Rightarrow> 'v list \<Rightarrow> engine \<Rightarrow> engine result" where
  "clear_shadow_js api info E =
     (if length info < 3 then Inr E
      else if \<not> IsSharedArrayBuffer api (info ! 0) then Inr E
      else
        let bs = store_data api (info ! 0);
            offset = arg_uint32 api (info ! 1) 0;
            sz = arg_uint32 api (info ! 2) 0
        in if sz > 0 then Inr (E\<lparr>eng := call (ClearShadow bs offset sz) (eng E)\<rparr>) else Inr E)"

definition record_range_js :: "'v v8_api \<Rightarrow> js_env \<Rightarrow> 'v list \<Rightarrow> engine \<Rightarrow> engine result" where
  "record_range_js api env info E =
     (if length info < 4 then Inr E
      else if \<not> IsSharedArrayBuffer api (info ! 0) then Inr E
      else
        let bs = store_data api (info ! 0);
            len = store_length api (info ! 0);
            offset = arg_uint32 api (info ! 1) 0;
            sz = arg_uint32 api (info ! 2) 0;
            is_write = BooleanValue api (info ! 3)
        in if sz = 0 then Inr E
           else
             let tid = WebTSanGetCurrentTid (eng E)
             in if tid = UINT32_MAX then Inr E
                else bindE (on_eng (OnSABRangeUnsuppressed bs len offset sz tid is_write) E)
                       (\<lambda>E. Inr (FlushPendingRaceToConsole env E)))"

definition thread_finish_js :: "engine \<Rightarrow> engine result" where
  "thread_finish_js E =
     (let tid = WebTSanGetCurrentTid (eng E) in
      if tid = UINT32_MAX then Inr E
      else Inr (E\<lparr>eng := call (ThreadFinish tid) (eng E)\<rparr>))"

text \<open>The four mutex callbacks that act for the current thread share their guards.\<close>

definition mutex_js ::
  "(tid \<Rightarrow> addr \<Rightarrow> dstate \<Rightarrow> dstate) \<Rightarrow> 'v v8_api \<Rightarrow> 'v list \<Rightarrow> engine \<Rightarrow> engine result" where
  "mutex_js hook api info E =
     (if length info < 1 then Inr E
      else
        let tid = WebTSanGetCurrentTid (eng E)
        in if tid = UINT32_MAX then Inr E
           else Inr (E\<lparr>eng := hook tid (ArgToAddr api (info ! 0)) (eng E)\<rparr>))"

definition mutex_addr_js :: "(addr \<Rightarrow> dstate \<Rightarrow> dstate) \<Rightarrow> 'v v8_api \<Rightarrow> 'v list \<Rightarrow> engine \<Rightarrow> engine result" where
  "mutex_addr_js hook api info E =
     (if length info < 1 then Inr E
      else Inr (E\<lparr>eng := hook (ArgToAddr api (info ! 0)) (eng E)\<rparr>))"

text \<open>The value returned to JavaScript is the new tid.\<close>

definition pthread_create_js :: "engine \<Rightarrow> (tid \<times> engine) result" where
  "pthread_create_js E =
     bindE (OnPthreadCreate (WebTSanGetCurrentTid (eng E)) (eng E))
       (\<lambda>(child, D). Inr (child, E\<lparr>eng := D\<rparr>))"

definition set_current_tid_js :: "'v v8_api \<Rightarrow> 'v list \<Rightarrow> engine \<Rightarrow> engine result" where
  "set_current_tid_js api info E =
     (if length info < 1 then Inr E
      else
        let new_tid = arg_uint32 api (info ! 0) UINT32_MAX;
            prev_tid = WebTSanGetCurrentTid (eng E);
            D1 = (if prev_tid \<noteq> UINT32_MAX \<and> new_tid \<noteq> UINT32_MAX \<and> prev_tid \<noteq> new_tid
                  then call (ThreadAbsorb new_tid prev_tid) (eng E) else eng E)
        in Inr (E\<lparr>eng := WebTSanSetCurrentTid new_tid D1\<rparr>))"

definition pthread_join_js :: "'v v8_api \<Rightarrow> 'v list \<Rightarrow> engine \<Rightarrow> engine result" where
  "pthread_join_js api info E =
     (if length info < 1 then Inr E
      else
        let joiner = WebTSanGetCurrentTid (eng E)
        in if joiner = UINT32_MAX then Inr E
           else
             let child = arg_uint32 api (info ! 0) UINT32_MAX
             in if child = UINT32_MAX then Inr E
                else Inr (E\<lparr>eng := OnPthreadJoin joiner child (eng E)\<rparr>))"

definition pthread_detach_js :: "'v v8_api \<Rightarrow> 'v list \<Rightarrow> engine \<Rightarrow> engine result" where
  "pthread_detach_js api info E =
     (if length info < 1 then Inr E
      else
        let child = arg_uint32 api (info ! 0) UINT32_MAX
        in if child = UINT32_MAX then Inr E
           else Inr (E\<lparr>eng := OnPthreadDetach child (eng E)\<rparr>))"

text \<open>What a call of an installed function does.\<close>

definition run_callback ::
  "'v v8_api \<Rightarrow> js_env \<Rightarrow> js_callback \<Rightarrow> 'v list \<Rightarrow> engine \<Rightarrow> engine result" where
  "run_callback api env cb info E =
     (case cb of
        ClearShadowCallback \<Rightarrow> clear_shadow_js api info E
      | PushSuppressCallback \<Rightarrow> Inr (E\<lparr>eng := WebTSanPushSuppress (eng E)\<rparr>)
      | PopSuppressCallback \<Rightarrow> Inr (E\<lparr>eng := WebTSanPopSuppress (eng E)\<rparr>)
      | RecordRangeCallback \<Rightarrow> record_range_js api env info E
      | ThreadFinishCallback \<Rightarrow> thread_finish_js E
      | MutexCreateCallback \<Rightarrow> mutex_addr_js OnMutexCreate api info E
      | MutexDestroyCallback \<Rightarrow> mutex_addr_js OnMutexDestroy api info E
      | MutexPreLockCallback \<Rightarrow> mutex_js OnMutexPreLock api info E
      | MutexPostLockCallback \<Rightarrow> mutex_js OnMutexPostLock api info E
      | MutexUnlockCallback \<Rightarrow> mutex_js OnMutexUnlock api info E
      | MutexReadLockCallback \<Rightarrow> mutex_js OnMutexReadLock api info E
      | MutexReadUnlockCallback \<Rightarrow> mutex_js OnMutexReadUnlock api info E
      | PthreadCreateCallback \<Rightarrow> bindE (pthread_create_js E) (\<lambda>(_, E). Inr E)
      | SetCurrentTidCallback \<Rightarrow> set_current_tid_js api info E
      | PthreadJoinCallback \<Rightarrow> pthread_join_js api info E
      | PthreadDetachCallback \<Rightarrow> pthread_detach_js api info E)"

subsection \<open>Installing the globals\<close>

definition is_function :: "js_global option \<Rightarrow> bool" where
  "is_function v \<longleftrightarrow> (case v of Some NotAFunction \<Rightarrow> False | None \<Rightarrow> False | _ \<Rightarrow> True)"

lemma InstallFunction_apply:
  "InstallFunction name cb g n = (if n = name \<and> \<not> is_function (g n) then Some (Native cb) else g n)"
  by (auto simp: InstallFunction_def is_function_def split: option.split js_global.split)

lemma fold_install:
  assumes "distinct (map fst xs)"
  shows "fold (\<lambda>(name, cb). InstallFunction name cb) xs g n =
    (case map_of xs n of Some cb \<Rightarrow> if is_function (g n) then g n else Some (Native cb) | None \<Rightarrow> g n)"
  using assms
proof (induction xs arbitrary: g)
  case Nil
  then show ?case by simp
next
  case (Cons x xs)
  obtain name cb where x: "x = (name, cb)" by (cases x)
  with Cons.prems have "map_of xs name = None" by (simp add: map_of_eq_None_iff)
  with Cons x show ?case by (auto simp: InstallFunction_apply split: option.split)
qed

lemma distinct_webtsan_globals: "distinct (map fst webtsan_globals)"
  by (simp add: webtsan_globals_def)

lemma InstallWebTSanGlobals_apply:
  "InstallWebTSanGlobals D g n =
    (case map_of webtsan_globals n of
       Some cb \<Rightarrow> if enabled (fst D) \<and> \<not> is_function (g n) then Some (Native cb) else g n
     | None \<Rightarrow> g n)"
  by (simp add: InstallWebTSanGlobals_def fold_install [OF distinct_webtsan_globals] split: option.split)

text \<open>
  Installing the JavaScript surface. With the detector on, each of the sixteen names ends up
  holding a function: its own callback, unless the page already had a function there, which is
  kept; no other global changes; and installing again, as happens lazily on a realm's first
  WebAssembly access, changes nothing.
\<close>

lemma install_globals:
  "InstallWebTSanGlobals D (InstallWebTSanGlobals D g) = InstallWebTSanGlobals D g \<and>
   (enabled (fst D) \<longrightarrow> (\<forall>(name, cb) \<in> set webtsan_globals.
      InstallWebTSanGlobals D g name = (if is_function (g name) then g name else Some (Native cb)))) \<and>
   (\<forall>n. n \<notin> fst ` set webtsan_globals \<longrightarrow> InstallWebTSanGlobals D g n = g n) \<and>
   length webtsan_globals = 16"
proof -
  have "InstallWebTSanGlobals D (InstallWebTSanGlobals D g) n = InstallWebTSanGlobals D g n" for n
    by (auto simp: InstallWebTSanGlobals_apply is_function_def split: option.split)
  moreover have "InstallWebTSanGlobals D g name = (if is_function (g name) then g name else Some (Native cb))"
    if "enabled (fst D)" "(name, cb) \<in> set webtsan_globals" for name cb
    using that distinct_webtsan_globals by (simp add: InstallWebTSanGlobals_apply map_of_eq_Some_iff)
  moreover have "InstallWebTSanGlobals D g n = g n" if "n \<notin> fst ` set webtsan_globals" for n
    using iffD2 [OF map_of_eq_None_iff that] by (simp add: InstallWebTSanGlobals_apply)
  ultimately show ?thesis by (auto simp: webtsan_globals_def)
qed

lemma install_globals_example:
  "InstallWebTSanGlobals (two_threads, init_tls) Map.empty ''__webTSanPthreadJoin'' =
     Some (Native PthreadJoinCallback)"
proof -
  have "enabled (fst (two_threads, init_tls))" by (simp add: two_threads_def one_thread_def)
  moreover have "(''__webTSanPthreadJoin'', PthreadJoinCallback) \<in> set webtsan_globals"
    by (simp add: webtsan_globals_def)
  ultimately have "InstallWebTSanGlobals (two_threads, init_tls) Map.empty ''__webTSanPthreadJoin'' =
      (if is_function (Map.empty ''__webTSanPthreadJoin'') then Map.empty ''__webTSanPthreadJoin''
       else Some (Native PthreadJoinCallback))"
    using install_globals [of "(two_threads, init_tls)" Map.empty] by blast
  then show ?thesis by (simp add: is_function_def)
qed

subsection \<open>From the detector to the console\<close>

lemma report_race_pending:
  assumes "site_key bs (sab_offset r) \<notin> reported_race_sites (fst D)"
  shows "g_race_detected (snd (report_race bs r D)) \<and>
    g_race_message (snd (report_race bs r D)) = ToString r"
  using assms length_ToString [of r]
  by (cases D) (simp add: report_race_def Let_def snprintf_def)

lemma consume_twice: "consume_race_cb n (snd (consume_race_cb n D)) = (None, snd (consume_race_cb n D))"
  by (cases D) (simp add: consume_race_cb_def)

lemma consume_report:
  assumes "site_key bs (sab_offset r) \<notin> reported_race_sites (fst D)"
  shows "fst (consume_race_cb 512 (report_race bs r D)) = Some (ToString r)"
  using report_race_pending [OF assms] length_ToString [of r]
  by (cases "report_race bs r D") (simp add: consume_race_cb_def snprintf_def)

text \<open>
  C11: the way of a report. When the detector reports a race at a new site, the next runtime
  function's \<open>MaybeThrowRace\<close> prints the whole message, untruncated, with the stack trace, exactly
  once: afterwards nothing is pending and a second call prints nothing.
\<close>

theorem race_reaches_console:
  assumes "g_callbacks E = webtsan_callbacks"
    and "site_key bs (sab_offset r) \<notin> reported_race_sites (fst (eng E))"
    and "console_is_object env" and "error_is_function env"
    and "call_error env = (\<lambda>m E. E\<lparr>console_lines := console_lines E @ [m]\<rparr>)"
  shows "let E1 = MaybeThrowRace env (E\<lparr>eng := report_race bs r (eng E)\<rparr>) in
    console_lines E1 = console_lines E @ [ToString r @ stack_trace env] \<and>
    console_lines (MaybeThrowRace env E1) = console_lines E1 \<and>
    fst (consume_race_cb 512 (eng E1)) = None"
proof -
  let ?D = "report_race bs r (eng E)"
  obtain D where D: "consume_race_cb 512 ?D = (Some (ToString r), D)"
    using consume_report [OF assms(2)] by (metis prod.collapse)
  then have again: "consume_race_cb 512 D = (None, D)"
    using consume_twice [of 512 ?D] by simp
  let ?E1 = "MaybeThrowRace env (E\<lparr>eng := ?D\<rparr>)"
  have E1: "console_lines ?E1 = console_lines E @ [ToString r @ stack_trace env]" "eng ?E1 = D"
    "g_callbacks ?E1 = webtsan_callbacks"
    using assms D by (simp_all add: MaybeThrowRace_def webtsan_callbacks_def clear_exception_def Let_def)
  then have "MaybeThrowRace env ?E1 = ?E1\<lparr>eng := D\<rparr>"
    using again by (simp add: MaybeThrowRace_def webtsan_callbacks_def)
  with E1 again show ?thesis by (simp add: Let_def)
qed

theorem race_reaches_console_witness:
  "console_lines (MaybeThrowRace plain_env
     (new_engine\<lparr>g_callbacks := webtsan_callbacks,
        eng := report_race 4096 (make_report (new_ShadowBuffer 4096 64) 16 default_cell 1 True empty_clock)
          (two_threads, init_tls)\<rparr>)) =
   [ToString (make_report (new_ShadowBuffer 4096 64) 16 default_cell 1 True empty_clock) @ ''at main'']"
proof -
  let ?E = "new_engine\<lparr>g_callbacks := webtsan_callbacks, eng := (two_threads, init_tls)\<rparr>"
  let ?r = "make_report (new_ShadowBuffer 4096 64) 16 default_cell 1 True empty_clock"
  have "g_callbacks ?E = webtsan_callbacks"
    "site_key 4096 (sab_offset ?r) \<notin> reported_race_sites (fst (eng ?E))"
    "console_is_object plain_env" "error_is_function plain_env"
    "call_error plain_env = (\<lambda>m E. E\<lparr>console_lines := console_lines E @ [m]\<rparr>)"
    by (simp_all add: plain_env_def two_threads_def one_thread_def new_WebTSan_def)
  from race_reaches_console [OF this] show ?thesis
    by (simp add: Let_def plain_env_def new_engine_def)
qed

text \<open>
  The flush is not re-entrant. A flush that finds a report pending takes it out of the buffer
  before it calls the console, and while the console runs, its guard is up, so a flush from
  inside, by JavaScript that races again, does nothing; the guard is down again at the end on
  every path, whatever the console does. A report queued meanwhile stays pending.
\<close>

lemma flush_not_reentrant:
  assumes "\<not> s_in_flush E" and "eng E = (W, T)"
  shows "\<not> s_in_flush (FlushPendingRaceToConsole env E) \<and>
    (\<not> g_race_detected T \<longrightarrow> FlushPendingRaceToConsole env E = E) \<and>
    (g_race_detected T \<and> has_context env \<and> console_is_object env \<and> error_is_function env \<longrightarrow>
      (\<exists>E1. s_in_flush E1 \<and> \<not> g_race_detected (snd (eng E1)) \<and>
        FlushPendingRaceToConsole env E =
          (clear_exception (call_error env (g_race_message T) E1))\<lparr>s_in_flush := False\<rparr> \<and>
        (\<forall>E2. s_in_flush E2 \<longrightarrow> FlushPendingRaceToConsole env E2 = E2)))"
proof -
  let ?E1 = "E\<lparr>s_in_flush := True, eng := (W, T\<lparr>g_race_detected := False, g_race_message := ''''\<rparr>)\<rparr>"
  have nested: "FlushPendingRaceToConsole env E2 = E2" if "s_in_flush E2" for E2
    using that by (simp add: FlushPendingRaceToConsole_def split: prod.split)
  have "\<not> s_in_flush (FlushPendingRaceToConsole env E)"
    using assms by (simp add: FlushPendingRaceToConsole_def Let_def)
  moreover have "FlushPendingRaceToConsole env E = E" if "\<not> g_race_detected T"
    using assms that by (simp add: FlushPendingRaceToConsole_def Let_def)
  moreover have "FlushPendingRaceToConsole env E =
      (clear_exception (call_error env (g_race_message T) ?E1))\<lparr>s_in_flush := False\<rparr>"
    if "g_race_detected T \<and> has_context env \<and> console_is_object env \<and> error_is_function env"
    using assms that by (simp add: FlushPendingRaceToConsole_def Let_def)
  moreover have "s_in_flush ?E1" "\<not> g_race_detected (snd (eng ?E1))" by simp_all
  ultimately show ?thesis using nested by blast
qed

lemma flush_not_reentrant_example:
  "\<not> s_in_flush (FlushPendingRaceToConsole plain_env
     (new_engine\<lparr>eng := (new_WebTSan, init_tls\<lparr>g_race_detected := True\<rparr>)\<rparr>))"
proof -
  let ?E = "new_engine\<lparr>eng := (new_WebTSan, init_tls\<lparr>g_race_detected := True\<rparr>)\<rparr>"
  have "\<not> s_in_flush ?E" "eng ?E = (new_WebTSan, init_tls\<lparr>g_race_detected := True\<rparr>)"
    by (simp_all add: new_engine_def)
  from flush_not_reentrant [OF this, of plain_env] show ?thesis by blast
qed

subsection \<open>Taking over a thread id\<close>

text \<open>
  Pthread start-up. \<open>__webTSanSetCurrentTid(tid)\<close> makes \<open>tid\<close> current; the new identity's clock
  then has reached its own earlier clock and that of the worker the thread ran as before, so the
  message that dispatched the thread happens before everything it does; no other clock changes.
\<close>

lemma set_current_tid_hands_over:
  assumes "eng E = (W, T)" and "enabled W" and "g_current_tsan_tid T < kMaxThreads"
    and "Uint32Value api v = Some w" and "unat w < kMaxThreads"
  shows "\<exists>E' W' T'. set_current_tid_js api [v] E = Inr E' \<and> eng E' = (W', T') \<and>
    g_current_tsan_tid T' = unat w \<and>
    thread_clocks W (g_current_tsan_tid T) \<le> thread_clocks W' (unat w) \<and>
    thread_clocks W (unat w) \<le> thread_clocks W' (unat w) \<and>
    (\<forall>u. u \<noteq> unat w \<longrightarrow> thread_clocks W' u = thread_clocks W u)"
  using assms by (auto simp: set_current_tid_js_def arg_uint32_def Let_def WebTSanGetCurrentTid_def
      WebTSanSetCurrentTid_def ThreadAbsorb_def UINT32_MAX_def kMaxThreads_def Join_sup)

definition demo_api :: "nat v8_api" where
  "demo_api = \<lparr>IsSharedArrayBuffer = (\<lambda>v. v = 0), store_data = (\<lambda>_. 4096), store_length = (\<lambda>_. 64),
     Uint32Value = (\<lambda>v. Some (of_nat v)), BooleanValue = (\<lambda>v. v \<noteq> 0),
     IntegerValue = (\<lambda>v. Some (of_nat v))\<rparr>"

lemma set_current_tid_hands_over_example:
  "\<exists>E'. set_current_tid_js demo_api [1]
     (new_engine\<lparr>eng := (two_threads, init_tls\<lparr>g_current_tsan_tid := 0\<rparr>)\<rparr>) = Inr E' \<and>
     WebTSanGetCurrentTid (eng E') = 1"
proof -
  let ?E = "new_engine\<lparr>eng := (two_threads, init_tls\<lparr>g_current_tsan_tid := 0\<rparr>)\<rparr>"
  have "eng ?E = (two_threads, init_tls\<lparr>g_current_tsan_tid := 0\<rparr>)" "enabled two_threads"
    "g_current_tsan_tid (init_tls\<lparr>g_current_tsan_tid := 0\<rparr>) < kMaxThreads"
    "Uint32Value demo_api 1 = Some 1" "unat (1 :: u32) < kMaxThreads"
    by (simp_all add: two_threads_def one_thread_def demo_api_def kMaxThreads_def)
  from set_current_tid_hands_over [OF this] show ?thesis
    by (auto simp: WebTSanGetCurrentTid_def)
qed

subsection \<open>The reentrance flag\<close>

lemma MemoryAccess_tls:
  assumes "MemoryAccess bs len off n t w D = Inr D'"
  shows "g_in_race_report (snd D') = g_in_race_report (snd D) \<and>
    g_current_tsan_tid (snd D') = g_current_tsan_tid (snd D)"
proof -
  have report: "g_in_race_report (snd (report_race bs r WT)) = g_in_race_report (snd WT) \<and>
      g_current_tsan_tid (snd (report_race bs r WT)) = g_current_tsan_tid (snd WT)" for r WT
    by (cases WT) (simp add: report_race_def Let_def)
  show ?thesis
    using assms report
    by (cases D) (auto simp: MemoryAccess_def Let_def bindE_eq_Inr split: if_splits option.splits prod.splits)
qed

lemma flush_flag:
  assumes "\<And>m E. g_in_race_report (snd (eng (call_error env m E))) = g_in_race_report (snd (eng E))"
  shows "g_in_race_report (snd (eng (FlushPendingRaceToConsole env E))) = g_in_race_report (snd (eng E))"
  using assms by (cases "eng E") (simp add: FlushPendingRaceToConsole_def Let_def clear_exception_def)

lemma OnSABRange_flag:
  "OnSABRangeUnsuppressed bs len off n t w D = Inr D' \<Longrightarrow>
     g_in_race_report (snd D') = g_in_race_report (snd D)"
  using MemoryAccess_tls by (simp add: OnSABRangeUnsuppressed_def split: if_splits)

lemma on_eng_flag:
  assumes "on_eng f E = Inr E'"
    and "\<And>D D'. f D = Inr D' \<Longrightarrow> g_in_race_report (snd D') = g_in_race_report (snd D)"
  shows "g_in_race_report (snd (eng E')) = g_in_race_report (snd (eng E))"
proof -
  from assms(1) obtain D where "f (eng E) = Inr D" and "E' = E\<lparr>eng := D\<rparr>"
    by (auto simp: on_eng_def elim!: bindE_InrE)
  with assms(2) show ?thesis by simp
qed

lemma run_callback_flag:
  assumes "\<And>m E. g_in_race_report (snd (eng (call_error env m E))) = g_in_race_report (snd (eng E))"
    and "run_callback api env cb info E = Inr E'"
  shows "g_in_race_report (snd (eng E')) = g_in_race_report (snd (eng E))"
proof (cases cb)
  case RecordRangeCallback
  with assms(2) show ?thesis
    by (auto simp: run_callback_def record_range_js_def bindE_eq_Inr Let_def
        flush_flag [OF assms(1)] split: if_splits dest!: on_eng_flag [OF _ OnSABRange_flag])
qed (use assms(2) in \<open>auto simp: run_callback_def clear_shadow_js_def thread_finish_js_def
    mutex_addr_js_def pthread_create_js_def set_current_tid_js_def pthread_join_js_def
    pthread_detach_js_def Let_def bindE_eq_Inr WebTSanPushSuppress_def WebTSanPopSuppress_def
    WebTSanSetCurrentTid_def hook_defs OnPthreadCreate_def mutex_js_def split: if_splits\<close>)

text \<open>
  The reentrance flag \<open>g_in_race_report\<close> is never raised: from start-up, whatever installed
  functions JavaScript calls, in any order and with any arguments, it is down (given that the
  console does not raise it, which nothing can). The guard of \<open>OnSABAccess\<close> that reads it is dead.
\<close>

lemma reentrance_flag_never_set:
  assumes "\<And>m E. g_in_race_report (snd (eng (call_error env m E))) = g_in_race_report (snd (eng E))"
    and "InitializeWebTSan True new_engine = Inr E"
    and "runE (\<lambda>(cb, info). run_callback api env cb info) calls E = Inr E'"
  shows "\<not> g_in_race_report (snd (eng E')) \<and>
    (enabled (fst (eng E')) \<and> \<not> WebTSanIsSuppressed (eng E') \<longrightarrow>
      OnSABAccess bs len off n t w (eng E') = MemoryAccess bs len off n t w (eng E'))"
proof -
  have "\<not> g_in_race_report (snd (eng E))"
    using assms(2) by (auto simp: InitializeWebTSan_def Let_def bindE_eq_Inr RegisterCallbacks_def
        new_engine_def init_tls_def WebTSanSetCurrentTid_def)
  moreover have "\<not> g_in_race_report (snd (eng E2))"
    if "\<not> g_in_race_report (snd (eng E1))"
      "(\<lambda>(cb, info). run_callback api env cb info) c E1 = Inr E2" for c E1 E2
    using that run_callback_flag [OF assms(1)] by (cases c) fastforce
  ultimately have "\<not> g_in_race_report (snd (eng E'))"
    using assms(3) runE_invariant
      [of "\<lambda>E. \<not> g_in_race_report (snd (eng E))" "\<lambda>(cb, info). run_callback api env cb info"] by blast
  then show ?thesis by (simp add: OnSABAccess_def)
qed

lemma Initialize_new:
  "\<exists>E. InitializeWebTSan True new_engine = Inr E \<and> enabled (fst (eng E)) \<and>
     WebTSanGetCurrentTid (eng E) = 0 \<and> thread_alive (fst (eng E)) 0 \<and>
     g_callbacks E = webtsan_callbacks"
  using ThreadCreate_eq [of "Enable new_WebTSan" UINT32_MAX] find_slot_next [of "Enable new_WebTSan"]
  by (auto simp: InitializeWebTSan_def Let_def RegisterCallbacks_def new_engine_def Enable_def
      new_WebTSan_def WebTSanSetCurrentTid_def WebTSanGetCurrentTid_def)

lemma reentrance_flag_never_set_example:
  "\<exists>E E'. InitializeWebTSan True new_engine = Inr E \<and>
     run_callback demo_api plain_env PushSuppressCallback [] E = Inr E' \<and>
     \<not> g_in_race_report (snd (eng E'))"
proof -
  obtain E where E: "InitializeWebTSan True new_engine = Inr E" using Initialize_new by blast
  have env: "\<And>m E. g_in_race_report (snd (eng (call_error plain_env m E))) = g_in_race_report (snd (eng E))"
    by (simp add: plain_env_def)
  have run: "runE (\<lambda>(cb, info). run_callback demo_api plain_env cb info) [(PushSuppressCallback, [])] E =
      Inr (E\<lparr>eng := WebTSanPushSuppress (eng E)\<rparr>)"
    by (simp add: run_callback_def)
  from reentrance_flag_never_set [OF env E run] E show ?thesis by (simp add: run_callback_def)
qed

end
