(* ===== verification/WasmTrace.thy ===== *)
theory WasmTrace
  imports Init
begin

text \<open>
  WebAssembly accesses: the trace structs of \<open>wasm-tracing.h\<close> and the runtime functions
  \<open>Runtime_WasmTraceMemory\<close> and \<open>Runtime_WasmTraceGlobal\<close> of \<open>runtime-test-wasm.cc\<close>, which compiled
  code calls on every traced access. What the functions read of the calling frame (its
  function, position, tier, instance) is the record \<open>wasm_frame\<close>. Element sizes belong to V8's
  machine representations and are the parameter \<open>rep_size\<close>.
\<close>

type_synonym byte = "8 word"

record MemoryTracingInfo =
  ti_offset :: nat
  ti_mem_index :: nat
  ti_is_store :: byte
  ti_mem_rep :: byte
  ti_is_atomic :: byte

record GlobalTracingInfo =
  gi_global_index :: nat
  gi_is_store :: byte

datatype ValueKind = NumericKind nat | ReferenceKind \<comment> \<open>with the size of a numeric value\<close>

record GlobalTraceEntry =
  gt_function_index :: int
  gt_global_index :: nat
  gt_frame_position :: int
  gt_tier :: nat
  gt_kind :: ValueKind
  gt_is_store :: bool
  gt_value_bytes :: "byte list"

record MemoryTraceEntry =
  mt_offset :: nat
  mt_function_index :: int
  mt_mem_index :: nat
  mt_frame_position :: int
  mt_tier :: nat
  mt_representation :: byte
  mt_is_store :: bool
  mt_value_bytes :: "byte list"

record WasmTracesForTesting =
  global_trace :: "GlobalTraceEntry list"
  memory_trace :: "MemoryTraceEntry list"
  should_store_trace :: bool

fun value_kind_size :: "ValueKind \<Rightarrow> nat" where
  "value_kind_size (NumericKind n) = n"
| "value_kind_size ReferenceKind = 8"

fun is_reference :: "ValueKind \<Rightarrow> bool" where
  "is_reference (NumericKind n) = False"
| "is_reference ReferenceKind = True"

text \<open>\<open>memcmp\<close> of the first \<open>n\<close> bytes.\<close>

definition memcmp_eq :: "nat \<Rightarrow> byte list \<Rightarrow> byte list \<Rightarrow> bool" where
  "memcmp_eq n xs ys \<longleftrightarrow> take n xs = take n ys"

definition GlobalTraceEntry_eq :: "GlobalTraceEntry \<Rightarrow> GlobalTraceEntry \<Rightarrow> bool" where
  "GlobalTraceEntry_eq x y =
     (let value_matches =
        (if \<not> is_reference (gt_kind x)
         then memcmp_eq (value_kind_size (gt_kind x)) (gt_value_bytes x) (gt_value_bytes y)
         else True)
      in gt_function_index x = gt_function_index y \<and> gt_global_index x = gt_global_index y \<and>
         gt_is_store x = gt_is_store y \<and> gt_kind x = gt_kind y \<and> value_matches)"

definition MemoryTraceEntry_eq ::
  "(byte \<Rightarrow> nat) \<Rightarrow> MemoryTraceEntry \<Rightarrow> MemoryTraceEntry \<Rightarrow> bool" where
  "MemoryTraceEntry_eq rep_size x y \<longleftrightarrow>
     mt_function_index x = mt_function_index y \<and> mt_mem_index x = mt_mem_index y \<and>
     mt_is_store x = mt_is_store y \<and> mt_representation x = mt_representation y \<and>
     mt_offset x = mt_offset y \<and>
     memcmp_eq (rep_size (mt_representation x)) (mt_value_bytes x) (mt_value_bytes y)"

subsection \<open>The calling frame and the state\<close>

record wasm_frame =
  fr_function_index :: int
  fr_position :: int
  fr_tier :: nat
  fr_buffer_start :: "nat \<Rightarrow> addr" \<comment> \<open>of the backing store of a memory index\<close>
  fr_byte_length :: "nat \<Rightarrow> nat"
  fr_native_context :: addr \<comment> \<open>0 is \<open>kNullAddress\<close>\<close>
  fr_global_kind :: "nat \<Rightarrow> ValueKind"
  fr_global_bytes :: "nat \<Rightarrow> byte list" \<comment> \<open>the value of a global, or the address of a reference\<close>

record wasm_state =
  wasm_engine :: engine
  wasm_traces :: WasmTracesForTesting
  memory_printed :: "MemoryTraceEntry list"
  global_printed :: "GlobalTraceEntry list"
  webtsan_globals_installed :: bool \<comment> \<open>thread-local\<close>
  realm_globals :: js_globals

record wasm_flags =
  flag_trace_wasm_memory :: bool
  flag_trace_wasm_globals :: bool
  flag_wasm_tsan :: bool
  flag_fuzzing :: bool

definition CrashUnlessFuzzing :: "wasm_flags \<Rightarrow> 's \<Rightarrow> 's result" where
  "CrashUnlessFuzzing flags s = (if flag_fuzzing flags then Inr s else Inl CheckFailed)"

definition record_memory_trace :: "MemoryTraceEntry \<Rightarrow> wasm_state \<Rightarrow> wasm_state" where
  "record_memory_trace e s =
     (if should_store_trace (wasm_traces s)
      then s\<lparr>wasm_traces := (wasm_traces s)\<lparr>memory_trace := memory_trace (wasm_traces s) @ [e]\<rparr>\<rparr>
      else s\<lparr>memory_printed := memory_printed s @ [e]\<rparr>)"

definition record_global_trace :: "GlobalTraceEntry \<Rightarrow> wasm_state \<Rightarrow> wasm_state" where
  "record_global_trace e s =
     (if should_store_trace (wasm_traces s)
      then s\<lparr>wasm_traces := (wasm_traces s)\<lparr>global_trace := global_trace (wasm_traces s) @ [e]\<rparr>\<rparr>
      else s\<lparr>global_printed := global_printed s @ [e]\<rparr>)"

definition Runtime_WasmTraceGlobal ::
  "wasm_flags \<Rightarrow> wasm_frame \<Rightarrow> GlobalTracingInfo option \<Rightarrow> wasm_state \<Rightarrow> wasm_state result" where
  "Runtime_WasmTraceGlobal flags frame arg s =
     (if \<not> flag_trace_wasm_globals flags then Inl CheckFailed
      else case arg of
        None \<Rightarrow> CrashUnlessFuzzing flags s
      | Some info \<Rightarrow>
          let kind = fr_global_kind frame (gi_global_index info) in
          if \<not> 16 \<ge> value_kind_size kind then Inl CheckFailed
          else
            let bytes = take (value_kind_size kind) (fr_global_bytes frame (gi_global_index info));
                entry = \<lparr>gt_function_index = fr_function_index frame,
                  gt_global_index = gi_global_index info, gt_frame_position = fr_position frame,
                  gt_tier = fr_tier frame, gt_kind = kind, gt_is_store = (gi_is_store info \<noteq> 0),
                  gt_value_bytes = bytes @ replicate (16 - length bytes) 0\<rparr>
            in Inr (record_global_trace entry s))"

subsection \<open>Runtime_WasmTraceMemory\<close>

text \<open>The part under the handle seal: check, copy the bytes accessed, store or print the entry.\<close>

definition trace_entry :: "(byte \<Rightarrow> nat) \<Rightarrow> (addr \<Rightarrow> byte) \<Rightarrow> wasm_frame \<Rightarrow> MemoryTracingInfo \<Rightarrow>
    MemoryTraceEntry" where
  "trace_entry rep_size mem frame info =
     (let address = size_t (fr_buffer_start frame (ti_mem_index info) + ti_offset info);
          n = rep_size (ti_mem_rep info);
          bytes = map (\<lambda>i. mem (address + i)) [0..<n]
      in \<lparr>mt_offset = ti_offset info, mt_function_index = fr_function_index frame,
          mt_mem_index = ti_mem_index info, mt_frame_position = fr_position frame,
          mt_tier = fr_tier frame, mt_representation = ti_mem_rep info,
          mt_is_store = (ti_is_store info \<noteq> 0),
          mt_value_bytes = bytes @ replicate (16 - n) 0\<rparr>)"

text \<open>Installing the globals on the first access of the thread.\<close>

definition install_once :: "wasm_frame \<Rightarrow> wasm_state \<Rightarrow> wasm_state" where
  "install_once frame s =
     (case install_webtsan_globals (g_callbacks (wasm_engine s)) of
        None \<Rightarrow> s
      | Some install \<Rightarrow>
          if \<not> webtsan_globals_installed s \<and> fr_native_context frame \<noteq> 0
          then s\<lparr>webtsan_globals_installed := True,
                 realm_globals := install (eng (wasm_engine s)) (realm_globals s)\<rparr>
          else s)"

text \<open>Atomic accesses only move clocks; a store is treated as a read-modify-write.\<close>

definition tsan_atomic :: "addr \<Rightarrow> bool \<Rightarrow> engine \<Rightarrow> engine result" where
  "tsan_atomic location is_store E =
     (let tid = GetTid E in
      if tid = UINT32_MAX then Inr E
      else if \<not> is_store then
        (case on_atomics_load (g_callbacks E) of
           None \<Rightarrow> Inr E
         | Some load \<Rightarrow> on_eng (load tid location) E)
      else
        (case on_atomics_rmw (g_callbacks E) of
           None \<Rightarrow> Inr E
         | Some rmw \<Rightarrow> on_eng (rmw tid location) E))"

text \<open>Printing the report consumed after an access, with the reentrance guard up meanwhile.\<close>

definition report_to_console :: "js_env \<Rightarrow> string \<Rightarrow> engine \<Rightarrow> engine" where
  "report_to_console env msg E =
     (let E1 = E\<lparr>s_in_race_report := True\<rparr>;
          combined = msg @ stack_trace env;
          E2 = (if console_is_object env \<and> error_is_function env
                then clear_exception (call_error env combined E1) else E1)
      in E2\<lparr>s_in_race_report := False\<rparr>)"

definition tsan_plain ::
  "js_env \<Rightarrow> addr \<Rightarrow> nat \<Rightarrow> nat \<Rightarrow> nat \<Rightarrow> nat \<Rightarrow> engine \<Rightarrow> engine result" where
  "tsan_plain env bs len offset sz is_store E =
     (case wasm_access (g_callbacks E) of
        None \<Rightarrow> Inr E
      | Some access \<Rightarrow>
          if s_in_race_report E then Inr E
          else bindE (on_eng (access bs len offset sz is_store) E) (\<lambda>E.
            case consume_race (g_callbacks E) of
              None \<Rightarrow> Inr E
            | Some consume \<Rightarrow>
                (case consume 512 (eng E) of
                   (None, D) \<Rightarrow> Inr (E\<lparr>eng := D\<rparr>)
                 | (Some msg, D) \<Rightarrow> Inr (report_to_console env msg (E\<lparr>eng := D\<rparr>)))))"

definition on_wasm_engine :: "(engine \<Rightarrow> engine result) \<Rightarrow> wasm_state \<Rightarrow> wasm_state result" where
  "on_wasm_engine f s = bindE (f (wasm_engine s)) (\<lambda>E. Inr (s\<lparr>wasm_engine := E\<rparr>))"

definition Runtime_WasmTraceMemory ::
  "(byte \<Rightarrow> nat) \<Rightarrow> (addr \<Rightarrow> byte) \<Rightarrow> js_env \<Rightarrow> wasm_flags \<Rightarrow> wasm_frame \<Rightarrow>
   MemoryTracingInfo option \<Rightarrow> wasm_state \<Rightarrow> wasm_state result" where
  "Runtime_WasmTraceMemory rep_size mem env flags frame arg s =
     (case arg of
        None \<Rightarrow> CrashUnlessFuzzing flags s
      | Some info \<Rightarrow>
          let sz = rep_size (ti_mem_rep info) in
          if \<not> 16 \<ge> sz then Inl CheckFailed
          else
            let s1 = (if flag_trace_wasm_memory flags
                      then record_memory_trace (trace_entry rep_size mem frame info) s else s);
                bs = fr_buffer_start frame (ti_mem_index info)
            in if \<not> (flag_wasm_tsan flags \<and> bs \<noteq> 0) then Inr s1
               else
                 let s2 = install_once frame s1 in
                 if ti_is_atomic info \<noteq> 0 then
                   on_wasm_engine (tsan_atomic (size_t (bs + ti_offset info)) (ti_is_store info \<noteq> 0)) s2
                 else
                   on_wasm_engine (tsan_plain env bs (fr_byte_length frame (ti_mem_index info))
                     (ti_offset info) sz (if ti_is_store info \<noteq> 0 then 1 else 0)) s2)"

subsection \<open>Properties\<close>

text \<open>
  Both trace-entry comparisons are equivalence relations, although they compare only as many
  value bytes as the first operand's kind or representation says, and they ignore the frame
  position and the execution tier, so that traces of two tiers can be compared.
\<close>

lemma trace_entry_equivalence:
  "MemoryTraceEntry_eq rep_size x x \<and>
   (MemoryTraceEntry_eq rep_size x y \<longleftrightarrow> MemoryTraceEntry_eq rep_size y x) \<and>
   (MemoryTraceEntry_eq rep_size x y \<and> MemoryTraceEntry_eq rep_size y z \<longrightarrow> MemoryTraceEntry_eq rep_size x z) \<and>
   MemoryTraceEntry_eq rep_size x (x\<lparr>mt_tier := t, mt_frame_position := p\<rparr>) \<and>
   GlobalTraceEntry_eq g g \<and> (GlobalTraceEntry_eq g h \<longleftrightarrow> GlobalTraceEntry_eq h g) \<and>
   (GlobalTraceEntry_eq g h \<and> GlobalTraceEntry_eq h k \<longrightarrow> GlobalTraceEntry_eq g k) \<and>
   GlobalTraceEntry_eq g (g\<lparr>gt_tier := t, gt_frame_position := p\<rparr>)"
  by (auto simp: MemoryTraceEntry_eq_def GlobalTraceEntry_eq_def memcmp_eq_def Let_def)

definition demo_entry :: "nat \<Rightarrow> MemoryTraceEntry" where
  "demo_entry tier = \<lparr>mt_offset = 8, mt_function_index = 1, mt_mem_index = 0, mt_frame_position = 3,
     mt_tier = tier, mt_representation = 4, mt_is_store = True, mt_value_bytes = [7, 0, 0, 0]\<rparr>"

lemma trace_entry_equivalence_example:
  "MemoryTraceEntry_eq unat (demo_entry 0) (demo_entry 2)"
proof -
  have "MemoryTraceEntry_eq unat (demo_entry 0) (demo_entry 1)"
    "MemoryTraceEntry_eq unat (demo_entry 1) (demo_entry 2)"
    by (simp_all add: MemoryTraceEntry_eq_def demo_entry_def memcmp_eq_def)
  then show ?thesis
    using trace_entry_equivalence [of unat "demo_entry 0" "demo_entry 1" "demo_entry 2"] by blast
qed


lemma demo_race_access:
  "\<exists>r D. MemoryAccess 4096 128 10 1 1 True (two_threads\<lparr>shadow_buffers := [4096 \<mapsto> demo_buffer]\<rparr>, T) =
     Inr (report_race 4096 r D) \<and> reported_race_sites (fst D) = {}"
proof -
  let ?clk = "Increment 1 empty_clock"
  obtain r sb where "RecordAccess 10 1 1 True ?clk demo_buffer = (Some r, sb)"
    using demo_buffer_race by (metis prod.collapse)
  moreover have "thread_clocks two_threads 1 = ?clk" "enabled two_threads"
    "reported_race_sites two_threads = {}"
    by (simp_all add: two_threads_def one_thread_def new_WebTSan_def)
  ultimately show ?thesis
    by (auto simp: MemoryAccess_def lookup_shadow_def GetOrCreateShadow_def index_tid_def
        kMaxThreads_def Let_def intro!: exI [of _ r])
qed


text \<open>
  C13: an atomic store from WebAssembly is not an atomic store from JavaScript. From WebAssembly the
  storing thread first acquires: it joins the clock of whoever released at the location before, and so
  counts as ordered after that thread without having read anything. The runtime function
  behind \<open>Atomics.store\<close> releases only: but for its own tick the thread's clock stays.
\<close>

theorem wasm_store_acquires:
  assumes "g_callbacks E = webtsan_callbacks" and "eng E = (W, T)" and "enabled W"
    and "g_current_tsan_tid T = t" and "t < kMaxThreads" and "sync_clocks W loc = Some c" and "u \<noteq> t"
    and "element_address a index = loc" and "is_shared a"
  shows "(\<exists>E'. tsan_atomic loc True E = Inr E' \<and>
       Get (thread_clocks (fst (eng E')) t) u = max (Get (thread_clocks W t) u) (Get c u)) \<and>
    (\<exists>E'. Runtime_WebTSanAtomicsStore True env a index E = Inr (MaybeThrowRace env E') \<and>
       Get (thread_clocks (fst (eng E')) t) u = Get (thread_clocks W t) u)"
proof -
  have "GetTid E = t" "t \<noteq> UINT32_MAX"
    using assms(1,2,4,5)
    by (simp_all add: GetTid_def webtsan_callbacks_def WebTSanGetCurrentTid_def UINT32_MAX_def
        kMaxThreads_def)
  moreover have "Release t loc W' = Inr (publish t loc W')" if "enabled W'" for W'
    using that assms(5) by (simp add: Release_def index_tid_def)
  moreover have "Acquire t loc W = Inr (join_thread t c W)"
    using assms(3,5,6) by (simp add: Acquire_def index_tid_def)
  ultimately have "tsan_atomic loc True E = Inr (E\<lparr>eng := (publish t loc (join_thread t c W), T)\<rparr>)"
    "Runtime_WebTSanAtomicsStore True env a index E =
       Inr (MaybeThrowRace env (E\<lparr>eng := (publish t loc W, T)\<rparr>))"
    using assms
    by (simp_all add: tsan_atomic_def Runtime_WebTSanAtomicsStore_def webtsan_callbacks_def on_eng_def
        OnAtomicsRMW_def OnAtomicsStore_def callE_def Let_def)
  moreover have "Get (thread_clocks (publish t loc (join_thread t c W)) t) u =
      max (Get (thread_clocks W t) u) (Get c u)"
    "Get (thread_clocks (publish t loc W) t) u = Get (thread_clocks W t) u"
    using assms(7) by simp_all
  ultimately show ?thesis by fastforce
qed

theorem wasm_store_acquires_witness:
  "\<exists>E'. tsan_atomic 64 True
     (new_engine\<lparr>g_callbacks := webtsan_callbacks,
        eng := (two_threads\<lparr>sync_clocks := [64 \<mapsto> Increment 0 empty_clock]\<rparr>,
                init_tls\<lparr>g_current_tsan_tid := 1\<rparr>)\<rparr>) = Inr E' \<and>
     Get (thread_clocks (fst (eng E')) 1) 0 = 1"
proof -
  let ?W = "two_threads\<lparr>sync_clocks := [64 \<mapsto> Increment 0 empty_clock]\<rparr>"
  let ?T = "init_tls\<lparr>g_current_tsan_tid := 1\<rparr>"
  let ?E = "new_engine\<lparr>g_callbacks := webtsan_callbacks, eng := (?W, ?T)\<rparr>"
  let ?a = "\<lparr>is_shared = True, backing_store = 64, byte_length = 8, byte_offset = 0, element_size = 4\<rparr>"
  have "g_callbacks ?E = webtsan_callbacks" "eng ?E = (?W, ?T)" "enabled ?W" "g_current_tsan_tid ?T = 1"
    "1 < kMaxThreads" "sync_clocks ?W 64 = Some (Increment 0 empty_clock)" "(0::nat) \<noteq> 1"
    "element_address ?a 0 = 64" "is_shared ?a"
    by (simp_all add: two_threads_def one_thread_def kMaxThreads_def element_address_def
        element_offset_def)
  from wasm_store_acquires [OF this, of plain_env] show ?thesis
    by (auto simp: two_threads_def kMaxThreads_def)
qed

end
