(* ===== verification/Futex.thy ===== *)
theory Futex
  imports WasmTrace Complex_Main
begin

text \<open>
  The wait lists behind \<open>Atomics.wait\<close>, \<open>waitAsync\<close> and \<open>notify\<close>, with the detector's hooks:
  \<open>futex-emulation.cc\<close>. Nodes live in a heap and are linked by \<open>prev_\<close> and \<open>next_\<close>; a location
  maps to the head and tail of the list of its waiters, an isolate to those of its promises to
  resolve. Following a null pointer or one to a deleted node is \<open>BadPointer\<close>. Each operation runs
  under the list's mutex; the blocking loop of a synchronous wait, which gives it up, is a
  sequence of steps. The node's layout, the task manager and the platform are declared outside
  the sources: a node has the fields the code uses, task ids are fresh and not 0, time 0 is the
  null time, and \<open>base::TimeDelta::FromNanoseconds\<close> is the parameter \<open>from_ns\<close>.
\<close>

type_synonym ptr = nat
type_synonym isolate = nat
type_synonym time = nat

record AsyncState =
  isolate_for_async_waiters :: isolate
  as_backing_store :: nat \<comment> \<open>weak pointer\<close>
  as_promise :: "nat option" \<comment> \<open>weak; \<open>None\<close> once collected\<close>
  timeout_time :: time
  timeout_task_id :: nat
  waiting_for_main_thread_cleanup :: bool

record FutexWaitListNode =
  prev_node :: "ptr option"
  next_node :: "ptr option"
  wait_location :: addr
  waiting :: bool
  interrupted :: bool
  async_state :: "AsyncState option"

datatype task = ResolveAsyncWaiterPromisesTask isolate | AsyncWaiterTimeoutTask nat ptr time

type_synonym HeadAndTail = "ptr \<times> ptr"

record futex =
  heap :: "ptr \<Rightarrow> FutexWaitListNode option"
  next_ptr :: ptr
  location_lists :: "addr \<Rightarrow> HeadAndTail option"
  promises_to_resolve :: "isolate \<Rightarrow> HeadAndTail option"
  live_stores :: "nat set" \<comment> \<open>backing stores some shared pointer keeps alive\<close>
  waitasync_promises :: "nat set" \<comment> \<open>\<open>atomics_waitasync_promises\<close>\<close>
  posted :: "task list"
  next_task :: nat
  notified :: "ptr list" \<comment> \<open>\<open>NotifyOne\<close> on a node's condition variable\<close>
  resolved :: "(nat \<times> string) list" \<comment> \<open>promises resolved, with their value\<close>
  fx_engine :: engine

subsection \<open>Pointers\<close>

definition deref :: "ptr option \<Rightarrow> futex \<Rightarrow> FutexWaitListNode result" where
  "deref q S = (case q of None \<Rightarrow> Inl BadPointer
     | Some p \<Rightarrow> (case heap S p of None \<Rightarrow> Inl BadPointer | Some n \<Rightarrow> Inr n))"

definition store :: "ptr \<Rightarrow> (FutexWaitListNode \<Rightarrow> FutexWaitListNode) \<Rightarrow> futex \<Rightarrow> futex result" where
  "store p f S = (case heap S p of None \<Rightarrow> Inl BadPointer
     | Some n \<Rightarrow> Inr (S\<lparr>heap := (heap S)(p := Some (f n))\<rparr>))"

definition deref_async :: "FutexWaitListNode \<Rightarrow> AsyncState result" where
  "deref_async n = (case async_state n of None \<Rightarrow> Inl BadPointer | Some a \<Rightarrow> Inr a)"

definition store_async :: "ptr \<Rightarrow> (AsyncState \<Rightarrow> AsyncState) \<Rightarrow> futex \<Rightarrow> futex result" where
  "store_async p f = store p (\<lambda>n. n\<lparr>async_state := map_option f (async_state n)\<rparr>)"

definition IsAsync :: "FutexWaitListNode \<Rightarrow> bool" where
  "IsAsync n \<longleftrightarrow> async_state n \<noteq> None"

text \<open>\<open>backing_store.expired()\<close>\<close>

definition expired :: "futex \<Rightarrow> AsyncState \<Rightarrow> bool" where
  "expired S a \<longleftrightarrow> as_backing_store a \<notin> live_stores S"

subsection \<open>FutexWaitList\<close>

definition AddNode :: "ptr \<Rightarrow> futex \<Rightarrow> futex result" where
  "AddNode x S =
     bindE (deref (Some x) S) (\<lambda>n.
       let loc = wait_location n in
       case location_lists S loc of
         None \<Rightarrow> Inr (S\<lparr>location_lists := (location_lists S)(loc \<mapsto> (x, x))\<rparr>)
       | Some (head, tail) \<Rightarrow>
           bindE (store tail (\<lambda>m. m\<lparr>next_node := Some x\<rparr>) S) (\<lambda>S.
           bindE (store x (\<lambda>m. m\<lparr>prev_node := Some tail\<rparr>) S) (\<lambda>S.
             Inr (S\<lparr>location_lists := (location_lists S)(loc \<mapsto> (head, x))\<rparr>))))"

definition RemoveNode :: "ptr \<Rightarrow> futex \<Rightarrow> futex result" where
  "RemoveNode x S =
     bindE (deref (Some x) S) (\<lambda>n.
       let loc = wait_location n in
       case (prev_node n, next_node n) of
         (None, None) \<Rightarrow> Inr (S\<lparr>location_lists := (location_lists S)(loc := None)\<rparr>)
       | (Some p, Some q) \<Rightarrow>
           bindE (store p (\<lambda>m. m\<lparr>next_node := Some q\<rparr>) S) (\<lambda>S.
           bindE (store q (\<lambda>m. m\<lparr>prev_node := Some p\<rparr>) S)
             (store x (\<lambda>m. m\<lparr>prev_node := None, next_node := None\<rparr>)))
       | (Some p, None) \<Rightarrow>
           (case location_lists S loc of
              None \<Rightarrow> Inl BadPointer
            | Some (head, tail) \<Rightarrow>
                bindE (store p (\<lambda>m. m\<lparr>next_node := None\<rparr>) S) (\<lambda>S.
                  store x (\<lambda>m. m\<lparr>prev_node := None\<rparr>)
                    (S\<lparr>location_lists := (location_lists S)(loc \<mapsto> (head, p))\<rparr>)))
       | (None, Some q) \<Rightarrow>
           (case location_lists S loc of
              None \<Rightarrow> Inl BadPointer
            | Some (head, tail) \<Rightarrow>
                bindE (store q (\<lambda>m. m\<lparr>prev_node := None\<rparr>)
                        (S\<lparr>location_lists := (location_lists S)(loc \<mapsto> (q, tail))\<rparr>))
                  (store x (\<lambda>m. m\<lparr>next_node := None\<rparr>))))"

text \<open>Unlinks and frees a node; returns the one after it.\<close>

definition DeleteAsyncWaiterNode :: "ptr \<Rightarrow> futex \<Rightarrow> (ptr option \<times> futex) result" where
  "DeleteAsyncWaiterNode x S =
     bindE (deref (Some x) S) (\<lambda>n.
     bindE (case prev_node n of None \<Rightarrow> Inr S
            | Some p \<Rightarrow> store p (\<lambda>m. m\<lparr>next_node := next_node n\<rparr>) S) (\<lambda>S.
     bindE (case next_node n of None \<Rightarrow> Inr S
            | Some q \<Rightarrow> store q (\<lambda>m. m\<lparr>prev_node := prev_node n\<rparr>) S) (\<lambda>S.
       Inr (next_node n, S\<lparr>heap := (heap S)(x := None)\<rparr>))))"

definition of_isolate :: "isolate \<Rightarrow> FutexWaitListNode \<Rightarrow> bool" where
  "of_isolate isol n \<longleftrightarrow>
     (case async_state n of None \<Rightarrow> False | Some a \<Rightarrow> isolate_for_async_waiters a = isol)"

text \<open>The loop carries the new head and tail; \<open>fuel\<close> bounds the nodes it visits.\<close>

fun delete_loop :: "nat \<Rightarrow> isolate \<Rightarrow> ptr option \<Rightarrow> ptr option \<Rightarrow> ptr option \<Rightarrow> futex \<Rightarrow>
    (ptr option \<times> ptr option \<times> futex) result" where
  "delete_loop fuel isol None new_head new_tail S = Inr (new_head, new_tail, S)"
| "delete_loop 0 isol (Some p) new_head new_tail S = Inl Unfinished"
| "delete_loop (Suc fuel) isol (Some p) new_head new_tail S =
     bindE (deref (Some p) S) (\<lambda>n.
       if of_isolate isol n then
         bindE (store_async p (\<lambda>a. a\<lparr>timeout_task_id := 0\<rparr>) S) (\<lambda>S.
         bindE (DeleteAsyncWaiterNode p S) (\<lambda>(next, S).
           delete_loop fuel isol next new_head new_tail S))
       else
         delete_loop fuel isol (next_node n)
           (if new_head = None then Some p else new_head) (Some p) S)"

definition DeleteNodesForIsolate :: "isolate \<Rightarrow> ptr \<Rightarrow> futex \<Rightarrow>
    (ptr option \<times> ptr option \<times> futex) result" where
  "DeleteNodesForIsolate isol head S = delete_loop (next_ptr S) isol (Some head) None None S"

text \<open>The debug checks \<open>NodeIsOnList\<close> and \<open>Verify\<close>.\<close>

fun NodeIsOnList :: "nat \<Rightarrow> ptr \<Rightarrow> ptr option \<Rightarrow> futex \<Rightarrow> bool" where
  "NodeIsOnList fuel x None S = False"
| "NodeIsOnList 0 x (Some p) S = False"
| "NodeIsOnList (Suc fuel) x (Some p) S =
     (if p = x then True
      else case heap S p of None \<Rightarrow> False | Some n \<Rightarrow> NodeIsOnList fuel x (next_node n) S)"

definition VerifyNode :: "futex \<Rightarrow> ptr \<Rightarrow> ptr \<Rightarrow> ptr \<Rightarrow> bool" where
  "VerifyNode S x head tail \<longleftrightarrow>
     (case heap S x of None \<Rightarrow> False | Some n \<Rightarrow>
       (case next_node n of
          Some q \<Rightarrow> x \<noteq> tail \<and> (case heap S q of None \<Rightarrow> False | Some m \<Rightarrow> prev_node m = Some x)
        | None \<Rightarrow> x = tail) \<and>
       (case prev_node n of
          Some p \<Rightarrow> x \<noteq> head \<and> (case heap S p of None \<Rightarrow> False | Some m \<Rightarrow> next_node m = Some x)
        | None \<Rightarrow> x = head) \<and>
       NodeIsOnList (next_ptr S) x (Some head) S)"

fun verify_loop :: "nat \<Rightarrow> (FutexWaitListNode \<Rightarrow> bool) \<Rightarrow> HeadAndTail \<Rightarrow> ptr option \<Rightarrow> futex \<Rightarrow> bool" where
  "verify_loop fuel ok ht None S = True"
| "verify_loop 0 ok ht (Some p) S = False"
| "verify_loop (Suc fuel) ok ht (Some p) S =
     (case heap S p of None \<Rightarrow> False
      | Some n \<Rightarrow> ok n \<and> VerifyNode S p (fst ht) (snd ht) \<and> verify_loop fuel ok ht (next_node n) S)"

definition Verify :: "futex \<Rightarrow> bool" where
  "Verify S \<longleftrightarrow>
     (\<forall>loc ht. location_lists S loc = Some ht \<longrightarrow>
        verify_loop (next_ptr S) (\<lambda>_. True) ht (Some (fst ht)) S) \<and>
     (\<forall>isol ht. promises_to_resolve S isol = Some ht \<longrightarrow>
        verify_loop (next_ptr S) (of_isolate isol) ht (Some (fst ht)) S)"

subsection \<open>Waking\<close>

definition NotifyAsyncWaiter :: "ptr \<Rightarrow> futex \<Rightarrow> futex result" where
  "NotifyAsyncWaiter x S =
     bindE (store_async x (\<lambda>a. a\<lparr>timeout_time := 0\<rparr>) S) (\<lambda>S.
     bindE (RemoveNode x S) (\<lambda>S.
     bindE (deref (Some x) S) (\<lambda>n.
     bindE (deref_async n) (\<lambda>a.
       let isol = isolate_for_async_waiters a in
       case promises_to_resolve S isol of
         None \<Rightarrow>
           Inr (S\<lparr>promises_to_resolve := (promises_to_resolve S)(isol \<mapsto> (x, x)),
                  posted := posted S @ [ResolveAsyncWaiterPromisesTask isol]\<rparr>)
       | Some (head, tail) \<Rightarrow>
           bindE (store x (\<lambda>m. m\<lparr>prev_node := Some tail\<rparr>) S) (\<lambda>S.
           bindE (store tail (\<lambda>m. m\<lparr>next_node := Some x\<rparr>) S) (\<lambda>S.
             Inr (S\<lparr>promises_to_resolve := (promises_to_resolve S)(isol \<mapsto> (head, x))\<rparr>)))))))"

definition NotifyOne :: "ptr \<Rightarrow> futex \<Rightarrow> futex" where
  "NotifyOne p S = S\<lparr>notified := notified S @ [p]\<rparr>"

definition NotifyWake :: "ptr \<Rightarrow> futex \<Rightarrow> futex result" where
  "NotifyWake p S = bindE (store p (\<lambda>n. n\<lparr>interrupted := True\<rparr>) S) (\<lambda>S. Inr (NotifyOne p S))"

definition matching_backing_store :: "futex \<Rightarrow> FutexWaitListNode \<Rightarrow> bool" where
  "matching_backing_store S n \<longleftrightarrow>
     (case async_state n of None \<Rightarrow> True | Some a \<Rightarrow> \<not> expired S a)"

fun wake_loop :: "nat \<Rightarrow> nat \<Rightarrow> ptr option \<Rightarrow> nat \<Rightarrow> nat \<Rightarrow> futex \<Rightarrow> (nat \<times> futex) result" where
  "wake_loop fuel kWakeAll None num woken S = Inr (woken, S)"
| "wake_loop 0 kWakeAll (Some p) num woken S =
     (if num > 0 then Inl Unfinished else Inr (woken, S))"
| "wake_loop (Suc fuel) kWakeAll (Some p) num woken S =
     (if \<not> num > 0 then Inr (woken, S)
      else bindE (deref (Some p) S) (\<lambda>node.
        if \<not> waiting node then wake_loop fuel kWakeAll (next_node node) num woken S
        else if matching_backing_store S node then
          bindE (store p (\<lambda>n. n\<lparr>waiting := False\<rparr>) S) (\<lambda>S.
          bindE (if IsAsync node then NotifyAsyncWaiter p S else Inr (NotifyOne p S)) (\<lambda>S.
            wake_loop fuel kWakeAll (next_node node)
              (if num \<noteq> kWakeAll then num - 1 else num) (woken + 1) S))
        else
          bindE (deref_async node) (\<lambda>a.
          bindE (if timeout_time a = 0 then
                   bindE (store_async p (\<lambda>a. a\<lparr>waiting_for_main_thread_cleanup := True\<rparr>) S) (\<lambda>S.
                   bindE (store p (\<lambda>n. n\<lparr>waiting := False\<rparr>) S) (NotifyAsyncWaiter p))
                 else Inr S) (\<lambda>S.
          bindE (deref (Some p) S) (\<lambda>node.
            wake_loop fuel kWakeAll (next_node node) num woken S)))))"

text \<open>The detector's hooks of this file: skipped for a thread without a tid.\<close>

definition tsan_hook ::
  "(WebTSanCallbacks \<Rightarrow> (tid \<Rightarrow> addr \<Rightarrow> dstate \<Rightarrow> dstate result) option) \<Rightarrow> bool \<Rightarrow> addr \<Rightarrow>
   futex \<Rightarrow> futex result" where
  "tsan_hook field wasm_tsan loc S =
     (if \<not> wasm_tsan then Inr S
      else
        let tid = GetTid (fx_engine S) in
        if tid = UINT32_MAX then Inr S
        else case field (g_callbacks (fx_engine S)) of
               None \<Rightarrow> Inl BadPointer
             | Some hook \<Rightarrow> bindE (on_eng (hook tid loc) (fx_engine S)) (\<lambda>E. Inr (S\<lparr>fx_engine := E\<rparr>)))"

definition Wake :: "bool \<Rightarrow> nat \<Rightarrow> addr \<Rightarrow> nat \<Rightarrow> futex \<Rightarrow> (nat \<times> futex) result" where
  "Wake wasm_tsan kWakeAll loc num S =
     bindE (tsan_hook on_atomics_notify wasm_tsan loc S) (\<lambda>S.
       case location_lists S loc of
         None \<Rightarrow> Inr (0, S)
       | Some (head, tail) \<Rightarrow> wake_loop (next_ptr S) kWakeAll (Some head) num 0 S)"

text \<open>Waking the waiters of a managed object: synchronous ones only, on a list of its own.\<close>

fun wake_managed_loop :: "nat \<Rightarrow> nat \<Rightarrow> ptr option \<Rightarrow> nat \<Rightarrow> nat \<Rightarrow> futex \<Rightarrow> (nat \<times> futex) result" where
  "wake_managed_loop fuel kWakeAll None num woken S = Inr (woken, S)"
| "wake_managed_loop 0 kWakeAll (Some p) num woken S =
     (if num > 0 then Inl Unfinished else Inr (woken, S))"
| "wake_managed_loop (Suc fuel) kWakeAll (Some p) num woken S =
     (if \<not> num > 0 then Inr (woken, S)
      else bindE (deref (Some p) S) (\<lambda>node.
        if \<not> waiting node then wake_managed_loop fuel kWakeAll (next_node node) num woken S
        else
          bindE (store p (\<lambda>n. n\<lparr>waiting := False\<rparr>) S) (\<lambda>S.
            wake_managed_loop fuel kWakeAll (next_node node)
              (if num \<noteq> kWakeAll then num - 1 else num) (woken + 1) (NotifyOne p S))))"

definition Wake_managed :: "nat \<Rightarrow> ptr option \<Rightarrow> nat \<Rightarrow> futex \<Rightarrow> (nat \<times> futex) result" where
  "Wake_managed kWakeAll head num S = wake_managed_loop (next_ptr S) kWakeAll head num 0 S"

subsection \<open>Synchronous waits\<close>

datatype WaitReturnValue = kOk | kNotEqualValue | kTimedOut

datatype wait_result = Returned WaitReturnValue | Exception

text \<open>Where the waiting thread is in the loop of \<open>WaitSyncImpl\<close> when it has released the mutex.\<close>

datatype phase = Checking | HandlingInterrupts | Blocked | Done wait_result

fun WaitJsTranslateReturn :: "wait_result \<Rightarrow> string option" where
  "WaitJsTranslateReturn (Returned kOk) = Some ''ok''"
| "WaitJsTranslateReturn (Returned kNotEqualValue) = Some ''not-equal''"
| "WaitJsTranslateReturn (Returned kTimedOut) = Some ''timed-out''"
| "WaitJsTranslateReturn Exception = None"

definition ToWaitLocation :: "addr \<Rightarrow> nat \<Rightarrow> addr" where
  "ToWaitLocation buffer_start address = buffer_start + address"

record sync_wait =
  sw_node :: ptr
  sw_use_timeout :: bool
  sw_timeout :: time

definition wait_enter :: "sync_wait \<Rightarrow> addr \<Rightarrow> int \<Rightarrow> int \<Rightarrow> futex \<Rightarrow> (phase \<times> futex) result" where
  "wait_enter w loc value loaded S =
     (if loaded \<noteq> value then Inr (Done (Returned kNotEqualValue), S)
      else
        bindE (store (sw_node w) (\<lambda>n. n\<lparr>wait_location := loc, waiting := True\<rparr>) S) (\<lambda>S.
        bindE (AddNode (sw_node w) S) (\<lambda>S. Inr (Checking, S))))"

definition wait_finish :: "sync_wait \<Rightarrow> wait_result \<Rightarrow> futex \<Rightarrow> (phase \<times> futex) result" where
  "wait_finish w r S =
     bindE (store (sw_node w) (\<lambda>n. n\<lparr>waiting := False\<rparr>) S) (\<lambda>S.
     bindE (RemoveNode (sw_node w) S) (\<lambda>S. Inr (Done r, S)))"

text \<open>From the second test of \<open>interrupted_\<close> to the end of an iteration.\<close>

definition wait_test :: "sync_wait \<Rightarrow> time \<Rightarrow> futex \<Rightarrow> (phase \<times> futex) result" where
  "wait_test w now S =
     bindE (deref (Some (sw_node w)) S) (\<lambda>n.
       if interrupted n then Inr (Checking, S)
       else if \<not> waiting n then wait_finish w (Returned kOk) S
       else if sw_use_timeout w \<and> now \<ge> sw_timeout w then wait_finish w (Returned kTimedOut) S
       else Inr (Blocked, S))"

text \<open>
  One stretch of the loop with the mutex held. \<open>exc\<close> is what the interrupt handlers left,
  \<open>now\<close> the clock. A blocked thread continues at the top, however it was woken.
\<close>

fun wait_step :: "sync_wait \<Rightarrow> bool \<Rightarrow> time \<Rightarrow> phase \<times> futex \<Rightarrow> (phase \<times> futex) result" where
  "wait_step w exc now (Checking, S) =
     bindE (deref (Some (sw_node w)) S) (\<lambda>n.
       if interrupted n then
         bindE (store (sw_node w) (\<lambda>n. n\<lparr>interrupted := False\<rparr>) S) (\<lambda>S.
           Inr (HandlingInterrupts, S))
       else wait_test w now S)"
| "wait_step w exc now (HandlingInterrupts, S) =
     (if exc then wait_finish w Exception S else wait_test w now S)"
| "wait_step w exc now (Blocked, S) = Inr (Checking, S)"
| "wait_step w exc now (Done r, S) = Inr (Done r, S)"

text \<open>\<open>WaitSync\<close>: the deadline, the entry, and the hook after the loop has returned.\<close>

definition WaitSync_begin ::
  "(int \<Rightarrow> time) \<Rightarrow> ptr \<Rightarrow> addr \<Rightarrow> int \<Rightarrow> int \<Rightarrow> bool \<Rightarrow> int \<Rightarrow> time \<Rightarrow> futex \<Rightarrow>
   (sync_wait \<times> phase \<times> futex) result" where
  "WaitSync_begin from_ns p loc value loaded use_timeout rel_timeout_ns now S =
     (let w = \<lparr>sw_node = p, sw_use_timeout = use_timeout,
               sw_timeout = (if use_timeout then now + from_ns rel_timeout_ns else 0)\<rparr>
      in bindE (wait_enter w loc value loaded S) (\<lambda>(ph, S). Inr (w, ph, S)))"

definition WaitSync_end :: "bool \<Rightarrow> addr \<Rightarrow> wait_result \<Rightarrow> futex \<Rightarrow> (wait_result \<times> futex) result" where
  "WaitSync_end wasm_tsan loc r S =
     bindE (tsan_hook on_atomics_wait_complete wasm_tsan loc S) (\<lambda>S. Inr (r, S))"

text \<open>A WebAssembly wait times out exactly when its timeout is not negative.\<close>

definition WaitWasm_begin ::
  "(int \<Rightarrow> time) \<Rightarrow> ptr \<Rightarrow> addr \<Rightarrow> nat \<Rightarrow> int \<Rightarrow> int \<Rightarrow> int \<Rightarrow> time \<Rightarrow> futex \<Rightarrow>
   (sync_wait \<times> phase \<times> futex) result" where
  "WaitWasm_begin from_ns p buffer_start address value loaded rel_timeout_ns now =
     WaitSync_begin from_ns p (ToWaitLocation buffer_start address) value loaded
       (rel_timeout_ns \<ge> 0) rel_timeout_ns now"

text \<open>
  From the milliseconds of JavaScript (\<open>None\<close> is infinity) to nanoseconds; the product is taken
  exactly, where the code rounds to a double.
\<close>

definition timeout_of_ms :: "rat option \<Rightarrow> bool \<times> int" where
  "timeout_of_ms rel_timeout_ms =
     (case rel_timeout_ms of None \<Rightarrow> (False, -1)
      | Some ms \<Rightarrow>
          let timeout_ns = ms * 1000 * 1000 in
          if timeout_ns > 9223372036854775808 then (False, -1)
          else (True, if timeout_ns \<ge> 0 then \<lfloor>timeout_ns\<rfloor> else - \<lfloor>- timeout_ns\<rfloor>))"

subsection \<open>Asynchronous waits\<close>

datatype js_value = JsString string | JsPromise nat

text \<open>The result object: its \<open>async\<close> and \<open>value\<close> properties.\<close>

type_synonym async_result = "bool \<times> js_value"

definition new_async_node ::
  "nat \<Rightarrow> addr \<Rightarrow> nat \<Rightarrow> isolate \<Rightarrow> FutexWaitListNode" where
  "new_async_node backing loc promise isolate =
     \<lparr>prev_node = None, next_node = None, wait_location = loc, waiting = True, interrupted = False,
      async_state = Some \<lparr>isolate_for_async_waiters = isolate, as_backing_store = backing,
        as_promise = Some promise, timeout_time = 0, timeout_task_id = 0,
        waiting_for_main_thread_cleanup = False\<rparr>\<rparr>"

definition WaitAsync ::
  "(int \<Rightarrow> time) \<Rightarrow> isolate \<Rightarrow> nat \<Rightarrow> addr \<Rightarrow> int \<Rightarrow> int \<Rightarrow> bool \<Rightarrow> int \<Rightarrow> nat \<Rightarrow> time \<Rightarrow> futex \<Rightarrow>
   (async_result \<times> futex) result" where
  "WaitAsync from_ns isolate backing loc value loaded use_timeout rel_timeout_ns promise now S =
     (if loaded \<noteq> value then Inr ((False, JsString ''not-equal''), S)
      else if use_timeout \<and> rel_timeout_ns = 0 then Inr ((False, JsString ''timed-out''), S)
      else
        let p = next_ptr S;
            S1 = S\<lparr>heap := (heap S)(p := Some (new_async_node backing loc promise isolate)),
                   next_ptr := p + 1\<rparr>
        in bindE (if use_timeout then
                    bindE (store_async p (\<lambda>a. a\<lparr>timeout_time := now + from_ns rel_timeout_ns,
                                                timeout_task_id := next_task S1\<rparr>) S1) (\<lambda>S.
                      Inr (S\<lparr>posted := posted S @
                               [AsyncWaiterTimeoutTask (next_task S) p (from_ns rel_timeout_ns)],
                             next_task := next_task S + 1\<rparr>))
                  else Inr S1) (\<lambda>S.
           bindE (AddNode p S) (\<lambda>S.
             Inr ((True, JsPromise promise),
                  S\<lparr>waitasync_promises := insert promise (waitasync_promises S)\<rparr>))))"

text \<open>\<open>Wait\<close>: the timeout, then the wait of the given mode.\<close>

datatype WaitMode = kSync | kAsync

datatype started = SyncWait sync_wait phase | AsyncWait async_result

definition Wait ::
  "(int \<Rightarrow> time) \<Rightarrow> WaitMode \<Rightarrow> isolate \<Rightarrow> ptr \<Rightarrow> nat \<Rightarrow> addr \<Rightarrow> nat \<Rightarrow> int \<Rightarrow> int \<Rightarrow> rat option \<Rightarrow>
   nat \<Rightarrow> time \<Rightarrow> futex \<Rightarrow> (started \<times> futex) result" where
  "Wait from_ns mode isolate p backing buffer_start address value loaded rel_timeout_ms promise now S =
     (let (use_timeout, rel_timeout_ns) = timeout_of_ms rel_timeout_ms;
          loc = ToWaitLocation buffer_start address
      in case mode of
           kSync \<Rightarrow> bindE (WaitSync_begin from_ns p loc value loaded use_timeout rel_timeout_ns now S)
             (\<lambda>(w, ph, S). Inr (SyncWait w ph, S))
         | kAsync \<Rightarrow> bindE (WaitAsync from_ns isolate backing loc value loaded use_timeout rel_timeout_ns
               promise now S) (\<lambda>(r, S). Inr (AsyncWait r, S)))"

text \<open>Aborting a posted task takes it out of the queue; a running task is not aborted.\<close>

fun is_timeout_task :: "nat \<Rightarrow> task \<Rightarrow> bool" where
  "is_timeout_task i (AsyncWaiterTimeoutTask j p t) = (j = i)"
| "is_timeout_task i (ResolveAsyncWaiterPromisesTask is) = False"

definition CancelTimeoutTask :: "(nat \<Rightarrow> bool) \<Rightarrow> ptr \<Rightarrow> futex \<Rightarrow> (bool \<times> futex) result" where
  "CancelTimeoutTask running p S =
     bindE (deref (Some p) S) (\<lambda>n. bindE (deref_async n) (\<lambda>a.
       if timeout_task_id a = 0 then Inr (True, S)
       else
         let S1 = (if running (timeout_task_id a) then S
                   else S\<lparr>posted := filter (\<lambda>t. \<not> is_timeout_task (timeout_task_id a) t) (posted S)\<rparr>)
         in bindE (store_async p (\<lambda>a. a\<lparr>timeout_task_id := 0\<rparr>) S1) (\<lambda>S.
              Inr (\<not> running (timeout_task_id a), S))))"

definition CleanupAsyncWaiterPromise :: "ptr \<Rightarrow> futex \<Rightarrow> futex result" where
  "CleanupAsyncWaiterPromise p S =
     bindE (deref (Some p) S) (\<lambda>n. bindE (deref_async n) (\<lambda>a.
       case as_promise a of
         Some promise \<Rightarrow> Inr (S\<lparr>waitasync_promises := waitasync_promises S - {promise}\<rparr>)
       | None \<Rightarrow> Inr S))"

definition ResolveAsyncWaiterPromise :: "(nat \<Rightarrow> bool) \<Rightarrow> ptr \<Rightarrow> futex \<Rightarrow> futex result" where
  "ResolveAsyncWaiterPromise running p S =
     bindE (CancelTimeoutTask running p S) (\<lambda>(success, S).
     bindE (deref (Some p) S) (\<lambda>n. bindE (deref_async n) (\<lambda>a.
       if waiting_for_main_thread_cleanup a then Inr S
       else case as_promise a of
         None \<Rightarrow> Inr S
       | Some promise \<Rightarrow>
           Inr (S\<lparr>resolved := resolved S @
                 [(promise, if timeout_time a \<noteq> 0 then ''timed-out'' else ''ok'')]\<rparr>))))"

fun resolve_loop :: "nat \<Rightarrow> bool \<Rightarrow> (nat \<Rightarrow> bool) \<Rightarrow> ptr option \<Rightarrow> futex \<Rightarrow> futex result" where
  "resolve_loop fuel wasm_tsan running None S = Inr S"
| "resolve_loop 0 wasm_tsan running (Some p) S = Inl Unfinished"
| "resolve_loop (Suc fuel) wasm_tsan running (Some p) S =
     bindE (deref (Some p) S) (\<lambda>n.
     bindE (if wait_location n \<noteq> 0
            then tsan_hook on_atomics_wait_complete wasm_tsan (wait_location n) S else Inr S) (\<lambda>S.
     bindE (ResolveAsyncWaiterPromise running p S) (\<lambda>S.
     bindE (CleanupAsyncWaiterPromise p S) (\<lambda>S.
     bindE (DeleteAsyncWaiterNode p S) (\<lambda>(next, S).
       resolve_loop fuel wasm_tsan running next S)))))"

definition ResolveAsyncWaiterPromises ::
  "bool \<Rightarrow> (nat \<Rightarrow> bool) \<Rightarrow> isolate \<Rightarrow> futex \<Rightarrow> futex result" where
  "ResolveAsyncWaiterPromises wasm_tsan running isol S =
     (case promises_to_resolve S isol of
        None \<Rightarrow> Inl BadPointer
      | Some (head, tail) \<Rightarrow>
          resolve_loop (next_ptr S) wasm_tsan running (Some head)
            (S\<lparr>promises_to_resolve := (promises_to_resolve S)(isol := None)\<rparr>))"

definition HandleAsyncWaiterTimeout :: "(nat \<Rightarrow> bool) \<Rightarrow> ptr \<Rightarrow> futex \<Rightarrow> futex result" where
  "HandleAsyncWaiterTimeout running p S =
     bindE (store_async p (\<lambda>a. a\<lparr>timeout_task_id := 0\<rparr>) S) (\<lambda>S.
     bindE (deref (Some p) S) (\<lambda>n.
       if \<not> waiting n then Inr S
       else
         bindE (RemoveNode p S) (\<lambda>S.
         bindE (ResolveAsyncWaiterPromise running p S) (\<lambda>S.
         bindE (CleanupAsyncWaiterPromise p S) (\<lambda>S.
           Inr (S\<lparr>heap := (heap S)(p := None)\<rparr>))))))"

subsection \<open>Teardown and counting\<close>

fun deinit_locations :: "isolate \<Rightarrow> addr list \<Rightarrow> futex \<Rightarrow> futex result" where
  "deinit_locations isol [] S = Inr S"
| "deinit_locations isol (loc # locs) S =
     (case location_lists S loc of
        None \<Rightarrow> deinit_locations isol locs S
      | Some (head, tail) \<Rightarrow>
          bindE (DeleteNodesForIsolate isol head S) (\<lambda>(new_head, new_tail, S).
            case (new_head, new_tail) of
              (Some h, Some t) \<Rightarrow>
                deinit_locations isol locs
                  (S\<lparr>location_lists := (location_lists S)(loc \<mapsto> (h, t))\<rparr>)
            | _ \<Rightarrow> deinit_locations isol locs
                  (S\<lparr>location_lists := (location_lists S)(loc := None)\<rparr>)))"

fun delete_all_loop :: "nat \<Rightarrow> ptr option \<Rightarrow> futex \<Rightarrow> futex result" where
  "delete_all_loop fuel None S = Inr S"
| "delete_all_loop 0 (Some p) S = Inl Unfinished"
| "delete_all_loop (Suc fuel) (Some p) S =
     bindE (store_async p (\<lambda>a. a\<lparr>timeout_task_id := 0\<rparr>) S) (\<lambda>S.
     bindE (DeleteAsyncWaiterNode p S) (\<lambda>(next, S). delete_all_loop fuel next S))"

definition IsolateDeinit :: "isolate \<Rightarrow> futex \<Rightarrow> futex result" where
  "IsolateDeinit isol S =
     bindE (deinit_locations isol (sorted_list_of_set {loc. location_lists S loc \<noteq> None}) S) (\<lambda>S.
       case promises_to_resolve S isol of
         None \<Rightarrow> Inr S
       | Some (head, tail) \<Rightarrow>
           bindE (delete_all_loop (next_ptr S) (Some head) S) (\<lambda>S.
             Inr (S\<lparr>promises_to_resolve := (promises_to_resolve S)(isol := None)\<rparr>)))"

fun count_loop :: "nat \<Rightarrow> (FutexWaitListNode \<Rightarrow> bool) \<Rightarrow> ptr option \<Rightarrow> futex \<Rightarrow> nat result" where
  "count_loop fuel counts None S = Inr 0"
| "count_loop 0 counts (Some p) S = Inl Unfinished"
| "count_loop (Suc fuel) counts (Some p) S =
     bindE (deref (Some p) S) (\<lambda>n.
     bindE (count_loop fuel counts (next_node n) S) (\<lambda>k.
       Inr (if counts n then Suc k else k)))"

definition NumWaitersForTesting :: "addr \<Rightarrow> futex \<Rightarrow> nat result" where
  "NumWaitersForTesting loc S =
     (case location_lists S loc of
        None \<Rightarrow> Inr 0
      | Some (head, tail) \<Rightarrow>
          count_loop (next_ptr S) (\<lambda>n. waiting n \<and> matching_backing_store S n) (Some head) S)"

fun sum_loop :: "addr \<Rightarrow> isolate list \<Rightarrow> futex \<Rightarrow> nat result" where
  "sum_loop loc [] S = Inr 0"
| "sum_loop loc (i # is) S =
     (case promises_to_resolve S i of
        None \<Rightarrow> sum_loop loc is S
      | Some (head, tail) \<Rightarrow>
          bindE (count_loop (next_ptr S)
                  (\<lambda>n. \<not> waiting n \<and> wait_location n = loc \<and> matching_backing_store S n)
                  (Some head) S) (\<lambda>k.
          bindE (sum_loop loc is S) (\<lambda>m. Inr (k + m))))"

definition NumUnresolvedAsyncPromisesForTesting :: "addr \<Rightarrow> futex \<Rightarrow> nat result" where
  "NumUnresolvedAsyncPromisesForTesting loc S =
     sum_loop loc (sorted_list_of_set {i. promises_to_resolve S i \<noteq> None}) S"

end
