(* ===== verification/FutexLists.thy ===== *)
theory FutexLists
  imports Futex
begin

text \<open>
  The wait lists as lists. \<open>repr S qs rs\<close>: the linked structure of \<open>S\<close> holds, for every location, the
  waiters \<open>qs\<close> in order of arrival, and for every isolate, the nodes \<open>rs\<close> whose promises are to be
  resolved. Adding, removing, moving and deleting nodes are proved to be the list operations one
  expects, with every pointer they follow valid; waking is then first come, first served.
\<close>

subsection \<open>Doubly linked lists\<close>

type_synonym nodes = "ptr \<Rightarrow> FutexWaitListNode option"

definition first :: "ptr list \<Rightarrow> ptr option \<Rightarrow> ptr option" where
  "first xs b = (case xs of [] \<Rightarrow> b | y # ys \<Rightarrow> Some y)"

definition final :: "ptr option \<Rightarrow> ptr list \<Rightarrow> ptr option" where
  "final a xs = (if xs = [] then a else Some (last xs))"

lemma first_simps [simp]: "first [] b = b" "first (x # xs) b = Some x"
  by (simp_all add: first_def)

lemma final_simps [simp]: "final a [] = a" "final a (x # xs) = final (Some x) xs"
  by (simp_all add: final_def)

lemma final_snoc [simp]: "final a (xs @ [x]) = Some x"
  by (simp add: final_def)

fun dll :: "nodes \<Rightarrow> ptr option \<Rightarrow> ptr list \<Rightarrow> ptr option \<Rightarrow> bool" where
  "dll h a [] b = True"
| "dll h a (x # xs) b =
     ((\<exists>n. h x = Some n \<and> prev_node n = a \<and> next_node n = first xs b) \<and> dll h (Some x) xs b)"

lemma dll_append:
  "dll h a (xs @ ys) b \<longleftrightarrow> dll h a xs (first ys b) \<and> dll h (final a xs) ys b"
proof (induction xs arbitrary: a)
  case Nil
  then show ?case by simp
next
  case (Cons x xs)
  have "first (xs @ ys) b = first xs (first ys b)" by (cases xs) simp_all
  with Cons show ?case by auto
qed

definition links :: "FutexWaitListNode \<Rightarrow> ptr option \<times> ptr option" where
  "links n = (prev_node n, next_node n)"

lemma dll_cong:
  "(\<And>p. p \<in> set xs \<Longrightarrow> map_option links (h' p) = map_option links (h p)) \<Longrightarrow>
     dll h' a xs b = dll h a xs b"
proof (induction xs arbitrary: a)
  case Nil
  then show ?case by simp
next
  case (Cons x xs)
  have "map_option links (h' x) = map_option links (h x)" using Cons.prems by simp
  then have "(\<exists>n. h' x = Some n \<and> prev_node n = a \<and> next_node n = first xs b) \<longleftrightarrow>
      (\<exists>n. h x = Some n \<and> prev_node n = a \<and> next_node n = first xs b)"
    by (cases "h' x"; cases "h x") (auto simp: links_def)
  with Cons show ?case by simp
qed

lemma dll_heap: "dll h a xs b \<Longrightarrow> p \<in> set xs \<Longrightarrow> \<exists>n. h p = Some n"
  by (induction xs arbitrary: a) auto

lemma dll_set_next:
  assumes "dll h a xs b" and "distinct xs" and "xs \<noteq> []" and "h (last xs) = Some n"
  shows "dll (h(last xs := Some (n\<lparr>next_node := b'\<rparr>))) a xs b'"
proof -
  obtain ys x where xs: "xs = ys @ [x]" using assms(3) by (metis append_butlast_last_id)
  let ?h' = "h(x := Some (n\<lparr>next_node := b'\<rparr>))"
  from assms xs have ys: "dll h a ys (Some x)" and n: "h x = Some n" "prev_node n = final a ys"
    by (auto simp: dll_append)
  have "dll ?h' a ys (Some x) = dll h a ys (Some x)"
    using assms(2) xs by (intro dll_cong) auto
  with ys n xs show ?thesis by (simp add: dll_append)
qed

lemma dll_set_prev:
  assumes "dll h a (x # xs) b" and "distinct (x # xs)" and "h x = Some n"
  shows "dll (h(x := Some (n\<lparr>prev_node := a'\<rparr>))) a' (x # xs) b"
proof -
  let ?h' = "h(x := Some (n\<lparr>prev_node := a'\<rparr>))"
  have "dll ?h' (Some x) xs b = dll h (Some x) xs b"
    using assms(2) by (intro dll_cong) auto
  with assms show ?thesis by simp
qed

text \<open>A field that is not a link does not matter; neither does a node off the list.\<close>

lemma dll_update:
  assumes "h p = Some n" and "links n' = links n"
  shows "dll (h(p := Some n')) a xs b = dll h a xs b"
  using assms by (intro dll_cong) auto

lemma dll_frame: "p \<notin> set xs \<Longrightarrow> dll (h(p := m)) a xs b = dll h a xs b"
  by (intro dll_cong) auto

subsection \<open>The representation\<close>

definition lists_ok :: "nodes \<Rightarrow> ('k \<Rightarrow> HeadAndTail option) \<Rightarrow> ('k \<Rightarrow> ptr list) \<Rightarrow> bool" where
  "lists_ok h L Q \<longleftrightarrow>
     (\<forall>k. L k = (if Q k = [] then None else Some (hd (Q k), last (Q k))) \<and>
          dll h None (Q k) None \<and> distinct (Q k)) \<and>
     (\<forall>k k'. k \<noteq> k' \<longrightarrow> set (Q k) \<inter> set (Q k') = {})"

lemma lists_okD:
  assumes "lists_ok h L Q"
  shows "L k = (if Q k = [] then None else Some (hd (Q k), last (Q k)))"
    and "dll h None (Q k) None" and "distinct (Q k)"
    and "k \<noteq> k' \<Longrightarrow> set (Q k) \<inter> set (Q k') = {}"
  using assms by (simp_all add: lists_ok_def)

lemma lists_ok_upd:
  assumes "lists_ok h L Q" and "L' = L(k := if ys = [] then None else Some (hd ys, last ys))"
    and "dll h' None ys None" and "distinct ys"
    and "\<And>k'. k' \<noteq> k \<Longrightarrow> set ys \<inter> set (Q k') = {}"
    and "\<And>k' p. k' \<noteq> k \<Longrightarrow> p \<in> set (Q k') \<Longrightarrow> map_option links (h' p) = map_option links (h p)"
  shows "lists_ok h' L' (Q(k := ys))"
proof -
  have "dll h' None (Q k') None" if "k' \<noteq> k" for k'
    using lists_okD(2) [OF assms(1), of k'] dll_cong [of "Q k'" h' h] assms(6) [OF that] by blast
  moreover have "set (Q k') \<inter> set ys = {}" if "k' \<noteq> k" for k'
    using assms(5) [OF that] by blast
  ultimately show ?thesis
    using assms(1-5) unfolding lists_ok_def by auto
qed

lemma lists_ok_cong:
  assumes "lists_ok h L Q"
    and "\<And>k p. p \<in> set (Q k) \<Longrightarrow> map_option links (h' p) = map_option links (h p)"
  shows "lists_ok h' L Q"
proof -
  have "dll h' None (Q k) None" for k
    using lists_okD(2) [OF assms(1), of k] dll_cong [of "Q k" h' h] assms(2) by blast
  with assms(1) show ?thesis by (auto simp: lists_ok_def)
qed

definition repr :: "futex \<Rightarrow> (addr \<Rightarrow> ptr list) \<Rightarrow> (isolate \<Rightarrow> ptr list) \<Rightarrow> bool" where
  "repr S qs rs \<longleftrightarrow>
     lists_ok (heap S) (location_lists S) qs \<and> lists_ok (heap S) (promises_to_resolve S) rs \<and>
     (\<forall>k i. set (qs k) \<inter> set (rs i) = {}) \<and>
     (\<forall>k. \<forall>p \<in> set (qs k). \<exists>n. heap S p = Some n \<and> wait_location n = k) \<and>
     (\<forall>i. \<forall>p \<in> set (rs i). \<exists>n. heap S p = Some n \<and> of_isolate i n) \<and>
     (\<forall>p n. heap S p = Some n \<longrightarrow> p < next_ptr S)"

lemma reprD:
  assumes "repr S qs rs"
  shows "lists_ok (heap S) (location_lists S) qs" and "lists_ok (heap S) (promises_to_resolve S) rs"
    and "set (qs k) \<inter> set (rs i) = {}"
    and "p \<in> set (qs k) \<Longrightarrow> \<exists>n. heap S p = Some n \<and> wait_location n = k"
    and "p \<in> set (rs i) \<Longrightarrow> \<exists>n. heap S p = Some n \<and> of_isolate i n"
    and "heap S p = Some n \<Longrightarrow> p < next_ptr S"
  using assms by (simp_all add: repr_def)

lemma reprI:
  assumes "lists_ok (heap S) (location_lists S) qs" and "lists_ok (heap S) (promises_to_resolve S) rs"
    and "\<And>k i. set (qs k) \<inter> set (rs i) = {}"
    and "\<And>k p. p \<in> set (qs k) \<Longrightarrow> \<exists>n. heap S p = Some n \<and> wait_location n = k"
    and "\<And>i p. p \<in> set (rs i) \<Longrightarrow> \<exists>n. heap S p = Some n \<and> of_isolate i n"
    and "\<And>p n. heap S p = Some n \<Longrightarrow> p < next_ptr S"
  shows "repr S qs rs"
  using assms by (simp add: repr_def)

text \<open>A node is free when it is on no list and its links are null.\<close>

definition off_lists :: "ptr \<Rightarrow> (addr \<Rightarrow> ptr list) \<Rightarrow> (isolate \<Rightarrow> ptr list) \<Rightarrow> bool" where
  "off_lists p qs rs \<longleftrightarrow> (\<forall>k. p \<notin> set (qs k)) \<and> (\<forall>i. p \<notin> set (rs i))"

text \<open>What the list operations leave alone in a node: everything but its links.\<close>

definition body :: "FutexWaitListNode \<Rightarrow> FutexWaitListNode" where
  "body n = n\<lparr>prev_node := None, next_node := None\<rparr>"

definition same_bodies :: "nodes \<Rightarrow> nodes \<Rightarrow> bool" where
  "same_bodies h h' \<longleftrightarrow> (\<forall>p. map_option body (h' p) = map_option body (h p))"

lemma body_links [simp]:
  "body (n\<lparr>prev_node := a\<rparr>) = body n" "body (n\<lparr>next_node := b\<rparr>) = body n"
  by (simp_all add: body_def)

lemma same_bodiesD:
  assumes "same_bodies h h'" and "h p = Some n"
  shows "\<exists>n'. h' p = Some n' \<and> waiting n' = waiting n \<and> interrupted n' = interrupted n \<and>
    wait_location n' = wait_location n \<and> async_state n' = async_state n"
proof -
  from assms obtain n' where n': "h' p = Some n'" "body n' = body n"
    unfolding same_bodies_def by (metis map_option_eq_Some option.simps(9))
  then have "waiting (body n') = waiting (body n)" "interrupted (body n') = interrupted (body n)"
    "wait_location (body n') = wait_location (body n)" "async_state (body n') = async_state (body n)"
    by simp_all
  with n'(1) show ?thesis by (simp add: body_def)
qed

lemma same_bodies_trans: "same_bodies h h' \<Longrightarrow> same_bodies h' h'' \<Longrightarrow> same_bodies h h''"
  by (simp add: same_bodies_def)

lemma same_bodies_refl [simp]: "same_bodies h h"
  by (simp add: same_bodies_def)

lemma same_bodies_upd: "same_bodies h h' \<Longrightarrow> h p = Some n \<Longrightarrow> body n' = body n \<Longrightarrow> same_bodies h (h'(p := Some n'))"
  by (auto simp: same_bodies_def)

text \<open>Changing other fields of a node keeps the representation.\<close>

lemma repr_cong:
  assumes R: "repr S qs rs" and n: "heap S p = Some n" and n': "links n' = links n"
    "wait_location n' = wait_location n" "\<And>i. of_isolate i n' = of_isolate i n"
  shows "repr (S\<lparr>heap := (heap S)(p := Some n')\<rparr>) qs rs"
proof (rule reprI, goal_cases)
  case 1
  show ?case using lists_ok_cong [OF reprD(1) [OF R]] n n'(1) by simp
next
  case 2
  show ?case using lists_ok_cong [OF reprD(2) [OF R]] n n'(1) by simp
next
  case (3 k i)
  show ?case by (rule reprD(3) [OF R])
next
  case (4 k q)
  from reprD(4) [OF R 4] show ?case using n n'(2) by (cases "q = p") auto
next
  case (5 i q)
  from reprD(5) [OF R 5] show ?case using n n'(3) by (cases "q = p") auto
next
  case (6 q m)
  then show ?case using reprD(6) [OF R] n by (cases "q = p") auto
qed

subsection \<open>Adding and removing\<close>

lemma dll_snoc:
  assumes "dll h None xs None" and "distinct xs" and "xs \<noteq> []" and "h (last xs) = Some m"
    and "x \<notin> set xs" and "next_node n = None"
  shows "dll (h(last xs := Some (m\<lparr>next_node := Some x\<rparr>), x := Some (n\<lparr>prev_node := Some (last xs)\<rparr>)))
           None (xs @ [x]) None"
  using dll_set_next [OF assms(1-4), of "Some x"] assms(3,5,6)
  by (simp add: dll_append dll_frame final_def)

text \<open>Taking \<open>x\<close> out: its neighbours are linked to each other.\<close>

lemma dll_unlink:
  assumes dll: "dll h a (as @ x # bs) b" and d: "distinct (as @ x # bs)"
    and np: "as \<noteq> [] \<Longrightarrow> h (last as) = Some np" and nq: "bs \<noteq> [] \<Longrightarrow> h (hd bs) = Some nq"
    and h1: "h1 = (if as = [] then h else h(last as := Some (np\<lparr>next_node := first bs b\<rparr>)))"
    and h2: "h2 = (if bs = [] then h1 else h1(hd bs := Some (nq\<lparr>prev_node := final a as\<rparr>)))"
  shows "dll h2 a (as @ bs) b"
proof -
  from dll have as: "dll h a as (Some x)" and bs: "dll h (Some x) bs b"
    by (simp_all add: dll_append)
  have "dll h1 a as (first bs b)"
  proof (cases "as = []")
    case False
    with dll_set_next [OF as _ False np] d h1 show ?thesis by simp
  qed simp
  moreover have "dll h2 a as (first bs b) = dll h1 a as (first bs b)"
    using d h2 by (auto intro!: dll_frame simp: hd_in_set disjoint_iff)
  moreover have "dll h1 (Some x) bs b"
    using bs d h1 by (auto simp: dll_frame disjoint_iff)
  moreover have "dll h2 (final a as) bs b"
  proof (cases bs)
    case (Cons q bs')
    have "last as \<noteq> q" if "as \<noteq> []" using that d Cons by (auto simp: disjoint_iff)
    with nq Cons h1 have "h1 q = Some nq" by auto
    with dll_set_prev [of h1 "Some x" q bs' b nq "final a as"] calculation(3) d Cons h2
    show ?thesis by simp
  qed simp
  ultimately show ?thesis by (simp add: dll_append)
qed

lemma first_last: "xs \<noteq> [] \<Longrightarrow> first xs b = Some (hd xs)"
  by (cases xs) simp_all

lemma final_last: "xs \<noteq> [] \<Longrightarrow> final a xs = Some (last xs)"
  by (simp add: final_def)

text \<open>Changing the list of one location.\<close>

lemma repr_location:
  assumes R: "repr S qs rs" and L: "L' = (location_lists S)(k := if ys = [] then None else Some (hd ys, last ys))"
    and ys: "dll h' None ys None" "distinct ys" and sub: "set ys \<subseteq> insert x (set (qs k))"
    and x: "\<And>j. j \<noteq> k \<Longrightarrow> x \<notin> set (qs j)" "\<And>i. x \<notin> set (rs i)"
    and loc: "\<exists>n. heap S x = Some n \<and> wait_location n = k"
    and same: "same_bodies (heap S) h'"
    and frame: "\<And>p. p \<notin> insert x (set (qs k)) \<Longrightarrow> h' p = heap S p"
  shows "repr (S\<lparr>heap := h', location_lists := L'\<rparr>) (qs(k := ys)) rs"
proof -
  note qs = reprD(1) [OF R] and rs = reprD(2) [OF R]
  have other: "p \<notin> insert x (set (qs k))" if "p \<in> set (qs j)" "j \<noteq> k" for p j
    using that x(1) lists_okD(4) [OF qs, of j k] by auto
  have other': "p \<notin> insert x (set (qs k))" if "p \<in> set (rs i)" for p i
    using that x(2) reprD(3) [OF R, of k i] by auto
  have "lists_ok h' L' (qs(k := ys))"
  proof (rule lists_ok_upd [OF qs L ys])
    fix j assume "j \<noteq> k"
    then show "set ys \<inter> set (qs j) = {}" using other sub by blast
    show "map_option links (h' p) = map_option links (heap S p)" if "p \<in> set (qs j)" for p
      using frame [OF other [OF that \<open>j \<noteq> k\<close>]] by simp
  qed
  moreover have "lists_ok h' (promises_to_resolve S) rs"
    by (rule lists_ok_cong [OF rs]) (simp add: frame [OF other'])
  moreover have "set ((qs(k := ys)) j) \<inter> set (rs i) = {}" for j i
    using reprD(3) [OF R, of j i] other' sub by (auto split: if_splits)
  moreover have "\<exists>n. h' p = Some n \<and> wait_location n = j" if "p \<in> set ((qs(k := ys)) j)" for p j
  proof -
    have "\<exists>n. heap S p = Some n \<and> wait_location n = j"
      using that sub loc reprD(4) [OF R] by (auto split: if_splits)
    with same_bodiesD [OF same] show ?thesis by metis
  qed
  moreover have "\<exists>n. h' p = Some n \<and> of_isolate i n" if "p \<in> set (rs i)" for p i
    using reprD(5) [OF R that] frame [OF other' [OF that]] by simp
  moreover have "p < next_ptr S" if "h' p = Some n" for p n
  proof -
    have "heap S p \<noteq> None" using same that unfolding same_bodies_def by (metis map_option_is_None option.distinct(1))
    then show ?thesis using reprD(6) [OF R] by blast
  qed
  ultimately show ?thesis by (simp add: repr_def)
qed

lemma AddNode_repr:
  assumes R: "repr S qs rs" and n: "heap S x = Some n" "links n = (None, None)" "wait_location n = k"
    and off: "off_lists x qs rs"
  shows "\<exists>h' L'. AddNode x S = Inr (S\<lparr>heap := h', location_lists := L'\<rparr>) \<and>
    repr (S\<lparr>heap := h', location_lists := L'\<rparr>) (qs(k := qs k @ [x])) rs \<and> same_bodies (heap S) h' \<and>
    (\<forall>p. p \<notin> insert x (set (qs k)) \<longrightarrow> h' p = heap S p)"
proof (cases "qs k = []")
  case True
  then have L: "location_lists S k = None" using lists_okD(1) [OF reprD(1) [OF R], of k] by simp
  let ?L' = "(location_lists S)(k \<mapsto> (x, x))"
  have "AddNode x S = Inr (S\<lparr>location_lists := ?L'\<rparr>)"
    using n L by (simp add: AddNode_def deref_def Let_def)
  then have "AddNode x S = Inr (S\<lparr>heap := heap S, location_lists := ?L'\<rparr>)" by simp
  moreover have "repr (S\<lparr>heap := heap S, location_lists := ?L'\<rparr>) (qs(k := qs k @ [x])) rs"
    using n off True by (intro repr_location [OF R, where x = x]) (auto simp: links_def off_lists_def)
  ultimately show ?thesis by (metis same_bodies_refl)
next
  case False
  note qk = lists_okD(1-3) [OF reprD(1) [OF R], of k]
  let ?t = "last (qs k)"
  have xt: "x \<notin> set (qs k)" using off by (simp add: off_lists_def)
  with False have ne: "x \<noteq> ?t" by (metis last_in_set)
  obtain m where m: "heap S ?t = Some m" using dll_heap [OF qk(2)] False by (meson last_in_set)
  let ?h' = "(heap S)(?t := Some (m\<lparr>next_node := Some x\<rparr>), x := Some (n\<lparr>prev_node := Some ?t\<rparr>))"
  let ?L' = "(location_lists S)(k \<mapsto> (hd (qs k), x))"
  have "AddNode x S = Inr (S\<lparr>heap := ?h', location_lists := ?L'\<rparr>)"
    using n m qk(1) False ne by (simp add: AddNode_def deref_def store_def Let_def)
  moreover have same: "same_bodies (heap S) ?h'"
    using m n by (intro same_bodies_upd) simp_all
  moreover have frame: "?h' p = heap S p" if "p \<notin> insert x (set (qs k))" for p
    using that last_in_set [OF False] by auto
  moreover have "repr (S\<lparr>heap := ?h', location_lists := ?L'\<rparr>) (qs(k := qs k @ [x])) rs"
    using dll_snoc [OF qk(2,3) False m xt, of n] qk(3) n off False xt same frame
    by (intro repr_location [OF R, where x = x]) (auto simp: links_def off_lists_def)
  ultimately show ?thesis by blast
qed

lemma last_neq_hd:
  assumes "distinct (as @ x # bs)"
  shows "as \<noteq> [] \<Longrightarrow> last as \<noteq> x" and "bs \<noteq> [] \<Longrightarrow> hd bs \<noteq> x"
    and "as \<noteq> [] \<Longrightarrow> bs \<noteq> [] \<Longrightarrow> last as \<noteq> hd bs"
  using assms by (auto simp: disjoint_iff) (metis last_in_set list.set_sel(1))+

text \<open>The four cases of \<open>RemoveNode\<close> as one update: unlink, then reset the node's links.\<close>

definition unlinked :: "nodes \<Rightarrow> ptr list \<Rightarrow> ptr \<Rightarrow> ptr list \<Rightarrow> FutexWaitListNode \<Rightarrow> FutexWaitListNode \<Rightarrow>
    FutexWaitListNode \<Rightarrow> nodes" where
  "unlinked h as x bs n np nq =
     (let h1 = (if as = [] then h else h(last as := Some (np\<lparr>next_node := first bs None\<rparr>)));
          h2 = (if bs = [] then h1 else h1(hd bs := Some (nq\<lparr>prev_node := final None as\<rparr>)))
      in h2(x := Some (n\<lparr>prev_node := None, next_node := None\<rparr>)))"

lemma RemoveNode_eq:
  assumes dll: "dll (heap S) None (as @ x # bs) None" and d: "distinct (as @ x # bs)"
    and n: "heap S x = Some n" "wait_location n = k"
    and np: "as \<noteq> [] \<Longrightarrow> heap S (last as) = Some np" and nq: "bs \<noteq> [] \<Longrightarrow> heap S (hd bs) = Some nq"
    and L: "location_lists S k = Some (hd (as @ x # bs), last (as @ x # bs))"
  shows "RemoveNode x S = Inr (S\<lparr>heap := unlinked (heap S) as x bs n np nq,
    location_lists := (location_lists S)(k := if as @ bs = [] then None
      else Some (hd (as @ bs), last (as @ bs)))\<rparr>)"
proof -
  from dll n(1) have links: "prev_node n = final None as" "next_node n = first bs None"
    by (auto simp: dll_append)
  note ne = last_neq_hd [OF d]
  consider "as = []" "bs = []" | "as \<noteq> []" "bs = []" | "as = []" "bs \<noteq> []" | "as \<noteq> []" "bs \<noteq> []"
    by blast
  then show ?thesis
  proof cases
    case 1
    then have "n\<lparr>prev_node := None, next_node := None\<rparr> = n" using links by (cases n) simp
    then have "(heap S)(x := Some (n\<lparr>prev_node := None, next_node := None\<rparr>)) = heap S"
      using n(1) by auto
    then have "unlinked (heap S) as x bs n np nq = heap S"
      using 1 by (simp add: unlinked_def)
    then show ?thesis
      using 1 n links by (simp add: RemoveNode_def deref_def Let_def)
  next
    case 2
    then have "n\<lparr>prev_node := None, next_node := None\<rparr> = n\<lparr>prev_node := None\<rparr>" using links by (cases n) simp
    note eq = this
    with 2 n np links ne L show ?thesis
      by (simp add: RemoveNode_def deref_def store_def Let_def final_last unlinked_def eq)
  next
    case 3
    then have "n\<lparr>prev_node := None, next_node := None\<rparr> = n\<lparr>next_node := None\<rparr>" using links by (cases n) simp
    note eq = this
    with 3 n nq links ne L show ?thesis
      by (simp add: RemoveNode_def deref_def store_def Let_def first_last unlinked_def eq)
  next
    case 4
    have L': "(location_lists S)(k := Some (hd (as @ bs), last (as @ bs))) = location_lists S"
      using L 4 by auto
    with 4 n np nq links ne show ?thesis
      by (simp add: RemoveNode_def deref_def store_def Let_def first_last final_last unlinked_def)
  qed
qed

lemma unlinked_dll:
  assumes dll: "dll h None (as @ x # bs) None" and d: "distinct (as @ x # bs)"
    and np: "as \<noteq> [] \<Longrightarrow> h (last as) = Some np" and nq: "bs \<noteq> [] \<Longrightarrow> h (hd bs) = Some nq"
  shows "dll (unlinked h as x bs n np nq) None (as @ bs) None"
  using dll_unlink [OF dll d np nq refl refl] d
  by (simp add: unlinked_def Let_def dll_frame)

lemma unlinked_bodies:
  assumes "distinct (as @ x # bs)" and "h x = Some n"
    and np: "as \<noteq> [] \<Longrightarrow> h (last as) = Some np" and nq: "bs \<noteq> [] \<Longrightarrow> h (hd bs) = Some nq"
  shows "same_bodies h (unlinked h as x bs n np nq)"
  using assms by (auto simp: unlinked_def Let_def intro!: same_bodies_upd)

lemma unlinked_frame:
  assumes "p \<notin> set (as @ x # bs)"
  shows "unlinked h as x bs n np nq p = h p"
proof -
  have "as \<noteq> [] \<Longrightarrow> p \<noteq> last as" "bs \<noteq> [] \<Longrightarrow> p \<noteq> hd bs"
    using assms last_in_set hd_in_set by auto
  with assms show ?thesis by (auto simp: unlinked_def Let_def)
qed

lemma RemoveNode_repr:
  assumes R: "repr S qs rs" and q: "qs k = as @ x # bs"
  shows "\<exists>h' L' n. RemoveNode x S = Inr (S\<lparr>heap := h', location_lists := L'\<rparr>) \<and>
    repr (S\<lparr>heap := h', location_lists := L'\<rparr>) (qs(k := as @ bs)) rs \<and> same_bodies (heap S) h' \<and>
    h' x = Some n \<and> links n = (None, None) \<and> (\<forall>p. p \<notin> set (qs k) \<longrightarrow> h' p = heap S p)"
proof -
  note qk = lists_okD(1-3) [OF reprD(1) [OF R], of k, unfolded q]
  obtain n where n: "heap S x = Some n" "wait_location n = k"
    using reprD(4) [OF R, of x k] q by auto
  have "\<exists>np. as \<noteq> [] \<longrightarrow> heap S (last as) = Some np" "\<exists>nq. bs \<noteq> [] \<longrightarrow> heap S (hd bs) = Some nq"
    using dll_heap [OF qk(2)] by (metis Un_iff last_in_set set_append, metis Un_iff hd_in_set list.set_intros(2) set_append)
  then obtain np nq where np: "as \<noteq> [] \<Longrightarrow> heap S (last as) = Some np"
    and nq: "bs \<noteq> [] \<Longrightarrow> heap S (hd bs) = Some nq" by blast
  let ?h' = "unlinked (heap S) as x bs n np nq"
  let ?L' = "(location_lists S)(k := if as @ bs = [] then None else Some (hd (as @ bs), last (as @ bs)))"
  have L: "location_lists S k = Some (hd (as @ x # bs), last (as @ x # bs))" using qk(1) by simp
  have "RemoveNode x S = Inr (S\<lparr>heap := ?h', location_lists := ?L'\<rparr>)"
    by (rule RemoveNode_eq [OF qk(2,3) n np nq L])
  moreover have same: "same_bodies (heap S) ?h'" by (rule unlinked_bodies [OF qk(3) n(1) np nq])
  moreover have frame: "?h' p = heap S p" if "p \<notin> set (qs k)" for p
    using unlinked_frame [of p as x bs] that q by simp
  moreover have "repr (S\<lparr>heap := ?h', location_lists := ?L'\<rparr>) (qs(k := as @ bs)) rs"
  proof (rule repr_location [OF R refl unlinked_dll [OF qk(2,3) np nq], where x = x])
    show "distinct (as @ bs)" "set (as @ bs) \<subseteq> insert x (set (qs k))" using qk(3) q by auto
    show "x \<notin> set (qs j)" if "j \<noteq> k" for j
      using lists_okD(4) [OF reprD(1) [OF R] that] q by auto
    show "x \<notin> set (rs i)" for i using reprD(3) [OF R, of k i] q by auto
    show "\<exists>n. heap S x = Some n \<and> wait_location n = k" using n by blast
    show "?h' p = heap S p" if "p \<notin> insert x (set (qs k))" for p using that frame by blast
  qed (simp_all add: same)
  moreover have "?h' x = Some (n\<lparr>prev_node := None, next_node := None\<rparr>)"
    by (simp add: unlinked_def Let_def)
  moreover have "links (n\<lparr>prev_node := None, next_node := None\<rparr>) = (None, None)"
    by (simp add: links_def)
  ultimately show ?thesis by blast
qed

subsection \<open>Moving a node to its isolate's list\<close>

lemma repr_promises:
  assumes R: "repr S qs rs"
    and L: "L' = (promises_to_resolve S)(i := if ys = [] then None else Some (hd ys, last ys))"
    and ys: "dll h' None ys None" "distinct ys" and sub: "set ys \<subseteq> insert x (set (rs i))"
    and x: "\<And>j. x \<notin> set (qs j)" "\<And>j. j \<noteq> i \<Longrightarrow> x \<notin> set (rs j)"
    and isol: "\<exists>n. heap S x = Some n \<and> of_isolate i n"
    and same: "same_bodies (heap S) h'"
    and frame: "\<And>p. p \<notin> insert x (set (rs i)) \<Longrightarrow> h' p = heap S p"
  shows "repr (S\<lparr>heap := h', promises_to_resolve := L'\<rparr>) qs (rs(i := ys))"
proof -
  note qs = reprD(1) [OF R] and rs = reprD(2) [OF R]
  have other: "p \<notin> insert x (set (rs i))" if "p \<in> set (rs j)" "j \<noteq> i" for p j
    using that x(2) lists_okD(4) [OF rs, of j i] by auto
  have other': "p \<notin> insert x (set (rs i))" if "p \<in> set (qs j)" for p j
    using that x(1) reprD(3) [OF R, of j i] by auto
  show ?thesis
  proof (rule reprI, goal_cases)
    case 1
    show ?case using lists_ok_cong [OF qs, of h'] frame [OF other'] by simp
  next
    case 2
    have "lists_ok h' L' (rs(i := ys))"
    proof (rule lists_ok_upd [OF rs L ys])
      fix j assume "j \<noteq> i"
      then show "set ys \<inter> set (rs j) = {}" using other sub by blast
      show "map_option links (h' p) = map_option links (heap S p)" if "p \<in> set (rs j)" for p
        using frame [OF other [OF that \<open>j \<noteq> i\<close>]] by simp
    qed
    then show ?case by simp
  next
    case (3 k j)
    then show ?case using reprD(3) [OF R, of k j] other' [of _ k] sub by (auto split: if_splits)
  next
    case (4 k p)
    then show ?case using reprD(4) [OF R 4] frame [OF other' [OF 4]] by simp
  next
    case (5 j p)
    have "\<exists>n. heap S p = Some n \<and> of_isolate j n"
      using 5 sub isol reprD(5) [OF R] by (auto split: if_splits)
    with same_bodiesD [OF same] show ?case by (fastforce simp: of_isolate_def)
  next
    case (6 p n)
    then have "heap S p \<noteq> None"
      using same unfolding same_bodies_def by (metis futex.select_convs(1) futex.surjective
          futex.update_convs(1) futex.update_convs(4) map_option_is_None option.distinct(1))
    then show ?case using reprD(6) [OF R] by auto
  qed
qed

text \<open>What waking can change of a node is whether it waits.\<close>

definition info :: "futex \<Rightarrow> ptr \<Rightarrow> (bool \<times> (isolate \<times> nat) option) option" where
  "info S p = map_option (\<lambda>n. (waiting n,
     map_option (\<lambda>a. (isolate_for_async_waiters a, as_backing_store a)) (async_state n))) (heap S p)"

lemma info_same_bodies: "same_bodies (heap S) (heap S') \<Longrightarrow> info S' p = info S p"
proof -
  assume same: "same_bodies (heap S) (heap S')"
  show ?thesis
  proof (cases "heap S p")
    case None
    with same have "heap S' p = None" unfolding same_bodies_def by (metis map_option_is_None)
    with None show ?thesis by (simp add: info_def)
  next
    case (Some n)
    with same_bodiesD [OF same Some] show ?thesis by (auto simp: info_def)
  qed
qed

lemma off_list_link_none: "links n = (None, None) \<longleftrightarrow> prev_node n = None \<and> next_node n = None"
  by (simp add: links_def)

lemma append_promise:
  assumes R: "repr S qs rs" and n: "heap S x = Some n" "links n = (None, None)" "of_isolate i n"
    and off: "off_lists x qs rs"
  shows "\<exists>h' L'. (case promises_to_resolve S i of
         None \<Rightarrow> Inr (S\<lparr>promises_to_resolve := (promises_to_resolve S)(i \<mapsto> (x, x)),
                       posted := posted S @ [ResolveAsyncWaiterPromisesTask i]\<rparr>)
       | Some (head, tail) \<Rightarrow>
           bindE (store x (\<lambda>m. m\<lparr>prev_node := Some tail\<rparr>) S) (\<lambda>S.
           bindE (store tail (\<lambda>m. m\<lparr>next_node := Some x\<rparr>) S) (\<lambda>S.
             Inr (S\<lparr>promises_to_resolve := (promises_to_resolve S)(i \<mapsto> (head, x))\<rparr>)))) =
      Inr (S\<lparr>heap := h', promises_to_resolve := L',
        posted := posted S @ (if rs i = [] then [ResolveAsyncWaiterPromisesTask i] else [])\<rparr>) \<and>
    repr (S\<lparr>heap := h', promises_to_resolve := L'\<rparr>) qs (rs(i := rs i @ [x])) \<and> same_bodies (heap S) h'"
proof (cases "rs i = []")
  case True
  then have L: "promises_to_resolve S i = None" using lists_okD(1) [OF reprD(2) [OF R], of i] by simp
  let ?L' = "(promises_to_resolve S)(i \<mapsto> (x, x))"
  have "repr (S\<lparr>heap := heap S, promises_to_resolve := ?L'\<rparr>) qs (rs(i := rs i @ [x]))"
    using n off True by (intro repr_promises [OF R, where x = x]) (auto simp: links_def off_lists_def)
  moreover have "S\<lparr>heap := heap S, promises_to_resolve := ?L', posted := p\<rparr> =
      S\<lparr>promises_to_resolve := ?L', posted := p\<rparr>" for p by simp
  ultimately show ?thesis using L True by (intro exI [of _ "heap S"] exI [of _ ?L']) simp
next
  case False
  note ri = lists_okD(1-3) [OF reprD(2) [OF R], of i]
  let ?t = "last (rs i)"
  have xt: "x \<notin> set (rs i)" using off by (simp add: off_lists_def)
  with False have ne: "?t \<noteq> x" by (metis last_in_set)
  obtain m where m: "heap S ?t = Some m" using dll_heap [OF ri(2)] False by (meson last_in_set)
  let ?h' = "(heap S)(x := Some (n\<lparr>prev_node := Some ?t\<rparr>), ?t := Some (m\<lparr>next_node := Some x\<rparr>))"
  let ?h2 = "(heap S)(?t := Some (m\<lparr>next_node := Some x\<rparr>), x := Some (n\<lparr>prev_node := Some ?t\<rparr>))"
  let ?L' = "(promises_to_resolve S)(i \<mapsto> (hd (rs i), x))"
  have h: "?h' = ?h2" by (rule fun_upd_twist [OF ne [symmetric]])
  have same: "same_bodies (heap S) ?h'" using m n by (intro same_bodies_upd) simp_all
  have frame: "?h' p = heap S p" if "p \<notin> insert x (set (rs i))" for p
    using that last_in_set [OF False] by auto
  have "repr (S\<lparr>heap := ?h', promises_to_resolve := ?L'\<rparr>) qs (rs(i := rs i @ [x]))"
  proof (rule repr_promises [OF R _ _ _ _ _ _ _ same frame])
    show "dll ?h' None (rs i @ [x]) None"
      unfolding h using dll_snoc [OF ri(2,3) False m xt, of n] n(2) by (simp add: links_def)
  qed (use n off False xt ri(3) in \<open>auto simp: off_lists_def\<close>)
  moreover have "S\<lparr>heap := ?h', promises_to_resolve := ?L'\<rparr> =
      S\<lparr>heap := ?h', promises_to_resolve := ?L', posted := posted S\<rparr>" by simp
  ultimately show ?thesis
    using n m ri(1) False ne same
    by (intro exI [of _ ?h'] exI [of _ ?L']) (simp add: store_def)
qed

lemma store_Inr: "heap S p = Some n \<Longrightarrow> store p f S = Inr (S\<lparr>heap := (heap S)(p := Some (f n))\<rparr>)"
  by (simp add: store_def)

lemma store_async_Inr:
  "heap S p = Some n \<Longrightarrow> store_async p f S =
     Inr (S\<lparr>heap := (heap S)(p := Some (n\<lparr>async_state := map_option f (async_state n)\<rparr>))\<rparr>)"
  by (simp add: store_async_def store_def)

text \<open>\<open>NotifyAsyncWaiter\<close> moves a waiter to the end of its isolate's list, posting the task first.\<close>

lemma NotifyAsyncWaiter_repr:
  assumes R: "repr S qs rs" and q: "qs k = as @ x # bs"
    and n: "heap S x = Some n" "async_state n = Some a" "isolate_for_async_waiters a = i"
  shows "\<exists>S'. NotifyAsyncWaiter x S = Inr S' \<and> repr S' (qs(k := as @ bs)) (rs(i := rs i @ [x])) \<and>
    (\<forall>p. info S' p = info S p) \<and> notified S' = notified S \<and> live_stores S' = live_stores S \<and>
    next_ptr S' = next_ptr S \<and> fx_engine S' = fx_engine S \<and> resolved S' = resolved S \<and>
    posted S' = posted S @ (if rs i = [] then [ResolveAsyncWaiterPromisesTask i] else [])"
proof -
  let ?n1 = "n\<lparr>async_state := Some (a\<lparr>timeout_time := 0\<rparr>)\<rparr>"
  let ?S1 = "S\<lparr>heap := (heap S)(x := Some ?n1)\<rparr>"
  have S1: "store_async x (\<lambda>a. a\<lparr>timeout_time := 0\<rparr>) S = Inr ?S1"
    using n by (simp add: store_async_Inr)
  have R1: "repr ?S1 qs rs"
    by (rule repr_cong [OF R n(1)]) (simp_all add: links_def of_isolate_def n)
  from RemoveNode_repr [OF R1 q] obtain h2 L2 n2 where
    S2: "RemoveNode x ?S1 = Inr (?S1\<lparr>heap := h2, location_lists := L2\<rparr>)"
    and R2: "repr (?S1\<lparr>heap := h2, location_lists := L2\<rparr>) (qs(k := as @ bs)) rs"
    and b2: "same_bodies (heap ?S1) h2" and n2: "h2 x = Some n2" "links n2 = (None, None)"
    by blast
  let ?S2 = "?S1\<lparr>heap := h2, location_lists := L2\<rparr>"
  from same_bodiesD [OF b2, of x ?n1] n2(1) have a2: "async_state n2 = Some (a\<lparr>timeout_time := 0\<rparr>)"
    by auto
  have off: "off_lists x (qs(k := as @ bs)) rs"
  proof -
    have "x \<in> set (qs k)" using q by simp
    then have "x \<notin> set (rs j)" "j \<noteq> k \<Longrightarrow> x \<notin> set (qs j)" for j
      using reprD(3) [OF R, of k] lists_okD(4) [OF reprD(1) [OF R]] by blast+
    moreover have "x \<notin> set (as @ bs)" using lists_okD(3) [OF reprD(1) [OF R], of k] q by simp
    ultimately show ?thesis by (simp add: off_lists_def)
  qed
  have "heap ?S2 x = Some n2" "of_isolate i n2" using n2 a2 n(3) by (simp_all add: of_isolate_def)
  from append_promise [OF R2 this(1) n2(2) this(2) off] obtain h3 L3 where
    S3: "(case promises_to_resolve ?S2 i of
         None \<Rightarrow> Inr (?S2\<lparr>promises_to_resolve := (promises_to_resolve ?S2)(i \<mapsto> (x, x)),
                       posted := posted ?S2 @ [ResolveAsyncWaiterPromisesTask i]\<rparr>)
       | Some (head, tail) \<Rightarrow>
           bindE (store x (\<lambda>m. m\<lparr>prev_node := Some tail\<rparr>) ?S2) (\<lambda>S.
           bindE (store tail (\<lambda>m. m\<lparr>next_node := Some x\<rparr>) S) (\<lambda>S.
             Inr (S\<lparr>promises_to_resolve := (promises_to_resolve S)(i \<mapsto> (head, x))\<rparr>)))) =
      Inr (?S2\<lparr>heap := h3, promises_to_resolve := L3,
        posted := posted ?S2 @ (if rs i = [] then [ResolveAsyncWaiterPromisesTask i] else [])\<rparr>)"
    and R3: "repr (?S2\<lparr>heap := h3, promises_to_resolve := L3\<rparr>) (qs(k := as @ bs)) (rs(i := rs i @ [x]))"
    and b3: "same_bodies (heap ?S2) h3" by blast
  let ?S3 = "?S2\<lparr>heap := h3, promises_to_resolve := L3,
    posted := posted ?S2 @ (if rs i = [] then [ResolveAsyncWaiterPromisesTask i] else [])\<rparr>"
  have D: "deref (Some x) ?S2 = Inr n2" using n2(1) by (simp add: deref_def)
  have A: "deref_async n2 = Inr (a\<lparr>timeout_time := 0\<rparr>)" using a2 by (simp add: deref_async_def)
  have i2: "isolate_for_async_waiters (a\<lparr>timeout_time := 0\<rparr>) = i" using n(3) by simp
  have "NotifyAsyncWaiter x S = Inr ?S3"
    unfolding NotifyAsyncWaiter_def S1 bindE.simps S2 D A Let_def i2 by (rule S3)
  moreover have "repr ?S3 (qs(k := as @ bs)) (rs(i := rs i @ [x]))"
    using R3 by (simp add: repr_def)
  moreover have "info ?S3 p = info S p" for p
  proof -
    have "info ?S3 p = info ?S2 p" using info_same_bodies [of ?S2 ?S3] b3 by simp
    also have "\<dots> = info ?S1 p" using info_same_bodies [of ?S1 ?S2] b2 by simp
    also have "\<dots> = info S p" using n by (simp add: info_def)
    finally show ?thesis .
  qed
  ultimately show ?thesis by (intro exI [of _ ?S3]) simp
qed

subsection \<open>Waking, on lists\<close>

definition is_waiting :: "futex \<Rightarrow> ptr \<Rightarrow> bool" where
  "is_waiting S p \<longleftrightarrow> (case info S p of Some (w, a) \<Rightarrow> w | None \<Rightarrow> False)"

definition isolate_of :: "futex \<Rightarrow> ptr \<Rightarrow> isolate option" where
  "isolate_of S p = (case info S p of Some (w, Some (i, b)) \<Rightarrow> Some i | _ \<Rightarrow> None)"

definition store_expired :: "futex \<Rightarrow> ptr \<Rightarrow> bool" where
  "store_expired S p \<longleftrightarrow> (case info S p of Some (w, Some (i, b)) \<Rightarrow> b \<notin> live_stores S | _ \<Rightarrow> False)"

text \<open>The waiters a loop over \<open>ps\<close> takes, \<open>num\<close> at most, in order.\<close>

fun pick :: "nat \<Rightarrow> nat \<Rightarrow> (ptr \<Rightarrow> bool) \<Rightarrow> ptr list \<Rightarrow> ptr list" where
  "pick kAll num w [] = []"
| "pick kAll num w (p # ps) =
     (if num = 0 then []
      else if w p then p # pick kAll (if num \<noteq> kAll then num - 1 else num) w ps
      else pick kAll num w ps)"

lemma pick_cong: "(\<And>p. p \<in> set ps \<Longrightarrow> w p = w' p) \<Longrightarrow> pick kAll num w ps = pick kAll num w' ps"
  by (induction ps arbitrary: num) auto

lemma pick_subset: "set (pick kAll num w ps) \<subseteq> set ps"
  by (induction ps arbitrary: num) auto

lemma pick_eq:
  assumes "num \<le> kAll" and "0 < kAll"
  shows "pick kAll num w ps = (if num = kAll then filter w ps else take num (filter w ps))"
  using assms
proof (induction ps arbitrary: num)
  case Nil
  then show ?case by simp
next
  case (Cons p ps)
  have "num - 1 \<le> kAll" using Cons.prems by simp
  from Cons.IH [OF this Cons.prems(2)] Cons.IH [OF Cons.prems] Cons.prems show ?case
    by (cases num) auto
qed

lemma info_node:
  "heap S p = Some n \<Longrightarrow> info S p = Some (waiting n,
     map_option (\<lambda>a. (isolate_for_async_waiters a, as_backing_store a)) (async_state n))"
  by (simp add: info_def)

text \<open>Taking one waiter: clear its flag, then notify it.\<close>

lemma take_waiter:
  assumes R: "repr S qs rs" and q: "qs k = as @ y # ys" and n: "heap S y = Some n"
  shows "\<exists>S'. bindE (store y (\<lambda>n. n\<lparr>waiting := False\<rparr>) S)
        (\<lambda>S. if IsAsync n then NotifyAsyncWaiter y S else Inr (NotifyOne y S)) = Inr S' \<and>
    repr S' (qs(k := as @ (if IsAsync n then ys else y # ys)))
      (\<lambda>i. rs i @ (if isolate_of S y = Some i then [y] else [])) \<and>
    (\<forall>p. info S' p = (if p = y then map_option (\<lambda>(w, a). (False, a)) (info S p) else info S p)) \<and>
    notified S' = notified S @ (if IsAsync n then [] else [y]) \<and>
    live_stores S' = live_stores S \<and> fx_engine S' = fx_engine S \<and> next_ptr S' = next_ptr S"
proof -
  let ?S1 = "S\<lparr>heap := (heap S)(y := Some (n\<lparr>waiting := False\<rparr>))\<rparr>"
  have S1: "store y (\<lambda>n. n\<lparr>waiting := False\<rparr>) S = Inr ?S1" by (rule store_Inr [OF n])
  have R1: "repr ?S1 qs rs"
    by (rule repr_cong [OF R n]) (simp_all add: links_def of_isolate_def)
  have info1: "info ?S1 p = (if p = y then map_option (\<lambda>(w, a). (False, a)) (info S p) else info S p)" for p
    using n by (simp add: info_def)
  show ?thesis
  proof (cases "async_state n")
    case None
    then have "isolate_of S y = None" using n by (simp add: isolate_of_def info_def)
    then have "repr (NotifyOne y ?S1) (qs(k := as @ (if IsAsync n then ys else y # ys)))
        (\<lambda>i. rs i @ (if isolate_of S y = Some i then [y] else []))"
      using R1 None q [symmetric] by (simp add: repr_def NotifyOne_def IsAsync_def)
    moreover have "info (NotifyOne y ?S1) p = info ?S1 p" for p by (simp add: info_def NotifyOne_def)
    ultimately show ?thesis
      using S1 None info1
      by (intro exI [of _ "NotifyOne y ?S1"]) (simp add: IsAsync_def NotifyOne_def)
  next
    case (Some a)
    have n1: "heap ?S1 y = Some (n\<lparr>waiting := False\<rparr>)" by simp
    from Some have a1: "async_state (n\<lparr>waiting := False\<rparr>) = Some a" by simp
    from NotifyAsyncWaiter_repr [OF R1 q n1 a1 refl] obtain S' where
      S': "NotifyAsyncWaiter y ?S1 = Inr S'"
      "repr S' (qs(k := as @ ys)) (rs(isolate_for_async_waiters a := rs (isolate_for_async_waiters a) @ [y]))"
      "\<forall>p. info S' p = info ?S1 p" "notified S' = notified ?S1" "live_stores S' = live_stores ?S1"
      "next_ptr S' = next_ptr ?S1" "fx_engine S' = fx_engine ?S1"
      by blast
    have "isolate_of S y = Some (isolate_for_async_waiters a)"
      using n Some by (simp add: isolate_of_def info_def)
    then have "(\<lambda>i. rs i @ (if isolate_of S y = Some i then [y] else [])) =
        rs(isolate_for_async_waiters a := rs (isolate_for_async_waiters a) @ [y])" by auto
    with S' S1 info1 Some show ?thesis by (intro exI [of _ S']) (simp add: IsAsync_def)
  qed
qed

lemma matching_not_expired:
  "heap S p = Some n \<Longrightarrow> matching_backing_store S n \<longleftrightarrow> \<not> store_expired S p"
  by (auto simp: matching_backing_store_def store_expired_def info_def expired_def split: option.splits)

definition woken_result :: "futex \<Rightarrow> addr \<Rightarrow> ptr list \<Rightarrow> ptr list \<Rightarrow> ptr list \<Rightarrow> (addr \<Rightarrow> ptr list) \<Rightarrow>
    (isolate \<Rightarrow> ptr list) \<Rightarrow> futex \<Rightarrow> bool" where
  "woken_result S k as ys P qs rs S' \<longleftrightarrow>
     repr S' (qs(k := as @ filter (\<lambda>p. p \<notin> set P \<or> isolate_of S p = None) ys))
       (\<lambda>i. rs i @ filter (\<lambda>p. isolate_of S p = Some i) P) \<and>
     (\<forall>p. info S' p = (if p \<in> set P then map_option (\<lambda>(w, a). (False, a)) (info S p) else info S p)) \<and>
     notified S' = notified S @ filter (\<lambda>p. isolate_of S p = None) P \<and>
     live_stores S' = live_stores S \<and> fx_engine S' = fx_engine S \<and> next_ptr S' = next_ptr S"

lemma woken_result_refl:
  assumes "repr S qs rs" and "qs k = as @ ys"
  shows "woken_result S k as ys [] qs rs S"
proof -
  have "qs(k := as @ ys) = qs" using assms(2) by auto
  with assms(1) show ?thesis by (simp add: woken_result_def)
qed

lemma woken_result_Cons:
  assumes n: "heap S y = Some n" and y: "y \<notin> set ys" and PS: "set P \<subseteq> set ys"
    and info1: "\<And>p. info S1 p = (if p = y then map_option (\<lambda>(w, a). (False, a)) (info S p) else info S p)"
    and rest: "notified S1 = notified S @ (if IsAsync n then [] else [y])"
      "live_stores S1 = live_stores S" "fx_engine S1 = fx_engine S" "next_ptr S1 = next_ptr S"
    and res: "woken_result S1 k (if IsAsync n then as else as @ [y]) ys P
      (qs(k := as @ (if IsAsync n then ys else y # ys)))
      (\<lambda>i. rs i @ (if isolate_of S y = Some i then [y] else [])) S'"
  shows "woken_result S k as (y # ys) (y # P) qs rs S'"
proof -
  let ?as = "if IsAsync n then as else as @ [y]"
  have yP: "y \<notin> set P" using y PS by blast
  have isol: "isolate_of S1 p = isolate_of S p" for p
    using info1 [of p] by (auto simp: isolate_of_def split: option.splits)
  have async: "IsAsync n \<longleftrightarrow> isolate_of S y \<noteq> None"
    using n by (auto simp: isolate_of_def info_def IsAsync_def split: option.splits)
  have "filter (\<lambda>p. p \<notin> set P \<or> isolate_of S p = None) ys =
      filter (\<lambda>p. p \<notin> set (y # P) \<or> isolate_of S p = None) ys"
    using y by (intro filter_cong) auto
  then have queue: "?as @ filter (\<lambda>p. p \<notin> set P \<or> isolate_of S p = None) ys =
      as @ filter (\<lambda>p. p \<notin> set (y # P) \<or> isolate_of S p = None) (y # ys)"
    using async by simp
  have promises: "(\<lambda>i. (rs i @ (if isolate_of S y = Some i then [y] else [])) @
        filter (\<lambda>p. isolate_of S p = Some i) P) =
      (\<lambda>i. rs i @ filter (\<lambda>p. isolate_of S p = Some i) (y # P))"
    by auto
  note res = res [unfolded woken_result_def isol fun_upd_upd queue promises]
  have "info S' p = (if p \<in> set (y # P) then map_option (\<lambda>(w, a). (False, a)) (info S p)
      else info S p)" for p
    using res info1 [of p] yP by (cases "p = y") simp_all
  moreover have "notified S' = notified S @ filter (\<lambda>p. isolate_of S p = None) (y # P)"
    using res rest(1) async by simp
  ultimately show ?thesis using res rest unfolding woken_result_def by simp
qed

lemma wake_loop_repr:
  assumes "repr S qs rs" and "qs k = as @ ys" and "length ys \<le> fuel"
    and "\<And>p. p \<in> set ys \<Longrightarrow> is_waiting S p \<Longrightarrow> \<not> store_expired S p"
  shows "\<exists>S'. wake_loop fuel kAll (first ys None) num woken S =
      Inr (woken + length (pick kAll num (is_waiting S) ys), S') \<and>
    woken_result S k as ys (pick kAll num (is_waiting S) ys) qs rs S'"
  using assms
proof (induction ys arbitrary: S qs rs as num woken fuel)
  case Nil
  then show ?case using woken_result_refl [of S qs rs k as "[]"] by simp
next
  case (Cons y ys)
  note R = Cons.prems(1) and q = Cons.prems(2)
  obtain f where fuel: "fuel = Suc f" "length ys \<le> f" using Cons.prems(3) by (cases fuel) auto
  note qk = lists_okD(2,3) [OF reprD(1) [OF R], of k, unfolded q]
  obtain n where n: "heap S y = Some n" and nx: "next_node n = first ys None"
    using qk(1) by (auto simp: dll_append)
  have w: "is_waiting S y = waiting n" using n by (simp add: is_waiting_def info_node)
  show ?case
  proof (cases "num = 0")
    case True
    then show ?thesis using woken_result_refl [OF R q] fuel by simp
  next
    case num: False
    show ?thesis
    proof (cases "waiting n")
      case False
      have q': "qs k = (as @ [y]) @ ys" using q by simp
      from Cons.IH [OF R q' fuel(2), of num woken] Cons.prems(4) obtain S' where S':
        "wake_loop f kAll (first ys None) num woken S =
           Inr (woken + length (pick kAll num (is_waiting S) ys), S')"
        "woken_result S k (as @ [y]) ys (pick kAll num (is_waiting S) ys) qs rs S'"
        by auto
      have "y \<notin> set (pick kAll num (is_waiting S) ys)" using pick_subset qk(2) by fastforce
      with S'(2) have "woken_result S k as (y # ys) (pick kAll num (is_waiting S) ys) qs rs S'"
        by (simp add: woken_result_def)
      with S'(1) n nx w False num fuel show ?thesis by (simp add: deref_def)
    next
      case True
      have "matching_backing_store S n"
        using Cons.prems(4) [of y] w True matching_not_expired [OF n] by simp
      from take_waiter [OF R q n] obtain S1 where S1:
        "bindE (store y (\<lambda>n. n\<lparr>waiting := False\<rparr>) S)
          (\<lambda>S. if IsAsync n then NotifyAsyncWaiter y S else Inr (NotifyOne y S)) = Inr S1"
        and R1: "repr S1 (qs(k := as @ (if IsAsync n then ys else y # ys)))
          (\<lambda>i. rs i @ (if isolate_of S y = Some i then [y] else []))"
        and info1: "\<And>p. info S1 p = (if p = y then map_option (\<lambda>(w, a). (False, a)) (info S p) else info S p)"
        and rest: "notified S1 = notified S @ (if IsAsync n then [] else [y])"
          "live_stores S1 = live_stores S" "fx_engine S1 = fx_engine S" "next_ptr S1 = next_ptr S"
        by blast
      let ?num' = "if num \<noteq> kAll then num - 1 else num"
      let ?as = "if IsAsync n then as else as @ [y]"
      have q1: "(qs(k := as @ (if IsAsync n then ys else y # ys))) k = ?as @ ys" by simp
      have y: "y \<notin> set ys" using qk(2) by simp
      have same: "is_waiting S1 p = is_waiting S p" "store_expired S1 p = store_expired S p"
        if "p \<in> set ys" for p
      proof -
        have "info S1 p = info S p" using that y info1 by auto
        then show "is_waiting S1 p = is_waiting S p" "store_expired S1 p = store_expired S p"
          unfolding is_waiting_def store_expired_def rest(2) by simp_all
      qed
      have P: "pick kAll ?num' (is_waiting S1) ys = pick kAll ?num' (is_waiting S) ys"
        by (rule pick_cong) (simp add: same)
      have "\<And>p. p \<in> set ys \<Longrightarrow> is_waiting S1 p \<Longrightarrow> \<not> store_expired S1 p"
        using same Cons.prems(4) by simp
      from Cons.IH [OF R1 q1 fuel(2) this, of ?num' "woken + 1", unfolded P] obtain S' where
        loop: "wake_loop f kAll (first ys None) ?num' (woken + 1) S1 =
          Inr (woken + 1 + length (pick kAll ?num' (is_waiting S) ys), S')"
        and res: "woken_result S1 k ?as ys (pick kAll ?num' (is_waiting S) ys)
          (qs(k := as @ (if IsAsync n then ys else y # ys)))
          (\<lambda>i. rs i @ (if isolate_of S y = Some i then [y] else [])) S'"
        by blast
      have "woken_result S k as (y # ys) (y # pick kAll ?num' (is_waiting S) ys) qs rs S'"
        by (rule woken_result_Cons [OF n y pick_subset info1 rest res])
      moreover have "wake_loop fuel kAll (first (y # ys) None) num woken S =
          wake_loop f kAll (first ys None) ?num' (woken + 1) S1"
        using fuel num n nx True \<open>matching_backing_store S n\<close> S1
        by (simp add: deref_def bindE_assoc [symmetric])
      ultimately show ?thesis using loop w True num by (intro exI [of _ S']) simp
    qed
  qed
qed

end
