(* ===== verification/FutexProps.thy ===== *)
theory FutexProps
  imports FutexLists
begin

text \<open>
  What the operations of \<open>futex-emulation.cc\<close> promise, on the list view of \<open>FutexLists\<close>: waiters
  are woken first come, first served; a woken synchronous waiter leaves the list and returns
  \<open>kOk\<close>; the promises of woken asynchronous waiters are resolved and their nodes freed; an
  isolate that goes away takes exactly its own nodes with it; a notify orders the accesses before
  it before those after the wait. A node whose backing store is gone ends a wake early.
\<close>

subsection \<open>A waiter and its isolate, for the witnesses\<close>

definition demo_async :: "AsyncState" where
  "demo_async = \<lparr>isolate_for_async_waiters = 5, as_backing_store = 7, as_promise = Some 3,
     timeout_time = 0, timeout_task_id = 0, waiting_for_main_thread_cleanup = False\<rparr>"

definition demo_node :: "FutexWaitListNode" where
  "demo_node = \<lparr>prev_node = None, next_node = Some 2, wait_location = 64, waiting = True,
     interrupted = False, async_state = Some demo_async\<rparr>"

text \<open>An asynchronous waiter of isolate 5, then a synchronous one, both at address 64.\<close>

definition demo_futex :: "nat set \<Rightarrow> futex" where
  "demo_futex live = \<lparr>heap = [
       1 \<mapsto> demo_node,
       2 \<mapsto> \<lparr>prev_node = Some 1, next_node = None, wait_location = 64, waiting = True,
            interrupted = False, async_state = None\<rparr>],
     next_ptr = 3, location_lists = [64 \<mapsto> (1, 2)], promises_to_resolve = (\<lambda>_. None),
     live_stores = live, waitasync_promises = {3}, posted = [], next_task = 1, notified = [],
     resolved = [], fx_engine = new_engine\<rparr>"

lemma demo_futex_repr: "repr (demo_futex live) ((\<lambda>_. [])(64 := [1, 2])) (\<lambda>_. [])"
  by (auto simp: repr_def lists_ok_def demo_futex_def demo_node_def)

subsection \<open>First come, first served\<close>

lemma repr_length: "repr S qs rs \<Longrightarrow> length (qs k) \<le> next_ptr S"
proof -
  assume R: "repr S qs rs"
  have "set (qs k) \<subseteq> {..<next_ptr S}" using reprD(4,6) [OF R] by blast
  then have "card (set (qs k)) \<le> next_ptr S" by (metis card_lessThan card_mono finite_lessThan)
  then show ?thesis using distinct_card [OF lists_okD(3) [OF reprD(1) [OF R]]] by simp
qed

lemma repr_engine [simp]: "repr (S\<lparr>fx_engine := E\<rparr>) qs rs = repr S qs rs"
  by (simp add: repr_def)

lemma tsan_hook_engine:
  "tsan_hook field b loc S = Inr S0 \<Longrightarrow> S0 = S\<lparr>fx_engine := fx_engine S0\<rparr>"
  by (auto simp: tsan_hook_def Let_def bindE_eq_Inr split: if_splits option.splits)

lemma info_engine [simp]:
  "info (S\<lparr>fx_engine := E\<rparr>) = info S" "is_waiting (S\<lparr>fx_engine := E\<rparr>) = is_waiting S"
  "isolate_of (S\<lparr>fx_engine := E\<rparr>) = isolate_of S"
  "store_expired (S\<lparr>fx_engine := E\<rparr>) = store_expired S"
proof -
  show info: "info (S\<lparr>fx_engine := E\<rparr>) = info S" by (simp add: fun_eq_iff info_def)
  show "is_waiting (S\<lparr>fx_engine := E\<rparr>) = is_waiting S"
    "isolate_of (S\<lparr>fx_engine := E\<rparr>) = isolate_of S"
    "store_expired (S\<lparr>fx_engine := E\<rparr>) = store_expired S"
    by (auto simp: fun_eq_iff info is_waiting_def isolate_of_def store_expired_def split: option.splits)
qed

lemma location_head: "repr S qs rs \<Longrightarrow> location_lists S loc =
    (case qs loc of [] \<Rightarrow> None | y # ys \<Rightarrow> Some (y, last (y # ys)))"
  using lists_okD(1) [OF reprD(1), of S qs rs loc] by (simp split: list.split)

lemma Wake_eq:
  assumes "repr S qs rs" and "tsan_hook on_atomics_notify b loc S = Inr S0"
  shows "Wake b kAll loc num S = wake_loop (next_ptr S0) kAll (first (qs loc) None) num 0 S0"
proof -
  have "repr S0 qs rs" using tsan_hook_engine [OF assms(2)] assms(1) repr_engine by metis
  from location_head [OF this] assms(2) show ?thesis
    by (cases "qs loc") (simp_all add: Wake_def)
qed

text \<open>The waiters a call of \<open>Wake\<close> takes.\<close>

definition woken :: "nat \<Rightarrow> nat \<Rightarrow> futex \<Rightarrow> ptr list \<Rightarrow> ptr list" where
  "woken kAll num S q =
     (let w = filter (is_waiting S) q in if num = kAll then w else take num w)"

lemma Wake_woken:
  assumes "repr S qs rs" and "tsan_hook on_atomics_notify b loc S = Inr S0"
    and "num \<le> kAll" and "0 < kAll"
    and "\<forall>p \<in> set (qs loc). is_waiting S p \<longrightarrow> \<not> store_expired S p"
  shows "\<exists>S'. Wake b kAll loc num S = Inr (length (woken kAll num S (qs loc)), S') \<and>
    woken_result S0 loc [] (qs loc) (woken kAll num S (qs loc)) qs rs S'"
proof -
  obtain E where S0: "S0 = S\<lparr>fx_engine := E\<rparr>" using tsan_hook_engine [OF assms(2)] by blast
  have R: "repr S0 qs rs" using assms(1) S0 by simp
  have W: "pick kAll num (is_waiting S0) (qs loc) = woken kAll num S (qs loc)"
    using pick_eq [OF assms(3,4)] by (simp add: woken_def Let_def S0)
  from wake_loop_repr [OF R _ repr_length [OF R, of loc], where k = loc and as = "[]"
      and kAll = kAll and num = num and woken = 0] assms(5) S0 W
  show ?thesis unfolding Wake_eq [OF assms(1,2)] by auto
qed


lemma demo_futex_info:
  "isolate_of (demo_futex live) 1 = Some 5" "isolate_of (demo_futex live) 2 = None"
  "is_waiting (demo_futex live) 1" "is_waiting (demo_futex live) 2"
  "store_expired (demo_futex live) 1 \<longleftrightarrow> 7 \<notin> live" "\<not> store_expired (demo_futex live) 2"
  by (simp_all add: is_waiting_def isolate_of_def store_expired_def info_def demo_futex_def
      demo_node_def demo_async_def)


subsection \<open>A node whose backing store is gone\<close>

lemma store_repr:
  assumes "repr S qs rs" and "heap S p = Some n" and "links (f n) = links n"
    and "wait_location (f n) = wait_location n" and "\<And>i. of_isolate i (f n) = of_isolate i n"
  shows "\<exists>S'. store p f S = Inr S' \<and> repr S' qs rs \<and> heap S' p = Some (f n) \<and>
    (\<forall>q. q \<noteq> p \<longrightarrow> info S' q = info S q) \<and> fx_engine S' = fx_engine S"
  using repr_cong [OF assms] store_Inr [OF assms(2)] by (auto simp: info_def)

text \<open>The cleanup of such a node: two writes, then the move to its isolate's list.\<close>

lemma cleanup_expired:
  assumes R: "repr S qs rs" and q: "qs loc = y # ys" and n: "heap S y = Some n" "async_state n = Some a"
    and rs: "rs (isolate_for_async_waiters a) = []"
  shows "\<exists>S' m. bindE (store_async y (\<lambda>a. a\<lparr>waiting_for_main_thread_cleanup := True\<rparr>) S) (\<lambda>S.
        bindE (store y (\<lambda>n. n\<lparr>waiting := False\<rparr>) S) (NotifyAsyncWaiter y)) = Inr S' \<and>
      repr S' (qs(loc := ys)) (rs(isolate_for_async_waiters a := [y])) \<and>
      heap S' y = Some m \<and> next_node m = None \<and> (\<forall>p. p \<noteq> y \<longrightarrow> info S' p = info S p)"
proof -
  let ?i = "isolate_for_async_waiters a"
  from store_repr [OF R n(1), of "\<lambda>n. n\<lparr>async_state := map_option
      (\<lambda>a. a\<lparr>waiting_for_main_thread_cleanup := True\<rparr>) (async_state n)\<rparr>"] n
  obtain S1 n1 where S1: "store_async y (\<lambda>a. a\<lparr>waiting_for_main_thread_cleanup := True\<rparr>) S = Inr S1"
    "repr S1 qs rs" "heap S1 y = Some n1"
    "async_state n1 = Some (a\<lparr>waiting_for_main_thread_cleanup := True\<rparr>)"
    "\<forall>p. p \<noteq> y \<longrightarrow> info S1 p = info S p"
    by (auto simp: store_async_def links_def of_isolate_def)
  from store_repr [OF S1(2,3), of "\<lambda>n. n\<lparr>waiting := False\<rparr>"] S1(4)
  obtain S2 n2 where S2: "store y (\<lambda>n. n\<lparr>waiting := False\<rparr>) S1 = Inr S2" "repr S2 qs rs"
    "heap S2 y = Some n2" "async_state n2 = Some (a\<lparr>waiting_for_main_thread_cleanup := True\<rparr>)"
    "\<forall>p. p \<noteq> y \<longrightarrow> info S2 p = info S1 p"
    by (auto simp: links_def of_isolate_def)
  have "qs loc = [] @ y # ys" "isolate_for_async_waiters (a\<lparr>waiting_for_main_thread_cleanup := True\<rparr>) = ?i"
    using q by simp_all
  from NotifyAsyncWaiter_repr [OF S2(2) this(1) S2(3,4) this(2)] rs obtain S3 where
    S3: "NotifyAsyncWaiter y S2 = Inr S3" "repr S3 (qs(loc := ys)) (rs(?i := [y]))"
    "\<forall>p. info S3 p = info S2 p" by auto
  have "dll (heap S3) None [y] None" using lists_okD(2) [OF reprD(2) [OF S3(2)], of ?i] by simp
  with S1(1,5) S2(1,5) S3 show ?thesis by auto
qed

text \<open>
  C20: when the first waiter at a location is a \<open>waitAsync\<close> without a timeout whose backing store is
  gone, \<open>Wake\<close> cleans it up by moving it to its isolate's list of promises and then follows the
  node's own link, which the move has reset: it returns 0 and wakes nobody, however many live
  waiters stand behind that node.
\<close>

theorem Wake_stops_after_expired:
  assumes "repr S qs rs" and "tsan_hook on_atomics_notify b loc S = Inr S0" and "0 < num"
    and "qs loc = y # ys" and "heap S y = Some n" and "waiting n"
    and "async_state n = Some a" and "expired S a" and "timeout_time a = 0"
    and "rs (isolate_for_async_waiters a) = []"
  shows "\<exists>S'. Wake b kWakeAll loc num S = Inr (0, S') \<and>
    repr S' (qs(loc := ys)) (rs(isolate_for_async_waiters a := [y])) \<and>
    (\<forall>p \<in> set ys. is_waiting S' p \<longleftrightarrow> is_waiting S p)"
proof -
  obtain E where S0: "S0 = S\<lparr>fx_engine := E\<rparr>" using tsan_hook_engine [OF assms(2)] by blast
  have R: "repr S0 qs rs" and n: "heap S0 y = Some n" using assms(1,5) S0 by simp_all
  from cleanup_expired [OF R assms(4) n assms(7,10)] obtain S' m where
    S': "bindE (store_async y (\<lambda>a. a\<lparr>waiting_for_main_thread_cleanup := True\<rparr>) S0) (\<lambda>S.
        bindE (store y (\<lambda>n. n\<lparr>waiting := False\<rparr>) S) (NotifyAsyncWaiter y)) = Inr S'"
      "repr S' (qs(loc := ys)) (rs(isolate_for_async_waiters a := [y]))"
      "heap S' y = Some m" "next_node m = None" "\<forall>p. p \<noteq> y \<longrightarrow> info S' p = info S0 p" by blast
  obtain f where f: "next_ptr S0 = Suc f"
    using repr_length [OF R, of loc] assms(4) by (cases "next_ptr S0") auto
  have "\<not> matching_backing_store S0 n"
    using assms(7,8) by (simp add: matching_backing_store_def expired_def S0)
  then have "Wake b kWakeAll loc num S = Inr (0, S')"
    unfolding Wake_eq [OF assms(1,2)] f
    using n assms(3,4,6,7,9) S' by (simp add: deref_def deref_async_def)
  moreover have "is_waiting S' p \<longleftrightarrow> is_waiting S p" if "p \<in> set ys" for p
  proof -
    have "p \<noteq> y" using lists_okD(3) [OF reprD(1) [OF R], of loc] assms(4) that by auto
    with S'(5) show ?thesis by (simp add: is_waiting_def S0)
  qed
  ultimately show ?thesis using S'(2) by blast
qed

theorem Wake_stops_after_expired_witness:
  "\<exists>S'. Wake False 4294967295 64 4294967295 (demo_futex {}) = Inr (0, S') \<and> is_waiting S' 2"
proof -
  have hook: "tsan_hook on_atomics_notify False 64 (demo_futex {}) = Inr (demo_futex {})"
    by (simp add: tsan_hook_def)
  have n: "heap (demo_futex {}) 1 = Some demo_node" "waiting demo_node"
    "async_state demo_node = Some demo_async" "expired (demo_futex {}) demo_async"
    "timeout_time demo_async = 0"
    by (simp_all add: demo_futex_def demo_node_def demo_async_def expired_def)
  have "\<exists>S'. Wake False 4294967295 64 4294967295 (demo_futex {}) = Inr (0, S') \<and>
      repr S' (((\<lambda>_. [])(64 := [1, 2]))(64 := [2]))
        ((\<lambda>_. [])(isolate_for_async_waiters demo_async := [1])) \<and>
      (\<forall>p \<in> set [2]. is_waiting S' p \<longleftrightarrow> is_waiting (demo_futex {}) p)"
    by (rule Wake_stops_after_expired [OF demo_futex_repr hook _ _ n]) simp_all
  then show ?thesis using demo_futex_info(4) by auto
qed

subsection \<open>Synchronous waits\<close>

text \<open>Where a waiter goes, from what its node, the clock and the interrupt handlers say.\<close>

definition wait_outcome :: "sync_wait \<Rightarrow> FutexWaitListNode \<Rightarrow> time \<Rightarrow> phase" where
  "wait_outcome w n now =
     (if \<not> waiting n then Done (Returned kOk)
      else if sw_use_timeout w \<and> sw_timeout w \<le> now then Done (Returned kTimedOut)
      else Blocked)"

fun next_phase :: "sync_wait \<Rightarrow> FutexWaitListNode \<Rightarrow> bool \<Rightarrow> time \<Rightarrow> phase \<Rightarrow> phase" where
  "next_phase w n exc now Checking =
     (if interrupted n then HandlingInterrupts else wait_outcome w n now)"
| "next_phase w n exc now HandlingInterrupts =
     (if exc then Done Exception else if interrupted n then Checking else wait_outcome w n now)"
| "next_phase w n exc now Blocked = Checking"
| "next_phase w n exc now (Done r) = Done r"

definition is_done :: "phase \<Rightarrow> bool" where
  "is_done ph \<longleftrightarrow> (case ph of Done r \<Rightarrow> True | _ \<Rightarrow> False)"

lemma is_done_simps [simp]: "is_done (Done r)" "\<not> is_done Checking" "\<not> is_done HandlingInterrupts"
  "\<not> is_done Blocked"
  by (simp_all add: is_done_def)

text \<open>One step from a phase \<open>ph\<close> to \<open>ph'\<close> that leaves the list exactly when the wait is over.\<close>

definition steps_to :: "sync_wait \<Rightarrow> bool \<Rightarrow> time \<Rightarrow> phase \<Rightarrow> futex \<Rightarrow> (addr \<Rightarrow> ptr list) \<Rightarrow>
    (isolate \<Rightarrow> ptr list) \<Rightarrow> addr \<Rightarrow> ptr list \<Rightarrow> phase \<Rightarrow> bool" where
  "steps_to w exc now ph S qs rs loc q' ph' \<longleftrightarrow>
     (\<exists>S'. wait_step w exc now (ph, S) = Inr (ph', S') \<and>
        repr S' (if is_done ph' then qs(loc := q') else qs) rs \<and>
        (\<forall>q. q \<noteq> sw_node w \<longrightarrow> info S' q = info S q))"

lemma wait_finish_repr:
  assumes R: "repr S qs rs" and q: "qs loc = as @ sw_node w # bs"
  shows "\<exists>S'. wait_finish w r S = Inr (Done r, S') \<and> repr S' (qs(loc := as @ bs)) rs \<and>
    (\<forall>p. p \<noteq> sw_node w \<longrightarrow> info S' p = info S p)"
proof -
  let ?p = "sw_node w"
  obtain n where n: "heap S ?p = Some n" using reprD(4) [OF R, of ?p loc] q by auto
  from store_repr [OF R n, of "\<lambda>n. n\<lparr>waiting := False\<rparr>"] obtain S1 where
    S1: "store ?p (\<lambda>n. n\<lparr>waiting := False\<rparr>) S = Inr S1" "repr S1 qs rs"
      "\<forall>q. q \<noteq> ?p \<longrightarrow> info S1 q = info S q"
    by (auto simp: links_def of_isolate_def)
  from RemoveNode_repr [OF S1(2) q] obtain h L where
    S2: "RemoveNode ?p S1 = Inr (S1\<lparr>heap := h, location_lists := L\<rparr>)"
      "repr (S1\<lparr>heap := h, location_lists := L\<rparr>) (qs(loc := as @ bs)) rs" "same_bodies (heap S1) h"
    by blast
  then have "info (S1\<lparr>heap := h, location_lists := L\<rparr>) p = info S1 p" for p
    by (intro info_same_bodies) simp
  with S1 S2 show ?thesis by (simp add: wait_finish_def)
qed

lemma wait_test_steps:
  assumes R: "repr S qs rs" and q: "qs loc = as @ sw_node w # bs" and n: "heap S (sw_node w) = Some n"
    and ni: "\<not> interrupted n"
  shows "\<exists>S'. wait_test w now S = Inr (wait_outcome w n now, S') \<and>
    repr S' (if is_done (wait_outcome w n now) then qs(loc := as @ bs) else qs) rs \<and>
    (\<forall>p. p \<noteq> sw_node w \<longrightarrow> info S' p = info S p)"
  using wait_finish_repr [OF R q] R n ni by (simp add: wait_test_def deref_def wait_outcome_def)

text \<open>
  A waiting thread's turn at the loop of \<open>WaitSyncImpl\<close> is decided by its node: an interrupt is
  handled before anything else and its flag cleared; then a waiter that was woken returns \<open>kOk\<close>,
  even when its time is up, one that was not returns \<open>kTimedOut\<close> exactly when it has a deadline
  that has passed, and blocks otherwise; an exception in the interrupt handler ends the wait. The
  node leaves its location's list in the step that ends the wait and in no other, and no step
  touches the other nodes.
\<close>

lemma wait_step_outcome:
  assumes "repr S qs rs" and "qs loc = as @ sw_node w # bs" and "heap S (sw_node w) = Some n"
    and "\<not> is_done ph"
  shows "steps_to w exc now ph S qs rs loc (as @ bs) (next_phase w n exc now ph)"
proof (cases ph)
  case Checking
  show ?thesis
  proof (cases "interrupted n")
    case True
    from store_repr [OF assms(1,3), of "\<lambda>n. n\<lparr>interrupted := False\<rparr>"] True assms(3) Checking
    show ?thesis by (auto simp: steps_to_def deref_def links_def of_isolate_def)
  next
    case False
    with wait_test_steps [OF assms(1-3) this, of now] Checking assms(3) show ?thesis
      by (simp add: steps_to_def deref_def)
  qed
next
  case HandlingInterrupts
  show ?thesis
  proof (cases "exc \<or> interrupted n")
    case True
    with wait_finish_repr [OF assms(1,2), of Exception] assms(1,3) HandlingInterrupts show ?thesis
      by (cases exc) (simp_all add: steps_to_def wait_test_def deref_def)
  next
    case False
    with wait_test_steps [OF assms(1-3), of now] HandlingInterrupts show ?thesis
      by (simp add: steps_to_def)
  qed
next
  case Blocked
  then show ?thesis using assms(1) by (simp add: steps_to_def)
qed (use assms(4) in simp)

lemma wait_step_outcome_example:
  "steps_to \<lparr>sw_node = 2, sw_use_timeout = True, sw_timeout = 10\<rparr> False 11 Checking (demo_futex {7})
     ((\<lambda>_. [])(64 := [1, 2])) (\<lambda>_. []) 64 [1] (Done (Returned kTimedOut))"
proof -
  have "heap (demo_futex {7}) (sw_node \<lparr>sw_node = 2, sw_use_timeout = True, sw_timeout = 10\<rparr>) =
      Some \<lparr>prev_node = Some 1, next_node = None, wait_location = 64, waiting = True,
            interrupted = False, async_state = None\<rparr>"
    by (simp add: demo_futex_def)
  from wait_step_outcome [OF demo_futex_repr _ this, of 64 "[1]" "[]" Checking False 11] show ?thesis
    by (simp add: wait_outcome_def)
qed

subsection \<open>The detector's edge from a notify to the end of a wait\<close>

lemma store_engine: "store p f S = Inr S' \<Longrightarrow> fx_engine S' = fx_engine S"
  by (auto simp: store_def split: option.splits)

lemma RemoveNode_engine: "RemoveNode x S = Inr S' \<Longrightarrow> fx_engine S' = fx_engine S"
proof -
  assume run: "RemoveNode x S = Inr S'"
  then obtain n where n: "deref (Some x) S = Inr n"
    unfolding RemoveNode_def by (auto simp: bindE_eq_Inr)
  show ?thesis
    using run n unfolding RemoveNode_def
    by (cases "prev_node n"; cases "next_node n"; cases "location_lists S (wait_location n)")
      (auto simp: Let_def bindE_eq_Inr dest!: store_engine)
qed

lemma NotifyAsyncWaiter_engine: "NotifyAsyncWaiter x S = Inr S' \<Longrightarrow> fx_engine S' = fx_engine S"
  unfolding NotifyAsyncWaiter_def store_async_def Let_def bindE_eq_Inr
  by (elim exE conjE) (auto simp: bindE_eq_Inr dest!: store_engine RemoveNode_engine split: option.splits)

lemma wake_loop_engine: "wake_loop fuel kAll q num k S = Inr (r, S') \<Longrightarrow> fx_engine S' = fx_engine S"
proof (induction fuel kAll q num k S arbitrary: r S' rule: wake_loop.induct)
  case (3 fuel kAll p num woken S)
  note IH = "3.IH" and run = "3.prems"
  show ?case
  proof (cases "num > 0")
    case num: True
    then obtain n where n: "deref (Some p) S = Inr n" using run by (cases "deref (Some p) S") auto
    consider "\<not> waiting n" | "waiting n" "matching_backing_store S n"
      | "waiting n" "\<not> matching_backing_store S n" by blast
    then show ?thesis
    proof cases
      case 1
      then show ?thesis using run num n IH(1) by simp
    next
      case 2
      with run num n obtain S1 S2 where "store p (\<lambda>n. n\<lparr>waiting := False\<rparr>) S = Inr S1"
        "(if IsAsync n then NotifyAsyncWaiter p S1 else Inr (NotifyOne p S1)) = Inr S2"
        and loop: "wake_loop fuel kAll (next_node n) (if num \<noteq> kAll then num - 1 else num)
          (woken + 1) S2 = Inr (r, S')"
        unfolding wake_loop.simps by (simp del: One_nat_def add: bindE_eq_Inr) blast
      then have "fx_engine S2 = fx_engine S"
        by (auto simp: NotifyOne_def split: if_splits dest!: store_engine NotifyAsyncWaiter_engine)
      with IH(2) [OF _ _ _ loop] num 2 show ?thesis by simp
    next
      case 3
      with run num n obtain a :: AsyncState and S1 and m :: FutexWaitListNode where
        "(if timeout_time a = 0 then
            bindE (store_async p (\<lambda>a. a\<lparr>waiting_for_main_thread_cleanup := True\<rparr>) S) (\<lambda>S.
            bindE (store p (\<lambda>n. n\<lparr>waiting := False\<rparr>) S) (NotifyAsyncWaiter p))
          else Inr S) = Inr S1"
        and loop: "wake_loop fuel kAll (next_node m) num woken S1 = Inr (r, S')"
        unfolding wake_loop.simps by (simp add: bindE_eq_Inr) blast
      then have "fx_engine S1 = fx_engine S"
        by (auto simp: bindE_eq_Inr store_async_def split: if_splits
            dest!: store_engine NotifyAsyncWaiter_engine)
      with IH(3) [OF _ _ _ loop] num 3 show ?thesis by simp
    qed
  qed (use run in auto)
qed (auto split: if_splits)

text \<open>The hook of a thread with a tid, with the detector's callbacks installed.\<close>

lemma tsan_hook_installed:
  assumes "g_callbacks (fx_engine S) = webtsan_callbacks"
    and "g_current_tsan_tid (snd (eng (fx_engine S))) = t" and "t < kMaxThreads"
  shows "tsan_hook on_atomics_notify True loc S = bindE (OnAtomicsNotify t loc (eng (fx_engine S)))
      (\<lambda>D. Inr (S\<lparr>fx_engine := (fx_engine S)\<lparr>eng := D\<rparr>\<rparr>))"
    and "tsan_hook on_atomics_wait_complete True loc S =
      bindE (OnAtomicsWaitComplete t loc (eng (fx_engine S)))
        (\<lambda>D. Inr (S\<lparr>fx_engine := (fx_engine S)\<lparr>eng := D\<rparr>\<rparr>))"
proof -
  have "t \<noteq> UINT32_MAX" using assms(3) by (simp add: kMaxThreads_def UINT32_MAX_def)
  then show "tsan_hook on_atomics_notify True loc S = bindE (OnAtomicsNotify t loc (eng (fx_engine S)))
      (\<lambda>D. Inr (S\<lparr>fx_engine := (fx_engine S)\<lparr>eng := D\<rparr>\<rparr>))"
    and "tsan_hook on_atomics_wait_complete True loc S =
      bindE (OnAtomicsWaitComplete t loc (eng (fx_engine S)))
        (\<lambda>D. Inr (S\<lparr>fx_engine := (fx_engine S)\<lparr>eng := D\<rparr>\<rparr>))"
    using assms(1,2)
    by (simp_all add: tsan_hook_def Let_def GetTid_def webtsan_callbacks_def on_eng_def
        WebTSanGetCurrentTid_def bindE_assoc)
qed

lemma OnAtomicsNotify_publishes:
  assumes "enabled (fst D)" and "s < kMaxThreads"
  shows "OnAtomicsNotify s loc D = Inr (publish s loc (fst D), snd D)"
  using assms by (simp add: OnAtomicsNotify_def callE_def Release_def index_tid_def)

lemma OnAtomicsWaitComplete_joins:
  assumes "enabled (fst D)" and "t < kMaxThreads"
  shows "OnAtomicsWaitComplete t loc D = Inr (
    case sync_clocks (fst D) loc of None \<Rightarrow> D | Some c \<Rightarrow> (join_thread t c (fst D), snd D))"
  using assms by (auto simp: OnAtomicsWaitComplete_def callE_def Acquire_def index_tid_def
      split: option.splits)

lemma Wake_publishes:
  assumes "Wake True kAll loc num S = Inr (k, S')"
    and "g_callbacks (fx_engine S) = webtsan_callbacks"
    and "g_current_tsan_tid (snd (eng (fx_engine S))) = s" and "s < kMaxThreads"
    and "enabled (fst (eng (fx_engine S)))"
  shows "fst (eng (fx_engine S')) = publish s loc (fst (eng (fx_engine S)))"
    and "g_callbacks (fx_engine S') = webtsan_callbacks"
proof -
  let ?E = "(fx_engine S)\<lparr>eng := (publish s loc (fst (eng (fx_engine S))), snd (eng (fx_engine S)))\<rparr>"
  have "tsan_hook on_atomics_notify True loc S = Inr (S\<lparr>fx_engine := ?E\<rparr>)"
    unfolding tsan_hook_installed(1) [OF assms(2-4)] OnAtomicsNotify_publishes [OF assms(5,4)] by simp
  with assms(1) have "fx_engine S' = ?E"
    by (auto simp: Wake_def split: option.splits dest: wake_loop_engine)
  then show "fst (eng (fx_engine S')) = publish s loc (fst (eng (fx_engine S)))"
    and "g_callbacks (fx_engine S') = webtsan_callbacks"
    using assms(2) by simp_all
qed

lemma WaitSync_end_joins:
  assumes "WaitSync_end True loc r S = Inr (r', S')"
    and "g_callbacks (fx_engine S) = webtsan_callbacks"
    and "g_current_tsan_tid (snd (eng (fx_engine S))) = t" and "t < kMaxThreads"
    and "enabled (fst (eng (fx_engine S)))" and "sync_clocks (fst (eng (fx_engine S))) loc = Some c"
  shows "thread_clocks (fst (eng (fx_engine S'))) t = Join (thread_clocks (fst (eng (fx_engine S))) t) c"
  using assms(1) unfolding WaitSync_end_def tsan_hook_installed(2) [OF assms(2-4)]
    OnAtomicsWaitComplete_joins [OF assms(5,4)] assms(6)
  by (auto simp: join_thread_def)

text \<open>
  C15: a notify orders. When thread \<open>s\<close> calls \<open>Wake\<close> with the detector installed and enabled, and
  thread \<open>t\<close> later finishes a wait at the same location, without the location's clock having been
  reset in between, then \<open>t\<close> has seen all that \<open>s\<close> had when it called \<open>Wake\<close>: no access \<open>s\<close> made
  before the notify can race with an access \<open>t\<close> makes after the wait.
\<close>

theorem notify_orders_before_wait:
  assumes "Wake True kWakeAll loc num S = Inr (k, S1)"
    and "g_callbacks (fx_engine S) = webtsan_callbacks"
    and "g_current_tsan_tid (snd (eng (fx_engine S))) = s" and "s < kMaxThreads"
    and "enabled (fst (eng (fx_engine S)))"
    and "WaitSync_end True loc r S2 = Inr (r', S3)"
    and "g_callbacks (fx_engine S2) = webtsan_callbacks"
    and "g_current_tsan_tid (snd (eng (fx_engine S2))) = t" and "t < kMaxThreads"
    and "enabled (fst (eng (fx_engine S2)))"
    and "sync_clocks (fst (eng (fx_engine S1))) loc = Some c1"
    and "sync_clocks (fst (eng (fx_engine S2))) loc = Some c2" and "c1 \<le> c2"
  defines "before \<equiv> thread_clocks (fst (eng (fx_engine S))) s"
    and "after \<equiv> thread_clocks (fst (eng (fx_engine S3))) t"
  shows "before \<le> after \<and> \<not> racy (access_cell s w before) t w' after"
proof -
  have "c1 = Join (sync_clock (fst (eng (fx_engine S))) loc) before"
    using assms(11) Wake_publishes(1) [OF assms(1-5)] by (simp add: before_def)
  then have "before \<le> c2" using assms(13) by (simp add: Join_sup)
  moreover have "after = Join (thread_clocks (fst (eng (fx_engine S2))) t) c2"
    using WaitSync_end_joins [OF assms(6-10,12)] by (simp add: after_def)
  ultimately have le: "before \<le> after" by (simp add: Join_sup le_supI2)
  then have "Get before s \<le> Get after s" by (rule vclock_leD)
  with le show ?thesis by (auto simp: racy_def access_cell_def)
qed

text \<open>Thread 0 notifies at address 64; the woken thread 1 finishes its wait there.\<close>

definition demo_thread :: "tid \<Rightarrow> futex \<Rightarrow> WebTSan \<Rightarrow> futex" where
  "demo_thread t S W = S\<lparr>fx_engine := new_engine\<lparr>g_callbacks := webtsan_callbacks,
     eng := (W, init_tls\<lparr>g_current_tsan_tid := t\<rparr>)\<rparr>\<rparr>"

lemma demo_thread_sel [simp]:
  "g_callbacks (fx_engine (demo_thread t S W)) = webtsan_callbacks"
  "g_current_tsan_tid (snd (eng (fx_engine (demo_thread t S W)))) = t"
  "fst (eng (fx_engine (demo_thread t S W))) = W"
  by (simp_all add: demo_thread_def)

theorem notify_orders_before_wait_witness:
  "\<exists>k S1 r' S3. Wake True 4294967295 64 1 (demo_thread 0 (demo_futex {7}) two_threads) = Inr (k, S1) \<and>
     WaitSync_end True 64 (Returned kOk) (demo_thread 1 S1 (fst (eng (fx_engine S1)))) = Inr (r', S3) \<and>
     \<not> racy (access_cell 0 True (thread_clocks two_threads 0)) 1 True
         (thread_clocks (fst (eng (fx_engine S3))) 1)"
proof -
  let ?S = "demo_thread 0 (demo_futex {7}) two_threads"
  have R: "repr ?S ((\<lambda>_. [])(64 := [1, 2])) (\<lambda>_. [])"
    unfolding demo_thread_def repr_engine by (rule demo_futex_repr)
  have k: "0 < kMaxThreads" "1 < kMaxThreads" "enabled two_threads"
    by (simp_all add: kMaxThreads_def two_threads_def one_thread_def)
  have "\<exists>S0. tsan_hook on_atomics_notify True 64 ?S = Inr S0"
    unfolding tsan_hook_installed(1) [OF demo_thread_sel(1,2) k(1)]
    using OnAtomicsNotify_publishes [OF _ k(1)] k(3) by simp
  then obtain S0 where hook: "tsan_hook on_atomics_notify True 64 ?S = Inr S0" by blast
  have "\<forall>p \<in> set (((\<lambda>_. [])(64 := [1, 2])) 64). is_waiting ?S p \<longrightarrow> \<not> store_expired ?S p"
    using demo_futex_info by (simp add: demo_thread_def)
  then obtain n S1 where w: "Wake True 4294967295 64 1 ?S = Inr (n, S1)"
    using Wake_woken [OF R hook, where num = 1 and kAll = 4294967295] by auto
  note pub = Wake_publishes [OF w demo_thread_sel(1,2) k(1) , unfolded demo_thread_sel, OF k(3)]
  let ?S2 = "demo_thread 1 S1 (fst (eng (fx_engine S1)))"
  have "\<exists>S3. WaitSync_end True 64 (Returned kOk) ?S2 = Inr (Returned kOk, S3)"
    unfolding WaitSync_end_def tsan_hook_installed(2) [OF demo_thread_sel(1,2) k(2)]
    using OnAtomicsWaitComplete_joins [OF _ k(2)] pub k(3) by simp
  then obtain S3 where e: "WaitSync_end True 64 (Returned kOk) ?S2 = Inr (Returned kOk, S3)" by blast
  have "enabled (fst (eng (fx_engine ?S2)))" "enabled (fst (eng (fx_engine ?S)))"
    using pub k(3) by simp_all
  moreover have "\<exists>c. sync_clocks (fst (eng (fx_engine S1))) 64 = Some c \<and>
      sync_clocks (fst (eng (fx_engine ?S2))) 64 = Some c"
    using pub by simp
  ultimately have "\<not> racy (access_cell 0 True (thread_clocks (fst (eng (fx_engine ?S))) 0)) 1 True
      (thread_clocks (fst (eng (fx_engine S3))) 1)"
    using notify_orders_before_wait [OF w demo_thread_sel(1,2) k(1) _ e demo_thread_sel(1,2) k(2)]
    by blast
  with w e show ?thesis by auto
qed

end
