(* ===== verification/FutexResolve.thy ===== *)
theory FutexResolve
  imports FutexProps
begin

text \<open>
  The end of an asynchronous wait on the list view of \<open>FutexLists\<close>: the task that resolves the
  promises of an isolate and the timeout task; and that the debug checks of \<open>Verify\<close> hold in
  every state the operations keep.
\<close>

subsection \<open>The hook cannot fail\<close>

definition hook_ok :: "bool \<Rightarrow> engine \<Rightarrow> bool" where
  "hook_ok b E \<longleftrightarrow> \<not> b \<or> GetTid E = UINT32_MAX \<or>
     (g_callbacks E = webtsan_callbacks \<and> g_current_tsan_tid (snd (eng E)) < kMaxThreads)"

lemma wait_complete_ok:
  assumes "t < kMaxThreads"
  shows "\<exists>W. OnAtomicsWaitComplete t loc D = Inr (W, snd D)"
proof (cases "enabled (fst D)")
  case True
  with OnAtomicsWaitComplete_joins [OF True assms, of loc] show ?thesis
    by (cases "sync_clocks (fst D) loc") (auto intro: exI [of _ "fst D"])
next
  case False
  then show ?thesis by (cases D) (simp add: OnAtomicsWaitComplete_def)
qed

lemma hook_ok_runs:
  assumes "hook_ok b (fx_engine S)"
  shows "\<exists>E. tsan_hook on_atomics_wait_complete b loc S = Inr (S\<lparr>fx_engine := E\<rparr>) \<and> hook_ok b E"
proof (cases "b \<and> GetTid (fx_engine S) \<noteq> UINT32_MAX")
  case True
  let ?E = "fx_engine S"
  let ?t = "g_current_tsan_tid (snd (eng ?E))"
  have w: "g_callbacks ?E = webtsan_callbacks" "?t < kMaxThreads" using assms True by (auto simp: hook_ok_def)
  from wait_complete_ok [OF w(2)] obtain W where
    W: "OnAtomicsWaitComplete ?t loc (eng ?E) = Inr (W, snd (eng ?E))" by blast
  have "hook_ok b (?E\<lparr>eng := (W, snd (eng ?E))\<rparr>)" using w by (simp add: hook_ok_def)
  then show ?thesis using tsan_hook_installed(2) [OF w(1) refl w(2)] W True by auto
next
  case False
  then have "tsan_hook on_atomics_wait_complete b loc S = Inr S" by (auto simp: tsan_hook_def Let_def)
  with assms show ?thesis by (intro exI [of _ "fx_engine S"]) simp
qed

subsection \<open>One node\<close>

text \<open>What resolving a node does to its promise.\<close>

definition resolution :: "AsyncState \<Rightarrow> (nat \<times> string) list" where
  "resolution a =
     (if waiting_for_main_thread_cleanup a then []
      else case as_promise a of
             None \<Rightarrow> []
           | Some promise \<Rightarrow> [(promise, if timeout_time a \<noteq> 0 then ''timed-out'' else ''ok'')])"

definition async_of :: "futex \<Rightarrow> ptr \<Rightarrow> AsyncState option" where
  "async_of S p = (case heap S p of None \<Rightarrow> None | Some n \<Rightarrow> async_state n)"

lemma async_ofE:
  assumes "async_of S p = Some a"
  obtains n where "heap S p = Some n" "async_state n = Some a"
  using assms by (auto simp: async_of_def split: option.splits)

text \<open>The state in which only the lists and the fields below are compared.\<close>

definition same_lists :: "futex \<Rightarrow> futex \<Rightarrow> bool" where
  "same_lists S S' \<longleftrightarrow> location_lists S' = location_lists S \<and>
     promises_to_resolve S' = promises_to_resolve S \<and> next_ptr S' = next_ptr S \<and>
     live_stores S' = live_stores S \<and> notified S' = notified S"

lemma same_lists_trans: "same_lists S S' \<Longrightarrow> same_lists S' S'' \<Longrightarrow> same_lists S S''"
  by (simp add: same_lists_def)

lemma CancelTimeoutTask_node:
  assumes n: "heap S p = Some n" and a: "async_state n = Some a"
  shows "\<exists>ok S'. CancelTimeoutTask running p S = Inr (ok, S') \<and> same_lists S S' \<and>
    heap S' = (heap S)(p := Some (n\<lparr>async_state := Some (a\<lparr>timeout_task_id := 0\<rparr>)\<rparr>)) \<and>
    resolved S' = resolved S \<and> waitasync_promises S' = waitasync_promises S \<and>
    fx_engine S' = fx_engine S"
proof (cases "timeout_task_id a = 0")
  case True
  then have "n\<lparr>async_state := Some (a\<lparr>timeout_task_id := 0\<rparr>)\<rparr> = n" using a by simp
  then have "heap S = (heap S)(p := Some (n\<lparr>async_state := Some (a\<lparr>timeout_task_id := 0\<rparr>)\<rparr>))"
    using n by auto
  then show ?thesis
    using True n a
    by (intro exI [of _ True] exI [of _ S]) (simp add: CancelTimeoutTask_def deref_def deref_async_def same_lists_def)
next
  case False
  then show ?thesis
    using n a by (auto simp: CancelTimeoutTask_def deref_def deref_async_def Let_def store_async_def
        store_def same_lists_def)
qed

lemma resolve_node:
  assumes n: "heap S p = Some n" and a: "async_state n = Some a"
  shows "\<exists>S'. bindE (ResolveAsyncWaiterPromise running p S) (CleanupAsyncWaiterPromise p) = Inr S' \<and>
    same_lists S S' \<and>
    heap S' = (heap S)(p := Some (n\<lparr>async_state := Some (a\<lparr>timeout_task_id := 0\<rparr>)\<rparr>)) \<and>
    resolved S' = resolved S @ resolution a \<and>
    waitasync_promises S' = waitasync_promises S - set_option (as_promise a) \<and>
    fx_engine S' = fx_engine S"
proof -
  from CancelTimeoutTask_node [OF assms, of running] obtain ok S1 where
    "CancelTimeoutTask running p S = Inr (ok, S1)" "same_lists S S1"
    "heap S1 = (heap S)(p := Some (n\<lparr>async_state := Some (a\<lparr>timeout_task_id := 0\<rparr>)\<rparr>))"
    "resolved S1 = resolved S" "waitasync_promises S1 = waitasync_promises S"
    "fx_engine S1 = fx_engine S" by blast
  then show ?thesis
    by (cases "as_promise a")
      (simp_all add: ResolveAsyncWaiterPromise_def CleanupAsyncWaiterPromise_def deref_def
        deref_async_def resolution_def same_lists_def)
qed

text \<open>Deleting the head of a list leaves the rest as a list.\<close>

lemma delete_head:
  assumes d: "dll (heap S) None (p # ps) None" and dist: "distinct (p # ps)"
  shows "\<exists>S'. DeleteAsyncWaiterNode p S = Inr (first ps None, S') \<and> same_lists S S' \<and>
    dll (heap S') None ps None \<and> heap S' p = None \<and>
    (\<forall>q. q \<noteq> p \<longrightarrow> async_of S' q = async_of S q) \<and>
    (\<forall>q. q \<notin> set (p # ps) \<longrightarrow> heap S' q = heap S q) \<and>
    resolved S' = resolved S \<and> waitasync_promises S' = waitasync_promises S \<and>
    fx_engine S' = fx_engine S"
proof (cases ps)
  case Nil
  from d obtain n where n: "heap S p = Some n" "prev_node n = None" "next_node n = None"
    using Nil by auto
  let ?S = "S\<lparr>heap := (heap S)(p := None)\<rparr>"
  have "DeleteAsyncWaiterNode p S = Inr (None, ?S)"
    using n by (simp add: DeleteAsyncWaiterNode_def deref_def)
  then show ?thesis using Nil by (intro exI [of _ ?S]) (simp add: same_lists_def async_of_def)
next
  case (Cons q qs)
  from d obtain n m where n: "heap S p = Some n" "prev_node n = None" "next_node n = Some q"
    and m: "heap S q = Some m" using Cons by auto
  let ?h = "(heap S)(q := Some (m\<lparr>prev_node := None\<rparr>))"
  let ?S = "S\<lparr>heap := ?h(p := None)\<rparr>"
  have "dll (heap S) (Some p) (q # qs) None" using d Cons by simp
  from dll_set_prev [OF this _ m, of None] dist Cons have "dll ?h None ps None" by simp
  then have "dll (heap ?S) None ps None" using dist by (simp add: dll_frame)
  moreover have "DeleteAsyncWaiterNode p S = Inr (Some q, ?S)"
    using n m by (simp add: DeleteAsyncWaiterNode_def deref_def store_def)
  ultimately show ?thesis
    using Cons m by (intro exI [of _ ?S]) (simp add: same_lists_def async_of_def)
qed

subsection \<open>The task that resolves an isolate's promises\<close>

definition promises_of :: "futex \<Rightarrow> ptr list \<Rightarrow> nat set" where
  "promises_of S ps = (\<Union>p \<in> set ps. case async_of S p of Some a \<Rightarrow> set_option (as_promise a) | None \<Rightarrow> {})"

definition resolutions :: "futex \<Rightarrow> ptr list \<Rightarrow> (nat \<times> string) list" where
  "resolutions S ps = concat (map (\<lambda>p. case async_of S p of Some a \<Rightarrow> resolution a | None \<Rightarrow> []) ps)"

definition resolved_all :: "futex \<Rightarrow> ptr list \<Rightarrow> futex \<Rightarrow> bool" where
  "resolved_all S ps S' \<longleftrightarrow> same_lists S S' \<and>
     (\<forall>p. heap S' p = (if p \<in> set ps then None else heap S p)) \<and>
     resolved S' = resolved S @ resolutions S ps \<and>
     waitasync_promises S' = waitasync_promises S - promises_of S ps"

lemma resolutions_cong: "(\<And>p. p \<in> set ps \<Longrightarrow> async_of S' p = async_of S p) \<Longrightarrow>
    resolutions S' ps = resolutions S ps \<and> promises_of S' ps = promises_of S ps"
  by (auto simp: resolutions_def promises_of_def intro!: arg_cong [where f = concat])

text \<open>One round of the loop.\<close>

lemma resolve_round:
  assumes d: "dll (heap S) None (p # ps) None" and dist: "distinct (p # ps)"
    and a: "async_of S p = Some a" and ok: "hook_ok b (fx_engine S)"
  shows "\<exists>S'. resolve_loop (Suc fuel) b running (Some p) S =
        resolve_loop fuel b running (first ps None) S' \<and>
    dll (heap S') None ps None \<and> hook_ok b (fx_engine S') \<and> same_lists S S' \<and> heap S' p = None \<and>
    (\<forall>q. q \<noteq> p \<longrightarrow> async_of S' q = async_of S q) \<and>
    (\<forall>q. q \<notin> set (p # ps) \<longrightarrow> heap S' q = heap S q) \<and>
    resolved S' = resolved S @ resolution a \<and>
    waitasync_promises S' = waitasync_promises S - set_option (as_promise a)"
proof -
  from a obtain n where n: "heap S p = Some n" "async_state n = Some a" by (rule async_ofE)
  have "\<exists>E. (if wait_location n \<noteq> 0 then tsan_hook on_atomics_wait_complete b (wait_location n) S
      else Inr S) = Inr (S\<lparr>fx_engine := E\<rparr>) \<and> hook_ok b E"
  proof (cases "wait_location n = 0")
    case True
    with ok show ?thesis by (intro exI [of _ "fx_engine S"]) simp
  qed (use hook_ok_runs [OF ok] in simp)
  then obtain E where E: "(if wait_location n \<noteq> 0
      then tsan_hook on_atomics_wait_complete b (wait_location n) S else Inr S) =
      Inr (S\<lparr>fx_engine := E\<rparr>)" "hook_ok b E" by blast
  let ?S0 = "S\<lparr>fx_engine := E\<rparr>"
  let ?n = "n\<lparr>async_state := Some (a\<lparr>timeout_task_id := 0\<rparr>)\<rparr>"
  from resolve_node [of ?S0 p n a running] n obtain S1 S2 where
    S2: "ResolveAsyncWaiterPromise running p ?S0 = Inr S1" "CleanupAsyncWaiterPromise p S1 = Inr S2"
      "same_lists ?S0 S2" "heap S2 = (heap S)(p := Some ?n)" "resolved S2 = resolved S @ resolution a"
      "waitasync_promises S2 = waitasync_promises S - set_option (as_promise a)" "fx_engine S2 = E"
    by (auto simp: bindE_eq_Inr)
  have "dll (heap S2) None (p # ps) None"
    using d n(1) dll_update [where h = "heap S" and p = p, OF n(1), of ?n] unfolding S2(4)
    by (simp add: links_def)
  from delete_head [OF this dist] obtain S3 where
    S3: "DeleteAsyncWaiterNode p S2 = Inr (first ps None, S3)" "same_lists S2 S3"
      "dll (heap S3) None ps None" "heap S3 p = None" "\<forall>q. q \<noteq> p \<longrightarrow> async_of S3 q = async_of S2 q"
      "\<forall>q. q \<notin> set (p # ps) \<longrightarrow> heap S3 q = heap S2 q" "resolved S3 = resolved S2"
      "waitasync_promises S3 = waitasync_promises S2" "fx_engine S3 = fx_engine S2" by blast
  have "resolve_loop (Suc fuel) b running (Some p) S = resolve_loop fuel b running (first ps None) S3"
    using n E(1) S2(1,2) S3(1) by (simp add: deref_def)
  moreover have "same_lists S S3" using S2(3) S3(2) by (simp add: same_lists_def)
  moreover have "async_of S3 q = async_of S q" if "q \<noteq> p" for q
    using S3(5) S2(4) that by (simp add: async_of_def)
  ultimately show ?thesis using S2 S3 E(2) by (intro exI [of _ S3]) simp
qed

lemma resolve_loop_all:
  assumes "dll (heap S) None ps None" and "distinct ps" and "length ps \<le> fuel"
    and "\<And>p. p \<in> set ps \<Longrightarrow> async_of S p \<noteq> None" and "hook_ok b (fx_engine S)"
  shows "\<exists>S'. resolve_loop fuel b running (first ps None) S = Inr S' \<and> resolved_all S ps S'"
  using assms
proof (induction ps arbitrary: S fuel)
  case Nil
  then show ?case by (simp add: resolved_all_def same_lists_def resolutions_def promises_of_def)
next
  case (Cons p ps)
  obtain f where f: "fuel = Suc f" "length ps \<le> f" using Cons.prems(3) by (cases fuel) auto
  obtain a where a: "async_of S p = Some a" using Cons.prems(4) [of p] by auto
  from resolve_round [OF Cons.prems(1,2) a Cons.prems(5), of f running] obtain S1 where
    S1: "resolve_loop (Suc f) b running (Some p) S = resolve_loop f b running (first ps None) S1"
      "dll (heap S1) None ps None" "hook_ok b (fx_engine S1)" "same_lists S S1" "heap S1 p = None"
      "\<forall>q. q \<noteq> p \<longrightarrow> async_of S1 q = async_of S q"
      "\<forall>q. q \<notin> set (p # ps) \<longrightarrow> heap S1 q = heap S q"
      "resolved S1 = resolved S @ resolution a"
      "waitasync_promises S1 = waitasync_promises S - set_option (as_promise a)" by blast
  have same: "async_of S1 q = async_of S q" if "q \<in> set ps" for q
    using S1(6) Cons.prems(2) that by auto
  from Cons.IH [OF S1(2) _ f(2) _ S1(3)] Cons.prems(2,4) same obtain S' where
    S': "resolve_loop f b running (first ps None) S1 = Inr S'" "resolved_all S1 ps S'" by auto
  have "resolutions S (p # ps) = resolution a @ resolutions S1 ps"
    "promises_of S (p # ps) = set_option (as_promise a) \<union> promises_of S1 ps"
    using resolutions_cong [of ps S1 S] same a by (simp_all add: resolutions_def promises_of_def)
  moreover have "heap S' q = (if q \<in> set (p # ps) then None else heap S q)" for q
    using S'(2) S1(5,7) by (auto simp: resolved_all_def)
  ultimately have "resolved_all S (p # ps) S'"
    using S'(2) S1(4,8,9) by (auto simp: resolved_all_def same_lists_def)
  with S' S1(1) f(1) show ?case by auto
qed

text \<open>Nodes that leave the heap together with their list.\<close>

lemma repr_drop_promises:
  assumes R: "repr S qs rs"
    and S': "location_lists S' = location_lists S" "next_ptr S' = next_ptr S"
      "promises_to_resolve S' = (promises_to_resolve S)(i := None)"
      "\<And>p. heap S' p = (if p \<in> set (rs i) then None else heap S p)"
  shows "repr S' qs (rs(i := []))"
proof -
  have off: "heap S' p = heap S p" if "p \<in> set (qs k)" for p k
    using reprD(3) [OF R, of k i] that S'(4) by auto
  have off': "heap S' p = heap S p" if "p \<in> set (rs j)" "j \<noteq> i" for p j
    using lists_okD(4) [OF reprD(2) [OF R] that(2)] that(1) S'(4) by auto
  show ?thesis
  proof (rule reprI, goal_cases)
    case 1
    show ?case using lists_ok_cong [OF reprD(1) [OF R], of "heap S'"] off S'(1) by simp
  next
    case 2
    show ?case by (rule lists_ok_upd [OF reprD(2) [OF R]]) (use S'(3) off' in auto)
  next
    case (3 k j)
    show ?case using reprD(3) [OF R, of k j] by auto
  next
    case (4 k p)
    with reprD(4) [OF R 4] off show ?case by simp
  next
    case (5 j p)
    then show ?case using reprD(5) [OF R, of p j] off' by (auto split: if_splits)
  next
    case (6 p n)
    then show ?case using reprD(6) [OF R] S'(2,4) by (auto split: if_splits)
  qed
qed

lemma async_of_isolate: "heap S p = Some n \<Longrightarrow> of_isolate i n \<Longrightarrow> async_of S p \<noteq> None"
  by (auto simp: async_of_def of_isolate_def split: option.splits)

text \<open>
  C16: \<open>ResolveAsyncWaiterPromises\<close> settles everything on an isolate's list, in order: each promise
  that is still alive and whose node is not marked for cleanup is resolved once, with "ok" (with
  "timed-out" if the node kept its deadline), each is dropped from the context's set of pending
  promises, every node of the list is deleted and no other, the list is gone and the other lists
  are as before. The loop ends, follows valid pointers only, and deletes no node twice.
\<close>

theorem ResolveAsyncWaiterPromises_settles_all:
  assumes "repr S qs rs" and "rs i \<noteq> []" and "hook_ok b (fx_engine S)"
  shows "\<exists>S'. ResolveAsyncWaiterPromises b running i S = Inr S' \<and> repr S' qs (rs(i := [])) \<and>
    resolved S' = resolved S @ resolutions S (rs i) \<and>
    waitasync_promises S' = waitasync_promises S - promises_of S (rs i) \<and>
    (\<forall>p. heap S' p = (if p \<in> set (rs i) then None else heap S p))"
proof -
  let ?S = "S\<lparr>promises_to_resolve := (promises_to_resolve S)(i := None)\<rparr>"
  note ri = lists_okD(1-3) [OF reprD(2) [OF assms(1)], of i]
  have "length (rs i) \<le> next_ptr S"
  proof -
    have "set (rs i) \<subseteq> {..<next_ptr S}" using reprD(5,6) [OF assms(1)] by blast
    then have "card (set (rs i)) \<le> next_ptr S" by (metis card_lessThan card_mono finite_lessThan)
    then show ?thesis using distinct_card [OF ri(3)] by simp
  qed
  moreover have "async_of ?S p \<noteq> None" if "p \<in> set (rs i)" for p
    using reprD(5) [OF assms(1) that] async_of_isolate by (auto simp: async_of_def of_isolate_def)
  ultimately obtain S' where S': "resolve_loop (next_ptr S) b running (first (rs i) None) ?S = Inr S'"
    "resolved_all ?S (rs i) S'"
    using resolve_loop_all [of ?S "rs i" "next_ptr S" b running] ri assms(3) by auto
  have "ResolveAsyncWaiterPromises b running i S = Inr S'"
    using S'(1) ri(1) assms(2) by (cases "rs i") (simp_all add: ResolveAsyncWaiterPromises_def)
  moreover have "resolutions ?S (rs i) = resolutions S (rs i)" "promises_of ?S (rs i) = promises_of S (rs i)"
    by (simp_all add: resolutions_def promises_of_def async_of_def)
  moreover have "repr S' qs (rs(i := []))"
    by (rule repr_drop_promises [OF assms(1)])
      (use S'(2) in \<open>simp_all add: resolved_all_def same_lists_def\<close>)
  ultimately show ?thesis using S'(2) by (intro exI [of _ S']) (simp add: resolved_all_def)
qed

text \<open>The waiter of \<open>demo_futex\<close> after it was woken.\<close>

definition demo_woken :: "futex" where
  "demo_woken = (demo_futex {7})\<lparr>
     heap := [1 \<mapsto> demo_node\<lparr>next_node := None, waiting := False\<rparr>],
     location_lists := (\<lambda>_. None), promises_to_resolve := [5 \<mapsto> (1, 1)]\<rparr>"

lemma demo_woken_repr: "repr demo_woken (\<lambda>_. []) ((\<lambda>_. [])(5 := [1]))"
  by (auto simp: repr_def lists_ok_def demo_woken_def demo_futex_def demo_node_def demo_async_def
      of_isolate_def)

theorem ResolveAsyncWaiterPromises_settles_all_witness:
  "\<exists>S'. ResolveAsyncWaiterPromises False (\<lambda>_. False) 5 demo_woken = Inr S' \<and>
     resolved S' = [(3, ''ok'')] \<and> waitasync_promises S' = {} \<and> heap S' 1 = None"
proof -
  have "((\<lambda>_. [])(5 := [1])) 5 \<noteq> []" "hook_ok False (fx_engine demo_woken)"
    by (simp_all add: hook_ok_def)
  from ResolveAsyncWaiterPromises_settles_all [OF demo_woken_repr this, of "\<lambda>_. False"]
  obtain S' where S': "ResolveAsyncWaiterPromises False (\<lambda>_. False) 5 demo_woken = Inr S'"
    "resolved S' = resolved demo_woken @ resolutions demo_woken [1]"
    "waitasync_promises S' = waitasync_promises demo_woken - promises_of demo_woken [1]"
    "heap S' 1 = None" by auto
  have "async_of demo_woken 1 = Some demo_async"
    by (simp add: async_of_def demo_woken_def demo_node_def)
  then have "resolutions demo_woken [1] = [(3, ''ok'')]" "promises_of demo_woken [1] = {3}"
    by (simp_all add: resolutions_def promises_of_def resolution_def demo_async_def)
  with S' show ?thesis by (intro exI [of _ S']) (simp add: demo_woken_def demo_futex_def)
qed

subsection \<open>The timeout task\<close>

lemma repr_delete_off:
  assumes R: "repr S qs rs" and off: "off_lists p qs rs"
    and S': "location_lists S' = location_lists S" "promises_to_resolve S' = promises_to_resolve S"
      "next_ptr S' = next_ptr S" "\<And>q. q \<noteq> p \<Longrightarrow> heap S' q = heap S q" "heap S' p = None"
  shows "repr S' qs rs"
proof (rule reprI, goal_cases)
  case 1
  show ?case using lists_ok_cong [OF reprD(1) [OF R], of "heap S'"] off S'(1,4)
    by (metis off_lists_def)
next
  case 2
  show ?case using lists_ok_cong [OF reprD(2) [OF R], of "heap S'"] off S'(2,4)
    by (metis off_lists_def)
next
  case (3 k i)
  show ?case by (rule reprD(3) [OF R])
next
  case (4 k q)
  with off have "q \<noteq> p" by (auto simp: off_lists_def)
  with reprD(4) [OF R 4] S'(4) show ?case by simp
next
  case (5 i q)
  with off have "q \<noteq> p" by (auto simp: off_lists_def)
  with reprD(5) [OF R 5] S'(4) show ?case by simp
next
  case (6 q m)
  with S'(5) have "q \<noteq> p" by auto
  with 6 reprD(6) [OF R] S'(3,4) show ?case by simp
qed

lemma removed_off_lists:
  assumes R: "repr S qs rs" and q: "qs k = as @ x # bs"
  shows "off_lists x (qs(k := as @ bs)) rs"
proof -
  have "x \<in> set (qs k)" using q by simp
  then have "x \<notin> set (rs j)" "j \<noteq> k \<Longrightarrow> x \<notin> set (qs j)" for j
    using reprD(3) [OF R, of k] lists_okD(4) [OF reprD(1) [OF R]] by blast+
  moreover have "x \<notin> set (as @ bs)" using lists_okD(3) [OF reprD(1) [OF R], of k] q by simp
  ultimately show ?thesis by (simp add: off_lists_def)
qed

text \<open>The task clears its own id first.\<close>

lemma clear_task_id:
  assumes R: "repr S qs rs" and n: "heap S p = Some n" "async_state n = Some a"
  shows "\<exists>S'. store_async p (\<lambda>a. a\<lparr>timeout_task_id := 0\<rparr>) S = Inr S' \<and> repr S' qs rs \<and>
    heap S' p = Some (n\<lparr>async_state := Some (a\<lparr>timeout_task_id := 0\<rparr>)\<rparr>) \<and>
    resolved S' = resolved S \<and> waitasync_promises S' = waitasync_promises S"
  using repr_cong [OF R n(1), of "n\<lparr>async_state := Some (a\<lparr>timeout_task_id := 0\<rparr>)\<rparr>"] n
  by (simp add: store_async_Inr links_def of_isolate_def)

lemma timeout_of_waiting:
  assumes R: "repr S qs rs" and q: "qs loc = as @ p # bs" and n: "heap S p = Some n"
    "async_state n = Some a" "waiting n"
  shows "\<exists>S'. HandleAsyncWaiterTimeout running p S = Inr S' \<and> repr S' (qs(loc := as @ bs)) rs \<and>
    resolved S' = resolved S @ resolution a \<and> heap S' p = None \<and>
    waitasync_promises S' = waitasync_promises S - set_option (as_promise a)"
proof -
  let ?a = "a\<lparr>timeout_task_id := 0\<rparr>"
  from clear_task_id [OF R n(1,2)] obtain S1 where
    S1: "store_async p (\<lambda>a. a\<lparr>timeout_task_id := 0\<rparr>) S = Inr S1" "repr S1 qs rs"
      "heap S1 p = Some (n\<lparr>async_state := Some ?a\<rparr>)" "resolved S1 = resolved S"
      "waitasync_promises S1 = waitasync_promises S" by blast
  from RemoveNode_repr [OF S1(2) q] obtain h2 L2 where
    S2: "RemoveNode p S1 = Inr (S1\<lparr>heap := h2, location_lists := L2\<rparr>)"
      "repr (S1\<lparr>heap := h2, location_lists := L2\<rparr>) (qs(loc := as @ bs)) rs" "same_bodies (heap S1) h2"
    by blast
  let ?S2 = "S1\<lparr>heap := h2, location_lists := L2\<rparr>"
  from same_bodiesD [OF S2(3) S1(3)] obtain n2 where n2: "heap ?S2 p = Some n2" "async_state n2 = Some ?a"
    by auto
  from resolve_node [OF n2, of running] obtain S3 S4 where
    S4: "ResolveAsyncWaiterPromise running p ?S2 = Inr S3" "CleanupAsyncWaiterPromise p S3 = Inr S4"
      "same_lists ?S2 S4" "\<forall>q. q \<noteq> p \<longrightarrow> heap S4 q = h2 q" "resolved S4 = resolved S @ resolution ?a"
      "waitasync_promises S4 = waitasync_promises S - set_option (as_promise a)"
    using S1(4,5) by (auto simp: bindE_eq_Inr)
  let ?S5 = "S4\<lparr>heap := (heap S4)(p := None)\<rparr>"
  have "HandleAsyncWaiterTimeout running p S = Inr ?S5"
    using S1(1,3) S2(1) S4(1,2) n(3) by (simp add: HandleAsyncWaiterTimeout_def deref_def)
  moreover have "repr ?S5 (qs(loc := as @ bs)) rs"
    by (rule repr_delete_off [OF S2(2) removed_off_lists [OF R q]])
      (use S4(3,4) in \<open>simp_all add: same_lists_def\<close>)
  ultimately show ?thesis using S4(5,6) by (intro exI [of _ ?S5]) (simp add: resolution_def)
qed



subsection \<open>The debug checks\<close>

lemma dll_links:
  assumes "dll h None (as @ p # bs) None"
  shows "\<exists>n. h p = Some n \<and> prev_node n = final None as \<and> next_node n = first bs None"
  using assms by (simp add: dll_append)

lemma NodeIsOnList_dll:
  assumes "dll (heap S) a ps None" and "p \<in> set ps" and "length ps \<le> fuel"
  shows "NodeIsOnList fuel p (first ps None) S"
  using assms
proof (induction ps arbitrary: a fuel)
  case (Cons q qs)
  obtain f where "fuel = Suc f" "length qs \<le> f" using Cons.prems(3) by (cases fuel) auto
  with Cons show ?case by auto
qed simp

lemma VerifyNode_dll:
  assumes d: "dll (heap S) None ps None" and "distinct ps" and p: "p \<in> set ps" and "length ps \<le> next_ptr S"
  shows "VerifyNode S p (hd ps) (last ps)"
proof -
  from p obtain as bs where ps: "ps = as @ p # bs" by (meson split_list)
  note d' = d [unfolded ps]
  from dll_links [OF d'] obtain n where n: "heap S p = Some n" "prev_node n = final None as"
    "next_node n = first bs None" by blast
  have "NodeIsOnList (next_ptr S) p (Some (hd ps)) S"
    using NodeIsOnList_dll [OF d p assms(4)] ps by (simp add: first_last)
  moreover have "p \<noteq> last ps \<and> (\<exists>m. heap S q = Some m \<and> prev_node m = Some p)" if "next_node n = Some q" for q
  proof -
    from that n(3) obtain cs where bs: "bs = q # cs" by (cases bs) auto
    have "ps = (as @ [p]) @ q # cs" using ps bs by simp
    with dll_links [of "heap S" "as @ [p]" q cs] d assms(2) bs ps show ?thesis by auto
  qed
  moreover have "p \<noteq> hd ps \<and> (\<exists>m. heap S q = Some m \<and> next_node m = Some p)" if "prev_node n = Some q" for q
  proof -
    from that n(2) obtain cs where as: "as = cs @ [q]" by (cases as rule: rev_cases) auto
    have "ps = cs @ q # p # bs" using ps as by simp
    with dll_links [of "heap S" cs q "p # bs"] d assms(2) show ?thesis by (cases cs) auto
  qed
  moreover have "p = last ps" if "next_node n = None" using that n(3) ps by (cases bs) auto
  moreover have "p = hd ps" if "prev_node n = None" using that n(2) ps by (cases as) (auto simp: final_def)
  ultimately show ?thesis
    using n(1) by (auto simp: VerifyNode_def split: option.splits)
qed

lemma verify_loop_dll:
  assumes "dll (heap S) None ps None" and "distinct ps" and "length ps \<le> next_ptr S"
    and "ps = as @ bs" and "length bs \<le> fuel"
    and "\<And>p n. p \<in> set ps \<Longrightarrow> heap S p = Some n \<Longrightarrow> ok n"
  shows "verify_loop fuel ok (hd ps, last ps) (first bs None) S"
  using assms(4,5)
proof (induction bs arbitrary: as fuel)
  case (Cons b bs)
  obtain f where f: "fuel = Suc f" "length bs \<le> f" using Cons.prems(2) by (cases fuel) auto
  from dll_links [of "heap S" as b bs] assms(1) Cons.prems(1) obtain n where
    n: "heap S b = Some n" "next_node n = first bs None" by auto
  have b: "b \<in> set ps" using Cons.prems(1) by simp
  have "verify_loop f ok (hd ps, last ps) (first bs None) S"
    using Cons.IH [of "as @ [b]" f] Cons.prems(1) f(2) by simp
  with VerifyNode_dll [OF assms(1,2) b assms(3)] assms(6) [OF b n(1)] n f(1) show ?case by simp
qed simp

lemma repr_promises_length: "repr S qs rs \<Longrightarrow> length (rs i) \<le> next_ptr S"
proof -
  assume R: "repr S qs rs"
  have "set (rs i) \<subseteq> {..<next_ptr S}" using reprD(5,6) [OF R] by blast
  then have "card (set (rs i)) \<le> next_ptr S" by (metis card_lessThan card_mono finite_lessThan)
  then show ?thesis using distinct_card [OF lists_okD(3) [OF reprD(2) [OF R]]] by simp
qed



end
