(* ===== verification/FutexTeardown.thy ===== *)
theory FutexTeardown
  imports FutexResolve
begin

text \<open>
  The teardown of an isolate, \<open>IsolateDeinit\<close>, on the list view of \<open>FutexLists\<close>: exactly the
  isolate's nodes go, and the lists of the others stay linked and in order. The two counting
  functions of the tests count what the list view says.
\<close>

subsection \<open>Tearing an isolate down\<close>

definition belongs :: "isolate \<Rightarrow> futex \<Rightarrow> ptr \<Rightarrow> bool" where
  "belongs i S p \<longleftrightarrow> (case heap S p of None \<Rightarrow> False | Some n \<Rightarrow> of_isolate i n)"

text \<open>Deleting an inner node: its neighbours are linked to each other.\<close>

lemma delete_inner:
  assumes d: "dll (heap S) None (as @ p # bs) None" and dist: "distinct (as @ p # bs)"
  shows "\<exists>S'. DeleteAsyncWaiterNode p S = Inr (first bs None, S') \<and> same_lists S S' \<and>
    dll (heap S') None (as @ bs) None \<and> heap S' p = None \<and>
    same_bodies ((heap S)(p := None)) (heap S') \<and> (\<forall>q. q \<notin> set (as @ p # bs) \<longrightarrow> heap S' q = heap S q)"
proof -
  from dll_links [OF d] obtain n where n: "heap S p = Some n" "prev_node n = final None as"
    "next_node n = first bs None" by blast
  obtain np where np: "as \<noteq> [] \<Longrightarrow> heap S (last as) = Some np"
    using dll_heap [OF d, of "last as"] by (cases "as = []") auto
  obtain nq where nq: "bs \<noteq> [] \<Longrightarrow> heap S (hd bs) = Some nq"
    using dll_heap [OF d, of "hd bs"] by (cases bs) auto
  define h1 where "h1 = (if as = [] then heap S
    else (heap S)(last as := Some (np\<lparr>next_node := first bs None\<rparr>)))"
  define h2 where "h2 = (if bs = [] then h1 else h1(hd bs := Some (nq\<lparr>prev_node := final None as\<rparr>)))"
  let ?S = "S\<lparr>heap := h2(p := None)\<rparr>"
  note ne = last_neq_hd [OF dist]
  have "DeleteAsyncWaiterNode p S = Inr (first bs None, ?S)"
    using n np nq ne by (cases "as = []"; cases "bs = []")
      (simp_all add: DeleteAsyncWaiterNode_def deref_def store_def h1_def h2_def first_last final_last)
  moreover have "dll (h2(p := None)) None (as @ bs) None"
    using dll_unlink [OF d dist np nq h1_def h2_def] dist by (simp add: dll_frame)
  moreover have "same_bodies ((heap S)(p := None)) (h2(p := None))"
  proof -
    have b1: "same_bodies (heap S) h1"
      unfolding h1_def by (cases "as = []") (simp_all add: np same_bodies_upd)
    have "heap S (hd bs) = Some nq" "as \<noteq> [] \<Longrightarrow> last as \<noteq> hd bs" if "bs \<noteq> []"
      using nq ne(3) that by simp_all
    with b1 have "same_bodies (heap S) h2"
      unfolding h2_def by (cases "bs = []") (simp_all add: same_bodies_upd)
    then show ?thesis by (simp add: same_bodies_def)
  qed
  moreover have "h2 q = heap S q" if "q \<notin> set (as @ p # bs)" for q
  proof -
    have "as \<noteq> [] \<Longrightarrow> q \<noteq> last as" "bs \<noteq> [] \<Longrightarrow> q \<noteq> hd bs" using that by auto
    then show ?thesis by (simp add: h1_def h2_def)
  qed
  ultimately show ?thesis by (intro exI [of _ ?S]) (simp add: same_lists_def)
qed

lemma body_eqD:
  assumes "body n' = body n"
  shows "wait_location n' = wait_location n" and "async_state n' = async_state n"
proof -
  from assms have "wait_location (body n') = wait_location (body n)"
    "async_state (body n') = async_state (body n)" by simp_all
  then show "wait_location n' = wait_location n" and "async_state n' = async_state n"
    by (simp_all add: body_def)
qed

lemma belongs_body:
  assumes "map_option body (heap S' p) = map_option body (heap S p)"
  shows "belongs i S' p = belongs i S p"
proof (cases "heap S p")
  case None
  with assms show ?thesis by (simp add: belongs_def)
next
  case (Some n)
  with assms obtain n' where n': "heap S' p = Some n'" "body n' = body n" by auto
  with Some n'(1) body_eqD(2) [OF n'(2)] show ?thesis by (simp add: belongs_def of_isolate_def)
qed

text \<open>What a loop that deletes the isolate's nodes among \<open>bs\<close> leaves.\<close>

definition deleted :: "isolate \<Rightarrow> ptr list \<Rightarrow> ptr list \<Rightarrow> futex \<Rightarrow> ptr list \<Rightarrow> futex \<Rightarrow> bool" where
  "deleted i ks bs S ks' S' \<longleftrightarrow>
     ks' = ks @ filter (\<lambda>p. \<not> belongs i S p) bs \<and> dll (heap S') None ks' None \<and> same_lists S S' \<and>
     (\<forall>p. map_option body (heap S' p) =
        (if p \<in> set bs \<and> belongs i S p then None else map_option body (heap S p))) \<and>
     (\<forall>p. p \<notin> set (ks @ bs) \<longrightarrow> heap S' p = heap S p)"

text \<open>One of the isolate's nodes: its task id is cleared, then it is unlinked and freed.\<close>

lemma delete_node:
  assumes d: "dll (heap S) None (ks @ p # bs) None" and dist: "distinct (ks @ p # bs)"
  shows "\<exists>S1 S2. store_async p (\<lambda>a. a\<lparr>timeout_task_id := 0\<rparr>) S = Inr S1 \<and>
    DeleteAsyncWaiterNode p S1 = Inr (first bs None, S2) \<and> same_lists S S2 \<and>
    dll (heap S2) None (ks @ bs) None \<and>
    (\<forall>q. map_option body (heap S2 q) = (if q = p then None else map_option body (heap S q))) \<and>
    (\<forall>q. q \<notin> set (ks @ p # bs) \<longrightarrow> heap S2 q = heap S q)"
proof -
  from dll_links [OF d] obtain n where n: "heap S p = Some n" by blast
  let ?n = "n\<lparr>async_state := map_option (\<lambda>a. a\<lparr>timeout_task_id := 0\<rparr>) (async_state n)\<rparr>"
  let ?S1 = "S\<lparr>heap := (heap S)(p := Some ?n)\<rparr>"
  have "dll (heap ?S1) None (ks @ p # bs) None"
    using d dll_update [where h = "heap S" and p = p, OF n, of ?n] by (simp add: links_def)
  from delete_inner [OF this dist] obtain S2 where
    S2: "DeleteAsyncWaiterNode p ?S1 = Inr (first bs None, S2)" "same_lists ?S1 S2"
      "dll (heap S2) None (ks @ bs) None" "heap S2 p = None"
      "same_bodies ((heap ?S1)(p := None)) (heap S2)"
      "\<forall>q. q \<notin> set (ks @ p # bs) \<longrightarrow> heap S2 q = heap ?S1 q" by blast
  have "map_option body (heap S2 q) = (if q = p then None else map_option body (heap S q))" for q
    using S2(4,5) by (simp add: same_bodies_def)
  moreover have "heap S2 q = heap S q" if "q \<notin> set (ks @ p # bs)" for q
    using S2(6) that by simp
  ultimately show ?thesis
    using store_async_Inr [OF n] S2(1-3) by (intro exI [of _ ?S1] exI [of _ S2]) (simp add: same_lists_def)
qed

lemma delete_loop_dll:
  assumes "dll (heap S) None (ks @ bs) None" and "distinct (ks @ bs)" and "length bs \<le> fuel"
  shows "\<exists>ks' S'. delete_loop fuel i (first bs None) (first ks None) (final None ks) S =
      Inr (first ks' None, final None ks', S') \<and> deleted i ks bs S ks' S'"
  using assms
proof (induction bs arbitrary: ks S fuel)
  case Nil
  then show ?case by (intro exI [of _ ks] exI [of _ S]) (simp add: deleted_def same_lists_def)
next
  case (Cons p bs)
  obtain f where f: "fuel = Suc f" "length bs \<le> f" using Cons.prems(3) by (cases fuel) auto
  from dll_links [OF Cons.prems(1)] obtain n where
    n: "heap S p = Some n" "next_node n = first bs None" by blast
  have pbs: "p \<notin> set bs" using Cons.prems(2) by auto
  show ?case
  proof (cases "of_isolate i n")
    case True
    then have b: "belongs i S p" using n by (simp add: belongs_def)
    from delete_node [OF Cons.prems(1,2)] obtain S1 S2 where
      S2: "store_async p (\<lambda>a. a\<lparr>timeout_task_id := 0\<rparr>) S = Inr S1"
        "DeleteAsyncWaiterNode p S1 = Inr (first bs None, S2)" "same_lists S S2"
        "dll (heap S2) None (ks @ bs) None"
        "\<forall>q. map_option body (heap S2 q) = (if q = p then None else map_option body (heap S q))"
        "\<forall>q. q \<notin> set (ks @ p # bs) \<longrightarrow> heap S2 q = heap S q" by blast
    have same: "belongs i S2 q = belongs i S q" if "q \<noteq> p" for q
      by (rule belongs_body) (use S2(5) that in simp)
    have "distinct (ks @ bs)" using Cons.prems(2) by simp
    from Cons.IH [OF S2(4) this f(2)] obtain ks' S' where
      S': "delete_loop f i (first bs None) (first ks None) (final None ks) S2 =
        Inr (first ks' None, final None ks', S')" "deleted i ks bs S2 ks' S'" by blast
    have "filter (\<lambda>q. \<not> belongs i S2 q) bs = filter (\<lambda>q. \<not> belongs i S q) bs"
    proof (rule filter_cong [OF refl])
      fix q assume "q \<in> set bs"
      with pbs have "q \<noteq> p" by auto
      then show "(\<not> belongs i S2 q) = (\<not> belongs i S q)" by (simp add: same)
    qed
    then have "deleted i ks (p # bs) S ks' S'"
      using S'(2) S2(3,5,6) b same pbs by (auto simp: deleted_def same_lists_def)
    moreover have "delete_loop fuel i (first (p # bs) None) (first ks None) (final None ks) S =
        Inr (first ks' None, final None ks', S')"
      using f(1) n True S2(1,2) S'(1) by (simp add: deref_def)
    ultimately show ?thesis by blast
  next
    case False
    have d: "dll (heap S) None ((ks @ [p]) @ bs) None" "distinct ((ks @ [p]) @ bs)"
      using Cons.prems(1,2) by simp_all
    from Cons.IH [OF d f(2)] obtain ks' S' where
      S': "delete_loop f i (first bs None) (first (ks @ [p]) None) (final None (ks @ [p])) S =
        Inr (first ks' None, final None ks', S')" "deleted i (ks @ [p]) bs S ks' S'" by blast
    have "(if first ks None = None then Some p else first ks None) = first (ks @ [p]) None"
      by (cases ks) simp_all
    then have "delete_loop fuel i (first (p # bs) None) (first ks None) (final None ks) S =
        Inr (first ks' None, final None ks', S')"
      using f(1) n False S'(1) by (simp add: deref_def)
    moreover have "deleted i ks (p # bs) S ks' S'"
      using S'(2) False n(1) by (auto simp: deleted_def belongs_def)
    ultimately show ?thesis by blast
  qed
qed

text \<open>One location: its list shrinks to the other isolates' nodes.\<close>

lemma repr_shrink:
  assumes R: "repr S qs rs" and del: "deleted i [] (qs k) S ys T" and
    L: "S' = T\<lparr>location_lists := (location_lists T)(k := if ys = [] then None else Some (hd ys, last ys))\<rparr>"
  shows "repr S' (qs(k := ys)) rs"
proof -
  have ys: "ys = filter (\<lambda>p. \<not> belongs i S p) (qs k)" and dll: "dll (heap T) None ys None"
    and T: "location_lists T = location_lists S" "promises_to_resolve T = promises_to_resolve S"
      "next_ptr T = next_ptr S"
    and off: "\<And>p. p \<notin> set (qs k) \<Longrightarrow> heap T p = heap S p"
    and bodies: "\<And>p. map_option body (heap T p) =
      (if p \<in> set (qs k) \<and> belongs i S p then None else map_option body (heap S p))"
    using del unfolding deleted_def same_lists_def by simp_all blast
  have body: "map_option body (heap T p) = map_option body (heap S p)" if "p \<in> set ys" for p
    using bodies [of p] ys that by simp
  have sub: "set ys \<subseteq> set (qs k)" using ys by auto
  have other: "p \<notin> set (qs k)" if "p \<in> set (qs j)" "j \<noteq> k" for p j
    using lists_okD(4) [OF reprD(1) [OF R], of j k] that by auto
  have other': "p \<notin> set (qs k)" if "p \<in> set (rs j)" for p j using reprD(3) [OF R, of k j] that by auto
  show ?thesis
  proof (rule reprI, goal_cases)
    case 1
    have "lists_ok (heap T) (location_lists S') (qs(k := ys))"
    proof (rule lists_ok_upd [OF reprD(1) [OF R] _ dll])
      show "distinct ys" using ys lists_okD(3) [OF reprD(1) [OF R]] by simp
      show "set ys \<inter> set (qs j) = {}" if "j \<noteq> k" for j using other [OF _ that] sub by blast
      show "map_option links (heap T p) = map_option links (heap S p)" if "j \<noteq> k" "p \<in> set (qs j)" for j p
        using off [OF other [OF that(2,1)]] by simp
    qed (simp add: L T)
    then show ?case by (simp add: L)
  next
    case 2
    show ?case using lists_ok_cong [OF reprD(2) [OF R], of "heap T"] off [OF other'] by (simp add: L T)
  next
    case (3 j m)
    show ?case using reprD(3) [OF R, of j m] other' [of _ m] sub by (auto split: if_splits)
  next
    case (4 j p)
    have "\<exists>n. heap S p = Some n \<and> wait_location n = j"
      using 4 sub reprD(4) [OF R] by (auto split: if_splits)
    moreover have "map_option body (heap T p) = map_option body (heap S p)"
      using 4 body off [OF other] by (cases "j = k") auto
    ultimately obtain n n' where n: "heap T p = Some n'" "body n' = body n" "wait_location n = j" by auto
    with n body_eqD(1) [OF n(2)] show ?case by (simp add: L)
  next
    case (5 j p)
    with reprD(5) [OF R 5] off [OF other'] show ?case by (simp add: L)
  next
    case (6 p n)
    then have "map_option body (heap T p) \<noteq> None" by (simp add: L)
    then have "map_option body (heap S p) \<noteq> None" using bodies [of p] by metis
    then have "heap S p \<noteq> None" by simp
    then show ?case using reprD(6) [OF R] by (auto simp: L T)
  qed
qed

definition kept :: "isolate \<Rightarrow> futex \<Rightarrow> addr set \<Rightarrow> (addr \<Rightarrow> ptr list) \<Rightarrow> addr \<Rightarrow> ptr list" where
  "kept i S K qs = (\<lambda>k. if k \<in> K then filter (\<lambda>p. \<not> belongs i S p) (qs k) else qs k)"

lemma deinit_location:
  assumes R: "repr S qs rs"
  shows "\<exists>S'. deinit_locations i (k # locs) S = deinit_locations i locs S' \<and>
    repr S' (qs(k := filter (\<lambda>p. \<not> belongs i S p) (qs k))) rs \<and>
    (\<forall>p. map_option body (heap S' p) =
       (if p \<in> set (qs k) \<and> belongs i S p then None else map_option body (heap S p)))"
proof -
  note q = lists_okD(1-3) [OF reprD(1) [OF R], of k]
  show ?thesis
  proof (cases "qs k = []")
    case True
    then have "qs(k := filter (\<lambda>p. \<not> belongs i S p) (qs k)) = qs" by auto
    with True q(1) R show ?thesis by (intro exI [of _ S]) simp
  next
    case False
    have d: "dll (heap S) None ([] @ qs k) None" "distinct ([] @ qs k)" using q by simp_all
    from delete_loop_dll [OF d repr_length [OF R], of i] obtain ys T where
      T: "DeleteNodesForIsolate i (hd (qs k)) S = Inr (first ys None, final None ys, T)"
        "deleted i [] (qs k) S ys T"
      using False by (auto simp: DeleteNodesForIsolate_def first_last)
    let ?S' = "T\<lparr>location_lists := (location_lists T)(k := if ys = [] then None else Some (hd ys, last ys))\<rparr>"
    have "deinit_locations i (k # locs) S = deinit_locations i locs ?S'"
      using q(1) False T(1) by (cases "ys = []") (simp_all add: first_last final_last)
    moreover have "ys = filter (\<lambda>p. \<not> belongs i S p) (qs k)" using T(2) by (simp add: deleted_def)
    ultimately show ?thesis
      using repr_shrink [OF R T(2) refl] T(2) by (intro exI [of _ ?S']) (simp add: deleted_def)
  qed
qed

lemma deinit_locations_all:
  assumes "repr S qs rs" and "distinct locs"
  shows "\<exists>S'. deinit_locations i locs S = Inr S' \<and> repr S' (kept i S (set locs) qs) rs \<and>
    (\<forall>p. map_option body (heap S' p) =
       (if (\<exists>k \<in> set locs. p \<in> set (qs k)) \<and> belongs i S p then None else map_option body (heap S p)))"
  using assms
proof (induction locs arbitrary: S qs)
  case Nil
  then show ?case by (simp add: kept_def)
next
  case (Cons k locs)
  from deinit_location [OF Cons.prems(1), of i k locs] obtain S1 where
    S1: "deinit_locations i (k # locs) S = deinit_locations i locs S1"
      "repr S1 (qs(k := filter (\<lambda>p. \<not> belongs i S p) (qs k))) rs"
      "\<forall>p. map_option body (heap S1 p) =
        (if p \<in> set (qs k) \<and> belongs i S p then None else map_option body (heap S p))" by blast
  let ?qs = "qs(k := filter (\<lambda>p. \<not> belongs i S p) (qs k))"
  have dis: "distinct locs" "k \<notin> set locs" using Cons.prems(2) by simp_all
  have same: "belongs i S1 p = belongs i S p" if "p \<in> set (qs j)" "j \<noteq> k" for p j
    by (rule belongs_body) (use S1(3) lists_okD(4) [OF reprD(1) [OF Cons.prems(1)], of j k] that in auto)
  from Cons.IH [OF S1(2) dis(1)] obtain S' where
    S': "deinit_locations i locs S1 = Inr S'" "repr S' (kept i S1 (set locs) ?qs) rs"
      "\<forall>p. map_option body (heap S' p) =
        (if (\<exists>j \<in> set locs. p \<in> set (?qs j)) \<and> belongs i S1 p then None else map_option body (heap S1 p))"
    by blast
  have "kept i S1 (set locs) ?qs j = kept i S (set (k # locs)) qs j" for j
    using dis(2) same [of _ j] by (auto simp: kept_def intro!: filter_cong)
  then have "kept i S1 (set locs) ?qs = kept i S (set (k # locs)) qs" by blast
  moreover have "map_option body (heap S' p) =
      (if (\<exists>j \<in> set (k # locs). p \<in> set (qs j)) \<and> belongs i S p then None
       else map_option body (heap S p))" for p
  proof (cases "\<exists>j \<in> set locs. p \<in> set (qs j)")
    case True
    then obtain j where j: "j \<in> set locs" "p \<in> set (qs j)" by blast
    then have "j \<noteq> k" using dis(2) by auto
    with j S'(3) S1(3) same [OF j(2)] dis(2) show ?thesis by auto
  next
    case False
    then have "map_option body (heap S' p) = map_option body (heap S1 p)" using S'(3) dis(2) by auto
    with False S1(3) show ?thesis by auto
  qed
  ultimately show ?case using S1(1) S'(1,2) by auto
qed

subsection \<open>The isolate's promises\<close>

lemma delete_all_loop_dll:
  assumes "dll (heap S) None ps None" and "distinct ps" and "length ps \<le> fuel"
  shows "\<exists>S'. delete_all_loop fuel (first ps None) S = Inr S' \<and> same_lists S S' \<and>
    (\<forall>p. map_option body (heap S' p) = (if p \<in> set ps then None else map_option body (heap S p))) \<and>
    (\<forall>p. p \<notin> set ps \<longrightarrow> heap S' p = heap S p)"
  using assms
proof (induction ps arbitrary: S fuel)
  case Nil
  then show ?case by (simp add: same_lists_def)
next
  case (Cons p ps)
  obtain f where f: "fuel = Suc f" "length ps \<le> f" using Cons.prems(3) by (cases fuel) auto
  have d: "dll (heap S) None ([] @ p # ps) None" "distinct ([] @ p # ps)" using Cons.prems by simp_all
  from delete_node [OF d] obtain S1 S2 where
    S2: "store_async p (\<lambda>a. a\<lparr>timeout_task_id := 0\<rparr>) S = Inr S1"
      "DeleteAsyncWaiterNode p S1 = Inr (first ps None, S2)" "same_lists S S2"
      "dll (heap S2) None ps None"
      "\<forall>q. map_option body (heap S2 q) = (if q = p then None else map_option body (heap S q))"
      "\<forall>q. q \<notin> set (p # ps) \<longrightarrow> heap S2 q = heap S q" by auto
  from Cons.IH [OF S2(4) _ f(2)] Cons.prems(2) obtain S' where
    S': "delete_all_loop f (first ps None) S2 = Inr S'" "same_lists S2 S'"
      "\<forall>q. map_option body (heap S' q) = (if q \<in> set ps then None else map_option body (heap S2 q))"
      "\<forall>q. q \<notin> set ps \<longrightarrow> heap S' q = heap S2 q" by auto
  have "map_option body (heap S' q) = (if q \<in> set (p # ps) then None else map_option body (heap S q))" for q
    using S'(3) S2(5) by simp
  moreover have "heap S' q = heap S q" if "q \<notin> set (p # ps)" for q using S'(4) S2(6) that by simp
  ultimately show ?case
    using f(1) S2(1,2) S'(1) same_lists_trans [OF S2(3) S'(2)] by (intro exI [of _ S']) simp
qed

lemma repr_finite: "repr S qs rs \<Longrightarrow> finite {k. location_lists S k \<noteq> None}"
proof -
  assume R: "repr S qs rs"
  let ?K = "{k. location_lists S k \<noteq> None}"
  have ne: "qs k \<noteq> []" if "k \<in> ?K" for k
    using that lists_okD(1) [OF reprD(1) [OF R], of k] by auto
  have "inj_on (\<lambda>k. hd (qs k)) ?K"
  proof (rule inj_onI)
    fix k j assume kj: "k \<in> ?K" "j \<in> ?K" "hd (qs k) = hd (qs j)"
    show "k = j"
    proof (rule ccontr)
      assume "k \<noteq> j"
      then have "set (qs k) \<inter> set (qs j) = {}" by (rule lists_okD(4) [OF reprD(1) [OF R]])
      with kj ne show False by (metis disjoint_iff hd_in_set)
    qed
  qed
  moreover have "hd (qs k) < next_ptr S" if "k \<in> ?K" for k
    using reprD(4,6) [OF R] ne [OF that] by (meson hd_in_set)
  then have "(\<lambda>k. hd (qs k)) ` ?K \<subseteq> {..<next_ptr S}" by auto
  ultimately show ?thesis by (metis finite_imageD finite_lessThan finite_subset)
qed

text \<open>
  C18: \<open>IsolateDeinit\<close> takes exactly the isolate's nodes out of the program: every location's list
  keeps the other isolates' waiters, in their order and linked, the isolate's list of promises is
  gone, a node that was on a list is freed if and only if it belongs to the isolate, and
  every pointer followed is valid.
\<close>

theorem IsolateDeinit_removes_exactly:
  assumes "repr S qs rs"
  shows "\<exists>S'. IsolateDeinit i S = Inr S' \<and>
    repr S' (\<lambda>k. filter (\<lambda>p. \<not> belongs i S p) (qs k)) (rs(i := [])) \<and>
    (\<forall>p k. p \<in> set (qs k) \<longrightarrow> (heap S' p = None \<longleftrightarrow> belongs i S p)) \<and>
    (\<forall>p j. p \<in> set (rs j) \<longrightarrow> (heap S' p = None \<longleftrightarrow> j = i))"
proof -
  let ?K = "{k. location_lists S k \<noteq> None}"
  have K: "set (sorted_list_of_set ?K) = ?K" using repr_finite [OF assms] by simp
  from deinit_locations_all [OF assms distinct_sorted_list_of_set [of ?K], of i] obtain S1 where
    S1: "deinit_locations i (sorted_list_of_set ?K) S = Inr S1" "repr S1 (kept i S ?K qs) rs"
      "\<forall>p. map_option body (heap S1 p) = (if (\<exists>k \<in> ?K. p \<in> set (qs k)) \<and> belongs i S p then None
        else map_option body (heap S p))" unfolding K by blast
  have kept: "kept i S ?K qs = (\<lambda>k. filter (\<lambda>p. \<not> belongs i S p) (qs k))"
    using lists_okD(1) [OF reprD(1) [OF assms]] by (auto simp: kept_def fun_eq_iff)
  note r = lists_okD(1-3) [OF reprD(2) [OF S1(2)], of i]
  from delete_all_loop_dll [OF r(2,3) repr_promises_length [OF S1(2)]] obtain S2 where
    S2: "delete_all_loop (next_ptr S1) (first (rs i) None) S1 = Inr S2" "same_lists S1 S2"
      "\<forall>p. map_option body (heap S2 p) = (if p \<in> set (rs i) then None else map_option body (heap S1 p))"
      "\<forall>p. p \<notin> set (rs i) \<longrightarrow> heap S2 p = heap S1 p" by blast
  let ?S3 = "S2\<lparr>promises_to_resolve := (promises_to_resolve S2)(i := None)\<rparr>"
  have "\<exists>S'. IsolateDeinit i S = Inr S' \<and> heap S' = heap S2 \<and> location_lists S' = location_lists S1 \<and>
      next_ptr S' = next_ptr S1 \<and> promises_to_resolve S' = (promises_to_resolve S1)(i := None)"
  proof (cases "rs i = []")
    case True
    then have "S2 = S1" using S2(1) by simp
    with True S1(1) r(1) show ?thesis by (auto simp: IsolateDeinit_def intro!: exI [of _ S1])
  next
    case False
    with S1(1) S2(1,2) r(1) show ?thesis
      by (intro exI [of _ ?S3]) (simp add: IsolateDeinit_def first_last same_lists_def)
  qed
  then obtain S' where S': "IsolateDeinit i S = Inr S'" "heap S' = heap S2"
    "location_lists S' = location_lists S1" "next_ptr S' = next_ptr S1"
    "promises_to_resolve S' = (promises_to_resolve S1)(i := None)" by blast
  have gone: "heap S' p = (if p \<in> set (rs i) then None else heap S1 p)" for p
    using S2(3,4) S'(2) by (metis map_option_is_None)
  have "repr S' (kept i S ?K qs) (rs(i := []))"
    by (rule repr_drop_promises [OF S1(2) S'(3-5) gone])
  moreover have "heap S' p = None \<longleftrightarrow> belongs i S p" if "p \<in> set (qs k)" for p k
  proof -
    have "heap S p \<noteq> None" "p \<notin> set (rs i)" "k \<in> ?K"
      using reprD(3,4) [OF assms] that lists_okD(1) [OF reprD(1) [OF assms], of k] by fastforce+
    then have "heap S' p = heap S1 p" "map_option body (heap S1 p) = None \<longleftrightarrow> belongs i S p"
      using gone [of p] S1(3) that by auto
    then show ?thesis by simp
  qed
  moreover have "heap S' p = None \<longleftrightarrow> j = i" if "p \<in> set (rs j)" for p j
    using reprD(5) [OF S1(2) that] gone [of p] that lists_okD(4) [OF reprD(2) [OF S1(2)], of j i]
    by (cases "j = i") auto
  ultimately show ?thesis using S'(1) kept by auto
qed

theorem IsolateDeinit_removes_exactly_witness:
  "\<exists>S'. IsolateDeinit 5 (demo_futex {7}) = Inr S' \<and> repr S' ((\<lambda>_. [])(64 := [2])) (\<lambda>_. []) \<and>
     heap S' 1 = None"
proof -
  have b: "belongs 5 (demo_futex {7}) 1" "\<not> belongs 5 (demo_futex {7}) 2"
    by (simp_all add: belongs_def demo_futex_def demo_node_def demo_async_def of_isolate_def)
  have q: "(\<lambda>k. filter (\<lambda>p. \<not> belongs 5 (demo_futex {7}) p) (((\<lambda>_. [])(64 := [1, 2])) (k :: addr))) =
      (\<lambda>_. [])(64 := [2])"
    using b by auto
  have r: "((\<lambda>_. [])(5 := [])) = ((\<lambda>_. []) :: isolate \<Rightarrow> ptr list)" by auto
  from IsolateDeinit_removes_exactly [OF demo_futex_repr, of 5 "{7}", unfolded q r] obtain S' where
    S': "IsolateDeinit 5 (demo_futex {7}) = Inr S'" "repr S' ((\<lambda>_. [])(64 := [2])) (\<lambda>_. [])"
      "\<forall>p k. p \<in> set (((\<lambda>_. [])(64 := [1, 2])) (k :: addr)) \<longrightarrow>
        (heap S' p = None \<longleftrightarrow> belongs 5 (demo_futex {7}) p)" by blast
  have "(1 :: ptr) \<in> set (((\<lambda>_. [])(64 := [1, 2])) (64 :: addr))" by simp
  with S'(3) b(1) have "heap S' 1 = None" by blast
  with S'(1,2) show ?thesis by blast
qed

subsection \<open>Counting\<close>

lemma count_loop_dll:
  assumes "dll (heap S) a ps None" and "length ps \<le> fuel"
  shows "count_loop fuel c (first ps None) S =
    Inr (length (filter (\<lambda>p. case heap S p of None \<Rightarrow> False | Some n \<Rightarrow> c n) ps))"
  using assms
proof (induction ps arbitrary: a fuel)
  case (Cons p ps)
  obtain f where "fuel = Suc f" "length ps \<le> f" using Cons.prems(2) by (cases fuel) auto
  with Cons show ?case by (auto simp: deref_def)
qed simp

lemma NumWaitersForTesting_counts:
  assumes R: "repr S qs rs"
  shows "NumWaitersForTesting loc S =
    Inr (length (filter (\<lambda>p. is_waiting S p \<and> \<not> store_expired S p) (qs loc)))"
proof -
  note q = lists_okD(1,2) [OF reprD(1) [OF R], of loc]
  have node: "(case heap S p of None \<Rightarrow> False | Some n \<Rightarrow> waiting n \<and> matching_backing_store S n) \<longleftrightarrow>
      is_waiting S p \<and> \<not> store_expired S p" for p
    by (cases "heap S p") (auto simp: is_waiting_def info_def matching_not_expired)
  show ?thesis
    using count_loop_dll [OF q(2) repr_length [OF R]] q(1)
    by (cases "qs loc") (simp_all add: NumWaitersForTesting_def node)
qed

end
