(* ===== verification/BackingStore.thy ===== *)
theory BackingStore
  imports Callbacks
begin

text \<open>
  Backing stores: \<open>backing-store.cc\<close>, built for a 64-bit target with WebAssembly. A
  \<open>BackingStore\<close> owns the memory behind an ArrayBuffer; objects live in \<open>stores\<close>, a pointer to
  one that is gone is not in its domain. The page allocator, the embedder's allocator, the trap
  handler, the garbage collector's retry and the limits are declared outside the sources: they
  are the fields of \<open>platform\<close>, functions on an abstract state. The standard library's \<open>memset\<close> and
  \<open>memcpy\<close> work on \<open>bytes\<close>. Usage counters and tracing output are left out. A null pointer is 0,
  an aborted process is \<open>CheckFailed\<close>.
\<close>

subsection \<open>Platform\<close>

datatype Permission = kNoAccess | kReadWrite

record 'os platform =
  AllocatePages :: "nat \<Rightarrow> nat \<Rightarrow> 'os \<Rightarrow> addr \<times> 'os" \<comment> \<open>size, alignment\<close>
  FreePages :: "addr \<Rightarrow> nat \<Rightarrow> 'os \<Rightarrow> 'os"
  SetPermissions :: "addr \<Rightarrow> nat \<Rightarrow> Permission \<Rightarrow> 'os \<Rightarrow> bool \<times> 'os"
  RetryCustomAllocate :: "('os \<Rightarrow> addr \<times> 'os) \<Rightarrow> 'os \<Rightarrow> addr \<times> 'os"
  AllocateExternalBackingStore :: "bool \<Rightarrow> nat \<Rightarrow> 'os \<Rightarrow> addr \<times> 'os" \<comment> \<open>initialized, size\<close>
  AllocatorFree :: "addr \<Rightarrow> addr \<Rightarrow> nat \<Rightarrow> 'os \<Rightarrow> 'os"
  RegisterCoveredMemory :: "addr \<Rightarrow> nat \<Rightarrow> 'os \<Rightarrow> bool \<times> 'os"
  UnregisterCoveredMemory :: "addr \<Rightarrow> nat \<Rightarrow> 'os \<Rightarrow> 'os"
  DeleterCallback :: "nat \<Rightarrow> addr \<Rightarrow> nat \<Rightarrow> nat \<Rightarrow> 'os \<Rightarrow> 'os"
  array_buffer_allocator :: addr
  array_buffer_allocator_shared :: addr
  MaxAllocationSize :: nat
  RoundUpToPageSize :: "nat \<Rightarrow> nat \<Rightarrow> nat \<Rightarrow> nat option"
  AllocatePageSize :: nat
  kMaxByteLength :: nat
  kWasmPageSize :: nat
  kMaxMemory64Size :: nat
  IsTrapHandlerEnabled :: bool
  wasm_memory64_trap_handling :: bool
  target_arm64 :: bool
  enable_sandbox :: bool
  sandbox_contains :: "addr \<Rightarrow> bool"
  page_allocator_expired :: bool
  EmptyDeleter :: nat

definition SIZE_MAX :: nat where
  "SIZE_MAX = 18446744073709551615"

definition kFullGuardSize32 :: nat where
  "kFullGuardSize32 = 8 * 1073741824"

subsection \<open>Objects and state\<close>

datatype Flag = kIsShared | kIsResizableByJs | kIsImmutable | kIsWasmMemory | kIsWasmMemory64
  | kHasGuardRegions | kCustomDeleter | kEmptyDeleter | kGloballyRegistered
  | kHoldsSharedPtrToAllocater

text \<open>The union \<open>type_specific_data_\<close>.\<close>

datatype type_specific_data = NoData
  | ApiAllocator addr | ApiAllocatorShared addr
  | Deleter nat nat
  | SharedWasmMemoryData "nat option list" \<comment> \<open>isolates; \<open>None\<close> is a null entry\<close>

record BackingStore =
  buffer_start :: addr
  bs_byte_length :: nat
  max_byte_length :: nat
  byte_capacity :: nat
  bs_id :: u32
  flags :: "Flag set"
  specific :: type_specific_data

abbreviation bs_is_shared :: "BackingStore \<Rightarrow> bool" where
  "bs_is_shared b \<equiv> kIsShared \<in> flags b"

abbreviation is_wasm_memory :: "BackingStore \<Rightarrow> bool" where
  "is_wasm_memory b \<equiv> kIsWasmMemory \<in> flags b"

abbreviation has_guard_regions :: "BackingStore \<Rightarrow> bool" where
  "has_guard_regions b \<equiv> kHasGuardRegions \<in> flags b"

type_synonym bs_ptr = nat

record memory_object =
  mo_store :: bs_ptr
  mo_array_buffer :: "(nat \<times> bool) option" \<comment> \<open>byte length and resizability; \<open>None\<close> is undefined\<close>
  mo_updates :: nat \<comment> \<open>calls of \<open>UpdateInstances\<close>\<close>

record 'os bsworld =
  os :: 'os
  bytes :: "addr \<Rightarrow> 8 word"
  stores :: "bs_ptr \<Rightarrow> BackingStore option"
  next_bs :: bs_ptr
  next_backing_store_id :: u32
  registry :: "addr \<Rightarrow> bs_ptr option" \<comment> \<open>weak pointers\<close>
  shared_wasm_memories :: "nat \<Rightarrow> nat option list" \<comment> \<open>per isolate, weak\<close>
  memory_objects :: "nat \<Rightarrow> memory_object"
  grow_requests :: "nat list" \<comment> \<open>isolates asked to update, in order\<close>
  had_nondeterminism :: bool
  bs_engine :: engine

definition get_bs :: "bs_ptr \<Rightarrow> 'os bsworld \<Rightarrow> BackingStore result" where
  "get_bs p W = (case stores W p of None \<Rightarrow> Inl BadPointer | Some b \<Rightarrow> Inr b)"

definition set_bs :: "bs_ptr \<Rightarrow> BackingStore \<Rightarrow> 'os bsworld \<Rightarrow> 'os bsworld" where
  "set_bs p b W = W\<lparr>stores := (stores W)(p := Some b)\<rparr>"

definition memset0 :: "addr \<Rightarrow> nat \<Rightarrow> 'os bsworld \<Rightarrow> 'os bsworld" where
  "memset0 a n W = W\<lparr>bytes := (\<lambda>x. if a \<le> x \<and> x < a + n then 0 else bytes W x)\<rparr>"

definition memcpy :: "addr \<Rightarrow> addr \<Rightarrow> nat \<Rightarrow> 'os bsworld \<Rightarrow> 'os bsworld" where
  "memcpy dst src n W =
     W\<lparr>bytes := (\<lambda>x. if dst \<le> x \<and> x < dst + n then bytes W (src + (x - dst)) else bytes W x)\<rparr>"

subsection \<open>Construction and destruction\<close>

definition GetWasmReservationSize :: "'os platform \<Rightarrow> bool \<Rightarrow> nat \<Rightarrow> bool \<Rightarrow> nat" where
  "GetWasmReservationSize pf guard capacity is_wasm_memory64 =
     (if guard then
        if is_wasm_memory64 then
          if target_arm64 pf then size_t (kMaxMemory64Size pf + AllocatePageSize pf)
          else kMaxMemory64Size pf
        else kFullGuardSize32
      else capacity)"

definition GetReservedRegion :: "'os platform \<Rightarrow> bool \<Rightarrow> bool \<Rightarrow> addr \<Rightarrow> nat \<Rightarrow> addr \<times> nat" where
  "GetReservedRegion pf guard is_wasm_memory64 start capacity =
     (start, GetWasmReservationSize pf guard capacity is_wasm_memory64)"

record bs_args =
  a_shared :: bool
  a_resizable :: bool
  a_immutable :: bool
  a_wasm :: bool
  a_wasm64 :: bool
  a_guard :: bool
  a_custom_deleter :: bool
  a_empty_deleter :: bool

definition no_args :: bs_args where
  "no_args = \<lparr>a_shared = False, a_resizable = False, a_immutable = False, a_wasm = False,
     a_wasm64 = False, a_guard = False, a_custom_deleter = False, a_empty_deleter = False\<rparr>"

definition flags_of :: "bs_args \<Rightarrow> Flag set" where
  "flags_of a =
     (if a_shared a then {kIsShared} else {}) \<union>
     (if a_resizable a then {kIsResizableByJs} else {}) \<union>
     (if a_immutable a then {kIsImmutable} else {}) \<union>
     (if a_wasm a then {kIsWasmMemory} else {}) \<union>
     (if a_wasm64 a then {kIsWasmMemory64} else {}) \<union>
     (if a_guard a then {kHasGuardRegions} else {}) \<union>
     (if a_custom_deleter a then {kCustomDeleter} else {}) \<union>
     (if a_empty_deleter a then {kEmptyDeleter} else {})"

definition new_BackingStore ::
  "addr \<Rightarrow> nat \<Rightarrow> nat \<Rightarrow> nat \<Rightarrow> bs_args \<Rightarrow> 'os bsworld \<Rightarrow> (bs_ptr \<times> 'os bsworld) result" where
  "new_BackingStore start len max_len capacity a W =
     (if a_wasm a \<and> capacity = 0 then Inl CheckFailed
      else
        let b = \<lparr>buffer_start = start, bs_byte_length = len, max_byte_length = max_len,
                 byte_capacity = capacity, bs_id = next_backing_store_id W,
                 flags = flags_of a, specific = NoData\<rparr>
        in Inr (next_bs W, W\<lparr>stores := (stores W)(next_bs W := Some b), next_bs := next_bs W + 1,
                             next_backing_store_id := next_backing_store_id W + 1\<rparr>))"

definition get_v8_api_array_buffer_allocator :: "BackingStore \<Rightarrow> addr result" where
  "get_v8_api_array_buffer_allocator b =
     (if is_wasm_memory b then Inl CheckFailed
      else
        let alloc = (if kHoldsSharedPtrToAllocater \<in> flags b
                     then case specific b of ApiAllocatorShared a \<Rightarrow> a | _ \<Rightarrow> 0
                     else case specific b of ApiAllocator a \<Rightarrow> a | _ \<Rightarrow> 0)
        in if alloc = 0 then Inl CheckFailed else Inr alloc)"

definition get_shared_wasm_memory_data :: "BackingStore \<Rightarrow> nat option list result" where
  "get_shared_wasm_memory_data b =
     (if \<not> (is_wasm_memory b \<and> bs_is_shared b) then Inl CheckFailed
      else case specific b of SharedWasmMemoryData is \<Rightarrow> Inr is | _ \<Rightarrow> Inl CheckFailed)"

definition Unregister :: "bs_ptr \<Rightarrow> BackingStore \<Rightarrow> 'os bsworld \<Rightarrow> 'os bsworld result" where
  "Unregister p b W =
     (if kGloballyRegistered \<notin> flags b then Inr W
      else if \<not> is_wasm_memory b then Inl CheckFailed
      else Inr (set_bs p (b\<lparr>flags := flags b - {kGloballyRegistered}\<rparr>)
                  (W\<lparr>registry := (registry W)(buffer_start b := None)\<rparr>)))"

definition FreeResizableMemory :: "'os platform \<Rightarrow> BackingStore \<Rightarrow> 'os bsworld \<Rightarrow> 'os bsworld" where
  "FreeResizableMemory pf b W =
     (let (start, len) = GetReservedRegion pf (has_guard_regions b) (kIsWasmMemory64 \<in> flags b)
                           (buffer_start b) (byte_capacity b)
      in if len \<noteq> 0 \<and> \<not> (enable_sandbox pf \<and> page_allocator_expired pf)
         then W\<lparr>os := FreePages pf start len (os W)\<rparr> else W)"

text \<open>The hook: the shadow of a shared buffer goes with it.\<close>

definition tsan_remove_shadow :: "bool \<Rightarrow> BackingStore \<Rightarrow> 'os bsworld \<Rightarrow> 'os bsworld" where
  "tsan_remove_shadow wasm_tsan b W =
     (if wasm_tsan \<and> bs_is_shared b \<and> buffer_start b \<noteq> 0 then
        case remove_shadow (g_callbacks (bs_engine W)) of
          None \<Rightarrow> W
        | Some f \<Rightarrow> W\<lparr>bs_engine := (bs_engine W)\<lparr>eng := f (buffer_start b) (eng (bs_engine W))\<rparr>\<rparr>
      else W)"

text \<open>What the destructor frees.\<close>

definition free_memory :: "'os platform \<Rightarrow> BackingStore \<Rightarrow> 'os bsworld \<Rightarrow> 'os bsworld result" where
  "free_memory pf b W =
     (if buffer_start b = 0 then Inr W
      else if is_wasm_memory b then
        let reservation_size = GetWasmReservationSize pf (has_guard_regions b) (byte_capacity b)
              (kIsWasmMemory64 \<in> flags b);
            W1 = (if has_guard_regions b
                  then W\<lparr>os := UnregisterCoveredMemory pf (buffer_start b) reservation_size (os W)\<rparr>
                  else W)
        in bindE (if bs_is_shared b then get_shared_wasm_memory_data b else Inr []) (\<lambda>_.
             Inr (FreeResizableMemory pf b W1))
      else if kIsResizableByJs \<in> flags b then Inr (FreeResizableMemory pf b W)
      else if kCustomDeleter \<in> flags b then
        case specific b of
          Deleter callback data \<Rightarrow>
            Inr (W\<lparr>os := DeleterCallback pf callback (buffer_start b) (bs_byte_length b) data (os W)\<rparr>)
        | _ \<Rightarrow> Inl BadPointer
      else bindE (get_v8_api_array_buffer_allocator b) (\<lambda>alloc.
             Inr (W\<lparr>os := AllocatorFree pf alloc (buffer_start b) (bs_byte_length b) (os W)\<rparr>)))"

definition destroy_BackingStore ::
  "'os platform \<Rightarrow> bool \<Rightarrow> bs_ptr \<Rightarrow> 'os bsworld \<Rightarrow> 'os bsworld result" where
  "destroy_BackingStore pf wasm_tsan p W =
     bindE (get_bs p W) (\<lambda>b.
     bindE (Unregister p b W) (\<lambda>W.
     bindE (free_memory pf b (tsan_remove_shadow wasm_tsan b W)) (\<lambda>W.
       Inr (W\<lparr>stores := (stores W)(p := None)\<rparr>))))"

subsection \<open>Allocation\<close>

definition SetAllocatorFromIsolate :: "'os platform \<Rightarrow> BackingStore \<Rightarrow> BackingStore" where
  "SetAllocatorFromIsolate pf b =
     (if array_buffer_allocator_shared pf \<noteq> 0
      then b\<lparr>flags := insert kHoldsSharedPtrToAllocater (flags b),
             specific := ApiAllocatorShared (array_buffer_allocator_shared pf)\<rparr>
      else b\<lparr>specific := ApiAllocator (array_buffer_allocator pf)\<rparr>)"

definition Allocate ::
  "'os platform \<Rightarrow> nat \<Rightarrow> bool \<Rightarrow> bool \<Rightarrow> 'os bsworld \<Rightarrow> (bs_ptr option \<times> 'os bsworld) result" where
  "Allocate pf len shared initialized W =
     (if array_buffer_allocator pf = 0 then Inl CheckFailed
      else if len > MaxAllocationSize pf then Inr (None, W)
      else
        let (start, os1) = (if len \<noteq> 0 then AllocateExternalBackingStore pf initialized len (os W)
                            else (0, os W));
            W1 = W\<lparr>os := os1\<rparr>
        in if len \<noteq> 0 \<and> start = 0 then Inr (None, W1)
           else if len \<noteq> 0 \<and> enable_sandbox pf \<and> \<not> sandbox_contains pf start then Inl CheckFailed
           else bindE (new_BackingStore start len len len (no_args\<lparr>a_shared := shared\<rparr>) W1) (\<lambda>(p, W).
                bindE (get_bs p W) (\<lambda>b.
                  Inr (Some p, set_bs p (SetAllocatorFromIsolate pf b) W))))"

text \<open>First \<open>fn\<close>, then the collector's retry; 0 is failure.\<close>

definition gc_retry :: "'os platform \<Rightarrow> ('os \<Rightarrow> addr \<times> 'os) \<Rightarrow> 'os \<Rightarrow> addr \<times> 'os" where
  "gc_retry pf fn s =
     (let (r, s1) = fn s in if r \<noteq> 0 then (r, s1) else RetryCustomAllocate pf fn s1)"

datatype WasmMemoryFlag = kNotWasm | kWasmMemory32 | kWasmMemory64

definition commit_memory :: "'os platform \<Rightarrow> addr \<Rightarrow> nat \<Rightarrow> 'os \<Rightarrow> addr \<times> 'os" where
  "commit_memory pf start committed s =
     (if committed = 0 then (1, s)
      else let (ok, s1) = SetPermissions pf start committed kReadWrite s in (of_bool ok, s1))"

definition TryAllocateAndPartiallyCommitMemory ::
  "'os platform \<Rightarrow> nat \<Rightarrow> nat \<Rightarrow> nat \<Rightarrow> nat \<Rightarrow> nat \<Rightarrow> WasmMemoryFlag \<Rightarrow> bool \<Rightarrow> bool \<Rightarrow> 'os bsworld \<Rightarrow>
   (bs_ptr option \<times> 'os bsworld) result" where
  "TryAllocateAndPartiallyCommitMemory pf len max_len page_size initial_pages maximum_pages
     wasm_memory shared guard W =
     (if maximum_pages > SIZE_MAX div page_size then Inr (None, W)
      else
        let maximum_pages = (if maximum_pages = 0 then 1 else maximum_pages);
            is_wasm = (wasm_memory \<noteq> kNotWasm);
            is_wasm64 = (wasm_memory = kWasmMemory64);
            capacity = size_t (maximum_pages * page_size);
            reservation_size = GetWasmReservationSize pf guard capacity is_wasm64;
            (start, os1) = gc_retry pf (AllocatePages pf reservation_size page_size) (os W)
        in if start = 0 then Inr (None, W\<lparr>os := os1\<rparr>)
           else
             let committed = size_t (initial_pages * page_size);
                 (ok, os2) = gc_retry pf (commit_memory pf start committed) os1
             in if ok = 0 then Inr (None, W\<lparr>os := FreePages pf start reservation_size os2\<rparr>)
                else bindE (new_BackingStore start len max_len capacity
                       (no_args\<lparr>a_shared := shared, a_resizable := \<not> is_wasm, a_wasm := is_wasm,
                                a_wasm64 := is_wasm64, a_guard := guard\<rparr>) (W\<lparr>os := os2\<rparr>)) (\<lambda>(p, W).
                     Inr (Some p, W)))"

definition TryAllocate ::
  "'os platform \<Rightarrow> nat \<Rightarrow> WasmMemoryFlag \<Rightarrow> bool \<Rightarrow> bool \<Rightarrow> nat \<Rightarrow> 'os bsworld \<Rightarrow>
   (bs_ptr option \<times> 'os bsworld) result" where
  "TryAllocate pf initial_pages wasm_memory shared guard maximum_pages W =
     bindE (TryAllocateAndPartiallyCommitMemory pf (size_t (initial_pages * kWasmPageSize pf))
              (size_t (maximum_pages * kWasmPageSize pf)) (kWasmPageSize pf) initial_pages
              maximum_pages wasm_memory shared guard W) (\<lambda>(q, W).
       case q of None \<Rightarrow> Inr (None, W)
       | Some p \<Rightarrow> bindE (get_bs p W) (\<lambda>b.
           Inr (Some p, if shared then set_bs p (b\<lparr>specific := SharedWasmMemoryData []\<rparr>) W else W)))"

text \<open>Smaller and smaller maximal sizes, until one can be allocated.\<close>

fun try_sizes ::
  "'os platform \<Rightarrow> nat \<Rightarrow> WasmMemoryFlag \<Rightarrow> bool \<Rightarrow> bool \<Rightarrow> nat list \<Rightarrow> 'os bsworld \<Rightarrow>
   (bs_ptr option \<times> 'os bsworld) result" where
  "try_sizes pf initial_pages wasm_memory shared guard [] W = Inr (None, W)"
| "try_sizes pf initial_pages wasm_memory shared guard (n # ns) W =
     bindE (TryAllocate pf initial_pages wasm_memory shared guard n W) (\<lambda>(q, W).
       case q of Some p \<Rightarrow> Inr (Some p, W)
       | None \<Rightarrow> try_sizes pf initial_pages wasm_memory shared guard ns W)"

definition retry_sizes :: "nat \<Rightarrow> nat \<Rightarrow> nat list" where
  "retry_sizes initial_pages maximum_pages =
     (let delta = (maximum_pages - initial_pages) div 4
      in [maximum_pages - delta, maximum_pages - 2 * delta, maximum_pages - 3 * delta, initial_pages])"

definition use_guard_regions :: "'os platform \<Rightarrow> WasmMemoryFlag \<Rightarrow> bool" where
  "use_guard_regions pf wasm_memory \<longleftrightarrow> IsTrapHandlerEnabled pf \<and>
     (wasm_memory = kWasmMemory32 \<or> (wasm_memory = kWasmMemory64 \<and> wasm_memory64_trap_handling pf))"

definition AllocateWasmMemory ::
  "'os platform \<Rightarrow> nat \<Rightarrow> nat \<Rightarrow> WasmMemoryFlag \<Rightarrow> bool \<Rightarrow> 'os bsworld \<Rightarrow>
   (bs_ptr option \<times> 'os bsworld) result" where
  "AllocateWasmMemory pf initial_pages maximum_pages wasm_memory shared W =
     (let guard = use_guard_regions pf wasm_memory in
      bindE (TryAllocate pf initial_pages wasm_memory shared guard maximum_pages W) (\<lambda>(q, W).
      bindE (if q = None \<and> \<not> guard \<and> maximum_pages - initial_pages \<ge> 4
             then try_sizes pf initial_pages wasm_memory shared guard
                    (retry_sizes initial_pages maximum_pages) W
             else Inr (q, W)) (\<lambda>(q, W).
        case q of None \<Rightarrow> Inr (None, W)
        | Some p \<Rightarrow>
            if \<not> guard then Inr (Some p, W)
            else bindE (get_bs p W) (\<lambda>b.
              let reservation_size = GetWasmReservationSize pf (has_guard_regions b)
                    (byte_capacity b) (kIsWasmMemory64 \<in> flags b);
                  (ok, os1) = RegisterCoveredMemory pf (buffer_start b) reservation_size (os W)
              in if ok then Inr (Some p, W\<lparr>os := os1\<rparr>) else Inl CheckFailed))))"

text \<open>A copy that came out with the wrong kind of guard is destroyed again.\<close>

definition CopyWasmMemory ::
  "'os platform \<Rightarrow> bool \<Rightarrow> bs_ptr \<Rightarrow> nat \<Rightarrow> nat \<Rightarrow> WasmMemoryFlag \<Rightarrow> 'os bsworld \<Rightarrow>
   (bs_ptr option \<times> 'os bsworld) result" where
  "CopyWasmMemory pf wasm_tsan p new_pages max_pages wasm_memory W =
     bindE (get_bs p W) (\<lambda>b.
     bindE (AllocateWasmMemory pf new_pages max_pages wasm_memory (bs_is_shared b) W) (\<lambda>(q, W).
       case q of None \<Rightarrow> Inr (None, W)
       | Some p' \<Rightarrow> bindE (get_bs p' W) (\<lambda>b'.
           if has_guard_regions b' \<noteq> has_guard_regions b
           then bindE (destroy_BackingStore pf wasm_tsan p' W) (\<lambda>W. Inr (None, W))
           else Inr (Some p', if bs_byte_length b > 0
                              then memcpy (buffer_start b') (buffer_start b) (bs_byte_length b) W
                              else W))))"

definition WrapAllocation ::
  "'os platform \<Rightarrow> addr \<Rightarrow> nat \<Rightarrow> nat \<Rightarrow> nat \<Rightarrow> bool \<Rightarrow> 'os bsworld \<Rightarrow> (bs_ptr \<times> 'os bsworld) result" where
  "WrapAllocation pf start len deleter deleter_data shared W =
     bindE (new_BackingStore start len len len
              (no_args\<lparr>a_shared := shared, a_custom_deleter := True,
                       a_empty_deleter := (deleter = EmptyDeleter pf)\<rparr>) W) (\<lambda>(p, W).
     bindE (get_bs p W) (\<lambda>b. Inr (p, set_bs p (b\<lparr>specific := Deleter deleter deleter_data\<rparr>) W)))"

definition EmptyBackingStore :: "bool \<Rightarrow> 'os bsworld \<Rightarrow> (bs_ptr \<times> 'os bsworld) result" where
  "EmptyBackingStore shared W = new_BackingStore 0 0 0 0 (no_args\<lparr>a_shared := shared\<rparr>) W"

subsection \<open>Growing a WebAssembly memory\<close>

text \<open>
  The compare-exchange loop, in steps other threads can come between: a thread in \<open>GLoop\<close> has read
  a length and checks it and sets the permissions, one in \<open>GSwap\<close> tries the exchange, which fails
  when the length has changed and may fail without reason (\<open>spurious\<close>).
\<close>

datatype grow_phase = GLoop nat | GSwap nat nat | GDone "nat option"

definition grow_begin :: "'os platform \<Rightarrow> bs_ptr \<Rightarrow> nat \<Rightarrow> nat \<Rightarrow> 'os bsworld \<Rightarrow> grow_phase result" where
  "grow_begin pf p delta_pages max_pages W =
     bindE (get_bs p W) (\<lambda>b.
       let old_length = bs_byte_length b in
       if delta_pages = 0 then Inr (GDone (Some (old_length div kWasmPageSize pf)))
       else if delta_pages > max_pages then Inr (GDone None)
       else Inr (GLoop old_length))"

text \<open>\<open>max_pages\<close>, limited by the capacity.\<close>

definition grow_limit :: "'os platform \<Rightarrow> BackingStore \<Rightarrow> nat \<Rightarrow> nat" where
  "grow_limit pf b max_pages = min max_pages (byte_capacity b div kWasmPageSize pf)"

fun grow_step ::
  "'os platform \<Rightarrow> bs_ptr \<Rightarrow> nat \<Rightarrow> nat \<Rightarrow> bool \<Rightarrow> grow_phase \<Rightarrow> 'os bsworld \<Rightarrow>
   (grow_phase \<times> 'os bsworld) result" where
  "grow_step pf p delta_pages max_pages spurious (GLoop old_length) W =
     bindE (get_bs p W) (\<lambda>b.
       let current_pages = old_length div kWasmPageSize pf in
       if current_pages > max_pages - delta_pages then Inr (GDone None, W)
       else
         let new_length = size_t ((current_pages + delta_pages) * kWasmPageSize pf);
             (ok, os1) = SetPermissions pf (buffer_start b) new_length kReadWrite (os W)
         in if ok then Inr (GSwap old_length new_length, W\<lparr>os := os1\<rparr>)
            else Inr (GDone None, W\<lparr>os := os1, had_nondeterminism := True\<rparr>))"
| "grow_step pf p delta_pages max_pages spurious (GSwap old_length new_length) W =
     bindE (get_bs p W) (\<lambda>b.
       if bs_byte_length b = old_length \<and> \<not> spurious
       then Inr (GDone (Some (old_length div kWasmPageSize pf)),
                 set_bs p (b\<lparr>bs_byte_length := new_length\<rparr>) W)
       else Inr (GLoop (bs_byte_length b), W))"
| "grow_step pf p delta_pages max_pages spurious (GDone r) W = Inr (GDone r, W)"

text \<open>A call that meets, after each of its steps, what the other threads did meanwhile.\<close>

fun grow_run ::
  "'os platform \<Rightarrow> bs_ptr \<Rightarrow> nat \<Rightarrow> nat \<Rightarrow> (bool \<times> ('os bsworld \<Rightarrow> 'os bsworld)) list \<Rightarrow>
   grow_phase \<Rightarrow> 'os bsworld \<Rightarrow> (nat option \<times> 'os bsworld) result" where
  "grow_run pf p delta_pages max_pages envs (GDone r) W = Inr (r, W)"
| "grow_run pf p delta_pages max_pages [] ph W = Inl Unfinished"
| "grow_run pf p delta_pages max_pages ((spurious, env) # envs) ph W =
     bindE (grow_step pf p delta_pages max_pages spurious ph W) (\<lambda>(ph, W).
       grow_run pf p delta_pages max_pages envs ph (env W))"

definition GrowWasmMemoryInPlace ::
  "'os platform \<Rightarrow> bs_ptr \<Rightarrow> nat \<Rightarrow> nat \<Rightarrow> (bool \<times> ('os bsworld \<Rightarrow> 'os bsworld)) list \<Rightarrow>
   'os bsworld \<Rightarrow> (nat option \<times> 'os bsworld) result" where
  "GrowWasmMemoryInPlace pf p delta_pages max_pages envs W =
     bindE (get_bs p W) (\<lambda>b.
       let max_pages = grow_limit pf b max_pages in
       bindE (grow_begin pf p delta_pages max_pages W) (\<lambda>ph.
         grow_run pf p delta_pages max_pages envs ph W))"

definition MakeWasmMemoryResizableByJS :: "bool \<Rightarrow> BackingStore \<Rightarrow> BackingStore" where
  "MakeWasmMemoryResizableByJS resizable b =
     b\<lparr>flags := (if resizable then insert kIsResizableByJs (flags b) else flags b - {kIsResizableByJs})\<rparr>"

subsection \<open>Resizable buffers\<close>

datatype ResizeOrGrowResult = kSuccess | kFailure | kRace

definition rounded_pages :: "'os platform \<Rightarrow> nat \<Rightarrow> nat result" where
  "rounded_pages pf len =
     (case RoundUpToPageSize pf len (AllocatePageSize pf) (kMaxByteLength pf) of
        None \<Rightarrow> Inl CheckFailed | Some n \<Rightarrow> Inr n)"

definition ResizeInPlace ::
  "'os platform \<Rightarrow> bs_ptr \<Rightarrow> nat \<Rightarrow> 'os bsworld \<Rightarrow> (ResizeOrGrowResult \<times> 'os bsworld) result" where
  "ResizeInPlace pf p new_byte_length W =
     bindE (get_bs p W) (\<lambda>b.
     bindE (rounded_pages pf new_byte_length) (\<lambda>new_committed_pages.
       let new_committed_length = size_t (new_committed_pages * AllocatePageSize pf) in
       if new_byte_length < bs_byte_length b then
         let W1 = memset0 (buffer_start b + new_byte_length) (bs_byte_length b - new_byte_length) W in
         bindE (rounded_pages pf (bs_byte_length b)) (\<lambda>old_committed_pages.
           let old_committed_length = size_t (old_committed_pages * AllocatePageSize pf);
               (ok, os1) = (if new_committed_pages < old_committed_pages
                 then SetPermissions pf (buffer_start b + new_committed_length)
                        (old_committed_length - new_committed_length) kNoAccess (os W1)
                 else (True, os W1))
           in if ok then Inr (kSuccess, set_bs p (b\<lparr>bs_byte_length := new_byte_length\<rparr>) (W1\<lparr>os := os1\<rparr>))
              else Inr (kFailure, W1\<lparr>os := os1\<rparr>))
       else if new_byte_length = bs_byte_length b then Inr (kSuccess, W)
       else
         let (ok, os1) = SetPermissions pf (buffer_start b) new_committed_length kReadWrite (os W)
         in if ok then Inr (kSuccess, set_bs p (b\<lparr>bs_byte_length := new_byte_length\<rparr>) (W\<lparr>os := os1\<rparr>))
            else Inr (kFailure, W\<lparr>os := os1\<rparr>)))"

text \<open>Growing a growable SharedArrayBuffer: the same loop, with a race as one of its outcomes.\<close>

datatype gsab_phase = SLoop nat | SSwap nat | SDone ResizeOrGrowResult

fun gsab_step ::
  "'os platform \<Rightarrow> bs_ptr \<Rightarrow> nat \<Rightarrow> nat \<Rightarrow> bool \<Rightarrow> gsab_phase \<Rightarrow> 'os bsworld \<Rightarrow>
   (gsab_phase \<times> 'os bsworld) result" where
  "gsab_step pf p new_len committed spurious (SLoop old_len) W =
     bindE (get_bs p W) (\<lambda>b.
       if new_len < old_len then Inr (SDone kRace, W)
       else if new_len = old_len then Inr (SDone kSuccess, W)
       else
         let (ok, os1) = SetPermissions pf (buffer_start b) committed kReadWrite (os W)
         in Inr (if ok then SSwap old_len else SDone kFailure, W\<lparr>os := os1\<rparr>))"
| "gsab_step pf p new_len committed spurious (SSwap old_len) W =
     bindE (get_bs p W) (\<lambda>b.
       if bs_byte_length b = old_len \<and> \<not> spurious
       then Inr (SDone kSuccess, set_bs p (b\<lparr>bs_byte_length := new_len\<rparr>) W)
       else Inr (SLoop (bs_byte_length b), W))"
| "gsab_step pf p new_len committed spurious (SDone r) W = Inr (SDone r, W)"

fun gsab_run ::
  "'os platform \<Rightarrow> bs_ptr \<Rightarrow> nat \<Rightarrow> nat \<Rightarrow> (bool \<times> ('os bsworld \<Rightarrow> 'os bsworld)) list \<Rightarrow>
   gsab_phase \<Rightarrow> 'os bsworld \<Rightarrow> (ResizeOrGrowResult \<times> 'os bsworld) result" where
  "gsab_run pf p new_len committed envs (SDone r) W = Inr (r, W)"
| "gsab_run pf p new_len committed [] ph W = Inl Unfinished"
| "gsab_run pf p new_len committed ((spurious, env) # envs) ph W =
     bindE (gsab_step pf p new_len committed spurious ph W) (\<lambda>(ph, W).
       gsab_run pf p new_len committed envs ph (env W))"

definition GrowInPlace ::
  "'os platform \<Rightarrow> bs_ptr \<Rightarrow> nat \<Rightarrow> (bool \<times> ('os bsworld \<Rightarrow> 'os bsworld)) list \<Rightarrow>
   'os bsworld \<Rightarrow> (ResizeOrGrowResult \<times> 'os bsworld) result" where
  "GrowInPlace pf p new_byte_length envs W =
     bindE (rounded_pages pf new_byte_length) (\<lambda>new_committed_pages.
     bindE (get_bs p W) (\<lambda>b.
       gsab_run pf p new_byte_length (size_t (new_committed_pages * AllocatePageSize pf)) envs
         (SLoop (bs_byte_length b)) W))"

subsection \<open>The global registry\<close>

definition Register :: "bs_ptr \<Rightarrow> 'os bsworld \<Rightarrow> 'os bsworld result" where
  "Register p W =
     (case stores W p of None \<Rightarrow> Inr W
      | Some b \<Rightarrow>
          if buffer_start b = 0 then Inr W
          else if \<not> is_wasm_memory b then Inl CheckFailed
          else if kGloballyRegistered \<in> flags b then Inr W
          else if registry W (buffer_start b) \<noteq> None then Inl CheckFailed
          else Inr (set_bs p (b\<lparr>flags := insert kGloballyRegistered (flags b)\<rparr>)
                      (W\<lparr>registry := (registry W)(buffer_start b \<mapsto> p)\<rparr>)))"

text \<open>The first entry for the isolate is overwritten by the last one, which goes.\<close>

fun purge_isolate :: "nat \<Rightarrow> nat option list \<Rightarrow> nat option list" where
  "purge_isolate i [] = []"
| "purge_isolate i (x # xs) =
     (if x = Some i then (if xs = [] then [] else last xs # butlast xs)
      else x # purge_isolate i xs)"

definition purge_entry :: "nat \<Rightarrow> bs_ptr \<Rightarrow> 'os bsworld \<Rightarrow> 'os bsworld result" where
  "purge_entry i p W =
     (case stores W p of None \<Rightarrow> Inr W
      | Some b \<Rightarrow>
          if \<not> is_wasm_memory b then Inl CheckFailed
          else if \<not> bs_is_shared b then Inr W
          else bindE (get_shared_wasm_memory_data b) (\<lambda>isolates.
                 Inr (set_bs p (b\<lparr>specific := SharedWasmMemoryData (purge_isolate i isolates)\<rparr>) W)))"

definition Purge :: "nat \<Rightarrow> 'os bsworld \<Rightarrow> 'os bsworld result" where
  "Purge i W = runE (purge_entry i)
     (map (\<lambda>a. the (registry W a)) (sorted_list_of_set {a. registry W a \<noteq> None})) W"

text \<open>Adding an isolate: not twice, and in the place of the last null entry if there is one.\<close>

fun last_null :: "nat option list \<Rightarrow> nat \<Rightarrow> nat option \<Rightarrow> nat option" where
  "last_null [] k free_entry = free_entry"
| "last_null (x # xs) k free_entry = last_null xs (k + 1) (if x = None then Some k else free_entry)"

definition add_isolate :: "nat \<Rightarrow> nat option list \<Rightarrow> nat option list" where
  "add_isolate i isolates =
     (if Some i \<in> set isolates then isolates
      else case last_null isolates 0 None of
             Some k \<Rightarrow> isolates[k := Some i]
           | None \<Rightarrow> isolates @ [Some i])"

definition AddSharedWasmMemoryObject :: "nat \<Rightarrow> bs_ptr \<Rightarrow> nat \<Rightarrow> 'os bsworld \<Rightarrow> 'os bsworld result" where
  "AddSharedWasmMemoryObject i p memory_object W =
     (let W1 = W\<lparr>shared_wasm_memories := (shared_wasm_memories W)
                  (i := shared_wasm_memories W i @ [Some memory_object])\<rparr>
      in bindE (get_bs p W1) (\<lambda>b.
         bindE (get_shared_wasm_memory_data b) (\<lambda>isolates.
           Inr (set_bs p (b\<lparr>specific := SharedWasmMemoryData (add_isolate i isolates)\<rparr>) W1))))"

text \<open>A memory that has grown lets go of its array buffer, unless the buffer is resizable.\<close>

definition update_memory_object :: "nat option \<Rightarrow> 'os bsworld \<Rightarrow> 'os bsworld result" where
  "update_memory_object obj W =
     (case obj of None \<Rightarrow> Inr W
      | Some m \<Rightarrow>
          let mo = (memory_objects W m)\<lparr>mo_updates := mo_updates (memory_objects W m) + 1\<rparr>;
              put = (\<lambda>mo. W\<lparr>memory_objects := (memory_objects W)(m := mo)\<rparr>)
          in case mo_array_buffer mo of
               None \<Rightarrow> Inr (put mo)
             | Some (len, resizable) \<Rightarrow>
                 if resizable then Inr (put mo)
                 else bindE (get_bs (mo_store mo) W) (\<lambda>b.
                   Inr (put (if len < bs_byte_length b then mo\<lparr>mo_array_buffer := None\<rparr> else mo))))"

definition UpdateSharedWasmMemoryObjects :: "nat \<Rightarrow> 'os bsworld \<Rightarrow> 'os bsworld result" where
  "UpdateSharedWasmMemoryObjects i W = runE update_memory_object (shared_wasm_memories W i) W"

definition request_grow :: "nat \<Rightarrow> nat option \<Rightarrow> 'os bsworld \<Rightarrow> 'os bsworld result" where
  "request_grow i other W =
     (if other = Some i then Inr W
      else case other of
             None \<Rightarrow> Inl BadPointer
           | Some j \<Rightarrow> Inr (W\<lparr>grow_requests := grow_requests W @ [j]\<rparr>))"

definition BroadcastSharedWasmMemoryGrow :: "nat \<Rightarrow> bs_ptr \<Rightarrow> 'os bsworld \<Rightarrow> 'os bsworld result" where
  "BroadcastSharedWasmMemoryGrow i p W =
     bindE (get_bs p W) (\<lambda>b.
     bindE (get_shared_wasm_memory_data b) (\<lambda>isolates.
     bindE (runE (request_grow i) isolates W) (UpdateSharedWasmMemoryObjects i)))"

end
