(* ===== verification/BackingStoreProps.thy ===== *)
theory BackingStoreProps
  imports BackingStore Init
begin

text \<open>
  What backing stores promise: concurrent grows of one WebAssembly memory take effect one after
  the other and each call returns; a shared buffer's shadow ends with the buffer; the global
  registry holds exactly the registered stores; a memory's list of isolates has no duplicates, so
  that a grow is broadcast to each of the others once. What is relied on of the platform is
  stated as hypotheses on its functions.
\<close>

subsection \<open>Concurrent grows\<close>

text \<open>
  Threads \<open>t\<close> that each call \<open>GrowWasmMemoryInPlace\<close> once, with their \<open>delta t\<close> and limit
  \<open>limit t\<close>; \<open>None\<close> has not called yet.
\<close>

inductive grow_reach ::
  "'os platform \<Rightarrow> bs_ptr \<Rightarrow> (nat \<Rightarrow> nat) \<Rightarrow> (nat \<Rightarrow> nat) \<Rightarrow> 'os bsworld \<Rightarrow> 'os bsworld \<Rightarrow>
   (nat \<Rightarrow> grow_phase option) \<Rightarrow> bool" for pf p delta limit W0 where
  start: "grow_reach pf p delta limit W0 W0 (\<lambda>_. None)"
| call: "grow_reach pf p delta limit W0 W ph \<Longrightarrow> ph t = None \<Longrightarrow>
    grow_begin pf p (delta t) (limit t) W = Inr g \<Longrightarrow>
    grow_reach pf p delta limit W0 W (ph(t \<mapsto> g))"
| step: "grow_reach pf p delta limit W0 W ph \<Longrightarrow> ph t = Some g \<Longrightarrow>
    grow_step pf p (delta t) (limit t) spurious g W = Inr (g', W') \<Longrightarrow>
    grow_reach pf p delta limit W0 W' (ph(t \<mapsto> g'))"

text \<open>
  \<open>readable s a\<close>: how many bytes from \<open>a\<close> on may be read and written. Granting access makes at
  least the bytes asked for accessible when it succeeds, and never takes access away.
\<close>

definition grants :: "'os platform \<Rightarrow> ('os \<Rightarrow> addr \<Rightarrow> nat) \<Rightarrow> bool" where
  "grants pf readable \<longleftrightarrow>
     (\<forall>a n s ok s'. SetPermissions pf a n kReadWrite s = (ok, s') \<longrightarrow>
        readable s a \<le> readable s' a \<and> (ok \<longrightarrow> n \<le> readable s' a))"

text \<open>What each call knows, given the current length and the readable bytes.\<close>

fun phase_ok :: "nat \<Rightarrow> nat \<Rightarrow> nat \<Rightarrow> nat \<Rightarrow> nat \<Rightarrow> grow_phase \<Rightarrow> bool" where
  "phase_ok page d lim len rd (GLoop old) \<longleftrightarrow> page dvd old \<and> old \<le> len \<and> d \<le> lim"
| "phase_ok page d lim len rd (GSwap old new) \<longleftrightarrow>
     page dvd old \<and> old \<le> len \<and> new = old + d * page \<and> new \<le> rd \<and> new \<le> lim * page"
| "phase_ok page d lim len rd (GDone (Some r)) \<longleftrightarrow> (r + d) * page \<le> len"
| "phase_ok page d lim len rd (GDone None) \<longleftrightarrow> True"

lemma phase_ok_mono:
  "phase_ok page d lim len rd g \<Longrightarrow> len \<le> len' \<Longrightarrow> rd \<le> rd' \<Longrightarrow> phase_ok page d lim len' rd' g"
  by (cases "(page, d, lim, len, rd, g)" rule: phase_ok.cases) (auto intro: le_trans)

definition before :: "nat \<Rightarrow> nat \<Rightarrow> nat \<Rightarrow> nat \<Rightarrow> bool" where
  "before r d s e \<longleftrightarrow> r + d \<le> s \<or> s + e \<le> r"

lemma before_sym: "before r d s e \<longleftrightarrow> before s e r d"
  by (auto simp: before_def)

definition grow_inv :: "'os platform \<Rightarrow> ('os \<Rightarrow> addr \<Rightarrow> nat) \<Rightarrow> bs_ptr \<Rightarrow> (nat \<Rightarrow> nat) \<Rightarrow> (nat \<Rightarrow> nat) \<Rightarrow>
    BackingStore \<Rightarrow> 'os bsworld \<Rightarrow> (nat \<Rightarrow> grow_phase option) \<Rightarrow> bool" where
  "grow_inv pf readable p delta limit b0 W ph \<longleftrightarrow>
     (\<exists>len. stores W p = Some (b0\<lparr>bs_byte_length := len\<rparr>) \<and> kWasmPageSize pf dvd len \<and>
        bs_byte_length b0 \<le> len \<and> len \<le> byte_capacity b0 \<and>
        len \<le> readable (os W) (buffer_start b0) \<and>
        (\<forall>t g. ph t = Some g \<longrightarrow>
           phase_ok (kWasmPageSize pf) (delta t) (limit t) len (readable (os W) (buffer_start b0)) g)) \<and>
     (\<forall>t u r s. t \<noteq> u \<longrightarrow> ph t = Some (GDone (Some r)) \<longrightarrow> ph u = Some (GDone (Some s)) \<longrightarrow>
        before r (delta t) s (delta u))"

lemma grow_invE:
  assumes "grow_inv pf readable p delta limit b0 W ph"
  obtains len where "stores W p = Some (b0\<lparr>bs_byte_length := len\<rparr>)" "kWasmPageSize pf dvd len"
    "bs_byte_length b0 \<le> len" "len \<le> byte_capacity b0" "len \<le> readable (os W) (buffer_start b0)"
    "\<And>t g. ph t = Some g \<Longrightarrow>
      phase_ok (kWasmPageSize pf) (delta t) (limit t) len (readable (os W) (buffer_start b0)) g"
    "\<And>t u r s. t \<noteq> u \<Longrightarrow> ph t = Some (GDone (Some r)) \<Longrightarrow> ph u = Some (GDone (Some s)) \<Longrightarrow>
      before r (delta t) s (delta u)"
  using assms unfolding grow_inv_def by blast

lemma length_eqD: "b\<lparr>bs_byte_length := l\<rparr> = b\<lparr>bs_byte_length := m\<rparr> \<Longrightarrow> l = m"
  by (drule arg_cong [where f = bs_byte_length]) simp

text \<open>
  The invariant after one thread has moved: the length and the readable bytes have only grown, the
  thread's new phase is in order, and a result it has reached lies apart from the others.
\<close>

lemma grow_inv_move:
  assumes I: "grow_inv pf readable p delta limit b0 W ph"
    and st: "stores W p = Some (b0\<lparr>bs_byte_length := len\<rparr>)"
    and st': "stores W' p = Some (b0\<lparr>bs_byte_length := len'\<rparr>)" and dvd: "kWasmPageSize pf dvd len'"
    and le: "len \<le> len'" "len' \<le> byte_capacity b0" "len' \<le> readable (os W') (buffer_start b0)"
    and rd: "readable (os W) (buffer_start b0) \<le> readable (os W') (buffer_start b0)"
    and g: "phase_ok (kWasmPageSize pf) (delta t) (limit t) len' (readable (os W') (buffer_start b0)) g"
    and r: "\<And>r u s. g = GDone (Some r) \<Longrightarrow> u \<noteq> t \<Longrightarrow> ph u = Some (GDone (Some s)) \<Longrightarrow>
      before r (delta t) s (delta u)"
  shows "grow_inv pf readable p delta limit b0 W' (ph(t \<mapsto> g))"
proof -
  from I obtain l where l: "stores W p = Some (b0\<lparr>bs_byte_length := l\<rparr>)" "bs_byte_length b0 \<le> l"
    "\<And>u h. ph u = Some h \<Longrightarrow>
      phase_ok (kWasmPageSize pf) (delta u) (limit u) l (readable (os W) (buffer_start b0)) h"
    "\<And>t u r s. t \<noteq> u \<Longrightarrow> ph t = Some (GDone (Some r)) \<Longrightarrow> ph u = Some (GDone (Some s)) \<Longrightarrow>
      before r (delta t) s (delta u)" by (rule grow_invE) blast
  have eq: "l = len" by (rule length_eqD [where b = b0]) (use l(1) st in simp)
  have "phase_ok (kWasmPageSize pf) (delta u) (limit u) len' (readable (os W') (buffer_start b0)) h"
    if "(ph(t \<mapsto> g)) u = Some h" for u h
    using that g l(3) [of u h] phase_ok_mono [OF _ le(1) rd] eq by (cases "u = t") auto
  moreover have "before r' (delta u) s (delta v)"
    if "u \<noteq> v" "(ph(t \<mapsto> g)) u = Some (GDone (Some r'))" "(ph(t \<mapsto> g)) v = Some (GDone (Some s))"
    for u v r' s
    using that r [of r' v s] r [of s u r'] l(4) [of u v r' s] before_sym
    by (cases "u = t"; cases "v = t") auto
  ultimately show ?thesis
    using st' dvd le l(2) eq unfolding grow_inv_def by auto
qed

text \<open>The pages a grow asks for stay below its limit, so the product does not wrap.\<close>

lemma grow_size:
  assumes "old div page \<le> lim - d" and "d \<le> lim" and "lim * page \<le> SIZE_MAX" and "page dvd (old :: nat)"
  shows "size_t ((old div page + d) * page) = old + d * page" and "old + d * page \<le> lim * page"
proof -
  have le: "(old div page + d) * page \<le> lim * page"
    using assms(1,2) by (intro mult_right_mono) auto
  have "old div page * page = old" using assms(4) by simp
  then have sum: "(old div page + d) * page = old + d * page" by (simp add: add_mult_distrib)
  have "(old div page + d) * page \<le> SIZE_MAX" using le assms(3) by linarith
  then show "size_t ((old div page + d) * page) = old + d * page"
    using sum by (simp add: SIZE_MAX_def)
  show "old + d * page \<le> lim * page" using le sum by simp
qed

text \<open>The setting: one memory of which no more than its capacity can ever be used.\<close>

definition grow_setting :: "'os platform \<Rightarrow> ('os \<Rightarrow> addr \<Rightarrow> nat) \<Rightarrow> bs_ptr \<Rightarrow> (nat \<Rightarrow> nat) \<Rightarrow>
    BackingStore \<Rightarrow> 'os bsworld \<Rightarrow> bool" where
  "grow_setting pf readable p limit b0 W \<longleftrightarrow>
     grants pf readable \<and> stores W p = Some b0 \<and> 0 < kWasmPageSize pf \<and>
     kWasmPageSize pf dvd bs_byte_length b0 \<and> bs_byte_length b0 \<le> byte_capacity b0 \<and>
     bs_byte_length b0 \<le> readable (os W) (buffer_start b0) \<and> byte_capacity b0 \<le> SIZE_MAX \<and>
     (\<forall>t. \<exists>m. limit t = grow_limit pf b0 m)"

lemma limit_capacity: "grow_setting pf readable p limit b0 W \<Longrightarrow> limit t * kWasmPageSize pf \<le> byte_capacity b0"
proof -
  assume "grow_setting pf readable p limit b0 W"
  then obtain m where "limit t = min m (byte_capacity b0 div kWasmPageSize pf)"
    unfolding grow_setting_def grow_limit_def by blast
  then have "limit t * kWasmPageSize pf \<le> byte_capacity b0 div kWasmPageSize pf * kWasmPageSize pf"
    by (intro mult_right_mono) simp_all
  also have "\<dots> \<le> byte_capacity b0" by simp
  finally show ?thesis .
qed

lemma grow_inv_start:
  "grow_setting pf readable p limit b0 W \<Longrightarrow> grow_inv pf readable p delta limit b0 W (\<lambda>_. None)"
  by (auto simp: grow_inv_def grow_setting_def intro!: exI [of _ "bs_byte_length b0"])

lemma grow_inv_call:
  assumes I: "grow_inv pf readable p delta limit b0 W ph" and page: "0 < kWasmPageSize pf"
    and g: "grow_begin pf p (delta t) (limit t) W = Inr g"
  shows "grow_inv pf readable p delta limit b0 W (ph(t \<mapsto> g))"
proof -
  let ?page = "kWasmPageSize pf"
  from I obtain len where len: "stores W p = Some (b0\<lparr>bs_byte_length := len\<rparr>)" "?page dvd len"
    "len \<le> byte_capacity b0" "len \<le> readable (os W) (buffer_start b0)"
    "\<And>t g. ph t = Some g \<Longrightarrow> phase_ok ?page (delta t) (limit t) len (readable (os W) (buffer_start b0)) g"
    by (rule grow_invE) blast
  have g': "g = (if delta t = 0 then GDone (Some (len div ?page))
      else if delta t > limit t then GDone None else GLoop len)"
    using g len(1) by (simp add: grow_begin_def get_bs_def split: if_splits)
  show ?thesis
  proof (rule grow_inv_move [OF I len(1) len(1) len(2) order_refl len(3,4) order_refl])
    show "phase_ok ?page (delta t) (limit t) len (readable (os W) (buffer_start b0)) g"
      using g' len(2) by (auto split: if_splits)
    fix r u s assume r: "g = GDone (Some r)" and u: "ph u = Some (GDone (Some s))"
    from r g' have "r = len div ?page" by (auto split: if_splits)
    moreover have "(s + delta u) * ?page \<le> len" using len(5) [OF u] by simp
    then have "s + delta u \<le> len div ?page" using page by (simp add: less_eq_div_iff_mult_less_eq)
    ultimately show "before r (delta t) s (delta u)" by (simp add: before_def)
  qed
qed

text \<open>The three steps: setting the permissions, the exchange, and being done.\<close>

lemma grow_inv_loop:
  assumes S: "grow_setting pf readable p limit b0 W0"
    and I: "grow_inv pf readable p delta limit b0 W ph" and ph: "ph t = Some (GLoop old)"
    and g: "grow_step pf p (delta t) (limit t) spurious (GLoop old) W = Inr (g, W')"
  shows "grow_inv pf readable p delta limit b0 W' (ph(t \<mapsto> g))"
proof -
  let ?page = "kWasmPageSize pf"
  from I obtain len where len: "stores W p = Some (b0\<lparr>bs_byte_length := len\<rparr>)" "?page dvd len"
    "len \<le> byte_capacity b0" "len \<le> readable (os W) (buffer_start b0)"
    "\<And>t g. ph t = Some g \<Longrightarrow> phase_ok ?page (delta t) (limit t) len (readable (os W) (buffer_start b0)) g"
    by (rule grow_invE) blast
  from len(5) [OF ph] have old: "?page dvd old" "old \<le> len" "delta t \<le> limit t" by simp_all
  show ?thesis
  proof (cases "old div ?page > limit t - delta t")
    case True
    then have "g = GDone None" "W' = W" using g len(1) by (simp_all add: get_bs_def)
    then show ?thesis
      using grow_inv_move [OF I len(1) len(1) len(2) order_refl len(3,4) order_refl, of t "GDone None"] by simp
  next
    case False
    define new where "new = size_t ((old div ?page + delta t) * ?page)"
    have lim: "limit t * ?page \<le> SIZE_MAX"
      using limit_capacity [OF S, of t] S by (simp add: grow_setting_def)
    have new: "new = old + delta t * ?page" "old + delta t * ?page \<le> limit t * ?page"
      using grow_size [OF _ old(3) lim old(1)] False by (simp_all add: new_def)
    obtain ok os1 where P: "SetPermissions pf (buffer_start b0) new kReadWrite (os W) = (ok, os1)"
      by (cases "SetPermissions pf (buffer_start b0) new kReadWrite (os W)") auto
    have gr: "readable (os W) (buffer_start b0) \<le> readable os1 (buffer_start b0)"
      "ok \<Longrightarrow> new \<le> readable os1 (buffer_start b0)"
      using S P unfolding grow_setting_def grants_def by blast+
    have gW: "g = (if ok then GSwap old new else GDone None)" "os W' = os1" "stores W' = stores W"
      using g len(1) False P by (auto simp: get_bs_def new_def [symmetric] Let_def split: if_splits)
    have "len \<le> readable (os W') (buffer_start b0)" using len(4) gr(1) gW(2) by simp
    moreover have "phase_ok ?page (delta t) (limit t) len (readable (os W') (buffer_start b0)) g"
      using gW gr old new by auto
    ultimately show ?thesis
      using grow_inv_move [OF I len(1) _ len(2) order_refl len(3), of W' t g] gW gr(1) len(1)
      by (auto split: if_splits)
  qed
qed

lemma grow_inv_swap:
  assumes S: "grow_setting pf readable p limit b0 W0"
    and I: "grow_inv pf readable p delta limit b0 W ph" and ph: "ph t = Some (GSwap old new)"
    and g: "grow_step pf p (delta t) (limit t) spurious (GSwap old new) W = Inr (g, W')"
  shows "grow_inv pf readable p delta limit b0 W' (ph(t \<mapsto> g))"
proof -
  let ?page = "kWasmPageSize pf"
  have page: "0 < ?page" using S by (simp add: grow_setting_def)
  from I obtain len where len: "stores W p = Some (b0\<lparr>bs_byte_length := len\<rparr>)" "?page dvd len"
    "len \<le> byte_capacity b0" "len \<le> readable (os W) (buffer_start b0)"
    "\<And>t g. ph t = Some g \<Longrightarrow> phase_ok ?page (delta t) (limit t) len (readable (os W) (buffer_start b0)) g"
    by (rule grow_invE) blast
  from len(5) [OF ph] have old: "?page dvd old" "old \<le> len" "new = old + delta t * ?page"
    "new \<le> readable (os W) (buffer_start b0)" "new \<le> limit t * ?page" by simp_all
  show ?thesis
  proof (cases "len = old \<and> \<not> spurious")
    case True
    then have gW: "g = GDone (Some (len div ?page))" "W' = set_bs p (b0\<lparr>bs_byte_length := new\<rparr>) W"
      using g len(1) by (simp_all add: get_bs_def)
    have "len div ?page * ?page = len" using len(2) by simp
    then have "(len div ?page + delta t) * ?page = new" using old(3) True by (simp add: add_mult_distrib)
    then have ok: "phase_ok ?page (delta t) (limit t) new (readable (os W') (buffer_start b0)) g"
      using gW(1) by simp
    have st: "stores W' p = Some (b0\<lparr>bs_byte_length := new\<rparr>)" "os W' = os W"
      using gW(2) by (simp_all add: set_bs_def)
    have cap: "new \<le> byte_capacity b0" using old(5) limit_capacity [OF S, of t] by simp
    have dvd: "?page dvd new" using old(1,3) by simp
    have fin: "before r (delta t) s (delta u)"
      if "g = GDone (Some r)" "ph u = Some (GDone (Some s))" for r u s
    proof -
      have "(s + delta u) * ?page \<le> len" using len(5) [OF that(2)] by simp
      then have "s + delta u \<le> len div ?page" using page by (simp add: less_eq_div_iff_mult_less_eq)
      with that(1) gW(1) show ?thesis by (simp add: before_def)
    qed
    show ?thesis
      by (rule grow_inv_move [OF I len(1) st(1) dvd _ cap _ _ ok])
        (use True old st(2) fin in simp_all)
  next
    case False
    then have "g = GLoop len" "W' = W" using g len(1) by (auto simp: get_bs_def)
    moreover have "delta t \<le> limit t"
    proof -
      have "delta t * ?page \<le> limit t * ?page" using old(3,5) by linarith
      then show ?thesis using page by simp
    qed
    ultimately show ?thesis
      using grow_inv_move [OF I len(1) len(1) len(2) order_refl len(3,4) order_refl, of t "GLoop len"] len(2)
      by simp
  qed
qed

lemma grow_inv_reach:
  assumes S: "grow_setting pf readable p limit b0 W0" and "grow_reach pf p delta limit W0 W ph"
  shows "grow_inv pf readable p delta limit b0 W ph"
  using assms(2)
proof induction
  case start
  show ?case by (rule grow_inv_start [OF S])
next
  case (call W ph t g)
  have "0 < kWasmPageSize pf" using S by (simp add: grow_setting_def)
  then show ?case by (rule grow_inv_call [OF call.IH _ call.hyps(3)])
next
  case (step W ph t g spurious g' W')
  show ?case
  proof (cases g)
    case (GLoop old)
    with step show ?thesis using grow_inv_loop [OF S] by metis
  next
    case (GSwap old new)
    with step show ?thesis using grow_inv_swap [OF S] by metis
  next
    case (GDone r)
    with step.hyps(2,3) have "ph(t \<mapsto> g') = ph" "W' = W" by auto
    with step.IH show ?thesis by simp
  qed
qed

text \<open>
  C21: concurrent grows of one WebAssembly memory take effect one after the other. However the
  loops of any number of calls interleave, and however often the exchange fails, the length stays a
  whole number of pages within the capacity and within the bytes that are readable and writable,
  and two calls that succeed have returned page counts whose ranges (from the count returned to
  that count plus the pages asked for) do not overlap and lie below the length: no grow is lost,
  and no two calls with pages to add return the same count.
\<close>

theorem concurrent_grows_serialise:
  assumes "grow_setting pf readable p limit b0 W0" and "grow_reach pf p delta limit W0 W ph"
  shows "\<exists>b. stores W p = Some b \<and> kWasmPageSize pf dvd bs_byte_length b \<and>
    bs_byte_length b0 \<le> bs_byte_length b \<and> bs_byte_length b \<le> byte_capacity b0 \<and>
    bs_byte_length b \<le> readable (os W) (buffer_start b) \<and>
    (\<forall>t r. ph t = Some (GDone (Some r)) \<longrightarrow> (r + delta t) * kWasmPageSize pf \<le> bs_byte_length b) \<and>
    (\<forall>t u r s. t \<noteq> u \<longrightarrow> ph t = Some (GDone (Some r)) \<longrightarrow> ph u = Some (GDone (Some s)) \<longrightarrow>
       r + delta t \<le> s \<or> s + delta u \<le> r)"
proof -
  from grow_inv_reach [OF assms] obtain len where
    len: "stores W p = Some (b0\<lparr>bs_byte_length := len\<rparr>)" "kWasmPageSize pf dvd len"
    "bs_byte_length b0 \<le> len" "len \<le> byte_capacity b0" "len \<le> readable (os W) (buffer_start b0)"
    "\<And>t g. ph t = Some g \<Longrightarrow>
      phase_ok (kWasmPageSize pf) (delta t) (limit t) len (readable (os W) (buffer_start b0)) g"
    "\<And>t u r s. t \<noteq> u \<Longrightarrow> ph t = Some (GDone (Some r)) \<Longrightarrow> ph u = Some (GDone (Some s)) \<Longrightarrow>
      before r (delta t) s (delta u)" by (rule grow_invE) blast
  have "(r + delta t) * kWasmPageSize pf \<le> len" if "ph t = Some (GDone (Some r))" for t r
    using len(6) [OF that] by simp
  with len(1-5,7) show ?thesis
    by (intro exI [of _ "b0\<lparr>bs_byte_length := len\<rparr>"]) (auto simp: before_def)
qed

subsection \<open>A platform and a memory for the witnesses\<close>

text \<open>The state of this platform is the number of accessible bytes of its one memory.\<close>

definition demo_pf :: "nat platform" where
  "demo_pf = \<lparr>AllocatePages = (\<lambda>n a s. (4096, s)), FreePages = (\<lambda>a n s. 0),
     SetPermissions = (\<lambda>a n perm s. (True, if perm = kReadWrite then max s n else s)),
     RetryCustomAllocate = (\<lambda>fn s. fn s), AllocateExternalBackingStore = (\<lambda>z n s. (4096, s)),
     AllocatorFree = (\<lambda>al a n s. s), RegisterCoveredMemory = (\<lambda>a n s. (True, s)),
     UnregisterCoveredMemory = (\<lambda>a n s. s), DeleterCallback = (\<lambda>c a n d s. s),
     array_buffer_allocator = 1, array_buffer_allocator_shared = 0, MaxAllocationSize = 1073741824,
     RoundUpToPageSize = (\<lambda>n page lim. if lim < n then None else Some ((n + page - 1) div page)),
     AllocatePageSize = 4096, kMaxByteLength = 1073741824, kWasmPageSize = 65536,
     kMaxMemory64Size = 17179869184, IsTrapHandlerEnabled = False,
     wasm_memory64_trap_handling = False, target_arm64 = False, enable_sandbox = False,
     sandbox_contains = (\<lambda>_. True), page_allocator_expired = False, EmptyDeleter = 9\<rparr>"

definition demo_bs :: "nat \<Rightarrow> BackingStore" where
  "demo_bs len = \<lparr>buffer_start = 4096, bs_byte_length = len, max_byte_length = 262144,
     byte_capacity = 262144, bs_id = 1, flags = {kIsShared, kIsWasmMemory},
     specific = SharedWasmMemoryData [Some 1, Some 2]\<rparr>"

definition demo_world :: "nat \<Rightarrow> nat \<Rightarrow> nat bsworld" where
  "demo_world len rd = \<lparr>os = rd, bytes = (\<lambda>_. 0), stores = [1 \<mapsto> demo_bs len], next_bs = 2,
     next_backing_store_id = 2, registry = (\<lambda>_. None), shared_wasm_memories = (\<lambda>_. []),
     memory_objects = (\<lambda>_. \<lparr>mo_store = 1, mo_array_buffer = Some (65536, False), mo_updates = 0\<rparr>),
     grow_requests = [], had_nondeterminism = False, bs_engine = new_engine\<rparr>"

lemma demo_grow_setting: "grow_setting demo_pf (\<lambda>s a. s) 1 (\<lambda>_. 4) (demo_bs 65536) (demo_world 65536 65536)"
  by (auto simp: grow_setting_def grants_def demo_pf_def demo_bs_def demo_world_def grow_limit_def
      SIZE_MAX_def intro!: exI [of _ "4 :: nat"])

lemma demo_set_bs: "set_bs 1 ((demo_bs len)\<lparr>bs_byte_length := len'\<rparr>) (demo_world len rd) = demo_world len' rd"
  by (simp add: set_bs_def demo_bs_def demo_world_def)

lemma demo_grow_begin: "grow_begin demo_pf 1 1 4 (demo_world len rd) = Inr (GLoop len)"
  by (simp add: grow_begin_def get_bs_def demo_world_def demo_bs_def)

lemma demo_grow_loop:
  assumes "new = (len div 65536 + 1) * 65536" and "new \<le> 262144"
  shows "grow_step demo_pf 1 1 4 False (GLoop len) (demo_world l rd) =
    Inr (GSwap len new, demo_world l (max rd new))"
proof -
  have "size_t ((len div 65536 + 1) * 65536) = new" "\<not> len div 65536 > 4 - 1"
    using assms by simp_all
  then show ?thesis
    unfolding grow_step.simps get_bs_def Let_def by (simp add: demo_world_def demo_pf_def demo_bs_def)
qed

lemma demo_grow_swap:
  "grow_step demo_pf 1 1 4 False (GSwap old new) (demo_world len rd) =
     (if len = old then Inr (GDone (Some (old div 65536)), demo_world new rd)
      else Inr (GLoop len, demo_world len rd))"
proof -
  have "stores (demo_world len rd) 1 = Some (demo_bs len)" "kWasmPageSize demo_pf = 65536"
    by (simp_all add: demo_world_def demo_pf_def)
  moreover have "bs_byte_length (demo_bs len) = len" by (simp add: demo_bs_def)
  ultimately show ?thesis using demo_set_bs [where len = old and len' = new and rd = rd] by (simp add: get_bs_def)
qed

abbreviation demo_reach :: "nat bsworld \<Rightarrow> (nat \<Rightarrow> grow_phase option) \<Rightarrow> bool" where
  "demo_reach \<equiv> grow_reach demo_pf 1 (\<lambda>_. 1) (\<lambda>_. 4) (demo_world 65536 65536)"

lemma demo_call: "demo_reach (demo_world len rd) ph \<Longrightarrow> ph t = None \<Longrightarrow>
    demo_reach (demo_world len rd) (ph(t \<mapsto> GLoop len))"
  by (rule grow_reach.call) (simp_all add: demo_grow_begin del: One_nat_def)

lemma demo_loop: "demo_reach (demo_world l rd) ph \<Longrightarrow> ph t = Some (GLoop len) \<Longrightarrow>
    new = (len div 65536 + 1) * 65536 \<Longrightarrow> new \<le> 262144 \<Longrightarrow>
    demo_reach (demo_world l (max rd new)) (ph(t \<mapsto> GSwap len new))"
  by (rule grow_reach.step [where spurious = False]) (assumption, assumption, rule demo_grow_loop)

lemma demo_swap: "demo_reach (demo_world len rd) ph \<Longrightarrow> ph t = Some (GSwap len new) \<Longrightarrow>
    demo_reach (demo_world new rd) (ph(t \<mapsto> GDone (Some (len div 65536))))"
  by (rule grow_reach.step [where spurious = False]) (assumption, assumption, simp only: demo_grow_swap if_True refl)

lemma demo_swap_fails: "demo_reach (demo_world len rd) ph \<Longrightarrow> ph t = Some (GSwap old new) \<Longrightarrow> len \<noteq> old \<Longrightarrow>
    demo_reach (demo_world len rd) (ph(t \<mapsto> GLoop len))"
  by (rule grow_reach.step [where spurious = False]) (assumption, assumption, simp only: demo_grow_swap if_False)

definition duo :: "grow_phase \<Rightarrow> grow_phase \<Rightarrow> nat \<Rightarrow> grow_phase option" where
  "duo g h = [1 \<mapsto> g, 2 \<mapsto> h]"

lemma duo_sel: "duo g h 1 = Some g" "duo g h 2 = Some h"
  by (simp_all add: duo_def)

lemma duo_upd: "(duo g h)(1 \<mapsto> g') = duo g' h" "(duo g h)(2 \<mapsto> h') = duo g h'"
  by (auto simp: duo_def fun_eq_iff)

text \<open>Two threads read the same length; the second one's exchange fails and it goes round again.\<close>

lemma demo_race: "demo_reach (demo_world 196608 196608) (duo (GDone (Some 1)) (GDone (Some 2)))"
proof -
  have "demo_reach (demo_world 65536 65536) (\<lambda>_. None)" by (rule grow_reach.start)
  from demo_call [OF this, of 1] have "demo_reach (demo_world 65536 65536) [1 \<mapsto> GLoop 65536]" by simp
  from demo_call [OF this, of 2]
  have "demo_reach (demo_world 65536 65536) (duo (GLoop 65536) (GLoop 65536))" by (simp add: duo_def)
  from demo_loop [OF this duo_sel(1), of 131072]
  have "demo_reach (demo_world 65536 131072) (duo (GSwap 65536 131072) (GLoop 65536))"
    unfolding duo_upd by simp
  from demo_loop [OF this duo_sel(2), of 131072]
  have "demo_reach (demo_world 65536 131072) (duo (GSwap 65536 131072) (GSwap 65536 131072))"
    unfolding duo_upd by simp
  from demo_swap [OF this duo_sel(1)]
  have "demo_reach (demo_world 131072 131072) (duo (GDone (Some 1)) (GSwap 65536 131072))"
    unfolding duo_upd by simp
  from demo_swap_fails [OF this duo_sel(2)]
  have "demo_reach (demo_world 131072 131072) (duo (GDone (Some 1)) (GLoop 131072))"
    unfolding duo_upd by simp
  from demo_loop [OF this duo_sel(2), of 196608]
  have "demo_reach (demo_world 131072 196608) (duo (GDone (Some 1)) (GSwap 131072 196608))"
    unfolding duo_upd by simp
  from demo_swap [OF this duo_sel(2)] show ?thesis unfolding duo_upd by simp
qed

theorem concurrent_grows_serialise_witness:
  "demo_reach (demo_world 196608 196608) (duo (GDone (Some 1)) (GDone (Some 2))) \<and>
     ((1 :: nat) + 1 \<le> 2 \<or> (2 :: nat) + 1 \<le> 1)"
proof -
  have "(1 :: nat) \<noteq> 2" by simp
  with concurrent_grows_serialise [OF demo_grow_setting demo_race] duo_sel
  have "(1 :: nat) + 1 \<le> 2 \<or> (2 :: nat) + 1 \<le> 1" by blast
  with demo_race show ?thesis by blast
qed

subsection \<open>Every call returns\<close>

text \<open>What the other threads do to the memory between two steps: at most grow it by whole pages.\<close>

definition only_grows :: "nat \<Rightarrow> bs_ptr \<Rightarrow> ('os bsworld \<Rightarrow> 'os bsworld) \<Rightarrow> bool" where
  "only_grows page p env \<longleftrightarrow>
     (\<forall>W b. stores W p = Some b \<longrightarrow> page dvd bs_byte_length b \<longrightarrow>
        (\<exists>b'. stores (env W) p = Some b' \<and> page dvd bs_byte_length b' \<and>
              bs_byte_length b \<le> bs_byte_length b'))"

lemma only_growsE:
  assumes "only_grows page p env" and "stores W p = Some b" and "page dvd bs_byte_length b"
  obtains b' where "stores (env W) p = Some b'" "page dvd bs_byte_length b'"
    "bs_byte_length b \<le> bs_byte_length b'"
  using assms unfolding only_grows_def by blast

definition fair_envs :: "nat \<Rightarrow> bs_ptr \<Rightarrow> (bool \<times> ('os bsworld \<Rightarrow> 'os bsworld)) list \<Rightarrow> bool" where
  "fair_envs page p envs \<longleftrightarrow> (\<forall>(spurious, env) \<in> set envs. \<not> spurious \<and> only_grows page p env)"

text \<open>A failed exchange means the length has grown, and it cannot grow past the limit.\<close>

lemma grow_run_returns:
  assumes "0 < d" and "d \<le> lim" and "0 < kWasmPageSize pf"
    and "stores W p = Some b" and "kWasmPageSize pf dvd old" and "kWasmPageSize pf dvd bs_byte_length b"
    and "old \<le> bs_byte_length b" and "fair_envs (kWasmPageSize pf) p envs"
    and "2 * (lim - old div kWasmPageSize pf) < length envs"
  shows "\<exists>r W'. grow_run pf p d lim envs (GLoop old) W = Inr (r, W')"
  using assms(4-9)
proof (induction "lim - old div kWasmPageSize pf" arbitrary: old W b envs rule: less_induct)
  case less
  let ?page = "kWasmPageSize pf"
  obtain sp1 env1 envs1 where e1: "envs = (sp1, env1) # envs1"
    using less.prems(6) by (cases envs) auto
  show ?case
  proof (cases "old div ?page > lim - d")
    case True
    then show ?thesis using e1 less.prems(1) by (simp add: get_bs_def)
  next
    case False
    define new where "new = size_t ((old div ?page + d) * ?page)"
    obtain ok os1 where P: "SetPermissions pf (buffer_start b) new kReadWrite (os W) = (ok, os1)"
      by (cases "SetPermissions pf (buffer_start b) new kReadWrite (os W)") auto
    show ?thesis
    proof (cases ok)
      case False
      with \<open>\<not> old div ?page > lim - d\<close> show ?thesis
        using e1 less.prems(1) P by (simp add: get_bs_def Let_def new_def [symmetric])
    next
      case True
      let ?W1 = "env1 (W\<lparr>os := os1\<rparr>)"
      have step1: "grow_run pf p d lim envs (GLoop old) W = grow_run pf p d lim envs1 (GSwap old new) ?W1"
        using e1 less.prems(1) P True False by (simp add: get_bs_def Let_def new_def [symmetric])
      have f: "only_grows ?page p env1" "fair_envs ?page p envs1"
        using less.prems(5) e1 by (simp_all add: fair_envs_def)
      have st: "stores (W\<lparr>os := os1\<rparr>) p = Some b" using less.prems(1) by simp
      from only_growsE [OF f(1) st less.prems(3)] obtain b1 where
        b1: "stores ?W1 p = Some b1" "?page dvd bs_byte_length b1" "bs_byte_length b \<le> bs_byte_length b1" .
      have lim: "old div ?page < lim" using False assms(1,2) by linarith
      then obtain sp2 env2 envs2 where e2: "envs1 = (sp2, env2) # envs2"
        using less.prems(6) e1 by (cases envs1) auto
      have sp2: "\<not> sp2" "only_grows ?page p env2" "fair_envs ?page p envs2"
        using f(2) e2 by (simp_all add: fair_envs_def)
      show ?thesis
      proof (cases "bs_byte_length b1 = old")
        case True
        then show ?thesis unfolding step1 using e2 b1(1) sp2(1) by (simp add: get_bs_def)
      next
        case neq: False
        let ?len = "bs_byte_length b1"
        have step2: "grow_run pf p d lim envs1 (GSwap old new) ?W1 = grow_run pf p d lim envs2 (GLoop ?len) (env2 ?W1)"
          using e2 b1(1) neq by (simp add: get_bs_def)
        have "old < ?len" using neq less.prems(4) b1(3) by linarith
        moreover have "old div ?page * ?page = old" "?len div ?page * ?page = ?len"
          using less.prems(2) b1(2) by simp_all
        ultimately have "old div ?page < ?len div ?page" using assms(3) by (metis mult_less_cancel2)
        then have m: "lim - ?len div ?page < lim - old div ?page" using lim by linarith
        from only_growsE [OF sp2(2) b1(1,2)] obtain b2 where
          b2: "stores (env2 ?W1) p = Some b2" "?page dvd bs_byte_length b2" "?len \<le> bs_byte_length b2" .
        have "2 * (lim - ?len div ?page) < length envs2" using m less.prems(6) e1 e2 by simp
        from less.hyps [OF m b2(1) b1(2) b2(2,3) sp2(3) this] show ?thesis
          unfolding step1 step2 .
      qed
    qed
  qed
qed

text \<open>
  C22: \<open>GrowWasmMemoryInPlace\<close> returns. When the exchange does not fail without reason and the
  other threads do nothing to the length between its steps but grow it by whole pages, the loop
  ends within twice the page limit plus one steps: every failed exchange is another call's
  success, and the limit bounds how many of those there can be.
\<close>

theorem GrowWasmMemoryInPlace_returns:
  assumes "0 < kWasmPageSize pf" and "stores W p = Some b" and "kWasmPageSize pf dvd bs_byte_length b"
    and "fair_envs (kWasmPageSize pf) p envs" and "2 * grow_limit pf b max_pages < length envs"
  shows "\<exists>r W'. GrowWasmMemoryInPlace pf p delta_pages max_pages envs W = Inr (r, W')"
proof -
  let ?lim = "grow_limit pf b max_pages"
  consider "delta_pages = 0" | "0 < delta_pages" "delta_pages > ?lim" | "0 < delta_pages" "delta_pages \<le> ?lim"
    by linarith
  then show ?thesis
  proof cases
    case 3
    have "2 * (?lim - bs_byte_length b div kWasmPageSize pf) < length envs" using assms(5) by linarith
    from grow_run_returns [OF 3 assms(1-3) assms(3) order_refl assms(4) this] show ?thesis
      using 3 assms(2) by (simp add: GrowWasmMemoryInPlace_def grow_begin_def get_bs_def Let_def)
  qed (use assms(2) in \<open>simp_all add: GrowWasmMemoryInPlace_def grow_begin_def get_bs_def Let_def\<close>)
qed

theorem GrowWasmMemoryInPlace_returns_witness:
  "\<exists>r W'. GrowWasmMemoryInPlace demo_pf 1 1 4 (replicate 9 (False, \<lambda>W. W)) (demo_world 65536 65536) = Inr (r, W')"
proof -
  have "0 < kWasmPageSize demo_pf" "stores (demo_world 65536 65536) 1 = Some (demo_bs 65536)"
    "kWasmPageSize demo_pf dvd bs_byte_length (demo_bs 65536)"
    "fair_envs (kWasmPageSize demo_pf) 1 (replicate 9 (False, \<lambda>W. W :: nat bsworld))"
    "2 * grow_limit demo_pf (demo_bs 65536) 4 < length (replicate 9 (False, \<lambda>W. W :: nat bsworld))"
    by (auto simp: demo_pf_def demo_world_def demo_bs_def grow_limit_def fair_envs_def only_grows_def)
  from GrowWasmMemoryInPlace_returns [OF this] show ?thesis .
qed

subsection \<open>The end of a shared buffer\<close>

lemma Unregister_engine: "Unregister p b W = Inr W' \<Longrightarrow> bs_engine W' = bs_engine W"
  by (auto simp: Unregister_def set_bs_def split: if_splits)

lemma free_memory_engine: "free_memory pf b W = Inr W' \<Longrightarrow> bs_engine W' = bs_engine W"
  unfolding free_memory_def FreeResizableMemory_def GetReservedRegion_def Let_def
  by (auto simp: bindE_eq_Inr split: if_splits type_specific_data.splits)

text \<open>
  C23: when a shared backing store is destroyed with the detector installed and enabled, its shadow
  goes with it and no other shadow does: whatever memory is later allocated at the same address
  starts with an empty shadow, so accesses to the old buffer are never reported as races with
  accesses to the new one. The sites already reported stay: at such an address a race on the new
  buffer is not reported.
\<close>

theorem destroyed_buffer_leaves_no_shadow:
  assumes "destroy_BackingStore pf True p W = Inr W'" and "stores W p = Some b"
    and "bs_is_shared b" and "buffer_start b \<noteq> 0"
    and "g_callbacks (bs_engine W) = webtsan_callbacks" and "enabled (fst (eng (bs_engine W)))"
  defines "D \<equiv> fst (eng (bs_engine W'))"
  shows "shadow_buffers D = (shadow_buffers (fst (eng (bs_engine W))))(buffer_start b := None) \<and>
    fst (GetOrCreateShadow (buffer_start b) n D) = new_ShadowBuffer (buffer_start b) n \<and>
    reported_race_sites D = reported_race_sites (fst (eng (bs_engine W))) \<and>
    thread_clocks D = thread_clocks (fst (eng (bs_engine W))) \<and> stores W' p = None"
proof -
  from assms(1,2) obtain W1 W2 where W: "Unregister p b W = Inr W1"
    "free_memory pf b (tsan_remove_shadow True b W1) = Inr W2" "W' = W2\<lparr>stores := (stores W2)(p := None)\<rparr>"
    by (auto simp: destroy_BackingStore_def get_bs_def bindE_eq_Inr)
  have "bs_engine W' = bs_engine (tsan_remove_shadow True b W1)"
    using free_memory_engine [OF W(2)] W(3) by simp
  moreover have "bs_engine W1 = bs_engine W" by (rule Unregister_engine [OF W(1)])
  ultimately have "D = RemoveShadow (buffer_start b) (fst (eng (bs_engine W)))"
    using assms(3-5) by (simp add: D_def tsan_remove_shadow_def webtsan_callbacks_def call_def)
  then show ?thesis
    using assms(6) W(3) by (simp add: RemoveShadow_def GetOrCreateShadow_def Let_def)
qed

text \<open>The memory of \<open>demo_world\<close> with a shadow, the detector installed.\<close>

definition demo_shadowed :: "nat bsworld" where
  "demo_shadowed = (demo_world 65536 65536)\<lparr>bs_engine := new_engine\<lparr>g_callbacks := webtsan_callbacks,
     eng := (new_WebTSan\<lparr>enabled := True, shadow_buffers := [4096 \<mapsto> new_ShadowBuffer 4096 65536]\<rparr>,
             init_tls)\<rparr>\<rparr>"

theorem destroyed_buffer_leaves_no_shadow_witness:
  "\<exists>W'. destroy_BackingStore demo_pf True 1 demo_shadowed = Inr W' \<and>
     shadow_buffers (fst (eng (bs_engine W'))) 4096 = None"
proof -
  have st: "stores demo_shadowed 1 = Some (demo_bs 65536)" "bs_is_shared (demo_bs 65536)"
    "buffer_start (demo_bs 65536) \<noteq> 0" "g_callbacks (bs_engine demo_shadowed) = webtsan_callbacks"
    "enabled (fst (eng (bs_engine demo_shadowed)))" "buffer_start (demo_bs 65536) = 4096"
    by (simp_all add: demo_shadowed_def demo_world_def demo_bs_def)
  have "get_bs 1 demo_shadowed = Inr (demo_bs 65536)" using st(1) by (simp add: get_bs_def)
  moreover have "Unregister 1 (demo_bs 65536) demo_shadowed = Inr demo_shadowed"
    by (simp add: Unregister_def demo_bs_def)
  moreover have "\<exists>W'. free_memory demo_pf (demo_bs 65536) W = Inr W'" for W :: "nat bsworld"
    by (simp add: free_memory_def get_shared_wasm_memory_data_def demo_bs_def Let_def)
  ultimately have "\<exists>W'. destroy_BackingStore demo_pf True 1 demo_shadowed = Inr W'"
    by (fastforce simp: destroy_BackingStore_def bindE_eq_Inr)
  then obtain W' where W': "destroy_BackingStore demo_pf True 1 demo_shadowed = Inr W'" by blast
  from destroyed_buffer_leaves_no_shadow [OF this st(1-5)] st(6) W' show ?thesis by auto
qed

subsection \<open>Resizing\<close>

text \<open>
  C25: shrinking a resizable buffer zeroes the part it gives up before it asks for the pages back.
  If the platform then refuses, \<open>ResizeInPlace\<close> reports failure and the buffer keeps its length,
  but the bytes beyond the length that was asked for are gone.
\<close>

theorem failed_shrink_zeroes:
  assumes "stores W p = Some b" and "n < bs_byte_length b"
    and "rounded_pages pf n = Inr new_pages" and "rounded_pages pf (bs_byte_length b) = Inr old_pages"
    and "new_pages < old_pages"
    and "\<not> fst (SetPermissions pf (buffer_start b + size_t (new_pages * AllocatePageSize pf))
      (size_t (old_pages * AllocatePageSize pf) - size_t (new_pages * AllocatePageSize pf)) kNoAccess (os W))"
  shows "\<exists>W'. ResizeInPlace pf p n W = Inr (kFailure, W') \<and> stores W' p = Some b \<and>
    (\<forall>a. bytes W' a = (if buffer_start b + n \<le> a \<and> a < buffer_start b + bs_byte_length b then 0
      else bytes W a))"
proof -
  obtain os1 where P: "SetPermissions pf (buffer_start b + size_t (new_pages * AllocatePageSize pf))
      (size_t (old_pages * AllocatePageSize pf) - size_t (new_pages * AllocatePageSize pf)) kNoAccess (os W) =
      (False, os1)"
    using assms(6) by (metis prod.collapse)
  let ?W1 = "memset0 (buffer_start b + n) (bs_byte_length b - n) W"
  have "os ?W1 = os W" by (simp add: memset0_def)
  with P have "ResizeInPlace pf p n W = Inr (kFailure, ?W1\<lparr>os := os1\<rparr>)"
    using assms(1-5) by (simp add: ResizeInPlace_def get_bs_def Let_def)
  moreover have "buffer_start b + n + (bs_byte_length b - n) = buffer_start b + bs_byte_length b"
    using assms(2) by simp
  ultimately show ?thesis using assms(1) by (intro exI [of _ "?W1\<lparr>os := os1\<rparr>"]) (simp add: memset0_def)
qed

text \<open>A platform on which access cannot be taken away.\<close>

definition stubborn_pf :: "nat platform" where
  "stubborn_pf = demo_pf\<lparr>SetPermissions := (\<lambda>a n perm s. (perm = kReadWrite, s))\<rparr>"

theorem failed_shrink_zeroes_witness:
  "\<exists>W'. ResizeInPlace stubborn_pf 1 4096 ((demo_world 65536 65536)\<lparr>bytes := (\<lambda>_. 7)\<rparr>) = Inr (kFailure, W') \<and>
     stores W' 1 = Some (demo_bs 65536) \<and> bytes W' 8192 = 0 \<and> bytes W' 8191 = 7"
proof -
  let ?W = "(demo_world 65536 65536)\<lparr>bytes := (\<lambda>_. 7)\<rparr>"
  have "stores ?W 1 = Some (demo_bs 65536)" "4096 < bs_byte_length (demo_bs 65536)"
    "rounded_pages stubborn_pf 4096 = Inr 1"
    "rounded_pages stubborn_pf (bs_byte_length (demo_bs 65536)) = Inr 16" "(1 :: nat) < 16"
    by (simp_all add: demo_world_def demo_bs_def rounded_pages_def stubborn_pf_def demo_pf_def)
  from failed_shrink_zeroes [OF this] obtain W' where
    "ResizeInPlace stubborn_pf 1 4096 ?W = Inr (kFailure, W')" "stores W' 1 = Some (demo_bs 65536)"
    "\<forall>a. bytes W' a = (if buffer_start (demo_bs 65536) + 4096 \<le> a \<and>
       a < buffer_start (demo_bs 65536) + bs_byte_length (demo_bs 65536) then 0 else bytes ?W a)"
    by (auto simp: stubborn_pf_def demo_pf_def)
  moreover have "buffer_start (demo_bs 65536) = 4096" "bs_byte_length (demo_bs 65536) = 65536"
    by (simp_all add: demo_bs_def)
  ultimately show ?thesis by (intro exI [of _ W']) (simp add: demo_world_def)
qed

subsection \<open>The isolates that share a memory\<close>

definition isolates_ok :: "nat option list \<Rightarrow> bool" where
  "isolates_ok xs \<longleftrightarrow> distinct xs \<and> None \<notin> set xs"

lemma last_null_none: "None \<notin> set xs \<Longrightarrow> last_null xs k f = f"
  by (induction xs arbitrary: k) auto

lemma add_isolate_ok:
  "isolates_ok xs \<Longrightarrow> isolates_ok (add_isolate i xs) \<and> set (add_isolate i xs) = insert (Some i) (set xs)"
  by (auto simp: isolates_ok_def add_isolate_def last_null_none)

lemma purge_isolate_ok:
  "isolates_ok xs \<Longrightarrow> isolates_ok (purge_isolate i xs) \<and> set (purge_isolate i xs) = set xs - {Some i}"
proof (induction xs)
  case (Cons x xs)
  show ?case
  proof (cases "x = Some i")
    case True
    show ?thesis
    proof (cases xs rule: rev_cases)
      case (snoc ys y)
      with True Cons.prems show ?thesis by (auto simp: isolates_ok_def)
    qed (use True in \<open>simp add: isolates_ok_def\<close>)
  next
    case False
    with Cons show ?thesis by (auto simp: isolates_ok_def)
  qed
qed (simp add: isolates_ok_def)

text \<open>\<open>shares W p A\<close>: the memory \<open>p\<close> is shared by the isolates \<open>A\<close>, each listed once.\<close>

definition shares :: "'os bsworld \<Rightarrow> bs_ptr \<Rightarrow> nat set \<Rightarrow> bool" where
  "shares W p A \<longleftrightarrow> (\<exists>b xs. stores W p = Some b \<and> is_wasm_memory b \<and> bs_is_shared b \<and>
     specific b = SharedWasmMemoryData xs \<and> isolates_ok xs \<and> set xs = Some ` A)"

text \<open>Every live store in the registry is a WebAssembly memory, with its list if it is shared.\<close>

definition registry_ok :: "'os bsworld \<Rightarrow> bool" where
  "registry_ok W \<longleftrightarrow> finite {a. registry W a \<noteq> None} \<and>
     (\<forall>a q b. registry W a = Some q \<longrightarrow> stores W q = Some b \<longrightarrow> is_wasm_memory b \<and>
        (bs_is_shared b \<longrightarrow> (\<exists>xs. specific b = SharedWasmMemoryData xs)))"

lemma purge_step:
  assumes "registry_ok W" and "registry W a = Some q" and "shares W p A"
  shows "\<exists>W'. purge_entry i q W = Inr W' \<and> registry_ok W' \<and> registry W' = registry W \<and>
    memory_objects W' = memory_objects W \<and> shares W' p (if q = p then A - {i} else A)"
proof (cases "\<exists>b. stores W q = Some b \<and> bs_is_shared b")
  case True
  then obtain b where b: "stores W q = Some b" "bs_is_shared b" by blast
  from assms(1,2) b obtain xs where xs: "is_wasm_memory b" "specific b = SharedWasmMemoryData xs"
    unfolding registry_ok_def by blast
  let ?b = "b\<lparr>specific := SharedWasmMemoryData (purge_isolate i xs)\<rparr>"
  have "purge_entry i q W = Inr (set_bs q ?b W)"
    using b xs by (simp add: purge_entry_def get_shared_wasm_memory_data_def)
  moreover have "registry_ok (set_bs q ?b W)"
    using assms(1) xs(1) by (auto simp: registry_ok_def set_bs_def)
  moreover have "shares (set_bs q ?b W) p (if q = p then A - {i} else A)"
  proof (cases "q = p")
    case True
    with assms(3) b(1) xs(2) have "isolates_ok xs" "set xs = Some ` A" by (auto simp: shares_def)
    with purge_isolate_ok [of xs i] have "isolates_ok (purge_isolate i xs)"
      "set (purge_isolate i xs) = Some ` (A - {i})" by auto
    with True b(2) xs(1) show ?thesis by (auto simp: shares_def set_bs_def)
  qed (use assms(3) in \<open>simp add: shares_def set_bs_def\<close>)
  ultimately show ?thesis by (auto simp: set_bs_def)
next
  case False
  then have "q \<noteq> p" using assms(3) by (auto simp: shares_def)
  moreover have "purge_entry i q W = Inr W"
    using False assms(1,2) by (auto simp: purge_entry_def registry_ok_def split: option.splits)
  ultimately show ?thesis using assms(1,3) by simp
qed

lemma purge_run:
  assumes "registry_ok W" and "\<And>q. q \<in> set qs \<Longrightarrow> \<exists>a. registry W a = Some q" and "shares W p A"
  shows "\<exists>W'. runE (purge_entry i) qs W = Inr W' \<and> registry_ok W' \<and> registry W' = registry W \<and>
    memory_objects W' = memory_objects W \<and> shares W' p (if p \<in> set qs then A - {i} else A)"
  using assms
proof (induction qs arbitrary: W A)
  case (Cons q qs)
  from Cons.prems(2) [of q] obtain a where "registry W a = Some q" by auto
  from purge_step [OF Cons.prems(1) this Cons.prems(3), of i] obtain W1 where
    W1: "purge_entry i q W = Inr W1" "registry_ok W1" "registry W1 = registry W"
      "memory_objects W1 = memory_objects W" "shares W1 p (if q = p then A - {i} else A)" by blast
  have "\<And>q. q \<in> set qs \<Longrightarrow> \<exists>a. registry W1 a = Some q" using Cons.prems(2) W1(3) by simp
  from Cons.IH [OF W1(2) this W1(5)] obtain W' where
    W': "runE (purge_entry i) qs W1 = Inr W'" "registry_ok W'" "registry W' = registry W1"
      "memory_objects W' = memory_objects W1"
      "shares W' p (if p \<in> set qs then (if q = p then A - {i} else A) - {i} else if q = p then A - {i} else A)"
    by blast
  have "(if p \<in> set qs then (if q = p then A - {i} else A) - {i} else if q = p then A - {i} else A) =
      (if p \<in> set (q # qs) then A - {i} else A)" by auto
  with W1 W' show ?case by auto
qed simp

lemma Purge_shares:
  assumes "registry_ok W" and "registry W a = Some p" and "shares W p A"
  shows "\<exists>W'. Purge i W = Inr W' \<and> registry_ok W' \<and> registry W' = registry W \<and>
    memory_objects W' = memory_objects W \<and> shares W' p (A - {i})"
proof -
  let ?K = "{a. registry W a \<noteq> None}"
  let ?qs = "map (\<lambda>a. the (registry W a)) (sorted_list_of_set ?K)"
  have K: "set (sorted_list_of_set ?K) = ?K" using assms(1) by (simp add: registry_ok_def)
  have "\<exists>a. registry W a = Some q" if "q \<in> set ?qs" for q using that K by auto
  moreover have "a \<in> ?K" "the (registry W a) = p" using assms(2) by simp_all
  then have "p \<in> set ?qs" using K by (metis image_eqI list.set_map)
  ultimately show ?thesis using purge_run [OF assms(1) _ assms(3), of ?qs i] by (auto simp: Purge_def)
qed

lemma AddShared_shares:
  assumes "registry_ok W" and "shares W p A"
  shows "\<exists>W'. AddSharedWasmMemoryObject i p m W = Inr W' \<and> registry_ok W' \<and>
    registry W' = registry W \<and> memory_objects W' = memory_objects W \<and> shares W' p (insert i A)"
proof -
  from assms(2) obtain b xs where b: "stores W p = Some b" "is_wasm_memory b" "bs_is_shared b"
    "specific b = SharedWasmMemoryData xs" "isolates_ok xs" "set xs = Some ` A"
    unfolding shares_def by blast
  let ?W1 = "W\<lparr>shared_wasm_memories := (shared_wasm_memories W)(i := shared_wasm_memories W i @ [Some m])\<rparr>"
  let ?b = "b\<lparr>specific := SharedWasmMemoryData (add_isolate i xs)\<rparr>"
  have "AddSharedWasmMemoryObject i p m W = Inr (set_bs p ?b ?W1)"
    using b by (simp add: AddSharedWasmMemoryObject_def get_bs_def get_shared_wasm_memory_data_def Let_def)
  moreover have "registry_ok (set_bs p ?b ?W1)"
    using assms(1) b(2) by (auto simp: registry_ok_def set_bs_def)
  moreover have "shares (set_bs p ?b ?W1) p (insert i A)"
    using add_isolate_ok [OF b(5), of i] b by (auto simp: shares_def set_bs_def)
  ultimately show ?thesis by (auto simp: set_bs_def)
qed

text \<open>Isolates attach memory objects to the memory and leave.\<close>

datatype sharing = Attach nat nat | Leave nat

fun sharing_step :: "bs_ptr \<Rightarrow> sharing \<Rightarrow> 'os bsworld \<Rightarrow> 'os bsworld result" where
  "sharing_step p (Attach i m) W = AddSharedWasmMemoryObject i p m W"
| "sharing_step p (Leave i) W = Purge i W"

fun members :: "sharing list \<Rightarrow> nat set \<Rightarrow> nat set" where
  "members [] A = A"
| "members (Attach i m # ops) A = members ops (insert i A)"
| "members (Leave i # ops) A = members ops (A - {i})"

lemma sharing_run:
  assumes "registry_ok W" and "registry W a = Some p" and "shares W p A"
  shows "\<exists>W'. runE (sharing_step p) ops W = Inr W' \<and> shares W' p (members ops A) \<and>
    memory_objects W' = memory_objects W"
  using assms
proof (induction ops A arbitrary: W rule: members.induct)
  case (1 A)
  then show ?case by simp
next
  case (2 i m ops A)
  from AddShared_shares [OF "2.prems"(1,3), of i m] obtain W1 where
    W1: "AddSharedWasmMemoryObject i p m W = Inr W1" "registry_ok W1" "registry W1 = registry W"
      "memory_objects W1 = memory_objects W" "shares W1 p (insert i A)" by blast
  from "2.IH" [OF W1(2) _ W1(5)] "2.prems"(2) W1 show ?case by auto
next
  case (3 i ops A)
  from Purge_shares [OF "3.prems", of i] obtain W1 where
    W1: "Purge i W = Inr W1" "registry_ok W1" "registry W1 = registry W"
      "memory_objects W1 = memory_objects W" "shares W1 p (A - {i})" by blast
  from "3.IH" [OF W1(2) _ W1(5)] "3.prems"(2) W1 show ?case by auto
qed

lemma request_grow_run:
  assumes "None \<notin> set xs"
  shows "runE (request_grow i) xs W =
    Inr (W\<lparr>grow_requests := grow_requests W @ filter (\<lambda>j. j \<noteq> i) (map the xs)\<rparr>)"
  using assms
proof (induction xs arbitrary: W)
  case (Cons x xs)
  then obtain j where "x = Some j" by (cases x) auto
  with Cons show ?case by (simp add: request_grow_def)
qed simp

lemma update_memory_objects_run:
  assumes "\<And>m. stores W (mo_store (memory_objects W m)) \<noteq> None"
  shows "\<exists>W'. runE update_memory_object objs W = Inr W' \<and> grow_requests W' = grow_requests W"
  using assms
proof (induction objs arbitrary: W)
  case (Cons obj objs)
  have "\<exists>W1. update_memory_object obj W = Inr W1 \<and> grow_requests W1 = grow_requests W \<and>
      stores W1 = stores W \<and> (\<forall>m. mo_store (memory_objects W1 m) = mo_store (memory_objects W m))"
  proof (cases obj)
    case (Some m)
    obtain b where "stores W (mo_store (memory_objects W m)) = Some b" using Cons.prems by blast
    with Some show ?thesis
      by (auto simp: update_memory_object_def Let_def get_bs_def split: option.split)
  qed (simp add: update_memory_object_def)
  then obtain W1 where W1: "update_memory_object obj W = Inr W1" "grow_requests W1 = grow_requests W"
    "stores W1 = stores W" "\<And>m. mo_store (memory_objects W1 m) = mo_store (memory_objects W m)" by blast
  have "\<And>m. stores W1 (mo_store (memory_objects W1 m)) \<noteq> None" using Cons.prems W1(3,4) by simp
  from Cons.IH [OF this] W1(1,2) show ?case by auto
qed simp

text \<open>
  C24: a grow of a shared memory is announced to exactly the isolates that share it. After any
  sequence of isolates attaching memory objects and leaving, the broadcast by isolate \<open>i\<close> asks each
  isolate that has attached since it last left, other than \<open>i\<close> itself, once to update its
  objects, and no other; neither the bookkeeping nor the broadcast can fail.
\<close>

theorem broadcast_reaches_the_others:
  assumes "registry_ok W0" and "registry W0 a = Some p" and "shares W0 p A"
    and "\<And>m. mo_store (memory_objects W0 m) = p"
  shows "\<exists>W W' rs. runE (sharing_step p) ops W0 = Inr W \<and>
    BroadcastSharedWasmMemoryGrow i p W = Inr W' \<and> grow_requests W' = grow_requests W @ rs \<and>
    distinct rs \<and> set rs = members ops A - {i}"
proof -
  from sharing_run [OF assms(1-3), of ops] obtain W where
    W: "runE (sharing_step p) ops W0 = Inr W" "shares W p (members ops A)"
      "memory_objects W = memory_objects W0" by blast
  from W(2) obtain b xs where b: "stores W p = Some b" "is_wasm_memory b" "bs_is_shared b"
    "specific b = SharedWasmMemoryData xs" "isolates_ok xs" "set xs = Some ` members ops A"
    unfolding shares_def by blast
  let ?rs = "filter (\<lambda>j. j \<noteq> i) (map the xs)"
  let ?W1 = "W\<lparr>grow_requests := grow_requests W @ ?rs\<rparr>"
  have run: "runE (request_grow i) xs W = Inr ?W1"
    using b(5) by (intro request_grow_run) (simp add: isolates_ok_def)
  have "\<And>m. stores ?W1 (mo_store (memory_objects ?W1 m)) \<noteq> None" using b(1) W(3) assms(4) by simp
  from update_memory_objects_run [OF this, of "shared_wasm_memories ?W1 i"] obtain W' where
    "UpdateSharedWasmMemoryObjects i ?W1 = Inr W'" "grow_requests W' = grow_requests ?W1"
    by (auto simp: UpdateSharedWasmMemoryObjects_def)
  then have "BroadcastSharedWasmMemoryGrow i p W = Inr W'" "grow_requests W' = grow_requests W @ ?rs"
    using b run by (simp_all add: BroadcastSharedWasmMemoryGrow_def get_bs_def get_shared_wasm_memory_data_def)
  moreover have "inj_on the (set xs)" using b(6) by (auto simp: inj_on_def)
  then have "distinct ?rs" using b(5) by (simp add: isolates_ok_def distinct_map)
  moreover have "set ?rs = members ops A - {i}" using b(6) by force
  ultimately show ?thesis using W(1) by blast
qed

theorem broadcast_reaches_the_others_witness:
  "\<exists>W W' rs. runE (sharing_step 1) [Attach 3 7, Leave 1] ((demo_world 65536 65536)\<lparr>registry := [4096 \<mapsto> 1]\<rparr>) =
       Inr W \<and> BroadcastSharedWasmMemoryGrow 3 1 W = Inr W' \<and> grow_requests W' = grow_requests W @ rs \<and>
     distinct rs \<and> set rs = {2}"
proof -
  let ?W = "(demo_world 65536 65536)\<lparr>registry := [4096 \<mapsto> 1]\<rparr>"
  have r: "registry_ok ?W" "registry ?W 4096 = Some 1" "\<And>m. mo_store (memory_objects ?W m) = 1"
    by (auto simp: registry_ok_def demo_world_def demo_bs_def split: if_splits)
  have "shares ?W 1 {1, 2}"
    by (simp add: shares_def demo_world_def demo_bs_def isolates_ok_def)
  from broadcast_reaches_the_others [OF r(1,2) this r(3), of "[Attach 3 7, Leave 1]" 3]
  have "\<exists>W W' rs. runE (sharing_step 1) [Attach 3 7, Leave 1] ?W = Inr W \<and>
      BroadcastSharedWasmMemoryGrow 3 1 W = Inr W' \<and> grow_requests W' = grow_requests W @ rs \<and>
      distinct rs \<and> set rs = members [Attach 3 7, Leave 1] {1, 2} - {3}" .
  moreover have "members [Attach 3 7, Leave 1] {1, 2} - {3} = {2 :: nat}" by auto
  ultimately show ?thesis by metis
qed

end
