(* ===== verification/Ieee.thy ===== *)
theory Ieee
  imports Prelude
begin

text \<open>
  Binary floating point as the C++ sources use it: IEEE 754 \<open>float\<close> and \<open>double\<close> with the default
  rounding mode. A bit pattern is a natural number; \<open>fdecode\<close> reads it, \<open>fencode\<close> rounds to the
  nearest pattern, ties to even. An operation decodes its arguments, computes exactly and encodes.
  C++ leaves the bits of a produced NaN open; here it is the quiet NaN with no payload.
\<close>

subsection \<open>Formats\<close>

record fmt =
  exp_bits :: nat
  man_bits :: nat

definition f32 :: fmt where
  "f32 = \<lparr>exp_bits = 8, man_bits = 23\<rparr>"

definition f64 :: fmt where
  "f64 = \<lparr>exp_bits = 11, man_bits = 52\<rparr>"

lemma f32_simps [simp]: "exp_bits f32 = 8" "man_bits f32 = 23"
  by (simp_all add: f32_def)

lemma f64_simps [simp]: "exp_bits f64 = 11" "man_bits f64 = 52"
  by (simp_all add: f64_def)

text \<open>\<open>FFin s m k\<close> is \<open>(- 1) ^ s * m * 2 ^ k\<close>.\<close>

datatype fval = FNaN | FInf bool | FFin bool nat int

text \<open>The exponent of the last place of subnormal numbers.\<close>

definition emin :: "fmt \<Rightarrow> int" where
  "emin f = 2 - 2 ^ (exp_bits f - 1) - int (man_bits f)"

lemma emin_simps [simp]: "emin f32 = - 149" "emin f64 = - 1074"
  by (simp_all add: emin_def)

definition inf_bits :: "fmt \<Rightarrow> nat" where
  "inf_bits f = (2 ^ exp_bits f - 1) * 2 ^ man_bits f"

definition sign_bits :: "fmt \<Rightarrow> bool \<Rightarrow> nat" where
  "sign_bits f s = (if s then 2 ^ (exp_bits f + man_bits f) else 0)"

definition fmagnitude :: "fmt \<Rightarrow> bool \<Rightarrow> nat \<Rightarrow> fval" where
  "fmagnitude f s n =
     (let e = n div 2 ^ man_bits f; m = n mod 2 ^ man_bits f in
      if e = 2 ^ exp_bits f - 1 then (if m = 0 then FInf s else FNaN)
      else if e = 0 then FFin s m (emin f)
      else FFin s (2 ^ man_bits f + m) (emin f + int e - 1))"

definition fdecode :: "fmt \<Rightarrow> nat \<Rightarrow> fval" where
  "fdecode f n = (let w = exp_bits f + man_bits f
                  in fmagnitude f (odd (n div 2 ^ w)) (n mod 2 ^ w))"

subsection \<open>Rounding\<close>

fun bit_length :: "nat \<Rightarrow> nat" where
  "bit_length n = (if n = 0 then 0 else Suc (bit_length (n div 2)))"

declare bit_length.simps [simp del]

text \<open>\<open>m / 2 ^ k\<close>, rounded to the nearest integer, ties to even.\<close>

definition rne :: "nat \<Rightarrow> nat \<Rightarrow> nat" where
  "rne m k =
     (let q = m div 2 ^ k; r = m mod 2 ^ k in
      if 2 * r > 2 ^ k \<or> (2 * r = 2 ^ k \<and> odd q) then q + 1 else q)"

text \<open>\<open>m * 2 ^ k\<close> in units of \<open>2 ^ e\<close>, rounded.\<close>

definition scaled :: "nat \<Rightarrow> int \<Rightarrow> int \<Rightarrow> nat" where
  "scaled m k e = (if e \<le> k then m * 2 ^ nat (k - e) else rne m (nat (e - k)))"

definition ulp_exp :: "fmt \<Rightarrow> nat \<Rightarrow> int \<Rightarrow> int" where
  "ulp_exp f m k = max (k + int (bit_length m) - int (man_bits f) - 1) (emin f)"

text \<open>
  The pattern of the magnitude \<open>m * 2 ^ k\<close>. A significand that rounds up to the next power of two
  carries into the exponent field by itself; a magnitude too large becomes infinity.
\<close>

definition fround :: "fmt \<Rightarrow> nat \<Rightarrow> int \<Rightarrow> nat" where
  "fround f m k =
     (if m = 0 then 0
      else let e = ulp_exp f m k
           in min (nat (e - emin f) * 2 ^ man_bits f + scaled m k e) (inf_bits f))"

definition fencode :: "fmt \<Rightarrow> fval \<Rightarrow> nat" where
  "fencode f v =
     (case v of
        FNaN \<Rightarrow> inf_bits f + 2 ^ (man_bits f - 1)
      | FInf s \<Rightarrow> sign_bits f s + inf_bits f
      | FFin s m k \<Rightarrow> sign_bits f s + fround f m k)"

subsection \<open>Operations\<close>

datatype round_mode = Trunc | Floor | Ceil | NearbyInt

text \<open>Rounding to an integral value keeps the sign, so -0.5 becomes -0.\<close>

definition round_integral :: "round_mode \<Rightarrow> bool \<Rightarrow> nat \<Rightarrow> nat \<Rightarrow> nat" where
  "round_integral md s m k =
     (let q = m div 2 ^ k; r = m mod 2 ^ k in
      case md of
        Trunc \<Rightarrow> q
      | Floor \<Rightarrow> if s \<and> r \<noteq> 0 then q + 1 else q
      | Ceil \<Rightarrow> if \<not> s \<and> r \<noteq> 0 then q + 1 else q
      | NearbyInt \<Rightarrow> rne m k)"

definition fintegral :: "fmt \<Rightarrow> round_mode \<Rightarrow> nat \<Rightarrow> nat" where
  "fintegral f md n =
     (case fdecode f n of
        FFin s m k \<Rightarrow> if 0 \<le> k then n else fencode f (FFin s (round_integral md s m (nat (- k))) 0)
      | _ \<Rightarrow> n)"

definition fsigned :: "bool \<Rightarrow> nat \<Rightarrow> int" where
  "fsigned s m = (if s then - int m else int m)"

fun fless :: "fval \<Rightarrow> fval \<Rightarrow> bool" where
  "fless FNaN v = False"
| "fless (FInf s) v = (s \<and> v \<noteq> FNaN \<and> v \<noteq> FInf True)"
| "fless (FFin s m k) FNaN = False"
| "fless (FFin s m k) (FInf t) = (\<not> t)"
| "fless (FFin s m k) (FFin t n l) =
     (fsigned s m * 2 ^ nat (k - min k l) < fsigned t n * 2 ^ nat (l - min k l))"

fun feq :: "fval \<Rightarrow> fval \<Rightarrow> bool" where
  "feq FNaN v = False"
| "feq (FInf s) v = (v = FInf s)"
| "feq (FFin s m k) (FFin t n l) =
     (fsigned s m * 2 ^ nat (k - min k l) = fsigned t n * 2 ^ nat (l - min k l))"
| "feq (FFin s m k) v = False"

fun fmul :: "fval \<Rightarrow> fval \<Rightarrow> fval" where
  "fmul FNaN v = FNaN"
| "fmul v FNaN = FNaN"
| "fmul (FInf s) (FInf t) = FInf (s \<noteq> t)"
| "fmul (FInf s) (FFin t n l) = (if n = 0 then FNaN else FInf (s \<noteq> t))"
| "fmul (FFin s m k) (FInf t) = (if m = 0 then FNaN else FInf (s \<noteq> t))"
| "fmul (FFin s m k) (FFin t n l) = FFin (s \<noteq> t) (m * n) (k + l)"

fun fadd :: "fval \<Rightarrow> fval \<Rightarrow> fval" where
  "fadd FNaN v = FNaN"
| "fadd v FNaN = FNaN"
| "fadd (FInf s) (FInf t) = (if s = t then FInf s else FNaN)"
| "fadd (FInf s) (FFin t n l) = FInf s"
| "fadd (FFin s m k) (FInf t) = FInf t"
| "fadd (FFin s m k) (FFin t n l) =
     (let e = min k l;
          x = fsigned s m * 2 ^ nat (k - e) + fsigned t n * 2 ^ nat (l - e)
      in if x = 0 then FFin (s \<and> t) 0 0 else FFin (x < 0) (nat \<bar>x\<bar>) e)"

fun fneg :: "fval \<Rightarrow> fval" where
  "fneg FNaN = FNaN"
| "fneg (FInf s) = FInf (\<not> s)"
| "fneg (FFin s m k) = FFin (\<not> s) m k"

fun fabs_val :: "fval \<Rightarrow> fval" where
  "fabs_val FNaN = FNaN"
| "fabs_val (FInf s) = FInf False"
| "fabs_val (FFin s m k) = FFin False m k"

text \<open>Conversions from and to integers; the latter truncates.\<close>

definition of_integer :: "int \<Rightarrow> fval" where
  "of_integer i = FFin (i < 0) (nat \<bar>i\<bar>) 0"

definition truncated :: "bool \<Rightarrow> nat \<Rightarrow> int \<Rightarrow> int" where
  "truncated s m k = fsigned s (if 0 \<le> k then m * 2 ^ nat k else m div 2 ^ nat (- k))"

text \<open>The square root, correctly rounded: enough digits of it and a sticky one.\<close>

fun isqrt :: "nat \<Rightarrow> nat" where
  "isqrt n = (if n = 0 then 0
              else let r = 2 * isqrt (n div 4) in if (r + 1) * (r + 1) \<le> n then r + 1 else r)"

declare isqrt.simps [simp del]

definition fsqrt :: "fmt \<Rightarrow> fval \<Rightarrow> fval" where
  "fsqrt f v =
     (case v of
        FNaN \<Rightarrow> FNaN
      | FInf s \<Rightarrow> if s then FNaN else FInf False
      | FFin s m k \<Rightarrow>
          if m = 0 then FFin s 0 k
          else if s then FNaN
          else let d = 2 * (man_bits f + 3) + (if even k then 0 else 1);
                   r = isqrt (m * 2 ^ d)
               in FFin False (2 * r + (if r * r = m * 2 ^ d then 0 else 1)) ((k - int d) div 2 - 1))"

subsection \<open>Lemmas on rounding\<close>

lemma bit_length_0 [simp]: "bit_length 0 = 0"
  by (simp add: bit_length.simps)

lemma bit_length_le_iff: "bit_length n \<le> k \<longleftrightarrow> n < 2 ^ k"
proof (induction n arbitrary: k rule: bit_length.induct)
  case (1 n)
  show ?case
  proof (cases "n = 0")
    case True
    then show ?thesis by simp
  next
    case nz: False
    then have "bit_length n = Suc (bit_length (n div 2))"
      by (subst bit_length.simps) simp
    then show ?thesis
    proof (cases k)
      case 0
      with nz \<open>bit_length n = _\<close> show ?thesis by simp
    next
      case (Suc j)
      with \<open>bit_length n = _\<close> have "bit_length n \<le> k \<longleftrightarrow> n div 2 < 2 ^ j"
        using "1.IH" [OF nz] by simp
      also have "\<dots> \<longleftrightarrow> n < 2 ^ k"
        by (simp add: Suc div_less_iff_less_mult mult.commute)
      finally show ?thesis .
    qed
  qed
qed

lemma bit_length_eqI: "\<lbrakk>2 ^ k \<le> n; n < 2 ^ Suc k\<rbrakk> \<Longrightarrow> bit_length n = Suc k"
  by (meson bit_length_le_iff le_antisym not_less not_less_eq_eq)

lemma bit_length_bounds: "0 < n \<Longrightarrow> 2 ^ (bit_length n - 1) \<le> n \<and> n < 2 ^ bit_length n"
  by (metis bit_length_le_iff diff_less less_irrefl not_less order_refl zero_less_one
      bit_length_0 bot_nat_0.not_eq_extremum power_0 less_one)

lemma bit_length_shift:
  assumes "0 < n"
  shows "bit_length (n * 2 ^ j) = bit_length n + j"
proof -
  obtain k where k: "bit_length n = Suc k"
    using assms bit_length_le_iff [of n 0] not0_implies_Suc by auto
  with bit_length_bounds [OF assms] have "2 ^ k \<le> n" "n < 2 ^ Suc k" by simp_all
  then have "2 ^ (k + j) \<le> n * 2 ^ j" "n * 2 ^ j < 2 ^ Suc (k + j)"
    by (simp_all add: power_add)
  with k show ?thesis by (simp add: bit_length_eqI)
qed

lemma rne_0 [simp]: "rne m 0 = m"
  by (simp add: rne_def)

lemma rne_shift: "rne (m * 2 ^ j) (k + j) = rne m k"
proof -
  have "m * 2 ^ j div 2 ^ (k + j) = m div 2 ^ k"
    by (metis div_mult_mult2 power_add power_not_zero zero_neq_numeral)
  moreover have "m * 2 ^ j mod 2 ^ (k + j) = (m mod 2 ^ k) * 2 ^ j"
    by (simp add: power_add mult_mod_left)
  moreover have "2 ^ (k + j) < 2 * (r * 2 ^ j) \<longleftrightarrow> 2 ^ k < 2 * r"
    "2 * (r * 2 ^ j) = 2 ^ (k + j) \<longleftrightarrow> 2 * r = 2 ^ k" for r :: nat
    by (simp_all add: power_add mult.assoc [symmetric])
  ultimately show ?thesis by (simp add: rne_def Let_def)
qed

lemma rne_exact: "rne (m * 2 ^ k) k = m"
  using rne_shift [of m k 0] by simp

text \<open>All bits below the rounding bit can be gathered in one.\<close>

lemma rne_sticky:
  assumes low: "m mod 2 ^ a \<noteq> 0" and d: "0 < d"
  shows "rne m (a + d) = rne (2 * (m div 2 ^ a) + 1) (d + 1)"
proof -
  define x where "x = m div 2 ^ a"
  define y where "y = m mod 2 ^ a"
  define q where "q = x div 2 ^ d"
  define r where "r = x mod 2 ^ d"
  define P :: nat where "P = 2 ^ a"
  obtain c where c: "d = Suc c" using d by (cases d) simp_all
  define D :: nat where "D = 2 ^ c"
  have y: "0 < y" "y < P" using low by (simp_all add: y_def P_def)
  have mq: "m div 2 ^ (a + d) = q"
    by (simp add: q_def x_def power_add div_mult2_eq)
  have mr: "m mod 2 ^ (a + d) = r * P + y"
    by (simp add: r_def x_def y_def P_def power_add mod_mult2_eq mult.commute)
  have xq: "(2 * x + 1) div 2 ^ (d + 1) = q"
    by (simp add: q_def div_mult2_eq)
  have xr: "(2 * x + 1) mod 2 ^ (d + 1) = 2 * r + 1"
    by (simp add: r_def mod_mult2_eq)
  have up: "2 * (r * P + y) > 2 ^ (a + d) \<longleftrightarrow> r \<ge> D" and ne: "2 * (r * P + y) \<noteq> 2 ^ (a + d)"
  proof -
    have pw: "2 ^ (a + d) = 2 * (D * P)" by (simp add: c D_def P_def power_add mult.commute)
    have "r \<ge> D \<Longrightarrow> r * P + y > D * P" using y mult_le_mono1 [of D r P] by linarith
    moreover have "r < D \<Longrightarrow> r * P + y < D * P"
    proof -
      assume "r < D"
      then have "(r + 1) * P \<le> D * P" by (intro mult_le_mono1) simp
      with y show ?thesis by simp
    qed
    ultimately have "r * P + y > D * P \<and> D \<le> r \<or> r * P + y < D * P \<and> r < D"
      by (cases "r < D") simp_all
    then show "2 * (r * P + y) > 2 ^ (a + d) \<longleftrightarrow> r \<ge> D" "2 * (r * P + y) \<noteq> 2 ^ (a + d)"
      unfolding pw by (elim disjE; simp)+
  qed
  have up': "2 * (2 * r + 1) > 2 ^ (d + 1) \<longleftrightarrow> r \<ge> D" and ne': "2 * (2 * r + 1) \<noteq> 2 ^ (d + 1)"
    by (simp_all add: c D_def) presburger+
  show ?thesis
    unfolding rne_def Let_def mq mr x_def [symmetric] xq xr
    using up ne up' ne' by auto
qed

text \<open>Rounding depends on the value only.\<close>

lemma ulp_exp_shift: "0 < m \<Longrightarrow> ulp_exp f (m * 2 ^ j) k = ulp_exp f m (k + int j)"
  by (simp add: ulp_exp_def bit_length_shift algebra_simps)

lemma scaled_shift: "scaled (m * 2 ^ j) k e = scaled m (k + int j) e"
proof (cases "e \<le> k")
  case True
  then have "nat (k + int j - e) = j + nat (k - e)" by simp
  with True show ?thesis by (simp add: scaled_def power_add)
next
  case neg: False
  show ?thesis
  proof (cases "e \<le> k + int j")
    case True
    let ?d = "nat (e - k)"
    from neg True have "j = nat (k + int j - e) + ?d" by simp
    then have "m * 2 ^ j = (m * 2 ^ nat (k + int j - e)) * 2 ^ ?d"
      by (metis mult.assoc power_add)
    then have "rne (m * 2 ^ j) ?d = m * 2 ^ nat (k + int j - e)" by (simp only: rne_exact)
    with neg True show ?thesis by (simp add: scaled_def)
  next
    case False
    with neg have "nat (e - k) = nat (e - (k + int j)) + j" by simp
    with neg False show ?thesis by (simp add: scaled_def rne_shift)
  qed
qed

lemma fround_shift: "fround f (m * 2 ^ j) k = fround f m (k + int j)"
  by (simp add: fround_def Let_def ulp_exp_shift scaled_shift)

text \<open>Rounding in units of the smallest number.\<close>

lemma fround_units: "emin f \<le> k \<Longrightarrow> fround f m k = fround f (m * 2 ^ nat (k - emin f)) (emin f)"
  by (simp add: fround_shift)

lemma rne_bounds: "m div 2 ^ k \<le> rne m k \<and> rne m k \<le> m div 2 ^ k + 1"
  by (simp add: rne_def Let_def)

subsection \<open>Lemmas on patterns\<close>

text \<open>The pattern of a significand of full length, \<open>u\<close> places above the smallest.\<close>

lemma fmagnitude_normal:
  assumes "2 ^ man_bits f \<le> M" and "M < 2 ^ Suc (man_bits f)" and "u + 2 < 2 ^ exp_bits f"
  shows "fmagnitude f s (u * 2 ^ man_bits f + M) = FFin s M (emin f + int u)"
proof -
  define P :: nat where "P = 2 ^ man_bits f"
  have M: "P \<le> M" "M < 2 * P" using assms by (simp_all add: P_def)
  then have "u * P + M = (u + 1) * P + (M - P)" by simp
  with M have "(u * P + M) div P = u + 1" "(u * P + M) mod P = M - P"
    by (simp_all only: div_mult_self3 mod_mult_self3) simp_all
  moreover have "u + 1 \<noteq> 2 ^ exp_bits f - 1" using assms(3) by linarith
  ultimately show ?thesis
    using M by (simp add: fmagnitude_def P_def [symmetric])
qed

lemma fmagnitude_carry:
  assumes "u + 3 < 2 ^ exp_bits f"
  shows "fmagnitude f s (u * 2 ^ man_bits f + 2 ^ Suc (man_bits f))
       = FFin s (2 ^ man_bits f) (emin f + int u + 1)"
proof -
  have "u * 2 ^ man_bits f + 2 ^ Suc (man_bits f) = (u + 1) * 2 ^ man_bits f + 2 ^ man_bits f"
    by simp
  then show ?thesis
    using fmagnitude_normal [of f "2 ^ man_bits f" "u + 1" s] assms
    by (simp only: add.assoc of_nat_add of_nat_1) simp
qed

lemma fdecode_positive:
  "n < 2 ^ (exp_bits f + man_bits f) \<Longrightarrow> fdecode f n = fmagnitude f False n"
  by (simp add: fdecode_def Let_def)

lemma inf_bits_less: "inf_bits f < 2 ^ (exp_bits f + man_bits f)"
proof -
  have "(2 ^ exp_bits f - 1) * 2 ^ man_bits f < (2 ^ exp_bits f :: nat) * 2 ^ man_bits f"
    by simp
  then show ?thesis by (simp add: inf_bits_def power_add)
qed

lemma fround_le: "fround f m k \<le> inf_bits f"
  by (simp add: fround_def Let_def)

text \<open>A significand that fits is not rounded.\<close>

lemma fround_exact:
  assumes m: "0 < m" "m < 2 ^ Suc (man_bits f)"
    and lo: "emin f \<le> k + int (bit_length m) - int (man_bits f) - 1"
    and hi: "k + int (bit_length m) - int (man_bits f) - 1 - emin f = int u"
      "u + 2 < 2 ^ exp_bits f"
  shows "fdecode f (fround f m k)
       = FFin False (m * 2 ^ (Suc (man_bits f) - bit_length m)) (emin f + int u)"
proof -
  let ?e = "k + int (bit_length m) - int (man_bits f) - 1"
  let ?d = "Suc (man_bits f) - bit_length m"
  have len: "bit_length m \<le> Suc (man_bits f)" using m bit_length_le_iff by blast
  have pos: "0 < bit_length m" using m bit_length_le_iff [of m 0] by simp
  have e: "ulp_exp f m k = ?e" using lo by (simp add: ulp_exp_def)
  have "nat (k - ?e) = ?d" "?e \<le> k" using len by linarith+
  then have s: "scaled m k ?e = m * 2 ^ ?d" by (simp add: scaled_def)
  have "bit_length (m * 2 ^ ?d) = Suc (man_bits f)"
    using m len by (simp add: bit_length_shift)
  then have M: "2 ^ man_bits f \<le> m * 2 ^ ?d" "m * 2 ^ ?d < 2 ^ Suc (man_bits f)"
    using bit_length_bounds [of "m * 2 ^ ?d"] m by simp_all
  have "u * 2 ^ man_bits f + m * 2 ^ ?d < (u + 2) * 2 ^ man_bits f"
    using M by (simp add: algebra_simps)
  also have "\<dots> \<le> inf_bits f"
    unfolding inf_bits_def using hi(2) by (intro mult_le_mono1) linarith
  finally have less: "u * 2 ^ man_bits f + m * 2 ^ ?d < inf_bits f" .
  have "nat (?e - emin f) = u" using hi(1) by simp
  then have "fround f m k = u * 2 ^ man_bits f + m * 2 ^ ?d"
    using m(1) less by (simp add: fround_def e s)
  with less inf_bits_less [of f] fmagnitude_normal [OF M hi(2)] show ?thesis
    by (simp add: fdecode_positive)
qed

subsection \<open>Converting in two steps\<close>

text \<open>The pattern with only an exponent is a power of two.\<close>

lemma fdecode_power:
  assumes "0 < e" and "e + 1 < 2 ^ exp_bits f"
  shows "fdecode f (e * 2 ^ man_bits f) = FFin False (2 ^ man_bits f) (emin f + int e - 1)"
proof -
  obtain u where u: "e = Suc u" using assms(1) gr0_implies_Suc by blast
  have "e * 2 ^ man_bits f < 2 ^ exp_bits f * 2 ^ man_bits f" using assms(2) by simp
  then have "fdecode f (e * 2 ^ man_bits f) = fmagnitude f False (u * 2 ^ man_bits f + 2 ^ man_bits f)"
    by (simp add: fdecode_positive power_add u add.commute)
  also have "\<dots> = FFin False (2 ^ man_bits f) (emin f + int u)"
    using assms(2) u by (intro fmagnitude_normal) simp_all
  finally show ?thesis by (simp add: u)
qed

text \<open>
  A long integer rounded to a \<open>float\<close> through 26 of its bits, the last of them gathering the rest,
  and a multiplication by a power of two.
\<close>

lemma float_through_26_bits:
  assumes len: "bit_length x = n + 25" and n: "0 < n" "n \<le> 39" and low: "x mod 2 ^ n \<noteq> 0"
  shows "fencode f32 (fmul (fdecode f32 (fround f32 (2 * (x div 2 ^ n) + 1) 0))
           (fdecode f32 ((n + 126) * 2 ^ 23))) = fround f32 x 0"
proof -
  define y where "y = 2 * (x div 2 ^ n) + 1"
  define M where "M = rne y 2"
  have "0 < x" using low by (intro gr0I) simp
  then have "2 ^ (n + 24) \<le> x" "x < 2 ^ (n + 25)"
    using bit_length_bounds [of x] len n by (simp_all add: add.commute)
  then have "2 ^ 24 \<le> x div 2 ^ n" "x div 2 ^ n < 2 ^ 25"
    by (simp_all add: less_eq_div_iff_mult_less_eq div_less_iff_less_mult power_add)
  then have y: "2 ^ 25 \<le> y" "y < 2 ^ 26" by (simp_all add: y_def)
  have leny: "bit_length y = 26" using y by (intro bit_length_eqI [of 25, simplified]) simp_all
  have "2 ^ 23 \<le> y div 2 ^ 2" "y div 2 ^ 2 < 2 ^ 24" using y by simp_all
  then have M: "2 ^ 23 \<le> M" "M \<le> 2 ^ 24" using rne_bounds [of y 2] by (simp_all add: M_def)
  have xM: "rne x (n + 1) = M"
    using rne_sticky [OF low, of 1] by (simp add: M_def y_def numeral_2_eq_2)
  have r: "fround f32 y 0 = 151 * 2 ^ 23 + M"
    using y M by (simp add: fround_def ulp_exp_def leny scaled_def M_def inf_bits_def)
  have target: "fround f32 x 0 = (n + 150) * 2 ^ 23 + M"
  proof -
    have "nat (150 + int n) = n + 150" "nat (1 + int n) = n + 1" by simp_all
    then show ?thesis
      using \<open>0 < x\<close> xM M n by (simp add: fround_def ulp_exp_def len scaled_def inf_bits_def)
  qed
  have p: "fdecode f32 ((n + 126) * 2 ^ 23) = FFin False (2 ^ 23) (int n - 24)"
    using fdecode_power [of "n + 126" f32] n by simp
  have bound: "151 * 2 ^ 23 + M < 2 ^ (exp_bits f32 + man_bits f32)" using M by simp
  show ?thesis
  proof (cases "M = 2 ^ 24")
    case True
    have "fdecode f32 (fround f32 y 0) = FFin False (2 ^ 23) 3"
      using fmagnitude_carry [of 151 f32 False] bound True by (simp add: r fdecode_positive)
    with p have "fencode f32 (fmul (fdecode f32 (fround f32 y 0)) (fdecode f32 ((n + 126) * 2 ^ 23)))
        = fround f32 (1 * 2 ^ 46) (int n - 21)"
      by (simp add: fencode_def sign_bits_def)
    also have "\<dots> = fround f32 1 (int n + 25)"
      unfolding fround_shift by (simp add: algebra_simps)
    also have "\<dots> = (n + 150) * 2 ^ 23 + 2 ^ 24"
    proof -
      have "bit_length 1 = 1" by (simp add: bit_length.simps)
      moreover have "nat (151 + int n) = n + 151" by simp
      ultimately show ?thesis
        using n by (simp add: fround_def ulp_exp_def scaled_def inf_bits_def)
    qed
    finally show ?thesis by (simp add: target True y_def)
  next
    case False
    with M have M': "M < 2 ^ 24" by simp
    have lenM: "bit_length M = 24" using M M' by (intro bit_length_eqI [of 23, simplified]) simp_all
    have "fdecode f32 (fround f32 y 0) = FFin False M 2"
      using fmagnitude_normal [of f32 M 151 False] bound M M' by (simp add: r fdecode_positive)
    with p have "fencode f32 (fmul (fdecode f32 (fround f32 y 0)) (fdecode f32 ((n + 126) * 2 ^ 23)))
        = fround f32 (M * 2 ^ 23) (int n - 22)"
      by (simp add: fencode_def sign_bits_def)
    also have "\<dots> = fround f32 M (int n + 1)"
      unfolding fround_shift by (simp add: algebra_simps)
    also have "\<dots> = (n + 150) * 2 ^ 23 + M"
    proof -
      have "nat (150 + int n) = n + 150" by simp
      with n M M' show ?thesis
        by (simp add: fround_def ulp_exp_def lenM scaled_def inf_bits_def)
    qed
    finally show ?thesis by (simp add: target y_def)
  qed
qed

text \<open>Integers of at most 53 bits, times a small power of two, are exact in a \<open>double\<close>.\<close>

definition double_is :: "nat \<Rightarrow> nat \<Rightarrow> int \<Rightarrow> bool" where
  "double_is x M e \<longleftrightarrow> - 1074 \<le> e \<and> M * 2 ^ nat (e + 1074) = x * 2 ^ 1074"

lemma double_is_units: "double_is x M e \<Longrightarrow> fround f64 M e = fround f64 x 0"
proof -
  assume "double_is x M e"
  then have e: "- 1074 \<le> e" and M: "M * 2 ^ nat (e + 1074) = x * 2 ^ 1074"
    unfolding double_is_def by blast+
  have "fround f64 M e = fround f64 (M * 2 ^ nat (e + 1074)) (- 1074)"
    unfolding fround_shift using e by simp
  also have "\<dots> = fround f64 x 0" unfolding M fround_shift by simp
  finally show ?thesis .
qed

lemma double_exact:
  assumes m: "m < 2 ^ 53" and k: "k \<le> 64"
  shows "\<exists>M e. fdecode f64 (fround f64 m (int k)) = FFin False M e \<and> double_is (m * 2 ^ k) M e"
proof (cases "m = 0")
  case True
  then have "fdecode f64 (fround f64 m (int k)) = FFin False 0 (- 1074)"
    by (simp add: fround_def fdecode_def fmagnitude_def)
  with True show ?thesis by (simp add: double_is_def)
next
  case False
  let ?b = "bit_length m"
  let ?u = "k + ?b + 1021"
  have b: "?b \<le> 53" using m by (simp add: bit_length_le_iff)
  have d: "fdecode f64 (fround f64 m (int k)) = FFin False (m * 2 ^ (53 - ?b)) (emin f64 + int ?u)"
    using fround_exact [of m f64 "int k" ?u] False m b k by simp
  have "nat (emin f64 + int ?u + 1074) = ?u" by simp
  moreover have "(53 - ?b) + ?u = k + 1074" using b by simp
  ultimately have "m * 2 ^ (53 - ?b) * 2 ^ nat (emin f64 + int ?u + 1074) = m * 2 ^ k * 2 ^ 1074"
    by (simp only: mult.assoc power_add [symmetric])
  then have "double_is (m * 2 ^ k) (m * 2 ^ (53 - ?b)) (emin f64 + int ?u)"
    unfolding double_is_def by simp
  with d show ?thesis by blast
qed

lemma double_mul_32:
  "double_is x M e \<Longrightarrow>
   fencode f64 (fmul (FFin False M e) (FFin False (2 ^ 52) (- 20))) = fround f64 x 32"
proof -
  assume M: "double_is x M e"
  have "fencode f64 (fmul (FFin False M e) (FFin False (2 ^ 52) (- 20)))
      = fround f64 (M * 2 ^ 52) (e - 20)"
    by (simp add: fencode_def sign_bits_def)
  also have "\<dots> = fround f64 (M * 2 ^ 32) e"
    unfolding fround_shift by (simp add: add.commute)
  also have "\<dots> = fround f64 (x * 2 ^ 32) 0"
  proof (rule double_is_units)
    have "M * 2 ^ 32 * 2 ^ nat (e + 1074) = M * 2 ^ nat (e + 1074) * 2 ^ 32"
      "x * 2 ^ 32 * 2 ^ 1074 = x * 2 ^ 1074 * 2 ^ 32"
      by (simp_all only: mult.assoc mult.commute [of "2 ^ 32"])
    with M show "double_is (x * 2 ^ 32) (M * 2 ^ 32) e" unfolding double_is_def by metis
  qed
  also have "\<dots> = fround f64 x 32" by (simp only: fround_shift) simp
  finally show ?thesis .
qed

definition of_sum :: "int \<Rightarrow> int \<Rightarrow> fval" where
  "of_sum x e = (if x = 0 then FFin (False \<and> False) 0 0 else FFin (x < 0) (nat \<bar>x\<bar>) e)"

lemma encode_of_sum: "fencode f (of_sum (int n) e) = fround f n e"
  by (cases "n = 0") (simp_all add: of_sum_def fencode_def sign_bits_def fround_def [of f 0])

lemma double_add:
  assumes 1: "double_is x M e" and 2: "double_is y N l"
  shows "fencode f64 (fadd (FFin False M e) (FFin False N l)) = fround f64 (x + y) 0"
proof -
  let ?m = "min e l"
  let ?x = "M * 2 ^ nat (e - ?m) + N * 2 ^ nat (l - ?m)"
  have "fsigned False M * 2 ^ nat (e - ?m) + fsigned False N * 2 ^ nat (l - ?m) = int ?x"
    by (simp add: fsigned_def)
  then have "fadd (FFin False M e) (FFin False N l) = of_sum (int ?x) ?m"
    unfolding fadd.simps Let_def of_sum_def by (simp only: simp_thms)
  then have "fencode f64 (fadd (FFin False M e) (FFin False N l)) = fround f64 ?x ?m"
    by (simp only: encode_of_sum)
  also have "\<dots> = fround f64 (x + y) 0"
  proof (rule double_is_units)
    have "- 1074 \<le> e" "- 1074 \<le> l" using 1 2 unfolding double_is_def by blast+
    then have "nat (e - ?m) + nat (?m + 1074) = nat (e + 1074)"
      "nat (l - ?m) + nat (?m + 1074) = nat (l + 1074)" "- 1074 \<le> ?m" by linarith+
    then show "double_is (x + y) ?x ?m"
      using 1 2 unfolding double_is_def
      by (simp only: distrib_right mult.assoc power_add [symmetric])
  qed
  finally show ?thesis .
qed

lemma double_through_halves:
  assumes hi: "hi < 2 ^ 32" and lo: "lo < 2 ^ 32"
  shows "fencode f64 (fadd
           (fdecode f64 (fencode f64 (fmul (fdecode f64 (fround f64 hi 0))
              (fdecode f64 (fround f64 (2 ^ 32) 0)))))
           (fdecode f64 (fround f64 lo 0))) = fround f64 (hi * 2 ^ 32 + lo) 0"
proof -
  have small: "hi < 2 ^ 53" "lo < 2 ^ 53" using hi lo by simp_all
  obtain M e where M: "fdecode f64 (fround f64 hi 0) = FFin False M e" "double_is hi M e"
    using double_exact [OF small(1), of 0] by auto
  obtain H h where H: "fdecode f64 (fround f64 hi 32) = FFin False H h" "double_is (hi * 2 ^ 32) H h"
    using double_exact [OF small(1), of 32] by auto
  obtain L l where L: "fdecode f64 (fround f64 lo 0) = FFin False L l" "double_is lo L l"
    using double_exact [OF small(2), of 0] by auto
  have "bit_length (2 ^ 32) = 33" by (intro bit_length_eqI [of 32, simplified]) simp_all
  then have "fdecode f64 (fround f64 (2 ^ 32) 0) = FFin False (2 ^ 52) (- 20)"
    using fround_exact [of "2 ^ 32" f64 0 1054] by simp
  with M H L show ?thesis by (simp only: double_mul_32 double_add)
qed

end
