(* ===== verification/WasmNumeric.thy ===== *)
theory WasmNumeric
  imports Ieee "HOL-Library.Signed_Division"
begin

text \<open>
  The numeric helpers compiled WebAssembly code calls: \<open>wasm-external-refs.cc\<close>, the wrappers on
  integers and floats. They take the address of a buffer on the stack, read their arguments from it
  and leave the result there, so they are functions on the memory. What they use of headers outside
  the sources, and the target they are compiled for, is the record \<open>v8_lib\<close>. A conversion the
  language leaves undefined fails.
\<close>

unbundle bit_operations_syntax

subsection \<open>Memory\<close>

type_synonym mem = "addr \<Rightarrow> 8 word"
type_synonym u16 = "16 word"

record v8_lib =
  V8_OS_WIN :: bool
  V8_OS_AIX :: bool
  V8_CC_MSVC :: bool
  V8_TARGET_BIG_ENDIAN :: bool
  FpOpWorkaround :: "fmt \<Rightarrow> nat \<Rightarrow> nat \<Rightarrow> nat" \<comment> \<open>input, value\<close>
  CountLeadingZeros :: "u64 \<Rightarrow> nat"
  CountTrailingZeros :: "u64 \<Rightarrow> nat"
  IsValueInRange :: "int \<Rightarrow> int \<Rightarrow> fval \<Rightarrow> bool" \<comment> \<open>least and greatest value of the type\<close>
  ToFloat32 :: "u16 \<Rightarrow> nat"
  FromFloat32 :: "nat \<Rightarrow> u16"
  DoubleToFloat16 :: "nat \<Rightarrow> u16"
  math_pow :: "nat \<Rightarrow> nat \<Rightarrow> nat"
  base_Divide :: "nat \<Rightarrow> nat \<Rightarrow> nat"
  JSMin :: "nat \<Rightarrow> nat \<Rightarrow> nat"
  JSMax :: "nat \<Rightarrow> nat \<Rightarrow> nat"
  IsInBounds :: "nat \<Rightarrow> nat \<Rightarrow> nat \<Rightarrow> bool" \<comment> \<open>index, length, limit\<close>

definition nat_of_bytes :: "8 word list \<Rightarrow> nat" where
  "nat_of_bytes bs = foldr (\<lambda>b x. unat b + 256 * x) bs 0"

definition bytes_of_nat :: "nat \<Rightarrow> nat \<Rightarrow> 8 word list" where
  "bytes_of_nat n v = map (\<lambda>i. word_of_nat (v div 256 ^ i)) [0..<n]"

definition endian :: "v8_lib \<Rightarrow> 'a list \<Rightarrow> 'a list" where
  "endian L bs = (if V8_TARGET_BIG_ENDIAN L then rev bs else bs)"

definition ReadUnaligned :: "v8_lib \<Rightarrow> mem \<Rightarrow> addr \<Rightarrow> nat \<Rightarrow> nat" where
  "ReadUnaligned L M a n = nat_of_bytes (endian L (map M [a..<a + n]))"

definition WriteUnaligned :: "v8_lib \<Rightarrow> mem \<Rightarrow> addr \<Rightarrow> nat \<Rightarrow> nat \<Rightarrow> mem" where
  "WriteUnaligned L M a n v =
     (\<lambda>x. if a \<le> x \<and> x < a + n then endian L (bytes_of_nat n v) ! (x - a) else M x)"

definition read_u64 :: "v8_lib \<Rightarrow> mem \<Rightarrow> addr \<Rightarrow> u64" where
  "read_u64 L M a = word_of_nat (ReadUnaligned L M a 8)"

definition write_u64 :: "v8_lib \<Rightarrow> mem \<Rightarrow> addr \<Rightarrow> u64 \<Rightarrow> mem" where
  "write_u64 L M a v = WriteUnaligned L M a 8 (unat v)"

definition read_f32 :: "v8_lib \<Rightarrow> mem \<Rightarrow> addr \<Rightarrow> nat" where
  "read_f32 L M a = ReadUnaligned L M a 4"

definition write_f32 :: "v8_lib \<Rightarrow> mem \<Rightarrow> addr \<Rightarrow> nat \<Rightarrow> mem" where
  "write_f32 L M a v = WriteUnaligned L M a 4 v"

definition read_f64 :: "v8_lib \<Rightarrow> mem \<Rightarrow> addr \<Rightarrow> nat" where
  "read_f64 L M a = ReadUnaligned L M a 8"

definition write_f64 :: "v8_lib \<Rightarrow> mem \<Rightarrow> addr \<Rightarrow> nat \<Rightarrow> mem" where
  "write_f64 L M a v = WriteUnaligned L M a 8 v"

subsection \<open>Rounding\<close>

definition f32_trunc_wrapper :: "v8_lib \<Rightarrow> addr \<Rightarrow> mem \<Rightarrow> mem" where
  "f32_trunc_wrapper L data M = write_f32 L M data (fintegral f32 Trunc (read_f32 L M data))"

definition f32_floor_wrapper :: "v8_lib \<Rightarrow> addr \<Rightarrow> mem \<Rightarrow> mem" where
  "f32_floor_wrapper L data M = write_f32 L M data (fintegral f32 Floor (read_f32 L M data))"

definition f32_ceil_wrapper :: "v8_lib \<Rightarrow> addr \<Rightarrow> mem \<Rightarrow> mem" where
  "f32_ceil_wrapper L data M = write_f32 L M data (fintegral f32 Ceil (read_f32 L M data))"

definition f32_nearest_int_wrapper :: "v8_lib \<Rightarrow> addr \<Rightarrow> mem \<Rightarrow> mem" where
  "f32_nearest_int_wrapper L data M =
     (let input = read_f32 L M data;
          value = fintegral f32 NearbyInt input;
          value = (if V8_OS_AIX L then FpOpWorkaround L f32 input value else value)
      in write_f32 L M data value)"

definition f64_trunc_wrapper :: "v8_lib \<Rightarrow> addr \<Rightarrow> mem \<Rightarrow> mem" where
  "f64_trunc_wrapper L data M = write_f64 L M data (fintegral f64 Trunc (read_f64 L M data))"

definition f64_floor_wrapper :: "v8_lib \<Rightarrow> addr \<Rightarrow> mem \<Rightarrow> mem" where
  "f64_floor_wrapper L data M = write_f64 L M data (fintegral f64 Floor (read_f64 L M data))"

definition f64_ceil_wrapper :: "v8_lib \<Rightarrow> addr \<Rightarrow> mem \<Rightarrow> mem" where
  "f64_ceil_wrapper L data M = write_f64 L M data (fintegral f64 Ceil (read_f64 L M data))"

definition f64_nearest_int_wrapper :: "v8_lib \<Rightarrow> addr \<Rightarrow> mem \<Rightarrow> mem" where
  "f64_nearest_int_wrapper L data M =
     (let input = read_f64 L M data;
          value = fintegral f64 NearbyInt input;
          value = (if V8_OS_AIX L then FpOpWorkaround L f64 input value else value)
      in write_f64 L M data value)"

subsection \<open>Integers to floats\<close>

definition int64_to_float32_wrapper :: "v8_lib \<Rightarrow> addr \<Rightarrow> mem \<Rightarrow> mem" where
  "int64_to_float32_wrapper L data M =
     (let input = read_u64 L M data
      in write_f32 L M data (fencode f32 (of_integer (sint input))))"

text \<open>The detour for Windows, through 25 bits and a bit that gathers the rest.\<close>

definition float_of_extracted_bits :: "nat \<Rightarrow> u64 \<Rightarrow> nat" where
  "float_of_extracted_bits leading_zeros input =
     (let num_extracted_bits = 25;
          num_aggregation_bits = 64 - num_extracted_bits - leading_zeros;
          extracted_bits = (ucast (drop_bit (num_aggregation_bits - 1) input) :: 32 word) OR 1;
          result = fencode f32 (of_integer (sint extracted_bits));
          shift_back = int num_aggregation_bits - 1 - 2;
          multiplier_bits = push_bit 23 ((word_of_int (shift_back - 127) :: 32 word) AND 0xff)
      in fencode f32 (fmul (fdecode f32 result) (fdecode f32 (unat multiplier_bits))))"

definition uint64_to_float32_wrapper :: "v8_lib \<Rightarrow> addr \<Rightarrow> mem \<Rightarrow> mem" where
  "uint64_to_float32_wrapper L data M =
     (let input = read_u64 L M data;
          leading_zeros = CountLeadingZeros L input;
          trailing_zeros = CountTrailingZeros L input;
          num_extracted_bits = 25
      in if V8_OS_WIN L \<and> leading_zeros + trailing_zeros + num_extracted_bits < 64
         then write_f32 L M data (float_of_extracted_bits leading_zeros input)
         else write_f32 L M data (fencode f32 (of_integer (uint input))))"

definition int64_to_float64_wrapper :: "v8_lib \<Rightarrow> addr \<Rightarrow> mem \<Rightarrow> mem" where
  "int64_to_float64_wrapper L data M =
     (let input = read_u64 L M data
      in write_f64 L M data (fencode f64 (of_integer (sint input))))"

text \<open>The detour for MSVC, through the two halves.\<close>

definition double_of_halves :: "u64 \<Rightarrow> nat" where
  "double_of_halves input =
     (let low_word = (ucast (input AND 0xFFFFFFFF) :: 32 word);
          high_word = (ucast (drop_bit 32 input) :: 32 word);
          shift = fencode f64 (of_integer (uint (push_bit 32 (1 :: u64))));
          result = fencode f64 (of_integer (uint high_word));
          result = fencode f64 (fmul (fdecode f64 result) (fdecode f64 shift))
      in fencode f64 (fadd (fdecode f64 result)
           (fdecode f64 (fencode f64 (of_integer (uint low_word))))))"

definition uint64_to_float64_wrapper :: "v8_lib \<Rightarrow> addr \<Rightarrow> mem \<Rightarrow> mem" where
  "uint64_to_float64_wrapper L data M =
     (let input = read_u64 L M data;
          result = fencode f64 (of_integer (uint input));
          result = (if V8_CC_MSVC L then double_of_halves input else result)
      in write_f64 L M data result)"

subsection \<open>Floats to integers\<close>

definition INT64_MIN :: int where
  "INT64_MIN = - 9223372036854775808"

definition INT64_MAX :: int where
  "INT64_MAX = 9223372036854775807"

text \<open>A cast to an integer type: undefined when the truncated value is not one of the type.\<close>

definition static_cast :: "int \<Rightarrow> int \<Rightarrow> fval \<Rightarrow> int result" where
  "static_cast lo hi v =
     (case v of
        FFin s m k \<Rightarrow> (let i = truncated s m k in if lo \<le> i \<and> i \<le> hi then Inr i else Inl OutOfBounds)
      | _ \<Rightarrow> Inl OutOfBounds)"

text \<open>The body shared, up to the type, by the conversions: 1 and the value written, or 0.\<close>

definition convert_wrapper ::
  "v8_lib \<Rightarrow> fmt \<Rightarrow> nat \<Rightarrow> int \<Rightarrow> int \<Rightarrow> addr \<Rightarrow> mem \<Rightarrow> (int \<times> mem) result" where
  "convert_wrapper L f n lo hi data M =
     (let input = fdecode f (ReadUnaligned L M data n) in
      if IsValueInRange L lo hi input
      then bindE (static_cast lo hi input) (\<lambda>i. Inr (1, write_u64 L M data (word_of_int i)))
      else Inr (0, M))"

definition float32_to_int64_wrapper :: "v8_lib \<Rightarrow> addr \<Rightarrow> mem \<Rightarrow> (int \<times> mem) result" where
  "float32_to_int64_wrapper L = convert_wrapper L f32 4 INT64_MIN INT64_MAX"

definition float32_to_uint64_wrapper :: "v8_lib \<Rightarrow> addr \<Rightarrow> mem \<Rightarrow> (int \<times> mem) result" where
  "float32_to_uint64_wrapper L = convert_wrapper L f32 4 0 (int UINT64_MAX)"

definition float64_to_int64_wrapper :: "v8_lib \<Rightarrow> addr \<Rightarrow> mem \<Rightarrow> (int \<times> mem) result" where
  "float64_to_int64_wrapper L = convert_wrapper L f64 8 INT64_MIN INT64_MAX"

definition float64_to_uint64_wrapper :: "v8_lib \<Rightarrow> addr \<Rightarrow> mem \<Rightarrow> (int \<times> mem) result" where
  "float64_to_uint64_wrapper L = convert_wrapper L f64 8 0 (int UINT64_MAX)"

definition int64_sat_wrapper :: "v8_lib \<Rightarrow> fmt \<Rightarrow> nat \<Rightarrow> addr \<Rightarrow> mem \<Rightarrow> mem result" where
  "int64_sat_wrapper L f n data M =
     (let input = fdecode f (ReadUnaligned L M data n) in
      if IsValueInRange L INT64_MIN INT64_MAX input
      then bindE (static_cast INT64_MIN INT64_MAX input) (\<lambda>i. Inr (write_u64 L M data (word_of_int i)))
      else if input = FNaN then Inr (write_u64 L M data 0)
      else if fless input (of_integer 0) then Inr (write_u64 L M data (word_of_int INT64_MIN))
      else Inr (write_u64 L M data (word_of_int INT64_MAX)))"

definition uint64_sat_wrapper :: "v8_lib \<Rightarrow> fmt \<Rightarrow> nat \<Rightarrow> addr \<Rightarrow> mem \<Rightarrow> mem result" where
  "uint64_sat_wrapper L f n data M =
     (let input = fdecode f (ReadUnaligned L M data n);
          limit = fdecode f (fencode f (of_integer (int UINT64_MAX))) in
      if IsValueInRange L 0 (int UINT64_MAX) input
      then bindE (static_cast 0 (int UINT64_MAX) input) (\<lambda>i. Inr (write_u64 L M data (word_of_int i)))
      else if fless limit input \<or> feq limit input
      then Inr (write_u64 L M data (word_of_nat UINT64_MAX))
      else Inr (write_u64 L M data 0))"

definition float32_to_int64_sat_wrapper :: "v8_lib \<Rightarrow> addr \<Rightarrow> mem \<Rightarrow> mem result" where
  "float32_to_int64_sat_wrapper L = int64_sat_wrapper L f32 4"

definition float32_to_uint64_sat_wrapper :: "v8_lib \<Rightarrow> addr \<Rightarrow> mem \<Rightarrow> mem result" where
  "float32_to_uint64_sat_wrapper L = uint64_sat_wrapper L f32 4"

definition float64_to_int64_sat_wrapper :: "v8_lib \<Rightarrow> addr \<Rightarrow> mem \<Rightarrow> mem result" where
  "float64_to_int64_sat_wrapper L = int64_sat_wrapper L f64 8"

definition float64_to_uint64_sat_wrapper :: "v8_lib \<Rightarrow> addr \<Rightarrow> mem \<Rightarrow> mem result" where
  "float64_to_uint64_sat_wrapper L = uint64_sat_wrapper L f64 8"

definition read_f16 :: "v8_lib \<Rightarrow> mem \<Rightarrow> addr \<Rightarrow> u16" where
  "read_f16 L M a = word_of_nat (ReadUnaligned L M a 2)"

definition write_f16 :: "v8_lib \<Rightarrow> mem \<Rightarrow> addr \<Rightarrow> u16 \<Rightarrow> mem" where
  "write_f16 L M a v = WriteUnaligned L M a 2 (unat v)"

definition float16_to_float32_wrapper :: "v8_lib \<Rightarrow> addr \<Rightarrow> mem \<Rightarrow> mem" where
  "float16_to_float32_wrapper L data M = write_f32 L M data (ToFloat32 L (read_f16 L M data))"

definition float32_to_float16_wrapper :: "v8_lib \<Rightarrow> addr \<Rightarrow> mem \<Rightarrow> mem" where
  "float32_to_float16_wrapper L data M = write_f16 L M data (FromFloat32 L (read_f32 L M data))"

subsection \<open>Integer arithmetic\<close>

definition int64_div_wrapper :: "v8_lib \<Rightarrow> addr \<Rightarrow> mem \<Rightarrow> int \<times> mem" where
  "int64_div_wrapper L data M =
     (let dividend = read_u64 L M data; divisor = read_u64 L M (data + 8) in
      if divisor = 0 then (0, M)
      else if divisor = - 1 \<and> sint dividend = INT64_MIN then (- 1, M)
      else (1, write_u64 L M data (word_of_int (sint dividend sdiv sint divisor))))"

definition int64_mod_wrapper :: "v8_lib \<Rightarrow> addr \<Rightarrow> mem \<Rightarrow> int \<times> mem" where
  "int64_mod_wrapper L data M =
     (let dividend = read_u64 L M data; divisor = read_u64 L M (data + 8) in
      if divisor = 0 then (0, M)
      else if divisor = - 1 \<and> sint dividend = INT64_MIN then (1, write_u64 L M data 0)
      else (1, write_u64 L M data (word_of_int (sint dividend smod sint divisor))))"

definition uint64_div_wrapper :: "v8_lib \<Rightarrow> addr \<Rightarrow> mem \<Rightarrow> int \<times> mem" where
  "uint64_div_wrapper L data M =
     (let dividend = read_u64 L M data; divisor = read_u64 L M (data + 8) in
      if divisor = 0 then (0, M) else (1, write_u64 L M data (dividend div divisor)))"

definition uint64_mod_wrapper :: "v8_lib \<Rightarrow> addr \<Rightarrow> mem \<Rightarrow> int \<times> mem" where
  "uint64_mod_wrapper L data M =
     (let dividend = read_u64 L M data; divisor = read_u64 L M (data + 8) in
      if divisor = 0 then (0, M) else (1, write_u64 L M data (dividend mod divisor)))"

definition word32_rol_wrapper :: "u32 \<Rightarrow> u32 \<Rightarrow> u32" where
  "word32_rol_wrapper input shift =
     push_bit (unat (shift AND 31)) input OR drop_bit (unat ((32 - shift) AND 31)) input"

definition word32_ror_wrapper :: "u32 \<Rightarrow> u32 \<Rightarrow> u32" where
  "word32_ror_wrapper input shift =
     drop_bit (unat (shift AND 31)) input OR push_bit (unat ((32 - shift) AND 31)) input"

definition word64_rol_wrapper :: "u64 \<Rightarrow> u32 \<Rightarrow> u64" where
  "word64_rol_wrapper input shift =
     push_bit (unat (shift AND 63)) input OR drop_bit (unat ((64 - shift) AND 63)) input"

definition word64_ror_wrapper :: "u64 \<Rightarrow> u32 \<Rightarrow> u64" where
  "word64_ror_wrapper input shift =
     drop_bit (unat (shift AND 63)) input OR push_bit (unat ((64 - shift) AND 63)) input"

definition float64_pow_wrapper :: "v8_lib \<Rightarrow> addr \<Rightarrow> mem \<Rightarrow> mem" where
  "float64_pow_wrapper L data M =
     write_f64 L M data (math_pow L (read_f64 L M data) (read_f64 L M (data + 8)))"

end
