(* ===== verification/WasmSimd.thy ===== *)
theory WasmSimd
  imports WasmNumeric
begin

text \<open>
  The vector helpers of \<open>wasm-external-refs.cc\<close>: 128-bit operands in memory, one after the other,
  the result in the place of the first. Half precision numbers are 16-bit patterns; their
  conversions are library functions, everything else is done in \<open>float\<close>.
\<close>

unbundle bit_operations_syntax

definition kSimd128Size :: nat where
  "kSimd128Size = 16"

definition f16 :: fmt where
  "f16 = \<lparr>exp_bits = 5, man_bits = 10\<rparr>"

text \<open>A \<open>float\<close> operation on patterns.\<close>

definition un_op :: "fmt \<Rightarrow> (fval \<Rightarrow> fval) \<Rightarrow> nat \<Rightarrow> nat" where
  "un_op f g a = fencode f (g (fdecode f a))"

definition bin_op :: "fmt \<Rightarrow> (fval \<Rightarrow> fval \<Rightarrow> fval) \<Rightarrow> nat \<Rightarrow> nat \<Rightarrow> nat" where
  "bin_op f g a b = fencode f (g (fdecode f a) (fdecode f b))"

definition float_less :: "nat \<Rightarrow> nat \<Rightarrow> bool" where
  "float_less a b = fless (fdecode f32 a) (fdecode f32 b)"

definition float_eq :: "nat \<Rightarrow> nat \<Rightarrow> bool" where
  "float_eq a b = feq (fdecode f32 a) (fdecode f32 b)"

text \<open>An operation on half precision patterns, as the templates below call it.\<close>

definition on_u16 :: "(u16 \<Rightarrow> u16) \<Rightarrow> nat \<Rightarrow> nat" where
  "on_u16 g n = unat (g (word_of_nat n))"

subsection \<open>Rounding lane by lane\<close>

definition simd_float_round_wrapper ::
  "v8_lib \<Rightarrow> fmt \<Rightarrow> nat \<Rightarrow> (nat \<Rightarrow> nat) \<Rightarrow> addr \<Rightarrow> mem \<Rightarrow> mem" where
  "simd_float_round_wrapper L f width float_round_op data M =
     fold (\<lambda>i M.
       let input = ReadUnaligned L M (data + i * width) width;
           value = float_round_op input;
           value = (if V8_OS_AIX L then FpOpWorkaround L f input value else value)
       in WriteUnaligned L M (data + i * width) width value) [0..<kSimd128Size div width] M"

definition f64x2_ceil_wrapper :: "v8_lib \<Rightarrow> addr \<Rightarrow> mem \<Rightarrow> mem" where
  "f64x2_ceil_wrapper L = simd_float_round_wrapper L f64 8 (fintegral f64 Ceil)"

definition f64x2_floor_wrapper :: "v8_lib \<Rightarrow> addr \<Rightarrow> mem \<Rightarrow> mem" where
  "f64x2_floor_wrapper L = simd_float_round_wrapper L f64 8 (fintegral f64 Floor)"

definition f64x2_trunc_wrapper :: "v8_lib \<Rightarrow> addr \<Rightarrow> mem \<Rightarrow> mem" where
  "f64x2_trunc_wrapper L = simd_float_round_wrapper L f64 8 (fintegral f64 Trunc)"

definition f64x2_nearest_int_wrapper :: "v8_lib \<Rightarrow> addr \<Rightarrow> mem \<Rightarrow> mem" where
  "f64x2_nearest_int_wrapper L = simd_float_round_wrapper L f64 8 (fintegral f64 NearbyInt)"

definition f32x4_ceil_wrapper :: "v8_lib \<Rightarrow> addr \<Rightarrow> mem \<Rightarrow> mem" where
  "f32x4_ceil_wrapper L = simd_float_round_wrapper L f32 4 (fintegral f32 Ceil)"

definition f32x4_floor_wrapper :: "v8_lib \<Rightarrow> addr \<Rightarrow> mem \<Rightarrow> mem" where
  "f32x4_floor_wrapper L = simd_float_round_wrapper L f32 4 (fintegral f32 Floor)"

definition f32x4_trunc_wrapper :: "v8_lib \<Rightarrow> addr \<Rightarrow> mem \<Rightarrow> mem" where
  "f32x4_trunc_wrapper L = simd_float_round_wrapper L f32 4 (fintegral f32 Trunc)"

definition f32x4_nearest_int_wrapper :: "v8_lib \<Rightarrow> addr \<Rightarrow> mem \<Rightarrow> mem" where
  "f32x4_nearest_int_wrapper L = simd_float_round_wrapper L f32 4 (fintegral f32 NearbyInt)"

definition f16_abs :: "v8_lib \<Rightarrow> u16 \<Rightarrow> u16" where
  "f16_abs L a = FromFloat32 L (un_op f32 fabs_val (ToFloat32 L a))"

definition f16x8_abs_wrapper :: "v8_lib \<Rightarrow> addr \<Rightarrow> mem \<Rightarrow> mem" where
  "f16x8_abs_wrapper L = simd_float_round_wrapper L f16 2 (on_u16 (f16_abs L))"

definition f16_neg :: "v8_lib \<Rightarrow> u16 \<Rightarrow> u16" where
  "f16_neg L a = FromFloat32 L (un_op f32 fneg (ToFloat32 L a))"

definition f16x8_neg_wrapper :: "v8_lib \<Rightarrow> addr \<Rightarrow> mem \<Rightarrow> mem" where
  "f16x8_neg_wrapper L = simd_float_round_wrapper L f16 2 (on_u16 (f16_neg L))"

definition f16_sqrt :: "v8_lib \<Rightarrow> u16 \<Rightarrow> u16" where
  "f16_sqrt L a = FromFloat32 L (un_op f32 (fsqrt f32) (ToFloat32 L a))"

definition f16x8_sqrt_wrapper :: "v8_lib \<Rightarrow> addr \<Rightarrow> mem \<Rightarrow> mem" where
  "f16x8_sqrt_wrapper L = simd_float_round_wrapper L f16 2 (on_u16 (f16_sqrt L))"

definition f16_ceil :: "v8_lib \<Rightarrow> u16 \<Rightarrow> u16" where
  "f16_ceil L a = FromFloat32 L (fintegral f32 Ceil (ToFloat32 L a))"

definition f16x8_ceil_wrapper :: "v8_lib \<Rightarrow> addr \<Rightarrow> mem \<Rightarrow> mem" where
  "f16x8_ceil_wrapper L = simd_float_round_wrapper L f16 2 (on_u16 (f16_ceil L))"

definition f16_floor :: "v8_lib \<Rightarrow> u16 \<Rightarrow> u16" where
  "f16_floor L a = FromFloat32 L (fintegral f32 Floor (ToFloat32 L a))"

definition f16x8_floor_wrapper :: "v8_lib \<Rightarrow> addr \<Rightarrow> mem \<Rightarrow> mem" where
  "f16x8_floor_wrapper L = simd_float_round_wrapper L f16 2 (on_u16 (f16_floor L))"

definition f16_trunc :: "v8_lib \<Rightarrow> u16 \<Rightarrow> u16" where
  "f16_trunc L a = FromFloat32 L (fintegral f32 Trunc (ToFloat32 L a))"

definition f16x8_trunc_wrapper :: "v8_lib \<Rightarrow> addr \<Rightarrow> mem \<Rightarrow> mem" where
  "f16x8_trunc_wrapper L = simd_float_round_wrapper L f16 2 (on_u16 (f16_trunc L))"

definition f16_nearest_int :: "v8_lib \<Rightarrow> u16 \<Rightarrow> u16" where
  "f16_nearest_int L a = FromFloat32 L (fintegral f32 NearbyInt (ToFloat32 L a))"

definition f16x8_nearest_int_wrapper :: "v8_lib \<Rightarrow> addr \<Rightarrow> mem \<Rightarrow> mem" where
  "f16x8_nearest_int_wrapper L = simd_float_round_wrapper L f16 2 (on_u16 (f16_nearest_int L))"

subsection \<open>Operations on two vectors\<close>

definition simd_float16_bin_wrapper ::
  "v8_lib \<Rightarrow> (u16 \<Rightarrow> u16 \<Rightarrow> u16) \<Rightarrow> addr \<Rightarrow> mem \<Rightarrow> mem" where
  "simd_float16_bin_wrapper L float_bin_op data M =
     fold (\<lambda>i M.
       let lhs = read_f16 L M (data + i * 2);
           rhs = read_f16 L M (data + kSimd128Size + i * 2)
       in write_f16 L M (data + i * 2) (float_bin_op lhs rhs)) [0..<kSimd128Size div 2] M"

definition f16_eq :: "v8_lib \<Rightarrow> u16 \<Rightarrow> u16 \<Rightarrow> u16" where
  "f16_eq L a b = (if float_eq (ToFloat32 L a) (ToFloat32 L b) then - 1 else 0)"

definition f16x8_eq_wrapper :: "v8_lib \<Rightarrow> addr \<Rightarrow> mem \<Rightarrow> mem" where
  "f16x8_eq_wrapper L = simd_float16_bin_wrapper L (f16_eq L)"

definition f16_ne :: "v8_lib \<Rightarrow> u16 \<Rightarrow> u16 \<Rightarrow> u16" where
  "f16_ne L a b = (if \<not> float_eq (ToFloat32 L a) (ToFloat32 L b) then - 1 else 0)"

definition f16x8_ne_wrapper :: "v8_lib \<Rightarrow> addr \<Rightarrow> mem \<Rightarrow> mem" where
  "f16x8_ne_wrapper L = simd_float16_bin_wrapper L (f16_ne L)"

definition f16_lt :: "v8_lib \<Rightarrow> u16 \<Rightarrow> u16 \<Rightarrow> u16" where
  "f16_lt L a b = (if float_less (ToFloat32 L a) (ToFloat32 L b) then - 1 else 0)"

definition f16x8_lt_wrapper :: "v8_lib \<Rightarrow> addr \<Rightarrow> mem \<Rightarrow> mem" where
  "f16x8_lt_wrapper L = simd_float16_bin_wrapper L (f16_lt L)"

definition f16_le :: "v8_lib \<Rightarrow> u16 \<Rightarrow> u16 \<Rightarrow> u16" where
  "f16_le L a b =
     (if float_less (ToFloat32 L a) (ToFloat32 L b) \<or> float_eq (ToFloat32 L a) (ToFloat32 L b)
      then - 1 else 0)"

definition f16x8_le_wrapper :: "v8_lib \<Rightarrow> addr \<Rightarrow> mem \<Rightarrow> mem" where
  "f16x8_le_wrapper L = simd_float16_bin_wrapper L (f16_le L)"

definition f16_add :: "v8_lib \<Rightarrow> u16 \<Rightarrow> u16 \<Rightarrow> u16" where
  "f16_add L a b = FromFloat32 L (bin_op f32 fadd (ToFloat32 L a) (ToFloat32 L b))"

definition f16x8_add_wrapper :: "v8_lib \<Rightarrow> addr \<Rightarrow> mem \<Rightarrow> mem" where
  "f16x8_add_wrapper L = simd_float16_bin_wrapper L (f16_add L)"

definition f16_sub :: "v8_lib \<Rightarrow> u16 \<Rightarrow> u16 \<Rightarrow> u16" where
  "f16_sub L a b =
     FromFloat32 L (bin_op f32 (\<lambda>x y. fadd x (fneg y)) (ToFloat32 L a) (ToFloat32 L b))"

definition f16x8_sub_wrapper :: "v8_lib \<Rightarrow> addr \<Rightarrow> mem \<Rightarrow> mem" where
  "f16x8_sub_wrapper L = simd_float16_bin_wrapper L (f16_sub L)"

definition f16_mul :: "v8_lib \<Rightarrow> u16 \<Rightarrow> u16 \<Rightarrow> u16" where
  "f16_mul L a b = FromFloat32 L (bin_op f32 fmul (ToFloat32 L a) (ToFloat32 L b))"

definition f16x8_mul_wrapper :: "v8_lib \<Rightarrow> addr \<Rightarrow> mem \<Rightarrow> mem" where
  "f16x8_mul_wrapper L = simd_float16_bin_wrapper L (f16_mul L)"

definition f16_div :: "v8_lib \<Rightarrow> u16 \<Rightarrow> u16 \<Rightarrow> u16" where
  "f16_div L a b = FromFloat32 L (base_Divide L (ToFloat32 L a) (ToFloat32 L b))"

definition f16x8_div_wrapper :: "v8_lib \<Rightarrow> addr \<Rightarrow> mem \<Rightarrow> mem" where
  "f16x8_div_wrapper L = simd_float16_bin_wrapper L (f16_div L)"

definition f16_min :: "v8_lib \<Rightarrow> u16 \<Rightarrow> u16 \<Rightarrow> u16" where
  "f16_min L a b = FromFloat32 L (JSMin L (ToFloat32 L a) (ToFloat32 L b))"

definition f16x8_min_wrapper :: "v8_lib \<Rightarrow> addr \<Rightarrow> mem \<Rightarrow> mem" where
  "f16x8_min_wrapper L = simd_float16_bin_wrapper L (f16_min L)"

definition f16_max :: "v8_lib \<Rightarrow> u16 \<Rightarrow> u16 \<Rightarrow> u16" where
  "f16_max L a b = FromFloat32 L (JSMax L (ToFloat32 L a) (ToFloat32 L b))"

definition f16x8_max_wrapper :: "v8_lib \<Rightarrow> addr \<Rightarrow> mem \<Rightarrow> mem" where
  "f16x8_max_wrapper L = simd_float16_bin_wrapper L (f16_max L)"

text \<open>\<open>std::min\<close> and \<open>std::max\<close> give the first argument unless the second is better.\<close>

definition f16_pmin :: "v8_lib \<Rightarrow> u16 \<Rightarrow> u16 \<Rightarrow> u16" where
  "f16_pmin L a b =
     (let x = ToFloat32 L a; y = ToFloat32 L b in FromFloat32 L (if float_less y x then y else x))"

definition f16x8_pmin_wrapper :: "v8_lib \<Rightarrow> addr \<Rightarrow> mem \<Rightarrow> mem" where
  "f16x8_pmin_wrapper L = simd_float16_bin_wrapper L (f16_pmin L)"

definition f16_pmax :: "v8_lib \<Rightarrow> u16 \<Rightarrow> u16 \<Rightarrow> u16" where
  "f16_pmax L a b =
     (let x = ToFloat32 L a; y = ToFloat32 L b in FromFloat32 L (if float_less x y then y else x))"

definition f16x8_pmax_wrapper :: "v8_lib \<Rightarrow> addr \<Rightarrow> mem \<Rightarrow> mem" where
  "f16x8_pmax_wrapper L = simd_float16_bin_wrapper L (f16_pmax L)"

subsection \<open>Conversions\<close>

definition simd_float_un_wrapper ::
  "v8_lib \<Rightarrow> nat \<Rightarrow> (nat \<Rightarrow> nat result) \<Rightarrow> addr \<Rightarrow> mem \<Rightarrow> mem result" where
  "simd_float_un_wrapper L width float_un_op data M =
     runE (\<lambda>i M.
       let input = ReadUnaligned L M (data + i * width) width
       in bindE (float_un_op input) (\<lambda>value.
            Inr (WriteUnaligned L M (data + i * width) width value))) [0..<kSimd128Size div width] M"

definition ConvertToIntS :: "v8_lib \<Rightarrow> u16 \<Rightarrow> u16 result" where
  "ConvertToIntS L val =
     (let f = fdecode f32 (ToFloat32 L val) in
      if f = FNaN then Inr 0
      else if fless (of_integer 32767) f then Inr (word_of_int 32767)
      else if fless f (of_integer (- 32768)) then Inr (word_of_int (- 32768))
      else bindE (static_cast (- 32768) 32767 f) (\<lambda>i. Inr (word_of_int i)))"

definition ConvertToIntU :: "v8_lib \<Rightarrow> u16 \<Rightarrow> u16 result" where
  "ConvertToIntU L val =
     (let f = fdecode f32 (ToFloat32 L val) in
      if f = FNaN then Inr 0
      else if fless (of_integer 65535) f then Inr (word_of_int 65535)
      else if fless f (of_integer 0) then Inr 0
      else bindE (static_cast 0 65535 f) (\<lambda>i. Inr (word_of_int i)))"

definition i16x8_sconvert_f16x8_wrapper :: "v8_lib \<Rightarrow> addr \<Rightarrow> mem \<Rightarrow> mem result" where
  "i16x8_sconvert_f16x8_wrapper L =
     simd_float_un_wrapper L 2 (\<lambda>x. bindE (ConvertToIntS L (word_of_nat x)) (\<lambda>y. Inr (unat y)))"

definition i16x8_uconvert_f16x8_wrapper :: "v8_lib \<Rightarrow> addr \<Rightarrow> mem \<Rightarrow> mem result" where
  "i16x8_uconvert_f16x8_wrapper L =
     simd_float_un_wrapper L 2 (\<lambda>x. bindE (ConvertToIntU L (word_of_nat x)) (\<lambda>y. Inr (unat y)))"

definition ConvertToF16S :: "v8_lib \<Rightarrow> u16 \<Rightarrow> u16" where
  "ConvertToF16S L val = FromFloat32 L (fencode f32 (of_integer (sint val)))"

definition f16x8_sconvert_i16x8_wrapper :: "v8_lib \<Rightarrow> addr \<Rightarrow> mem \<Rightarrow> mem result" where
  "f16x8_sconvert_i16x8_wrapper L = simd_float_un_wrapper L 2 (\<lambda>x. Inr (on_u16 (ConvertToF16S L) x))"

definition ConvertToF16U :: "v8_lib \<Rightarrow> u16 \<Rightarrow> u16" where
  "ConvertToF16U L val = FromFloat32 L (fencode f32 (of_integer (uint val)))"

definition f16x8_uconvert_i16x8_wrapper :: "v8_lib \<Rightarrow> addr \<Rightarrow> mem \<Rightarrow> mem result" where
  "f16x8_uconvert_i16x8_wrapper L = simd_float_un_wrapper L 2 (\<lambda>x. Inr (on_u16 (ConvertToF16U L) x))"

definition f32x4_promote_low_f16x8_wrapper :: "v8_lib \<Rightarrow> addr \<Rightarrow> mem \<Rightarrow> mem" where
  "f32x4_promote_low_f16x8_wrapper L data M =
     (let a = read_f16 L M data;
          b = read_f16 L M (data + 2);
          c = read_f16 L M (data + 2 * 2);
          d = read_f16 L M (data + 3 * 2);
          M = write_f32 L M data (ToFloat32 L a);
          M = write_f32 L M (data + 4) (ToFloat32 L b);
          M = write_f32 L M (data + 2 * 4) (ToFloat32 L c)
      in write_f32 L M (data + 3 * 4) (ToFloat32 L d))"

definition demote_lane :: "v8_lib \<Rightarrow> addr \<Rightarrow> nat \<Rightarrow> nat \<Rightarrow> mem \<Rightarrow> mem" where
  "demote_lane L data i j M =
     write_f16 L M (data + j * 2) (FromFloat32 L (read_f32 L M (data + i * 4)))"

definition zero_lane :: "v8_lib \<Rightarrow> addr \<Rightarrow> nat \<Rightarrow> mem \<Rightarrow> mem" where
  "zero_lane L data i M = write_f16 L M (data + i * 2) (FromFloat32 L (fencode f32 (of_integer 0)))"

definition f16x8_demote_f32x4_zero_wrapper :: "v8_lib \<Rightarrow> addr \<Rightarrow> mem \<Rightarrow> mem" where
  "f16x8_demote_f32x4_zero_wrapper L data M =
     (if V8_TARGET_BIG_ENDIAN L
      then fold (zero_lane L data) [0..<4]
             (fold (\<lambda>(i, j). demote_lane L data i j) [(3, 7), (2, 6), (1, 5), (0, 4)] M)
      else fold (zero_lane L data) [4..<8]
             (fold (\<lambda>i. demote_lane L data i i) [0..<4] M))"

definition demote_double_lane :: "v8_lib \<Rightarrow> addr \<Rightarrow> nat \<Rightarrow> nat \<Rightarrow> mem \<Rightarrow> mem" where
  "demote_double_lane L data i j M =
     write_f16 L M (data + j * 2) (DoubleToFloat16 L (read_f64 L M (data + i * 8)))"

definition f16x8_demote_f64x2_zero_wrapper :: "v8_lib \<Rightarrow> addr \<Rightarrow> mem \<Rightarrow> mem" where
  "f16x8_demote_f64x2_zero_wrapper L data M =
     (if V8_TARGET_BIG_ENDIAN L
      then fold (zero_lane L data) [0..<6]
             (fold (\<lambda>(i, j). demote_double_lane L data i j) [(1, 7), (0, 6)] M)
      else fold (zero_lane L data) [2..<8]
             (fold (\<lambda>i. demote_double_lane L data i i) [0..<2] M))"

subsection \<open>Multiplying and adding\<close>

definition simd_float16_fma_wrapper ::
  "v8_lib \<Rightarrow> (nat \<Rightarrow> nat \<Rightarrow> nat \<Rightarrow> nat) \<Rightarrow> addr \<Rightarrow> mem \<Rightarrow> mem" where
  "simd_float16_fma_wrapper L float_fma_op data M =
     fold (\<lambda>i M.
       let offset = data + i * 2;
           a = read_f16 L M offset;
           b = read_f16 L M (offset + kSimd128Size);
           c = read_f16 L M (offset + 2 * kSimd128Size);
           value = float_fma_op (ToFloat32 L a) (ToFloat32 L b) (ToFloat32 L c)
       in write_f16 L M offset (FromFloat32 L value)) [0..<kSimd128Size div 2] M"

definition Qfma :: "nat \<Rightarrow> nat \<Rightarrow> nat \<Rightarrow> nat" where
  "Qfma a b c = bin_op f32 fadd (bin_op f32 fmul a b) c"

definition f16x8_qfma_wrapper :: "v8_lib \<Rightarrow> addr \<Rightarrow> mem \<Rightarrow> mem" where
  "f16x8_qfma_wrapper L = simd_float16_fma_wrapper L Qfma"

definition Qfms :: "nat \<Rightarrow> nat \<Rightarrow> nat \<Rightarrow> nat" where
  "Qfms a b c = bin_op f32 fadd (un_op f32 fneg (bin_op f32 fmul a b)) c"

definition f16x8_qfms_wrapper :: "v8_lib \<Rightarrow> addr \<Rightarrow> mem \<Rightarrow> mem" where
  "f16x8_qfms_wrapper L = simd_float16_fma_wrapper L Qfms"

end
