(* ===== verification/WasmNumericProps.thy ===== *)
theory WasmNumericProps
  imports WasmNumeric
begin

text \<open>
  Properties of the numeric helpers: reading back what was written, agreement of the compiler
  specific conversions with the direct ones, saturation, division and rotation.
\<close>

subsection \<open>Memory\<close>

lemma length_endian [simp]: "length (endian L bs) = length bs"
  by (simp add: endian_def)

lemma endian_endian [simp]: "endian L (endian L bs) = bs"
  by (simp add: endian_def)

lemma length_bytes_of_nat [simp]: "length (bytes_of_nat n v) = n"
  by (simp add: bytes_of_nat_def)

lemma nat_of_bytes_simps [simp]:
  "nat_of_bytes [] = 0" "nat_of_bytes (b # bs) = unat b + 256 * nat_of_bytes bs"
  by (simp_all add: nat_of_bytes_def)

lemma bytes_of_nat_Suc: "bytes_of_nat (Suc n) v = word_of_nat v # bytes_of_nat n (v div 256)"
  by (simp add: bytes_of_nat_def upt_conv_Cons map_Suc_upt [symmetric] div_mult2_eq del: upt_Suc)

lemma nat_of_bytes_of_nat: "nat_of_bytes (bytes_of_nat n v) = v mod 256 ^ n"
proof (induction n arbitrary: v)
  case 0
  then show ?case by (simp add: bytes_of_nat_def)
next
  case (Suc n)
  then show ?case
    by (simp add: bytes_of_nat_Suc unat_of_nat mod_mult2_eq)
qed

lemma nat_of_bytes_less: "nat_of_bytes bs < 256 ^ length bs"
proof (induction bs)
  case Nil
  then show ?case by simp
next
  case (Cons b bs)
  moreover have "unat b < 256" using unsigned_less [of b, where ?'a = nat] by simp
  ultimately show ?case by simp
qed

lemma ReadUnaligned_less: "ReadUnaligned L M a n < 256 ^ n"
  using nat_of_bytes_less [of "endian L (map M [a..<a + n])"] by (simp add: ReadUnaligned_def)

lemma map_write: "map (WriteUnaligned L M a n v) [a..<a + n] = endian L (bytes_of_nat n v)"
  by (rule nth_equalityI) (simp_all add: WriteUnaligned_def)

lemma read_write [simp]: "ReadUnaligned L (WriteUnaligned L M a n v) a n = v mod 256 ^ n"
  by (simp add: ReadUnaligned_def map_write nat_of_bytes_of_nat)

lemma write_outside: "x < a \<or> a + n \<le> x \<Longrightarrow> WriteUnaligned L M a n v x = M x"
  by (auto simp: WriteUnaligned_def)

lemma read_cong: "(\<And>x. a \<le> x \<Longrightarrow> x < a + n \<Longrightarrow> M x = N x) \<Longrightarrow> ReadUnaligned L M a n = ReadUnaligned L N a n"
  unfolding ReadUnaligned_def by (rule arg_cong [where f = "\<lambda>x. nat_of_bytes (endian L x)"]) simp

lemma read_write_apart [simp]:
  "b + k \<le> a \<or> a + n \<le> b \<Longrightarrow> ReadUnaligned L (WriteUnaligned L M a n v) b k = ReadUnaligned L M b k"
  by (rule read_cong) (auto simp: write_outside)

lemma read_write_u64 [simp]: "read_u64 L (write_u64 L M a v) a = v"
proof -
  have "unat v < 256 ^ 8" using unsigned_less [of v, where ?'a = nat] by simp
  then show ?thesis by (simp only: read_u64_def write_u64_def read_write mod_less) simp
qed

subsection \<open>Conversions\<close>

lemma encode_of_nat: "fencode f (of_integer (int n)) = fround f n 0"
  by (simp add: of_integer_def fencode_def sign_bits_def)

text \<open>What the bit counting functions of the library return.\<close>

definition counts_zeros :: "v8_lib \<Rightarrow> bool" where
  "counts_zeros L \<longleftrightarrow> (\<forall>x :: u64. CountLeadingZeros L x = 64 - bit_length (unat x) \<and>
     (x \<noteq> 0 \<longrightarrow> \<not> 2 ^ (CountTrailingZeros L x + 1) dvd unat x))"

lemma extracted_value:
  fixes x :: u64
  assumes "bit_length (unat x) = n + 25" and "0 < n" and "n \<le> 39"
  shows "sint ((ucast (drop_bit (n - 1) x) :: 32 word) OR 1) = int (2 * (unat x div 2 ^ n) + 1)"
proof -
  define y where "y = unat x div 2 ^ (n - 1)"
  have "unat x < 2 ^ (n + 25)" using assms(1) bit_length_le_iff [of "unat x" "n + 25"] by simp
  moreover have "(2 :: nat) ^ (n + 25) = 2 ^ 26 * 2 ^ (n - 1)"
    using assms(2) by (cases n) (simp_all add: power_add)
  ultimately have y: "y < 2 ^ 26"
    unfolding y_def by (simp add: div_less_iff_less_mult)
  have "y div 2 = unat x div 2 ^ n"
    using assms(2) by (simp add: y_def div_mult2_eq [symmetric] power_Suc2 [symmetric])
  then have or1: "y OR 1 = 2 * (unat x div 2 ^ n) + 1"
    unfolding or_one_eq by (cases "even y") (auto elim!: evenE oddE)
  have "unat (drop_bit (n - 1) x) = drop_bit (n - 1) (unat x)" by (rule unat_drop_bit_eq)
  also have "\<dots> = y" by (simp add: y_def drop_bit_eq_div)
  finally have "unat (ucast (drop_bit (n - 1) x) :: 32 word) = y"
    using y by (simp add: unsigned_ucast_eq take_bit_nat_eq_self)
  then have u: "unat ((ucast (drop_bit (n - 1) x) :: 32 word) OR 1) = y OR 1"
    by (simp add: unsigned_or_eq)
  have "y OR 1 < 2 ^ 31" unfolding or_one_eq using y by simp
  moreover have "signed_take_bit 31 (int z) = int z" if "z < 2 ^ 31" for z
    using that by (intro signed_take_bit_int_eq_self) simp_all
  ultimately have "signed_take_bit 31 (int (y OR 1)) = int (y OR 1)" by blast
  with u show ?thesis by (simp only: sint_uint uint_nat or1) simp
qed

lemma multiplier_value:
  assumes "0 < n" and "n \<le> 39"
  shows "unat (push_bit 23 ((word_of_int (int n - 1 - 2 - 127) :: 32 word) AND 0xff))
       = (n + 126) * 2 ^ 23"
proof -
  let ?w = "(word_of_int (int n - 1 - 2 - 127) :: 32 word) AND 0xff"
  have "(0xff :: 32 word) = mask 8" by (simp add: mask_eq_exp_minus_1)
  then have "?w = take_bit 8 (word_of_int (int n - 130) :: 32 word)"
    by (simp only: take_bit_eq_mask) (simp add: diff_diff_eq)
  then have "uint ?w = take_bit 8 (take_bit 32 (int n - 130))"
    by (simp only: unsigned_take_bit_eq uint_word_of_int_eq) simp
  also have "\<dots> = (int n - 130) mod 256" by (simp add: take_bit_eq_mod mod_mod_cancel)
  also have "\<dots> = (int n + 126 - 256) mod 256" by simp
  also have "\<dots> = int n + 126" unfolding minus_mod_self2 using assms by simp
  finally have w: "unat ?w = n + 126" by (metis nat_int of_nat_add of_nat_numeral unat_eq_nat_uint)
  have "(n + 126) * 2 ^ 23 < 2 ^ 32" using assms by simp
  then show ?thesis
    by (simp only: unsigned_push_bit_eq w) (simp add: push_bit_eq_mult take_bit_nat_eq_self)
qed

lemma of_extracted_bits:
  assumes z: "counts_zeros L"
    and c: "CountLeadingZeros L x + CountTrailingZeros L x + 25 < 64"
  shows "float_of_extracted_bits (CountLeadingZeros L x) x = fround f32 (unat x) 0"
proof -
  define n where "n = 39 - CountLeadingZeros L x"
  have lz: "CountLeadingZeros L x = 64 - bit_length (unat x)"
    using z by (simp add: counts_zeros_def)
  with c have x: "x \<noteq> 0" by auto
  have tz: "\<not> 2 ^ (CountTrailingZeros L x + 1) dvd unat x"
    using z x by (auto simp: counts_zeros_def)
  have "bit_length (unat x) \<le> 64" using unsigned_less [of x, where ?'a = nat] by (simp add: bit_length_le_iff)
  then have len: "bit_length (unat x) = n + 25" using lz c by (simp add: n_def)
  have n: "0 < n" "n \<le> 39" "CountTrailingZeros L x + 1 \<le> n" using c by (simp_all add: n_def)
  have low: "unat x mod 2 ^ n \<noteq> 0"
    using tz n(3) by (meson dvd_eq_mod_eq_0 dvd_trans le_imp_power_dvd)
  have agg: "64 - 25 - CountLeadingZeros L x = n" by (simp add: n_def)
  show ?thesis
    using float_through_26_bits [OF len n(1,2) low]
    unfolding float_of_extracted_bits_def Let_def agg extracted_value [OF len n(1,2)]
      multiplier_value [OF n(1,2)] encode_of_nat .
qed

lemma of_halves: "double_of_halves x = fround f64 (unat x) 0"
proof -
  define lo where "lo = (ucast (x AND 0xFFFFFFFF) :: 32 word)"
  define hi where "hi = (ucast (drop_bit 32 x) :: 32 word)"
  have "(0xFFFFFFFF :: u64) = mask 32" by (simp add: mask_eq_exp_minus_1)
  then have "x AND 0xFFFFFFFF = take_bit 32 x" by (simp only: take_bit_eq_mask)
  then have "unat lo = take_bit 32 (unat x)"
    by (simp only: lo_def unsigned_ucast_eq unsigned_take_bit_eq) simp
  then have l: "unat lo = unat x mod 2 ^ 32" by (simp only: take_bit_eq_mod)
  have d: "drop_bit 32 (unat x) = unat x div 2 ^ 32" by (rule drop_bit_eq_div)
  have "unat x div 2 ^ 32 < 2 ^ 32"
    using unsigned_less [of x, where ?'a = nat] by (simp add: div_less_iff_less_mult)
  then have h: "unat hi = unat x div 2 ^ 32"
    by (simp only: hi_def unsigned_ucast_eq unat_drop_bit_eq d) (simp add: take_bit_nat_eq_self)
  have "uint (push_bit 32 (1 :: u64)) = int (2 ^ 32)" by simp
  then have "double_of_halves x = fround f64 (unat hi * 2 ^ 32 + unat lo) 0"
    using double_through_halves [of "unat hi" "unat lo"] unsigned_less [of hi, where ?'a = nat]
      unsigned_less [of lo, where ?'a = nat]
    unfolding double_of_halves_def Let_def lo_def [symmetric] hi_def [symmetric] uint_nat
    by (simp only: encode_of_nat) simp
  also have "unat hi * 2 ^ 32 + unat lo = unat x"
    unfolding l h by (rule div_mult_mod_eq)
  finally show ?thesis .
qed

lemma unsigned_conversions_agree_parts:
  assumes "counts_zeros L"
  shows "uint64_to_float32_wrapper L data M =
           write_f32 L M data (fencode f32 (of_integer (uint (read_u64 L M data))))"
    and "uint64_to_float64_wrapper L data M =
           write_f64 L M data (fencode f64 (of_integer (uint (read_u64 L M data))))"
  unfolding uint64_to_float32_wrapper_def uint64_to_float64_wrapper_def Let_def uint_nat
    encode_of_nat of_halves
  using of_extracted_bits [OF assms, of "read_u64 L M data"] by (simp_all only: if_cancel split: if_split) metis

text \<open>
  C27: the detours the conversions of unsigned integers take on Windows (through 25 bits of the
  number and a bit that gathers the rest) and under MSVC (through the two halves) give, for every
  argument, the pattern the direct conversion gives on the other platforms: the nearest value, ties
  to even. The counts of zero bits are those of the library.
\<close>

theorem unsigned_conversions_agree:
  assumes "counts_zeros L"
  shows "(uint64_to_float32_wrapper L data M =
           write_f32 L M data (fencode f32 (of_integer (uint (read_u64 L M data))))) \<and>
    (uint64_to_float64_wrapper L data M =
           write_f64 L M data (fencode f64 (of_integer (uint (read_u64 L M data)))))"
  by (intro conjI unsigned_conversions_agree_parts [OF assms])

fun trailing :: "nat \<Rightarrow> nat" where
  "trailing n = (if n = 0 \<or> odd n then 0 else Suc (trailing (n div 2)))"

declare trailing.simps [simp del]

lemma trailing_zeros: "n \<noteq> 0 \<Longrightarrow> \<not> 2 ^ Suc (trailing n) dvd n"
proof (induction n rule: trailing.induct)
  case (1 n)
  show ?case
  proof (cases "odd n")
    case True
    then show ?thesis by (simp add: trailing.simps [of n])
  next
    case False
    then obtain m where m: "n = 2 * m" by (auto elim: evenE)
    with 1 False have "trailing n = Suc (trailing m)" by (subst trailing.simps) simp
    with 1 False m show ?thesis by simp
  qed
qed

definition demo_lib :: v8_lib where
  "demo_lib = \<lparr>V8_OS_WIN = True, V8_OS_AIX = False, V8_CC_MSVC = True, V8_TARGET_BIG_ENDIAN = False,
     FpOpWorkaround = (\<lambda>f x y. y), CountLeadingZeros = (\<lambda>x. 64 - bit_length (unat x)),
     CountTrailingZeros = (\<lambda>x. trailing (unat x)),
     IsValueInRange = (\<lambda>lo hi v. case v of
        FFin s m k \<Rightarrow> lo \<le> truncated s m k \<and> truncated s m k \<le> hi | _ \<Rightarrow> False),
     ToFloat32 = unat, FromFloat32 = word_of_nat, DoubleToFloat16 = word_of_nat,
     math_pow = (\<lambda>x y. x), base_Divide = (\<lambda>x y. x), JSMin = min, JSMax = max,
     IsInBounds = (\<lambda>i n m. i + n \<le> m)\<rparr>"

lemma demo_counts_zeros: "counts_zeros demo_lib"
proof -
  have "\<not> 2 ^ (trailing (unat x) + 1) dvd unat x" if "x \<noteq> 0" for x :: u64
    using trailing_zeros [of "unat x"] that by (simp add: unat_eq_zero)
  then show ?thesis by (simp add: counts_zeros_def demo_lib_def)
qed

text \<open>A tie but for its last bit, which the Windows detour keeps in the gathering bit.\<close>

theorem unsigned_conversions_agree_witness:
  "counts_zeros demo_lib
   \<and> uint64_to_float32_wrapper demo_lib 0 (write_u64 demo_lib (\<lambda>_. 0) 0 9223372586610589697)
     = write_f32 demo_lib (write_u64 demo_lib (\<lambda>_. 0) 0 9223372586610589697) 0 1593835521"
proof -
  have len: "bit_length 9223372586610589697 = 64"
    by (intro bit_length_eqI [of 63, simplified]) simp_all
  have "fencode f32 (of_integer 9223372586610589697) = 1593835521"
    by (simp add: of_integer_def fencode_def sign_bits_def fround_def ulp_exp_def len scaled_def
        rne_def inf_bits_def)
  with unsigned_conversions_agree [OF demo_counts_zeros, of 0
      "write_u64 demo_lib (\<lambda>_. 0) 0 9223372586610589697"] demo_counts_zeros
  show ?thesis by simp
qed

subsection \<open>Rotation\<close>

lemma rotl_of_shifts:
  fixes x :: "'a::len word"
  assumes "n < LENGTH('a)"
  shows "push_bit n x OR drop_bit ((LENGTH('a) - n) mod LENGTH('a)) x = word_rotl n x"
proof (rule bit_word_eqI)
  fix i assume i: "i < LENGTH('a)"
  show "bit (push_bit n x OR drop_bit ((LENGTH('a) - n) mod LENGTH('a)) x) i = bit (word_rotl n x) i"
  proof (cases "n \<le> i")
    case True
    then have "(i + (LENGTH('a) - n)) mod LENGTH('a) = i - n"
      using i assms by (simp add: mod_if)
    with True i assms show ?thesis
      by (cases "n = 0") (auto simp: bit_simps dest: bit_imp_le_length)
  next
    case False
    then have "(i + (LENGTH('a) - n)) mod LENGTH('a) = i + (LENGTH('a) - n)"
      using i assms by (simp add: mod_if)
    with False i assms show ?thesis by (simp add: bit_simps add.commute)
  qed
qed

lemma rotr_of_shifts:
  fixes x :: "'a::len word"
  assumes "n < LENGTH('a)"
  shows "drop_bit n x OR push_bit ((LENGTH('a) - n) mod LENGTH('a)) x = word_rotr n x"
proof (rule bit_word_eqI)
  fix i assume i: "i < LENGTH('a)"
  show "bit (drop_bit n x OR push_bit ((LENGTH('a) - n) mod LENGTH('a)) x) i = bit (word_rotr n x) i"
  proof (cases "i + n < LENGTH('a)")
    case True
    with i assms show ?thesis
      by (cases "n = 0") (auto simp: bit_simps add.commute)
  next
    case False
    then have "(i + n) mod LENGTH('a) = i - (LENGTH('a) - n)"
      using i assms by (simp add: mod_if)
    with False i assms show ?thesis
      by (cases "n = 0") (auto simp: bit_simps add.commute dest: bit_imp_le_length)
  qed
qed

lemma mask_amount:
  "unat (s AND 31) = unat s mod 32" "unat (s AND 63) = unat s mod 64" for s :: u32
proof -
  have "(31 :: u32) = mask 5" "(63 :: u32) = mask 6" by (simp_all add: mask_eq_exp_minus_1)
  then have "s AND 31 = take_bit 5 s" "s AND 63 = take_bit 6 s"
    by (simp_all only: take_bit_eq_mask)
  then show "unat (s AND 31) = unat s mod 32" "unat (s AND 63) = unat s mod 64"
    by (simp_all only: unsigned_take_bit_eq) (simp_all add: take_bit_eq_mod)
qed

lemma neg_amount:
  fixes s :: u32
  assumes "m dvd 4294967296" and "0 < m" and "m \<le> 4294967296"
  shows "unat (word_of_nat m - s) mod m = (m - unat s mod m) mod m"
proof -
  have "uint (word_of_nat m - s) = (int m - uint s) mod 4294967296"
  proof -
    have "word_of_nat m - s = word_of_int (int m - uint s)" by simp
    then show ?thesis by (simp only: uint_word_of_int_eq take_bit_eq_mod) simp
  qed
  then have "uint (word_of_nat m - s) mod int m = (int m - uint s) mod int m"
  proof -
    have "int m dvd 4294967296" using assms(1) by (metis of_nat_dvd_iff of_nat_numeral)
    with \<open>uint _ = _\<close> show ?thesis by (simp only: mod_mod_cancel)
  qed
  also have "\<dots> = (int m - uint s mod int m) mod int m" by (simp add: mod_simps)
  also have "\<dots> = int ((m - unat s mod m) mod m)"
  proof -
    have "unat s mod m \<le> m" using assms(2) by (simp add: less_imp_le)
    then show ?thesis by (simp only: uint_nat of_nat_mod of_nat_diff)
  qed
  finally show ?thesis by (simp only: uint_nat of_nat_mod [symmetric] of_nat_eq_iff)
qed

lemma rotations_parts:
  "word32_rol_wrapper x s = word_rotl (unat s mod 32) x"
  "word32_ror_wrapper x s = word_rotr (unat s mod 32) x"
  "word64_rol_wrapper y s = word_rotl (unat s mod 64) y"
  "word64_ror_wrapper y s = word_rotr (unat s mod 64) y"
  "word32_ror_wrapper (word32_rol_wrapper x s) s = x"
  "word64_ror_wrapper (word64_rol_wrapper y s) s = y"
proof -
  have n: "unat ((32 - s) AND 31) = (32 - unat s mod 32) mod 32"
    "unat ((64 - s) AND 63) = (64 - unat s mod 64) mod 64"
    using neg_amount [of 32 s] neg_amount [of 64 s] by (simp_all add: mask_amount)
  have "unat s mod 32 < LENGTH(32)" "unat s mod 64 < LENGTH(64)" by simp_all
  note r = rotl_of_shifts [OF this(1)] rotr_of_shifts [OF this(1)]
    rotl_of_shifts [OF this(2)] rotr_of_shifts [OF this(2)]
  show 1: "word32_rol_wrapper x s = word_rotl (unat s mod 32) x"
    "word32_ror_wrapper x s = word_rotr (unat s mod 32) x" for x
    unfolding word32_rol_wrapper_def word32_ror_wrapper_def n unfolding mask_amount
    using r(1,2) [of x] by simp_all
  show 2: "word64_rol_wrapper y s = word_rotl (unat s mod 64) y"
    "word64_ror_wrapper y s = word_rotr (unat s mod 64) y" for y
    unfolding word64_rol_wrapper_def word64_ror_wrapper_def n unfolding mask_amount
    using r(3,4) [of y] by simp_all
  show "word32_ror_wrapper (word32_rol_wrapper x s) s = x"
    "word64_ror_wrapper (word64_rol_wrapper y s) s = y"
    by (simp_all add: 1 2)
qed

text \<open>
  The rotation helpers rotate by the shift modulo the width, for every shift including 0, where
  the second shift amount wraps around; each undoes the other.
\<close>

lemma rotations:
  "(word32_rol_wrapper x s = word_rotl (unat s mod 32) x) \<and>
    (word32_ror_wrapper x s = word_rotr (unat s mod 32) x) \<and>
    (word64_rol_wrapper y s = word_rotl (unat s mod 64) y) \<and>
    (word64_ror_wrapper y s = word_rotr (unat s mod 64) y) \<and>
    (word32_ror_wrapper (word32_rol_wrapper x s) s = x) \<and>
    (word64_ror_wrapper (word64_rol_wrapper y s) s = y)"
  by (intro conjI rotations_parts)

subsection \<open>Division\<close>

lemma sint_range64: "INT64_MIN \<le> sint x" "sint x \<le> INT64_MAX" for x :: u64
  using sint_greater_eq [of x] sint_less [of x] by (simp_all add: INT64_MIN_def INT64_MAX_def)

lemma sint_of_int64: "\<lbrakk>INT64_MIN \<le> i; i \<le> INT64_MAX\<rbrakk> \<Longrightarrow> sint (word_of_int i :: u64) = i"
  by (simp add: signed_of_int signed_take_bit_int_eq_self INT64_MIN_def INT64_MAX_def)

lemma smod_sgn: "b \<noteq> 0 \<Longrightarrow> a smod b = 0 \<or> sgn (a smod b) = sgn a" for a b :: int
proof -
  assume b: "b \<noteq> 0"
  consider "a = 0" | "0 < a" | "a < 0" by linarith
  then show ?thesis
  proof cases
    case 2
    with b have "0 \<le> a smod b" using smod_int_compares(2,6) [of a b] by linarith
    with 2 show ?thesis by (auto simp: sgn_if)
  next
    case 3
    with b have "a smod b \<le> 0" using smod_int_compares(4,7) [of a b] by linarith
    with 3 show ?thesis by (auto simp: sgn_if)
  qed simp
qed

lemma sdiv_no_overflow:
  assumes "b \<noteq> 0" and "\<not> (b = - 1 \<and> a = INT64_MIN)" and a: "INT64_MIN \<le> a" "a \<le> INT64_MAX"
  shows "INT64_MIN \<le> a sdiv b" "a sdiv b \<le> INT64_MAX"
proof -
  have r: "- \<bar>a\<bar> \<le> a sdiv b" "a sdiv b \<le> \<bar>a\<bar>" using sdiv_int_range [of a b] by simp_all
  have "a = INT64_MIN \<Longrightarrow> a sdiv b \<noteq> - a"
    using assms(2) int_sdiv_negated_is_minus1 [of a b] by (auto simp: INT64_MIN_def)
  with r a show "INT64_MIN \<le> a sdiv b" "a sdiv b \<le> INT64_MAX"
    unfolding INT64_MIN_def INT64_MAX_def by linarith+
qed

text \<open>
  64-bit signed division and remainder. Both trap on a zero divisor and the division on the one
  quotient that does not fit, whose remainder is 0; in every other case the two results \<open>q\<close> and \<open>r\<close>
  satisfy \<open>a = q * b + r\<close> over the integers, with \<open>r\<close> smaller than \<open>b\<close> in magnitude and of the sign
  of \<open>a\<close>, so nothing has wrapped around.
\<close>

lemma int64_division:
  "let a = sint (read_u64 L M data); b = sint (read_u64 L M (data + 8)) in
   if b = 0 then int64_div_wrapper L data M = (0, M) \<and> int64_mod_wrapper L data M = (0, M)
   else if b = - 1 \<and> a = INT64_MIN
   then int64_div_wrapper L data M = (- 1, M) \<and> int64_mod_wrapper L data M = (1, write_u64 L M data 0)
   else \<exists>q r. int64_div_wrapper L data M = (1, write_u64 L M data q) \<and>
          int64_mod_wrapper L data M = (1, write_u64 L M data r) \<and>
          a = sint q * b + sint r \<and> \<bar>sint r\<bar> < \<bar>b\<bar> \<and> (sint r = 0 \<or> sgn (sint r) = sgn a)"
proof -
  let ?x = "read_u64 L M data" and ?y = "read_u64 L M (data + 8)"
  let ?a = "sint ?x" and ?b = "sint ?y"
  have zero: "?y = 0 \<longleftrightarrow> ?b = 0" and minus: "?y = - 1 \<longleftrightarrow> ?b = - 1"
    using signed_word_eqI [of ?y "- 1"] by (auto simp: signed_eq_0_iff)
  show ?thesis
  proof (cases "?b = 0 \<or> (?b = - 1 \<and> ?a = INT64_MIN)")
    case True
    then show ?thesis
      by (auto simp: int64_div_wrapper_def int64_mod_wrapper_def Let_def zero minus)
  next
    case False
    let ?q = "?a sdiv ?b" and ?r = "?a smod ?b"
    have q: "sint (word_of_int ?q :: u64) = ?q"
      using False sint_range64 by (intro sint_of_int64 sdiv_no_overflow) blast+
    have r: "\<bar>?r\<bar> < \<bar>?b\<bar>" using smod_int_range [of ?b ?a] False by auto
    then have "INT64_MIN \<le> ?r" "?r \<le> INT64_MAX"
      using sint_range64 [of ?y] by (auto simp: INT64_MIN_def INT64_MAX_def abs_if split: if_splits)
    then have s: "sint (word_of_int ?r :: u64) = ?r" by (rule sint_of_int64)
    have g: "?r = 0 \<or> sgn ?r = sgn ?a"
      using False by (intro smod_sgn) blast
    have w: "int64_div_wrapper L data M = (1, write_u64 L M data (word_of_int ?q))"
      "int64_mod_wrapper L data M = (1, write_u64 L M data (word_of_int ?r))"
      using False by (auto simp: int64_div_wrapper_def int64_mod_wrapper_def Let_def zero minus)
    have e: "?a = sint (word_of_int ?q :: u64) * ?b + sint (word_of_int ?r :: u64)"
      by (simp only: q s sdiv_mult_smod_eq)
    have ex: "\<exists>q r. int64_div_wrapper L data M = (1, write_u64 L M data q) \<and>
          int64_mod_wrapper L data M = (1, write_u64 L M data r) \<and>
          ?a = sint q * ?b + sint r \<and> \<bar>sint r\<bar> < \<bar>?b\<bar> \<and> (sint r = 0 \<or> sgn (sint r) = sgn ?a)"
      using w e r g s by (intro exI conjI) (assumption | simp only:)+
    show ?thesis
      unfolding Let_def using False by (subst if_not_P, blast, subst if_not_P, blast, intro ex)
  qed
qed

subsection \<open>Saturation\<close>

text \<open>
  What the range test of the library promises: it holds of a value only if the truncated value is
  in the range, and it holds of every value between the bounds.
\<close>

definition range_test :: "v8_lib \<Rightarrow> bool" where
  "range_test L \<longleftrightarrow> (\<forall>lo hi v.
     (IsValueInRange L lo hi v \<longrightarrow>
        (\<exists>s m k. v = FFin s m k \<and> lo \<le> truncated s m k \<and> truncated s m k \<le> hi)) \<and>
     (\<forall>s m k. v = FFin s m k \<and> \<not> fless v (of_integer lo) \<and> \<not> fless (of_integer hi) v \<longrightarrow>
        IsValueInRange L lo hi v))"

definition saturate :: "int \<Rightarrow> int \<Rightarrow> fval \<Rightarrow> int" where
  "saturate lo hi v =
     (case v of
        FNaN \<Rightarrow> 0
      | FInf s \<Rightarrow> if s then lo else hi
      | FFin s m k \<Rightarrow> max lo (min hi (truncated s m k)))"

lemma of_integer_sel [simp]: "of_integer i \<noteq> FNaN" "of_integer i \<noteq> FInf s"
  by (simp_all add: of_integer_def)

lemma fsigned_of_integer: "fsigned (i < 0) (nat \<bar>i\<bar>) = i"
  by (simp add: fsigned_def)

lemma fless_integer:
  "fless (FFin s m k) (of_integer i) \<longleftrightarrow>
     (if 0 \<le> k then fsigned s m * 2 ^ nat k < i else fsigned s m < i * 2 ^ nat (- k))"
  by (simp add: of_integer_def fsigned_of_integer min_def)

lemma integer_fless:
  "fless (of_integer i) (FFin s m k) \<longleftrightarrow>
     (if 0 \<le> k then i < fsigned s m * 2 ^ nat k else i * 2 ^ nat (- k) < fsigned s m)"
  by (simp add: of_integer_def fsigned_of_integer min_def)

lemma pos_le_div_iff: "0 < d \<Longrightarrow> i \<le> m div d \<longleftrightarrow> i * d \<le> m" for d i m :: int
proof
  assume d: "0 < d"
  have "m div d * d \<le> m" using d by (simp add: minus_mod_eq_div_mult [symmetric])
  then show "i \<le> m div d \<Longrightarrow> i * d \<le> m" using d by (meson less_imp_le mult_right_mono order_trans)
  show "i * d \<le> m \<Longrightarrow> i \<le> m div d" using zdiv_mono1 [of "i * d" m d] d by simp
qed

lemma truncated_below:
  assumes "fless (FFin s m k) (of_integer i)" and "i \<le> 0"
  shows "truncated s m k \<le> i"
proof (cases "0 \<le> k")
  case True
  with assms show ?thesis by (cases s) (simp_all add: fless_integer truncated_def fsigned_def)
next
  case False
  define d :: nat where "d = 2 ^ nat (- k)"
  have d: "0 < d" by (simp add: d_def)
  have le: "fsigned s m < i * int d" using assms(1) False by (simp add: fless_integer d_def)
  have "i * int d \<le> 0" using assms(2) by (simp add: mult_nonpos_nonneg)
  with le have s: "s" by (cases s) (simp_all add: fsigned_def)
  with le have "(- i) * int d \<le> int m" by (simp add: fsigned_def)
  then have "- i \<le> int m div int d" using d by (simp add: zdiv_mono1 pos_le_div_iff)
  then have "- i \<le> int (m div d)" by (simp add: zdiv_int)
  with False s show ?thesis by (simp add: truncated_def fsigned_def d_def)
qed

lemma truncated_above:
  assumes "fless (of_integer i) (FFin s m k)" and "0 \<le> i"
  shows "i \<le> truncated s m k"
proof (cases "0 \<le> k")
  case True
  with assms show ?thesis by (cases s) (simp_all add: integer_fless truncated_def fsigned_def)
next
  case False
  define d :: nat where "d = 2 ^ nat (- k)"
  have d: "0 < d" by (simp add: d_def)
  have le: "i * int d < fsigned s m" using assms(1) False by (simp add: integer_fless d_def)
  have "0 \<le> i * int d" using assms(2) by simp
  with le have s: "\<not> s" by (cases s) (simp_all add: fsigned_def)
  with le have "i * int d \<le> int m" by (simp add: fsigned_def)
  then have "i \<le> int m div int d" using d by (simp add: pos_le_div_iff)
  then have "i \<le> int (m div d)" by (simp add: zdiv_int)
  with False s show ?thesis by (simp add: truncated_def fsigned_def d_def)
qed

lemma in_range_cast:
  assumes "range_test L" and "IsValueInRange L lo hi v"
  shows "static_cast lo hi v = Inr (saturate lo hi v)"
  using assms by (force simp: range_test_def static_cast_def saturate_def)

lemma out_of_range:
  "\<lbrakk>range_test L; \<not> IsValueInRange L lo hi (FFin s m k)\<rbrakk>
   \<Longrightarrow> fless (FFin s m k) (of_integer lo) \<or> fless (of_integer hi) (FFin s m k)"
  unfolding range_test_def by blast

lemma fless_mono:
  "\<lbrakk>fless (FFin s m k) (of_integer i); i \<le> j\<rbrakk> \<Longrightarrow> fless (FFin s m k) (of_integer j)"
  unfolding fless_integer
  by (meson less_le_trans mult_right_mono zero_le_numeral zero_le_power)

lemma fless_not_less:
  "\<lbrakk>fless (of_integer i) (FFin s m k); j \<le> i\<rbrakk> \<Longrightarrow> \<not> fless (FFin s m k) (of_integer j)"
  unfolding fless_integer integer_fless
  by (meson less_le_trans less_asym mult_right_mono zero_le_numeral zero_le_power)

lemma int64_sat:
  assumes r: "range_test L"
  shows "int64_sat_wrapper L f n data M = Inr (write_u64 L M data
           (word_of_int (saturate INT64_MIN INT64_MAX (fdecode f (ReadUnaligned L M data n)))))"
proof -
  define v where "v = fdecode f (ReadUnaligned L M data n)"
  have body: "int64_sat_wrapper L f n data M =
     (if IsValueInRange L INT64_MIN INT64_MAX v
      then bindE (static_cast INT64_MIN INT64_MAX v) (\<lambda>i. Inr (write_u64 L M data (word_of_int i)))
      else if v = FNaN then Inr (write_u64 L M data 0)
      else if fless v (of_integer 0) then Inr (write_u64 L M data (word_of_int INT64_MIN))
      else Inr (write_u64 L M data (word_of_int INT64_MAX)))"
    by (simp add: int64_sat_wrapper_def v_def Let_def)
  show ?thesis
  proof (cases "IsValueInRange L INT64_MIN INT64_MAX v")
    case True
    then show ?thesis unfolding body v_def [symmetric] by (simp add: in_range_cast [OF r])
  next
    case out: False
    show ?thesis
    proof (cases v)
      case FNaN
      with out show ?thesis unfolding body v_def [symmetric] by (simp add: saturate_def)
    next
      case (FInf s)
      with out show ?thesis unfolding body v_def [symmetric] by (simp add: saturate_def)
    next
      case (FFin s m k)
      have min: "fless v (of_integer INT64_MIN) \<Longrightarrow> truncated s m k \<le> INT64_MIN \<and> fless v (of_integer 0)"
        using truncated_below [of s m k INT64_MIN] fless_mono [of s m k INT64_MIN 0] FFin
        by (simp add: INT64_MIN_def)
      have max: "fless (of_integer INT64_MAX) v \<Longrightarrow> INT64_MAX \<le> truncated s m k \<and> \<not> fless v (of_integer 0)"
        using truncated_above [of INT64_MAX s m k] fless_not_less [of INT64_MAX s m k 0] FFin
        by (simp add: INT64_MAX_def)
      show ?thesis
        using out_of_range [OF r out [unfolded FFin]] min max out FFin
        unfolding body v_def [symmetric]
        by (auto simp: saturate_def INT64_MIN_def INT64_MAX_def min_def max_def)
    qed
  qed
qed

lemma significand_less:
  assumes "fdecode f n = FFin s m k"
  shows "m < 2 ^ Suc (man_bits f)"
proof -
  obtain x :: nat where "m = x mod 2 ^ man_bits f \<or> m = 2 ^ man_bits f + x mod 2 ^ man_bits f"
    using assms by (auto simp: fdecode_def fmagnitude_def Let_def split: if_splits)
  moreover have "x mod 2 ^ man_bits f < 2 ^ man_bits f" by simp
  ultimately show ?thesis unfolding power_Suc by linarith
qed

lemma fle_scaled:
  assumes "0 \<le> k" and "0 \<le> l"
  shows "fless (FFin False m k) (FFin False n l) \<or> feq (FFin False m k) (FFin False n l)
       \<longleftrightarrow> m * 2 ^ nat k \<le> n * 2 ^ nat l"
proof -
  let ?e = "min k l"
  have "nat k = nat (k - ?e) + nat ?e" "nat l = nat (l - ?e) + nat ?e" using assms by linarith+
  then have "m * 2 ^ nat k = m * 2 ^ nat (k - ?e) * 2 ^ nat ?e"
    "n * 2 ^ nat l = n * 2 ^ nat (l - ?e) * 2 ^ nat ?e"
    by (simp_all only: power_add mult.assoc)
  then have "m * 2 ^ nat k \<le> n * 2 ^ nat l \<longleftrightarrow> m * 2 ^ nat (k - ?e) \<le> n * 2 ^ nat (l - ?e)"
    by (simp only: mult_le_cancel2) simp
  also have "\<dots> \<longleftrightarrow> int (m * 2 ^ nat (k - ?e)) \<le> int (n * 2 ^ nat (l - ?e))"
    by (simp only: of_nat_le_iff)
  finally show ?thesis by (auto simp: fsigned_def)
qed

lemma uint64_limit:
  "fdecode f32 (fencode f32 (of_integer (int UINT64_MAX))) = FFin False (2 ^ 23) 41"
  "fdecode f64 (fencode f64 (of_integer (int UINT64_MAX))) = FFin False (2 ^ 52) 12"
proof -
  have len: "bit_length 18446744073709551615 = 64"
    by (intro bit_length_eqI [of 63, simplified]) simp_all
  have b: "fencode f32 (of_integer (int UINT64_MAX)) = 189 * 2 ^ 23 + 2 ^ Suc 23"
    "fencode f64 (of_integer (int UINT64_MAX)) = 1085 * 2 ^ 52 + 2 ^ Suc 52"
    by (simp_all add: of_integer_def UINT64_MAX_def fencode_def sign_bits_def fround_def ulp_exp_def
        len scaled_def rne_def inf_bits_def)
  show "fdecode f32 (fencode f32 (of_integer (int UINT64_MAX))) = FFin False (2 ^ 23) 41"
    "fdecode f64 (fencode f64 (of_integer (int UINT64_MAX))) = FFin False (2 ^ 52) 12"
    unfolding b using fmagnitude_carry [of 189 f32 False] fmagnitude_carry [of 1085 f64 False]
    by (simp_all add: fdecode_positive)
qed

lemma uint64_sat:
  assumes r: "range_test L"
    and limit: "fdecode f (fencode f (of_integer (int UINT64_MAX))) = FFin False (2 ^ man_bits f) e"
    and e: "0 < e" "2 ^ man_bits f * 2 ^ nat e = (2 ^ 64 :: nat)"
  shows "uint64_sat_wrapper L f n data M = Inr (write_u64 L M data
           (word_of_int (saturate 0 (int UINT64_MAX) (fdecode f (ReadUnaligned L M data n)))))"
proof -
  define v where "v = fdecode f (ReadUnaligned L M data n)"
  define l where "l = FFin False (2 ^ man_bits f) e"
  have body: "uint64_sat_wrapper L f n data M =
     (if IsValueInRange L 0 (int UINT64_MAX) v
      then bindE (static_cast 0 (int UINT64_MAX) v) (\<lambda>i. Inr (write_u64 L M data (word_of_int i)))
      else if fless l v \<or> feq l v then Inr (write_u64 L M data (word_of_nat UINT64_MAX))
      else Inr (write_u64 L M data 0))"
    by (simp add: uint64_sat_wrapper_def v_def l_def limit Let_def)
  show ?thesis
  proof (cases "IsValueInRange L 0 (int UINT64_MAX) v")
    case True
    then show ?thesis unfolding body v_def [symmetric] by (simp add: in_range_cast [OF r])
  next
    case out: False
    show ?thesis
    proof (cases v)
      case FNaN
      with out show ?thesis unfolding body v_def [symmetric] l_def by (simp add: saturate_def)
    next
      case (FInf s)
      with out show ?thesis unfolding body v_def [symmetric] l_def by (simp add: saturate_def)
    next
      case (FFin s m k)
      consider "fless v (of_integer 0)" | "fless (of_integer (int UINT64_MAX)) v"
        using out_of_range [OF r out [unfolded FFin]] FFin by blast
      then show ?thesis
      proof cases
        case 1
        have s: "s"
        proof (rule ccontr)
          assume "\<not> s"
          with 1 FFin have "int m * 2 ^ nat k < 0 \<or> int m < 0"
            by (simp add: fless_integer fsigned_def split: if_splits)
          moreover have "0 \<le> int m * 2 ^ nat k" by simp
          ultimately show False by linarith
        qed
        have "\<not> fless l v \<and> \<not> feq l v"
        proof -
          let ?A = "(2 :: int) ^ man_bits f * 2 ^ nat (e - min e k)"
          let ?B = "int m * 2 ^ nat (k - min e k)"
          have "fless l v \<longleftrightarrow> ?A < - ?B" "feq l v \<longleftrightarrow> ?A = - ?B"
            using FFin s by (simp_all add: l_def fsigned_def)
          moreover have "0 < ?A" "0 \<le> ?B" by simp_all
          ultimately show ?thesis by linarith
        qed
        moreover have "truncated s m k \<le> 0" using truncated_below 1 FFin by blast
        ultimately show ?thesis
          using out FFin unfolding body v_def [symmetric] by (simp add: saturate_def)
      next
        case 2
        have s: "\<not> s"
        proof
          assume "s"
          then have "truncated s m k \<le> 0" by (simp add: truncated_def fsigned_def)
          moreover have "int UINT64_MAX \<le> truncated s m k"
            using truncated_above [of "int UINT64_MAX" s m k] 2 FFin by simp
          ultimately show False by (simp add: UINT64_MAX_def)
        qed
        have small: "(2 :: nat) ^ Suc (man_bits f) \<le> 2 ^ 64"
        proof -
          have "(2 :: nat) ^ 1 \<le> 2 ^ nat e" using e(1) by (intro power_increasing) simp_all
          then show ?thesis using e(2) mult_le_mono2 [of 2 "2 ^ nat e" "2 ^ man_bits f"] by simp
        qed
        have k: "0 \<le> k"
        proof (rule ccontr)
          assume k: "\<not> 0 \<le> k"
          then have "int UINT64_MAX * 2 ^ nat (- k) < int m" 
            using 2 FFin s by (simp add: integer_fless fsigned_def)
          moreover have "(2 :: int) ^ 1 \<le> 2 ^ nat (- k)" using k by (intro power_increasing) simp_all
          then have "int UINT64_MAX * 2 \<le> int UINT64_MAX * 2 ^ nat (- k)" by (simp add: UINT64_MAX_def)
          ultimately have "2 ^ 64 < m" by (simp add: UINT64_MAX_def)
          moreover have "m < 2 ^ Suc (man_bits f)"
            using significand_less FFin unfolding v_def by blast
          ultimately show False using small by linarith
        qed
        then have "int UINT64_MAX < int m * 2 ^ nat k"
          using 2 FFin s by (simp add: integer_fless fsigned_def)
        then have "2 ^ 64 \<le> int (m * 2 ^ nat k)" by (simp add: UINT64_MAX_def)
        then have "int (2 ^ 64) \<le> int (m * 2 ^ nat k)" by simp
        then have "2 ^ 64 \<le> m * 2 ^ nat k" by (simp only: of_nat_le_iff)
        then have "2 ^ man_bits f * 2 ^ nat e \<le> m * 2 ^ nat k" unfolding e(2) by linarith
        then have "fless l v \<or> feq l v"
          using fle_scaled [of e k "2 ^ man_bits f" m] k e s FFin by (simp add: l_def)
        moreover have "int UINT64_MAX \<le> truncated s m k" 
          using truncated_above [of "int UINT64_MAX"] 2 FFin by simp
        ultimately show ?thesis
          using out FFin unfolding body v_def [symmetric] by (simp add: saturate_def UINT64_MAX_def)
      qed
    qed
  qed
qed

lemma conversions_saturate_parts:
  assumes "range_test L"
  shows "float32_to_int64_sat_wrapper L data M = Inr (write_u64 L M data
           (word_of_int (saturate INT64_MIN INT64_MAX (fdecode f32 (read_f32 L M data)))))"
    and "float32_to_uint64_sat_wrapper L data M = Inr (write_u64 L M data
           (word_of_int (saturate 0 (int UINT64_MAX) (fdecode f32 (read_f32 L M data)))))"
    and "float64_to_int64_sat_wrapper L data M = Inr (write_u64 L M data
           (word_of_int (saturate INT64_MIN INT64_MAX (fdecode f64 (read_f64 L M data)))))"
    and "float64_to_uint64_sat_wrapper L data M = Inr (write_u64 L M data
           (word_of_int (saturate 0 (int UINT64_MAX) (fdecode f64 (read_f64 L M data)))))"
  using int64_sat [OF assms] uint64_sat [OF assms, of f32 41] uint64_sat [OF assms, of f64 12]
  by (simp_all add: float32_to_int64_sat_wrapper_def float32_to_uint64_sat_wrapper_def
      float64_to_int64_sat_wrapper_def float64_to_uint64_sat_wrapper_def uint64_limit
      read_f32_def read_f64_def)

text \<open>
  The saturating conversions write, for every \<open>float\<close> and every \<open>double\<close>, the truncated value
  limited to the range of the integer type, 0 for a NaN and the bounds for the infinities, and
  never make an undefined cast. Of the library's range test only the documented part is used; what
  it says of values strictly between -1 and 0 does not matter.
\<close>

lemma conversions_saturate:
  assumes "range_test L"
  shows "(float32_to_int64_sat_wrapper L data M = Inr (write_u64 L M data
           (word_of_int (saturate INT64_MIN INT64_MAX (fdecode f32 (read_f32 L M data)))))) \<and>
    (float32_to_uint64_sat_wrapper L data M = Inr (write_u64 L M data
           (word_of_int (saturate 0 (int UINT64_MAX) (fdecode f32 (read_f32 L M data)))))) \<and>
    (float64_to_int64_sat_wrapper L data M = Inr (write_u64 L M data
           (word_of_int (saturate INT64_MIN INT64_MAX (fdecode f64 (read_f64 L M data)))))) \<and>
    (float64_to_uint64_sat_wrapper L data M = Inr (write_u64 L M data
           (word_of_int (saturate 0 (int UINT64_MAX) (fdecode f64 (read_f64 L M data))))))"
  by (intro conjI conversions_saturate_parts [OF assms])

lemma truncated_between:
  assumes "\<not> fless (FFin s m k) (of_integer lo)" and "\<not> fless (of_integer hi) (FFin s m k)"
  shows "lo \<le> truncated s m k \<and> truncated s m k \<le> hi"
proof (cases "0 \<le> k")
  case True
  with assms show ?thesis
    by (cases s) (simp_all add: fless_integer integer_fless truncated_def fsigned_def not_less)
next
  case False
  define d :: int where "d = 2 ^ nat (- k)"
  have d: "0 < d" by (simp add: d_def)
  have b: "lo * d \<le> fsigned s m" "fsigned s m \<le> hi * d"
    using assms False by (simp_all add: fless_integer integer_fless d_def not_less)
  have q: "truncated s m k = fsigned s (nat (int m div d))"
    using False by (simp add: truncated_def d_def nat_div_distrib nat_power_eq)
  have up: "int m div d \<le> i" if "int m \<le> i * d" for i
    using zdiv_mono1 [OF that d] d by simp
  have "0 \<le> int m div d" using d by (simp add: pos_imp_zdiv_nonneg_iff)
  then show ?thesis
    using b pos_le_div_iff [OF d, of lo "int m"] pos_le_div_iff [OF d, of "- hi" "int m"]
      up [of hi] up [of "- lo"]
    unfolding q by (cases s) (simp_all add: fsigned_def)
qed

lemma demo_range_test: "range_test demo_lib"
  using truncated_between
  by (auto simp: range_test_def demo_lib_def split: fval.split_asm)

text \<open>The \<open>float\<close> -1.5 as a signed and an unsigned integer.\<close>

lemma conversions_saturate_example:
  "range_test demo_lib
   \<and> float32_to_int64_sat_wrapper demo_lib 0 (write_f32 demo_lib (\<lambda>_. 0) 0 3217031168)
     = Inr (write_u64 demo_lib (write_f32 demo_lib (\<lambda>_. 0) 0 3217031168) 0 (- 1))
   \<and> float32_to_uint64_sat_wrapper demo_lib 0 (write_f32 demo_lib (\<lambda>_. 0) 0 3217031168)
     = Inr (write_u64 demo_lib (write_f32 demo_lib (\<lambda>_. 0) 0 3217031168) 0 0)"
proof -
  let ?M = "write_f32 demo_lib (\<lambda>_. 0) 0 3217031168"
  have "read_f32 demo_lib ?M 0 = 3217031168" by (simp add: read_f32_def write_f32_def)
  moreover have "fdecode f32 3217031168 = FFin True 12582912 (- 23)"
    by (simp add: fdecode_def fmagnitude_def Let_def)
  ultimately show ?thesis
    using conversions_saturate [OF demo_range_test, of 0 ?M] demo_range_test
    by (simp add: saturate_def truncated_def fsigned_def INT64_MIN_def INT64_MAX_def)
qed

end
