(* ===== verification/WasmSimdProps.thy ===== *)
theory WasmSimdProps
  imports WasmSimd WasmNumericProps
begin

text \<open>
  The vector helpers work in place: the result overwrites the first operand while the loop still
  reads. The lemma \<open>fold_lanes\<close> describes such a loop when no iteration reads what an earlier one
  has written; the properties apply it to the templates and to the conversions between lanes of
  different width.
\<close>

definition off_lanes :: "addr \<Rightarrow> nat \<Rightarrow> nat set \<Rightarrow> addr \<Rightarrow> bool" where
  "off_lanes a w js x \<longleftrightarrow> (\<forall>p\<in>js. x < a + p * w \<or> a + p * w + w \<le> x)"

definition agree_off :: "addr \<Rightarrow> nat \<Rightarrow> nat set \<Rightarrow> mem \<Rightarrow> mem \<Rightarrow> bool" where
  "agree_off a w js M N \<longleftrightarrow> (\<forall>x. off_lanes a w js x \<longrightarrow> N x = M x)"

lemma lanes_apart:
  fixes i j w :: nat
  assumes "i \<noteq> j"
  shows "a + i * w + w \<le> a + j * w \<or> a + j * w + w \<le> a + i * w"
proof (cases "i < j")
  case True
  then have "Suc i * w \<le> j * w" by (intro mult_le_mono1) simp
  then show ?thesis by simp
next
  case False
  with assms have "Suc j * w \<le> i * w" by (intro mult_le_mono1) simp
  then show ?thesis by simp
qed

lemma read_agree:
  "\<lbrakk>agree_off a w js M N; \<And>x. b \<le> x \<Longrightarrow> x < b + n \<Longrightarrow> off_lanes a w js x\<rbrakk>
   \<Longrightarrow> ReadUnaligned L N b n = ReadUnaligned L M b n"
  by (rule read_cong) (auto simp: agree_off_def)

text \<open>
  A loop over lanes. \<open>g j N\<close> is what the iteration for lane \<open>j\<close> writes when it finds the memory \<open>N\<close>;
  it does not depend on the lanes written before.
\<close>

lemma fold_lanes:
  fixes L :: v8_lib and M :: mem
  assumes "distinct js"
    and "\<And>ps j qs N. js = ps @ j # qs \<Longrightarrow> agree_off a w (set ps) M N \<Longrightarrow> g j N = g j M"
  defines "R \<equiv> fold (\<lambda>j N. WriteUnaligned L N (a + j * w) w (g j N)) js M"
  shows "agree_off a w (set js) M R \<and> (\<forall>j\<in>set js. ReadUnaligned L R (a + j * w) w = g j M mod 256 ^ w)"
  using assms(1,2) unfolding R_def
proof (induction js rule: rev_induct)
  case Nil
  then show ?case by (simp add: agree_off_def)
next
  case (snoc j js)
  let ?N = "fold (\<lambda>j N. WriteUnaligned L N (a + j * w) w (g j N)) js M"
  have IH: "agree_off a w (set js) M ?N"
    "\<forall>i\<in>set js. ReadUnaligned L ?N (a + i * w) w = g i M mod 256 ^ w"
    using snoc.IH snoc.prems by auto
  have g: "g j ?N = g j M" using snoc.prems(2) [of js j "[]"] IH(1) by simp
  have "agree_off a w (set (js @ [j])) M (WriteUnaligned L ?N (a + j * w) w (g j M))"
    using IH(1) by (auto simp: agree_off_def off_lanes_def write_outside)
  moreover have "ReadUnaligned L (WriteUnaligned L ?N (a + j * w) w (g j M)) (a + i * w) w = g i M mod 256 ^ w"
    if "i \<in> set js" for i
  proof -
    have "i \<noteq> j" using that snoc.prems(1) by auto
    from read_write_apart [OF lanes_apart [OF this]] IH(2) that show ?thesis by simp
  qed
  ultimately show ?case by (auto simp: g)
qed

text \<open>The lanes of a loop that goes up, and what it has not touched yet.\<close>

lemma upt_split: "[m..<n] = ps @ j # qs \<Longrightarrow> set ps = {m..<j} \<and> m \<le> j \<and> j < n"
proof -
  assume s: "[m..<n] = ps @ j # qs"
  have len: "length ps < n - m" using arg_cong [OF s, of length] by simp
  have "ps = take (length ps) [m..<n]" using s by simp
  also have "\<dots> = [m..<m + length ps]" using len by (simp add: take_upt)
  finally have ps: "set ps = {m..<m + length ps}" by (metis set_upt)
  have "j = [m..<n] ! length ps" using s by simp
  also have "\<dots> = m + length ps" using len by simp
  finally show ?thesis using ps len by simp
qed

lemma off_lanes_beyond:
  assumes "a + j * w \<le> x"
  shows "off_lanes a w {0..<j} x"
  unfolding off_lanes_def
proof
  fix p assume "p \<in> {0..<j}"
  then have "Suc p * w \<le> j * w" by (intro mult_le_mono1) simp
  with assms show "x < a + p * w \<or> a + p * w + w \<le> x" by simp
qed

lemma fold_lanes_up:
  fixes L :: v8_lib and M :: mem
  assumes "\<And>j N. j < n \<Longrightarrow> agree_off a w {0..<j} M N \<Longrightarrow> g j N = g j M"
  defines "R \<equiv> fold (\<lambda>j N. WriteUnaligned L N (a + j * w) w (g j N)) [0..<n] M"
  shows "agree_off a w {0..<n} M R"
    and "j < n \<Longrightarrow> ReadUnaligned L R (a + j * w) w = g j M mod 256 ^ w"
proof -
  have "agree_off a w (set [0..<n]) M R \<and>
    (\<forall>j\<in>set [0..<n]. ReadUnaligned L R (a + j * w) w = g j M mod 256 ^ w)"
    unfolding R_def by (rule fold_lanes) (auto dest!: upt_split intro: assms(1))
  then show "agree_off a w {0..<n} M R"
    "j < n \<Longrightarrow> ReadUnaligned L R (a + j * w) w = g j M mod 256 ^ w" by simp_all
qed

lemma agree_off_outside:
  "\<lbrakk>agree_off a w {0..<n} M R; x < a \<or> a + n * w \<le> x\<rbrakk> \<Longrightarrow> R x = M x"
proof -
  assume r: "agree_off a w {0..<n} M R" and x: "x < a \<or> a + n * w \<le> x"
  have "off_lanes a w {0..<n} x"
  proof (cases "x < a")
    case True
    then show ?thesis by (auto simp: off_lanes_def)
  next
    case False
    with x show ?thesis by (intro off_lanes_beyond) simp
  qed
  with r show ?thesis by (simp add: agree_off_def)
qed

lemma agree_own_lane:
  "agree_off a w {0..<j} M N \<Longrightarrow> ReadUnaligned L N (a + j * w) w = ReadUnaligned L M (a + j * w) w"
  by (rule read_agree [where js = "{0..<j}"]) (auto intro: off_lanes_beyond)

lemma agree_beyond:
  "\<lbrakk>agree_off a w {0..<j} M N; a + j * w \<le> b\<rbrakk> \<Longrightarrow> ReadUnaligned L N b n = ReadUnaligned L M b n"
  by (rule read_agree [where js = "{0..<j}"]) (auto intro: off_lanes_beyond)

definition round_value :: "v8_lib \<Rightarrow> fmt \<Rightarrow> (nat \<Rightarrow> nat) \<Rightarrow> nat \<Rightarrow> nat" where
  "round_value L f rop x = (if V8_OS_AIX L then FpOpWorkaround L f x (rop x) else rop x)"

lemma round_lanes:
  defines "R L f w rop data M \<equiv> simd_float_round_wrapper L f w rop data M"
  shows "agree_off data w {0..<kSimd128Size div w} M (R L f w rop data M)"
    and "i < kSimd128Size div w \<Longrightarrow> ReadUnaligned L (R L f w rop data M) (data + i * w) w
           = round_value L f rop (ReadUnaligned L M (data + i * w) w) mod 256 ^ w"
proof -
  have R: "R L f w rop data M = fold (\<lambda>j N. WriteUnaligned L N (data + j * w) w
      (round_value L f rop (ReadUnaligned L N (data + j * w) w))) [0..<kSimd128Size div w] M"
    by (simp add: R_def simd_float_round_wrapper_def round_value_def Let_def)
  show "agree_off data w {0..<kSimd128Size div w} M (R L f w rop data M)"
    unfolding R by (rule fold_lanes_up(1)) (simp add: agree_own_lane)
  show "i < kSimd128Size div w \<Longrightarrow> ReadUnaligned L (R L f w rop data M) (data + i * w) w
           = round_value L f rop (ReadUnaligned L M (data + i * w) w) mod 256 ^ w"
    unfolding R by (rule fold_lanes_up(2)) (simp_all add: agree_own_lane)
qed

lemma unat16: "unat v mod 256 ^ 2 = unat v" for v :: u16
  using unsigned_less [of v, where ?'a = nat] by simp

lemma f16_loop:
  assumes R: "R = fold (\<lambda>j N. write_f16 L N (data + j * 2) (g j N)) [0..<8] M"
    and g: "\<And>j N. j < 8 \<Longrightarrow> agree_off data 2 {0..<j} M N \<Longrightarrow> g j N = g j M"
  shows "agree_off data 2 {0..<8} M R" and "i < 8 \<Longrightarrow> read_f16 L R (data + i * 2) = g i M"
proof -
  have R': "R = fold (\<lambda>j N. WriteUnaligned L N (data + j * 2) 2 (unat (g j N))) [0..<8] M"
    by (simp add: R write_f16_def)
  show "agree_off data 2 {0..<8} M R" unfolding R' by (rule fold_lanes_up(1)) (simp add: g)
  have "i < 8 \<Longrightarrow> ReadUnaligned L R (data + i * 2) 2 = unat (g i M) mod 256 ^ 2"
    unfolding R' by (rule fold_lanes_up(2)) (simp_all add: g)
  then show "i < 8 \<Longrightarrow> read_f16 L R (data + i * 2) = g i M"
    by (simp only: read_f16_def unat16) simp
qed

lemma bin_lanes:
  shows "agree_off data 2 {0..<8} M (simd_float16_bin_wrapper L bop data M)"
    and "i < 8 \<Longrightarrow> read_f16 L (simd_float16_bin_wrapper L bop data M) (data + i * 2)
           = bop (read_f16 L M (data + i * 2)) (read_f16 L M (data + 16 + i * 2))"
proof -
  let ?g = "\<lambda>j N. bop (read_f16 L N (data + j * 2)) (read_f16 L N (data + 16 + j * 2))"
  have R: "simd_float16_bin_wrapper L bop data M
    = fold (\<lambda>j N. write_f16 L N (data + j * 2) (?g j N)) [0..<8] M"
    by (simp add: simd_float16_bin_wrapper_def kSimd128Size_def Let_def)
  have g: "?g j N = ?g j M" if "j < 8" "agree_off data 2 {0..<j} M N" for j N
    using that(2) by (simp add: read_f16_def agree_own_lane agree_beyond [of data 2 j M N "data + 16 + j * 2"])
  show "agree_off data 2 {0..<8} M (simd_float16_bin_wrapper L bop data M)"
    by (rule f16_loop(1) [OF R g])
  show "i < 8 \<Longrightarrow> read_f16 L (simd_float16_bin_wrapper L bop data M) (data + i * 2) = ?g i M"
    by (rule f16_loop(2) [OF R g])
qed

lemma fma_lanes:
  shows "agree_off data 2 {0..<8} M (simd_float16_fma_wrapper L fop data M)"
    and "i < 8 \<Longrightarrow> read_f16 L (simd_float16_fma_wrapper L fop data M) (data + i * 2)
           = FromFloat32 L (fop (ToFloat32 L (read_f16 L M (data + i * 2)))
               (ToFloat32 L (read_f16 L M (data + i * 2 + 16)))
               (ToFloat32 L (read_f16 L M (data + i * 2 + 32))))"
proof -
  let ?g = "\<lambda>j N. FromFloat32 L (fop (ToFloat32 L (read_f16 L N (data + j * 2)))
               (ToFloat32 L (read_f16 L N (data + j * 2 + 16)))
               (ToFloat32 L (read_f16 L N (data + j * 2 + 32))))"
  have R: "simd_float16_fma_wrapper L fop data M
    = fold (\<lambda>j N. write_f16 L N (data + j * 2) (?g j N)) [0..<8] M"
    by (simp add: simd_float16_fma_wrapper_def kSimd128Size_def Let_def)
  have g: "?g j N = ?g j M" if "j < 8" "agree_off data 2 {0..<j} M N" for j N
    using that(2) by (simp add: read_f16_def agree_own_lane agree_beyond [of data 2 j M N])
  show "agree_off data 2 {0..<8} M (simd_float16_fma_wrapper L fop data M)"
    by (rule f16_loop(1) [OF R g])
  show "i < 8 \<Longrightarrow> read_f16 L (simd_float16_fma_wrapper L fop data M) (data + i * 2) = ?g i M"
    by (rule f16_loop(2) [OF R g])
qed

lemma simd_lanes_independent_parts:
  assumes "i < kSimd128Size div w" and "j < 8" and "x < data \<or> data + kSimd128Size \<le> x"
  shows "ReadUnaligned L (simd_float_round_wrapper L f w rop data M) (data + i * w) w
       = round_value L f rop (ReadUnaligned L M (data + i * w) w) mod 256 ^ w"
    and "read_f16 L (simd_float16_bin_wrapper L bop data M) (data + j * 2)
       = bop (read_f16 L M (data + j * 2)) (read_f16 L M (data + 16 + j * 2))"
    and "read_f16 L (simd_float16_fma_wrapper L fop data M) (data + j * 2)
       = FromFloat32 L (fop (ToFloat32 L (read_f16 L M (data + j * 2)))
               (ToFloat32 L (read_f16 L M (data + j * 2 + 16)))
               (ToFloat32 L (read_f16 L M (data + j * 2 + 32))))"
    and "simd_float_round_wrapper L f w rop data M x = M x"
    and "simd_float16_bin_wrapper L bop data M x = M x"
    and "simd_float16_fma_wrapper L fop data M x = M x"
proof -
  have "kSimd128Size div w * w \<le> kSimd128Size" by simp
  then have "x < data \<or> data + kSimd128Size div w * w \<le> x" using assms(3) by linarith
  then show "simd_float_round_wrapper L f w rop data M x = M x"
    by (rule agree_off_outside [OF round_lanes(1)])
  have "x < data \<or> data + 8 * 2 \<le> x" using assms(3) by (simp add: kSimd128Size_def)
  then show "simd_float16_bin_wrapper L bop data M x = M x"
    "simd_float16_fma_wrapper L fop data M x = M x"
    by (rule agree_off_outside [OF bin_lanes(1)], rule agree_off_outside [OF fma_lanes(1)])
qed (rule round_lanes(2) bin_lanes(2) fma_lanes(2) assms)+

text \<open>
  C30: the vector helpers work lane by lane although they overwrite their first operand as they go:
  each lane of the result is the operation applied to that lane of the operands as they were on
  entry, for the templates of one, two and three operands, and no other memory changes.
\<close>

theorem simd_lanes_independent:
  assumes "i < kSimd128Size div w" and "j < 8" and "x < data \<or> data + kSimd128Size \<le> x"
  shows "(ReadUnaligned L (simd_float_round_wrapper L f w rop data M) (data + i * w) w
       = round_value L f rop (ReadUnaligned L M (data + i * w) w) mod 256 ^ w) \<and>
    (read_f16 L (simd_float16_bin_wrapper L bop data M) (data + j * 2)
       = bop (read_f16 L M (data + j * 2)) (read_f16 L M (data + 16 + j * 2))) \<and>
    (read_f16 L (simd_float16_fma_wrapper L fop data M) (data + j * 2)
       = FromFloat32 L (fop (ToFloat32 L (read_f16 L M (data + j * 2)))
               (ToFloat32 L (read_f16 L M (data + j * 2 + 16)))
               (ToFloat32 L (read_f16 L M (data + j * 2 + 32))))) \<and>
    (simd_float_round_wrapper L f w rop data M x = M x) \<and>
    (simd_float16_bin_wrapper L bop data M x = M x) \<and>
    (simd_float16_fma_wrapper L fop data M x = M x)"
  by (intro conjI simd_lanes_independent_parts [OF assms])

text \<open>The second lanes of two vectors, 3 and 4.\<close>

lemma demo_lib_sel:
  "ToFloat32 demo_lib = unat" "FromFloat32 demo_lib = word_of_nat" "JSMin demo_lib = min"
  "V8_TARGET_BIG_ENDIAN demo_lib = False"
  by (simp_all add: demo_lib_def)

definition demo_lanes :: mem where
  "demo_lanes = write_f16 demo_lib (write_f16 demo_lib (\<lambda>_. 0) 2 3) 18 4"

theorem simd_lanes_independent_witness:
  "read_f16 demo_lib (f16x8_min_wrapper demo_lib 0 demo_lanes) (0 + 1 * 2) = 3
   \<and> f16x8_min_wrapper demo_lib 0 demo_lanes 16 = demo_lanes 16"
proof -
  have b: "(0 :: nat) < kSimd128Size div 2" "(1 :: nat) < 8" "(16 :: nat) < 0 \<or> 0 + kSimd128Size \<le> 16"
    by (simp_all add: kSimd128Size_def)
  have a: "0 + 1 * 2 = (2 :: nat)" "0 + 16 + 1 * 2 = (18 :: nat)" by simp_all
  have "read_f16 demo_lib demo_lanes 2 = 3" "read_f16 demo_lib demo_lanes 18 = 4"
    by (simp_all add: demo_lanes_def read_f16_def write_f16_def)
  then have "f16_min demo_lib (read_f16 demo_lib demo_lanes 2) (read_f16 demo_lib demo_lanes 18) = 3"
    by (simp only: f16_min_def demo_lib_sel) simp
  then show ?thesis
    using simd_lanes_independent [OF b, where L = demo_lib and M = demo_lanes and bop = "f16_min demo_lib"]
    unfolding f16x8_min_wrapper_def a by simp
qed

subsection \<open>Conversions between lanes\<close>

lemma static_cast_between:
  "\<lbrakk>v \<noteq> FNaN; \<not> fless v (of_integer lo); \<not> fless (of_integer hi) v\<rbrakk>
   \<Longrightarrow> static_cast lo hi v = Inr (saturate lo hi v)"
  using truncated_between [of _ _ _ lo hi]
  by (cases v) (auto simp: static_cast_def saturate_def Let_def of_integer_def)

lemma saturate_bounds:
  assumes "lo \<le> 0" and "0 \<le> hi" and "v \<noteq> FNaN"
  shows "fless (of_integer hi) v \<Longrightarrow> saturate lo hi v = hi"
    and "fless v (of_integer lo) \<Longrightarrow> saturate lo hi v = lo"
  using assms truncated_above [of hi] truncated_below [where i = lo]
  by (cases v; fastforce simp: saturate_def of_integer_def min_def max_def)+

lemma ConvertToIntS_saturates:
  "ConvertToIntS L h = Inr (word_of_int (saturate (- 32768) 32767 (fdecode f32 (ToFloat32 L h))))"
proof -
  let ?v = "fdecode f32 (ToFloat32 L h)"
  have "?v = FNaN \<Longrightarrow> saturate (- 32768) 32767 ?v = 0" by (simp add: saturate_def)
  then show ?thesis
    using saturate_bounds [of "- 32768" 32767 ?v] static_cast_between [of ?v "- 32768" 32767]
    by (auto simp: ConvertToIntS_def Let_def)
qed

lemma ConvertToIntU_saturates:
  "ConvertToIntU L h = Inr (word_of_int (saturate 0 65535 (fdecode f32 (ToFloat32 L h))))"
proof -
  let ?v = "fdecode f32 (ToFloat32 L h)"
  have "?v = FNaN \<Longrightarrow> saturate 0 65535 ?v = 0" by (simp add: saturate_def)
  then show ?thesis
    using saturate_bounds [of 0 65535 ?v] static_cast_between [of ?v 0 65535]
    by (auto simp: ConvertToIntU_def Let_def)
qed

lemma runE_total: "(\<And>i s. f i s = Inr (h i s)) \<Longrightarrow> runE f xs s = Inr (fold h xs s)"
  by (induction xs arbitrary: s) simp_all

lemma un_lanes:
  assumes "\<And>h. op (unat h) = Inr (unat (c h))"
  shows "\<exists>R. simd_float_un_wrapper L 2 op data M = Inr R
           \<and> (\<forall>i<8. read_f16 L R (data + i * 2) = c (read_f16 L M (data + i * 2)))"
proof -
  let ?g = "\<lambda>i N. c (read_f16 L N (data + i * 2))"
  define R where "R = fold (\<lambda>i N. write_f16 L N (data + i * 2) (?g i N)) [0..<8] M"
  have h: "ReadUnaligned L N a 2 = unat (read_f16 L N a)" for N a
    using ReadUnaligned_less [of L N a 2] by (simp add: read_f16_def unat_of_nat)
  have "simd_float_un_wrapper L 2 op data M = Inr R"
    unfolding simd_float_un_wrapper_def R_def kSimd128Size_def
    by (rule trans [OF runE_total]) (simp_all add: h assms write_f16_def)
  moreover have "read_f16 L R (data + i * 2) = ?g i M" if "i < 8" for i
    by (rule f16_loop(2) [OF R_def _ that]) (simp add: read_f16_def agree_own_lane)
  ultimately show ?thesis by blast
qed

lemma saturate_range: "\<lbrakk>lo \<le> 0; 0 \<le> hi\<rbrakk> \<Longrightarrow> lo \<le> saturate lo hi v \<and> saturate lo hi v \<le> hi"
  by (cases v) (auto simp: saturate_def)

lemma lane_conversions_saturate_parts:
  "\<exists>R. i16x8_sconvert_f16x8_wrapper L data M = Inr R \<and> (\<forall>i<8. sint (read_f16 L R (data + i * 2))
        = saturate (- 32768) 32767 (fdecode f32 (ToFloat32 L (read_f16 L M (data + i * 2)))))"
  "\<exists>R. i16x8_uconvert_f16x8_wrapper L data M = Inr R \<and> (\<forall>i<8. uint (read_f16 L R (data + i * 2))
        = saturate 0 65535 (fdecode f32 (ToFloat32 L (read_f16 L M (data + i * 2)))))"
proof -
  let ?s = "\<lambda>h. saturate (- 32768) 32767 (fdecode f32 (ToFloat32 L h))"
  have s: "sint (word_of_int (?s h) :: u16) = ?s h" for h
    using saturate_range [of "- 32768" 32767 "fdecode f32 (ToFloat32 L h)"]
    by (simp add: signed_of_int signed_take_bit_int_eq_self)
  have ps: "bindE (ConvertToIntS L (word_of_nat (unat h))) (\<lambda>y. Inr (unat y))
      = Inr (unat (word_of_int (?s h) :: u16))" for h
    by (simp add: ConvertToIntS_saturates)
  obtain R where "i16x8_sconvert_f16x8_wrapper L data M = Inr R"
    and "\<forall>i<8. read_f16 L R (data + i * 2) = word_of_int (?s (read_f16 L M (data + i * 2)))"
    unfolding i16x8_sconvert_f16x8_wrapper_def 
    using un_lanes [where op = "\<lambda>x. bindE (ConvertToIntS L (word_of_nat x)) (\<lambda>y. Inr (unat y))"
        and c = "\<lambda>h. word_of_int (?s h)", OF ps] by blast
  then show "\<exists>R. i16x8_sconvert_f16x8_wrapper L data M = Inr R \<and>
      (\<forall>i<8. sint (read_f16 L R (data + i * 2)) = ?s (read_f16 L M (data + i * 2)))"
    using s by metis
  let ?u = "\<lambda>h. saturate 0 65535 (fdecode f32 (ToFloat32 L h))"
  have u: "uint (word_of_int (?u h) :: u16) = ?u h" for h
    using saturate_range [of 0 65535 "fdecode f32 (ToFloat32 L h)"]
    by (simp add: unsigned_of_int take_bit_int_eq_self)
  have pu: "bindE (ConvertToIntU L (word_of_nat (unat h))) (\<lambda>y. Inr (unat y))
      = Inr (unat (word_of_int (?u h) :: u16))" for h
    by (simp add: ConvertToIntU_saturates)
  obtain Q where "i16x8_uconvert_f16x8_wrapper L data M = Inr Q"
    and "\<forall>i<8. read_f16 L Q (data + i * 2) = word_of_int (?u (read_f16 L M (data + i * 2)))"
    unfolding i16x8_uconvert_f16x8_wrapper_def 
    using un_lanes [where op = "\<lambda>x. bindE (ConvertToIntU L (word_of_nat x)) (\<lambda>y. Inr (unat y))"
        and c = "\<lambda>h. word_of_int (?u h)", OF pu] by blast
  then show "\<exists>R. i16x8_uconvert_f16x8_wrapper L data M = Inr R \<and>
      (\<forall>i<8. uint (read_f16 L R (data + i * 2)) = ?u (read_f16 L M (data + i * 2)))"
    using u by metis
qed

text \<open>
  The vector conversions of half precision numbers to 16-bit integers make no undefined cast and
  leave in each lane the truncated value of that lane of the operand, limited to the range of the
  type, and 0 for a NaN.
\<close>

lemma lane_conversions_saturate:
  "(\<exists>R. i16x8_sconvert_f16x8_wrapper L data M = Inr R \<and> (\<forall>i<8. sint (read_f16 L R (data + i * 2))
        = saturate (- 32768) 32767 (fdecode f32 (ToFloat32 L (read_f16 L M (data + i * 2)))))) \<and>
    (\<exists>R. i16x8_uconvert_f16x8_wrapper L data M = Inr R \<and> (\<forall>i<8. uint (read_f16 L R (data + i * 2))
        = saturate 0 65535 (fdecode f32 (ToFloat32 L (read_f16 L M (data + i * 2))))))"
  by (intro conjI lane_conversions_saturate_parts)

text \<open>A library that reads every half precision number as \<open>2 ^ 31\<close>.\<close>

lemma lane_conversions_saturate_example:
  "\<exists>R. i16x8_sconvert_f16x8_wrapper (demo_lib\<lparr>ToFloat32 := \<lambda>_. 1325400064\<rparr>) 0 (\<lambda>_. 0) = Inr R
     \<and> sint (read_f16 (demo_lib\<lparr>ToFloat32 := \<lambda>_. 1325400064\<rparr>) R (0 + 0 * 2)) = 32767"
proof -
  have "saturate (- 32768) 32767 (fdecode f32 1325400064) = 32767"
    by (simp add: fdecode_def fmagnitude_def saturate_def truncated_def fsigned_def)
  then show ?thesis
    using lane_conversions_saturate [of "demo_lib\<lparr>ToFloat32 := \<lambda>_. 1325400064\<rparr>" 0 "\<lambda>_. 0"]
    by force
qed

subsection \<open>Widening and narrowing in place\<close>

lemma f16_list:
  assumes R: "R = fold (\<lambda>j N. write_f16 L N (data + j * 2) (g j N)) js M"
    and d: "distinct js"
    and g: "\<And>ps j qs N. js = ps @ j # qs \<Longrightarrow> agree_off data 2 (set ps) M N \<Longrightarrow> g j N = g j M"
  shows "j \<in> set js \<Longrightarrow> read_f16 L R (data + j * 2) = g j M"
proof -
  have "R = fold (\<lambda>j N. WriteUnaligned L N (data + j * 2) 2 (unat (g j N))) js M"
    by (simp add: R write_f16_def)
  moreover have "agree_off data 2 (set js) M
      (fold (\<lambda>j N. WriteUnaligned L N (data + j * 2) 2 (unat (g j N))) js M) \<and>
    (\<forall>j\<in>set js. ReadUnaligned L (fold (\<lambda>j N. WriteUnaligned L N (data + j * 2) 2 (unat (g j N))) js M)
        (data + j * 2) 2 = unat (g j M) mod 256 ^ 2)"
    by (rule fold_lanes [OF d]) (simp add: g)
  ultimately have "j \<in> set js \<Longrightarrow> ReadUnaligned L R (data + j * 2) 2 = unat (g j M) mod 256 ^ 2"
    by simp
  then show "j \<in> set js \<Longrightarrow> read_f16 L R (data + j * 2) = g j M"
    by (simp only: read_f16_def unat16) simp
qed

text \<open>What lane \<open>j\<close> of a narrowed vector gets, in the two byte orders.\<close>

definition narrowed :: "v8_lib \<Rightarrow> nat \<Rightarrow> (nat \<Rightarrow> mem \<Rightarrow> u16) \<Rightarrow> nat \<Rightarrow> mem \<Rightarrow> u16" where
  "narrowed L n lane j N =
     (let zero = FromFloat32 L (fencode f32 (of_integer 0));
          low = (if V8_TARGET_BIG_ENDIAN L then 8 - n else 0)
      in if low \<le> j \<and> j < low + n then lane (j - low) N else zero)"

definition narrow_order :: "v8_lib \<Rightarrow> nat \<Rightarrow> nat list" where
  "narrow_order L n =
     (if V8_TARGET_BIG_ENDIAN L then rev [8 - n..<8] @ [0..<8 - n] else [0..<n] @ [n..<8])"

lemma fold_cong_on: "(\<And>x s. x \<in> set xs \<Longrightarrow> f x s = g x s) \<Longrightarrow> fold f xs s = fold g xs s"
  by (rule fold_cong) (simp_all add: fun_eq_iff)

lemma agree_off_mono: "\<lbrakk>agree_off a w js M N; js \<subseteq> ks\<rbrakk> \<Longrightarrow> agree_off a w ks M N"
  by (auto simp: agree_off_def off_lanes_def)

lemma narrow_order_before:
  assumes "narrow_order L n = ps @ j # qs" and "n \<le> 8"
  shows "V8_TARGET_BIG_ENDIAN L \<Longrightarrow> 8 - n \<le> j \<Longrightarrow> set ps \<subseteq> {j<..<8}"
    and "\<not> V8_TARGET_BIG_ENDIAN L \<Longrightarrow> set ps \<subseteq> {0..<j}"
proof -
  assume b: "V8_TARGET_BIG_ENDIAN L" and j: "8 - n \<le> j"
  let ?P = "\<lambda>x y. 8 - n \<le> y \<longrightarrow> y < x \<and> x < (8 :: nat)"
  have "sorted_wrt ?P (rev [8 - n..<8])"
    unfolding sorted_wrt_rev by (rule sorted_wrt_mono_rel [OF _ sorted_wrt_upt]) auto
  moreover have "sorted_wrt ?P [0..<8 - n]"
    by (rule sorted_wrt_mono_rel [OF _ sorted_wrt_upt]) auto
  ultimately have "sorted_wrt ?P (narrow_order L n)"
    using b by (auto simp: narrow_order_def sorted_wrt_append)
  then show "set ps \<subseteq> {j<..<8}" using j unfolding assms(1) by (auto simp: sorted_wrt_append)
next
  assume "\<not> V8_TARGET_BIG_ENDIAN L"
  then have "narrow_order L n = [0..<8]"
    using assms(2) upt_add_eq_append [of 0 n "8 - n"] by (simp add: narrow_order_def)
  then have "sorted_wrt (<) (narrow_order L n)" by (simp only: sorted_wrt_upt)
  then show "set ps \<subseteq> {0..<j}" unfolding assms(1) by (auto simp: sorted_wrt_append)
qed

lemma narrow_lanes:
  assumes R: "R = fold (\<lambda>j N. write_f16 L N (data + j * 2) (narrowed L n lane j N)) (narrow_order L n) M"
    and n: "n \<le> 8"
    and up: "\<And>i N. i < n \<Longrightarrow> agree_off data 2 {0..<i} M N \<Longrightarrow> lane i N = lane i M"
    and down: "\<And>i N. i < n \<Longrightarrow> agree_off data 2 {i + (8 - n)<..<8} M N \<Longrightarrow> lane i N = lane i M"
    and j: "j < 8"
  shows "read_f16 L R (data + j * 2) = narrowed L n lane j M"
proof (rule f16_list [OF R])
  show "distinct (narrow_order L n)" "j \<in> set (narrow_order L n)"
    using n j by (auto simp: narrow_order_def)
  fix ps i qs N
  assume s: "narrow_order L n = ps @ i # qs" and a: "agree_off data 2 (set ps) M N"
  note before = narrow_order_before [OF s n]
  show "narrowed L n lane i N = narrowed L n lane i M"
    using up [of i N] down [of "i - (8 - n)" N] agree_off_mono [OF a before(1)]
      agree_off_mono [OF a before(2)] n
    by (auto simp: narrowed_def Let_def)
qed

lemma demote_f32_lanes:
  "f16x8_demote_f32x4_zero_wrapper L data M =
   fold (\<lambda>j N. write_f16 L N (data + j * 2)
     (narrowed L 4 (\<lambda>i N. FromFloat32 L (read_f32 L N (data + i * 4))) j N)) (narrow_order L 4) M"
  by (simp add: f16x8_demote_f32x4_zero_wrapper_def narrow_order_def narrowed_def demote_lane_def
      zero_lane_def upt_rec numeral_eq_Suc)

lemma demote_f64_lanes:
  "f16x8_demote_f64x2_zero_wrapper L data M =
   fold (\<lambda>j N. write_f16 L N (data + j * 2)
     (narrowed L 2 (\<lambda>i N. DoubleToFloat16 L (read_f64 L N (data + i * 8))) j N)) (narrow_order L 2) M"
  by (simp add: f16x8_demote_f64x2_zero_wrapper_def narrow_order_def narrowed_def
      demote_double_lane_def zero_lane_def upt_rec numeral_eq_Suc)

lemma read_below:
  "\<lbrakk>agree_off a w {k<..<n} M N; b + l \<le> a + Suc k * w\<rbrakk> \<Longrightarrow> ReadUnaligned L N b l = ReadUnaligned L M b l"
proof (rule read_agree)
  fix x assume x: "b \<le> x" "x < b + l" and l: "b + l \<le> a + Suc k * w"
  have "Suc k * w \<le> p * w" if "k < p" for p using that by (intro mult_le_mono1) simp
  then show "off_lanes a w {k<..<n} x"
    unfolding off_lanes_def using x l by (meson add_le_cancel_left greaterThanLessThan_iff order_less_le_trans order_trans)
qed

lemma lane_width_changes_parts:
  assumes "i < 4" and "j < 8"
  shows "read_f32 L (f32x4_promote_low_f16x8_wrapper L data M) (data + i * 4)
       = ToFloat32 L (read_f16 L M (data + i * 2)) mod 2 ^ 32"
    and "read_f16 L (f16x8_demote_f32x4_zero_wrapper L data M) (data + j * 2)
       = narrowed L 4 (\<lambda>i N. FromFloat32 L (read_f32 L N (data + i * 4))) j M"
    and "read_f16 L (f16x8_demote_f64x2_zero_wrapper L data M) (data + j * 2)
       = narrowed L 2 (\<lambda>i N. DoubleToFloat16 L (read_f64 L N (data + i * 8))) j M"
proof -
  consider "i = 0" | "i = 1" | "i = 2" | "i = 3" using assms(1) by linarith
  then show "read_f32 L (f32x4_promote_low_f16x8_wrapper L data M) (data + i * 4)
       = ToFloat32 L (read_f16 L M (data + i * 2)) mod 2 ^ 32"
    by cases (simp_all add: f32x4_promote_low_f16x8_wrapper_def Let_def read_f32_def write_f32_def)
  show "read_f16 L (f16x8_demote_f32x4_zero_wrapper L data M) (data + j * 2)
       = narrowed L 4 (\<lambda>i N. FromFloat32 L (read_f32 L N (data + i * 4))) j M"
    by (rule narrow_lanes [OF demote_f32_lanes _ _ _ assms(2)])
      (simp_all add: read_f32_def agree_beyond [of data 2 _ M] read_below [of data 2 _ 8 M])
  show "read_f16 L (f16x8_demote_f64x2_zero_wrapper L data M) (data + j * 2)
       = narrowed L 2 (\<lambda>i N. DoubleToFloat16 L (read_f64 L N (data + i * 8))) j M"
    by (rule narrow_lanes [OF demote_f64_lanes _ _ _ assms(2)])
      (simp_all add: read_f64_def agree_beyond [of data 2 _ M] read_below [of data 2 _ 8 M])
qed

text \<open>
  Widening half precision lanes to \<open>float\<close> and narrowing \<open>float\<close> or \<open>double\<close> lanes to half
  precision happen in the same 16 bytes; each lane of the result is made from the lane of the operand
  as it was on entry, in either byte order, and the lanes left over are zero.
\<close>

lemma lane_width_changes:
  assumes "i < 4" and "j < 8"
  shows "(read_f32 L (f32x4_promote_low_f16x8_wrapper L data M) (data + i * 4)
       = ToFloat32 L (read_f16 L M (data + i * 2)) mod 2 ^ 32) \<and>
    (read_f16 L (f16x8_demote_f32x4_zero_wrapper L data M) (data + j * 2)
       = narrowed L 4 (\<lambda>i N. FromFloat32 L (read_f32 L N (data + i * 4))) j M) \<and>
    (read_f16 L (f16x8_demote_f64x2_zero_wrapper L data M) (data + j * 2)
       = narrowed L 2 (\<lambda>i N. DoubleToFloat16 L (read_f64 L N (data + i * 8))) j M)"
  by (intro conjI lane_width_changes_parts [OF assms])

lemma lane_width_changes_example:
  "read_f16 demo_lib (f16x8_demote_f32x4_zero_wrapper demo_lib 0 (write_f32 demo_lib (\<lambda>_. 0) 4 77))
     (0 + 1 * 2) = 77"
proof -
  have "(0 :: nat) < 4" "(1 :: nat) < 8" by simp_all
  note t = lane_width_changes [OF this, of demo_lib 0 "write_f32 demo_lib (\<lambda>_. 0) 4 77",
      THEN conjunct2, THEN conjunct1]
  show ?thesis
    unfolding t by (simp add: narrowed_def demo_lib_sel read_f32_def write_f32_def)
qed

end
