(* ===== verification/WasmBulk.thy ===== *)
theory WasmBulk
  imports WasmNumeric BackingStore
begin

text \<open>
  Bulk operations of \<open>wasm-external-refs.cc\<close>: on linear memories, with their reports to the detector,
  and on arrays of the garbage collected heap. The instance an operation works on is a record of
  what the sources read from it; the heap's own copy functions, which know about its write barriers,
  and the layout of its objects are parameters. A \<open>memcpy\<close> between ranges that overlap is undefined.
\<close>

subsection \<open>State\<close>

record trusted_data =
  memory_base :: "nat \<Rightarrow> addr"
  memory_size :: "nat \<Rightarrow> nat"
  memory_backing :: "nat \<Rightarrow> BackingStore option"
  data_segments :: "nat \<Rightarrow> nat \<times> nat" \<comment> \<open>offset and length in the module's bytes\<close>
  wire_bytes :: addr

record wasm_state =
  wmem :: mem
  instance_data :: trusted_data
  wengine :: engine
  write_barriers :: "(addr \<times> addr \<times> addr) list" \<comment> \<open>array, start, end\<close>

definition EffectiveAddress :: "trusted_data \<Rightarrow> nat \<Rightarrow> nat \<Rightarrow> addr" where
  "EffectiveAddress td mem_index i = memory_base td mem_index + i"

definition mem_move :: "addr \<Rightarrow> addr \<Rightarrow> nat \<Rightarrow> mem \<Rightarrow> mem" where
  "mem_move dst src n M = (\<lambda>x. if dst \<le> x \<and> x < dst + n then M (src + (x - dst)) else M x)"

definition mem_set :: "addr \<Rightarrow> 8 word \<Rightarrow> nat \<Rightarrow> mem \<Rightarrow> mem" where
  "mem_set dst v n M = (\<lambda>x. if dst \<le> x \<and> x < dst + n then v else M x)"

definition mem_copy :: "addr \<Rightarrow> addr \<Rightarrow> nat \<Rightarrow> mem \<Rightarrow> mem result" where
  "mem_copy dst src n M =
     (if dst < src + n \<and> src < dst + n then Inl OutOfBounds else Inr (mem_move dst src n M))"

definition kMemOpSuccess :: int where
  "kMemOpSuccess = 1"

definition kOutOfBounds :: int where
  "kOutOfBounds = 0"

subsection \<open>Reports to the detector\<close>

definition kMaxSamples :: nat where
  "kMaxSamples = 64"

text \<open>The loop, over the sample numbers, with its early exit.\<close>

fun sample_loop ::
  "(nat \<Rightarrow> engine \<Rightarrow> engine result) \<Rightarrow> nat \<Rightarrow> nat \<Rightarrow> nat \<Rightarrow> nat list \<Rightarrow> engine \<Rightarrow> engine result" where
  "sample_loop report offset n stride [] E = Inr E"
| "sample_loop report offset n stride (i # is) E =
     (let o' = size_t (offset + i * stride) in
      if o' \<ge> size_t (offset + n) then Inr E
      else bindE (report o' E) (sample_loop report offset n stride is))"

definition MaybeReportTSanBulkRange ::
  "bool \<Rightarrow> trusted_data \<Rightarrow> nat \<Rightarrow> nat \<Rightarrow> nat \<Rightarrow> bool \<Rightarrow> engine \<Rightarrow> engine result" where
  "MaybeReportTSanBulkRange wasm_tsan td mem_index offset len is_write E =
     (if \<not> wasm_tsan \<or> len = 0 then Inr E
      else case (record_range (g_callbacks E), get_current_tid (g_callbacks E)) of
        (Some record, Some current_tid) \<Rightarrow>
          (case memory_backing td mem_index of
             None \<Rightarrow> Inr E
           | Some backing \<Rightarrow>
               if \<not> bs_is_shared backing then Inr E
               else
                 let bs = buffer_start backing;
                     byte_len = bs_byte_length backing;
                     tid = current_tid (eng E)
                 in if tid = UINT32_MAX then Inr E
                    else
                      let n = (if len < kMaxSamples then len else kMaxSamples);
                          stride = len div n;
                          stride = (if stride = 0 then 1 else stride)
                      in sample_loop
                           (\<lambda>o'. on_eng (record bs byte_len o' 1 tid (if is_write then 1 else 0)))
                           offset len stride [0..<n] E)
      | _ \<Rightarrow> Inr E)"

subsection \<open>Linear memory\<close>

definition data_drop_wrapper :: "nat \<Rightarrow> wasm_state \<Rightarrow> wasm_state" where
  "data_drop_wrapper segment_index S =
     (let td = instance_data S in
      S\<lparr>instance_data := td\<lparr>data_segments := (data_segments td)(segment_index := (0, 0))\<rparr>\<rparr>)"

definition memory_init_wrapper ::
  "v8_lib \<Rightarrow> nat \<Rightarrow> nat \<Rightarrow> nat \<Rightarrow> nat \<Rightarrow> nat \<Rightarrow> wasm_state \<Rightarrow> (int \<times> wasm_state) result" where
  "memory_init_wrapper L mem_index dst src seg_index n S =
     (let td = instance_data S; mem_size = memory_size td mem_index in
      if \<not> IsInBounds L dst n mem_size then Inr (kOutOfBounds, S)
      else
        let (seg_offset, seg_length) = data_segments td seg_index in
        if \<not> IsInBounds L src n seg_length then Inr (kOutOfBounds, S)
        else
          let start = wire_bytes td + seg_offset + src in
          bindE (mem_copy (EffectiveAddress td mem_index dst) start n (wmem S)) (\<lambda>M.
            Inr (kMemOpSuccess, S\<lparr>wmem := M\<rparr>)))"

definition memory_copy_wrapper ::
  "v8_lib \<Rightarrow> bool \<Rightarrow> nat \<Rightarrow> nat \<Rightarrow> nat \<Rightarrow> nat \<Rightarrow> nat \<Rightarrow> wasm_state \<Rightarrow> (int \<times> wasm_state) result" where
  "memory_copy_wrapper L wasm_tsan dst_mem_index src_mem_index dst src n S =
     (let td = instance_data S;
          dst_mem_size = memory_size td dst_mem_index;
          src_mem_size = memory_size td src_mem_index
      in if \<not> IsInBounds L dst n dst_mem_size then Inr (kOutOfBounds, S)
         else if \<not> IsInBounds L src n src_mem_size then Inr (kOutOfBounds, S)
         else
           let dst_addr = EffectiveAddress td dst_mem_index dst;
               src_addr = EffectiveAddress td src_mem_index src
           in bindE (MaybeReportTSanBulkRange wasm_tsan td src_mem_index src n False (wengine S)) (\<lambda>E.
              bindE (MaybeReportTSanBulkRange wasm_tsan td dst_mem_index dst n True E) (\<lambda>E.
                Inr (kMemOpSuccess,
                     S\<lparr>wengine := E, wmem := mem_move dst_addr src_addr n (wmem S)\<rparr>))))"

definition memory_fill_wrapper ::
  "v8_lib \<Rightarrow> bool \<Rightarrow> nat \<Rightarrow> nat \<Rightarrow> 8 word \<Rightarrow> nat \<Rightarrow> wasm_state \<Rightarrow> (int \<times> wasm_state) result" where
  "memory_fill_wrapper L wasm_tsan mem_index dst value n S =
     (let td = instance_data S; mem_size = memory_size td mem_index in
      if \<not> IsInBounds L dst n mem_size then Inr (kOutOfBounds, S)
      else bindE (MaybeReportTSanBulkRange wasm_tsan td mem_index dst n True (wengine S)) (\<lambda>E.
             Inr (kMemOpSuccess,
                  S\<lparr>wengine := E,
                    wmem := mem_set (EffectiveAddress td mem_index dst) value n (wmem S)\<rparr>)))"

subsection \<open>Arrays\<close>

datatype value_kind = kI64 | kF64 | kI32 | kF32 | kF16 | kI16 | kI8 | kRefNull | kRef | kS128
  | kWaitQueue | kVoid | kTop | kBottom

record heap_layout =
  array_header :: nat \<comment> \<open>\<open>WasmArray::kHeaderSize - kHeapObjectTag\<close>\<close>
  kTaggedSize :: nat
  value_kind_size :: "value_kind \<Rightarrow> nat"
  ElementSlot :: "addr \<Rightarrow> nat \<Rightarrow> addr"
  MoveRange :: "addr \<Rightarrow> addr \<Rightarrow> addr \<Rightarrow> nat \<Rightarrow> wasm_state \<Rightarrow> wasm_state"
  CopyRange :: "addr \<Rightarrow> addr \<Rightarrow> addr \<Rightarrow> nat \<Rightarrow> wasm_state \<Rightarrow> wasm_state"

definition u32n :: "nat \<Rightarrow> nat" where
  "u32n n = n mod 4294967296"

definition ArrayElementAddress :: "heap_layout \<Rightarrow> addr \<Rightarrow> nat \<Rightarrow> nat \<Rightarrow> addr" where
  "ArrayElementAddress H array i element_size_bytes =
     array + array_header H + u32n (i * element_size_bytes)"

definition is_ref :: "value_kind \<Rightarrow> bool" where
  "is_ref k \<longleftrightarrow> k = kRef \<or> k = kRefNull"

definition overlapping_ranges :: "addr \<Rightarrow> nat \<Rightarrow> addr \<Rightarrow> nat \<Rightarrow> nat \<Rightarrow> bool" where
  "overlapping_ranges dst_array dst_index src_array src_index len \<longleftrightarrow>
     dst_array = src_array \<and>
     (if dst_index < src_index then u32n (dst_index + len) > src_index
      else u32n (src_index + len) > dst_index)"

definition array_copy_wrapper ::
  "heap_layout \<Rightarrow> value_kind \<Rightarrow> addr \<Rightarrow> nat \<Rightarrow> addr \<Rightarrow> nat \<Rightarrow> nat \<Rightarrow> wasm_state \<Rightarrow> wasm_state result" where
  "array_copy_wrapper H element_type dst_array dst_index src_array src_index len S =
     (let overlapping = overlapping_ranges dst_array dst_index src_array src_index len in
      if is_ref element_type then
        let dst_slot = ElementSlot H dst_array dst_index;
            src_slot = ElementSlot H src_array src_index
        in if overlapping then Inr (MoveRange H dst_array dst_slot src_slot len S)
           else Inr (CopyRange H dst_array dst_slot src_slot len S)
      else
        let element_size_bytes = value_kind_size H element_type;
            dst = ArrayElementAddress H dst_array dst_index element_size_bytes;
            src = ArrayElementAddress H src_array src_index element_size_bytes;
            copy_size = u32n (len * element_size_bytes)
        in if overlapping then Inr (S\<lparr>wmem := mem_move dst src copy_size (wmem S)\<rparr>)
           else bindE (mem_copy dst src copy_size (wmem S)) (\<lambda>M. Inr (S\<lparr>wmem := M\<rparr>)))"

text \<open>
  The first 8 bytes of a fill, or \<open>None\<close> when the whole range is set to zero instead. The value is
  read from \<open>initial_value_addr\<close>; a stretch of equal elements is written one after the other.
\<close>

fun write_elements :: "v8_lib \<Rightarrow> nat \<Rightarrow> addr \<Rightarrow> nat \<Rightarrow> nat \<Rightarrow> mem \<Rightarrow> mem" where
  "write_elements L w a v 0 M = M"
| "write_elements L w a v (Suc k) M = write_elements L w (a + w) v k (WriteUnaligned L M a w v)"

definition fill_first ::
  "v8_lib \<Rightarrow> heap_layout \<Rightarrow> value_kind \<Rightarrow> addr \<Rightarrow> addr \<Rightarrow> mem \<Rightarrow> mem option result" where
  "fill_first L H kind first initial_value_addr M =
     (let elements = (\<lambda>w v k. if v = 0 then None else Some (write_elements L w first v k M)) in
      case kind of
        kI64 \<Rightarrow> Inr (elements 8 (ReadUnaligned L M initial_value_addr 8) 1)
      | kF64 \<Rightarrow> Inr (elements 8 (ReadUnaligned L M initial_value_addr 8) 1)
      | kI32 \<Rightarrow> Inr (elements 4 (ReadUnaligned L M initial_value_addr 4) 2)
      | kF32 \<Rightarrow> Inr (elements 4 (ReadUnaligned L M initial_value_addr 4) 2)
      | kF16 \<Rightarrow> Inr (elements 2 (ReadUnaligned L M initial_value_addr 4 mod 65536) 4)
      | kI16 \<Rightarrow> Inr (elements 2 (ReadUnaligned L M initial_value_addr 4 mod 65536) 4)
      | kI8 \<Rightarrow> Inr (elements 1 (ReadUnaligned L M initial_value_addr 4 mod 256) 8)
      | kS128 \<Rightarrow> Inr None
      | kRefNull \<Rightarrow> Inr (Some (let v = ReadUnaligned L M initial_value_addr 8 in
          if kTaggedSize H = 4 then write_elements L 4 first (v mod 4294967296) 2 M
          else write_elements L 8 first v 1 M))
      | kRef \<Rightarrow> Inr (Some (let v = ReadUnaligned L M initial_value_addr 8 in
          if kTaggedSize H = 4 then write_elements L 4 first (v mod 4294967296) 2 M
          else write_elements L 8 first v 1 M))
      | _ \<Rightarrow> Inl CheckFailed)"

text \<open>
  Filling the rest by copies of doubling length. The counters are signed 32-bit integers; doubling
  one beyond that is undefined. With \<open>fuel\<close> doublings the loop may come to its end or not.
\<close>

fun fill_loop :: "nat \<Rightarrow> addr \<Rightarrow> nat \<Rightarrow> int \<Rightarrow> mem \<Rightarrow> (nat \<times> mem) result" where
  "fill_loop 0 first bytes_already_set bytes_to_set M = Inl Unfinished"
| "fill_loop (Suc fuel) first bytes_already_set bytes_to_set M =
     (if bytes_already_set * 2 \<ge> 2147483648 then Inl OutOfBounds
      else if int (bytes_already_set * 2) \<le> bytes_to_set then
        bindE (mem_copy (first + bytes_already_set) first bytes_already_set M) (\<lambda>M.
          fill_loop fuel first (bytes_already_set * 2) bytes_to_set M)
      else Inr (bytes_already_set, M))"

definition to_int32 :: "nat \<Rightarrow> int" where
  "to_int32 n = (if u32n n < 2147483648 then int (u32n n) else int (u32n n) - 4294967296)"

definition array_fill_wrapper ::
  "v8_lib \<Rightarrow> heap_layout \<Rightarrow> addr \<Rightarrow> nat \<Rightarrow> nat \<Rightarrow> bool \<Rightarrow> value_kind \<Rightarrow> addr \<Rightarrow> wasm_state \<Rightarrow> wasm_state result" where
  "array_fill_wrapper L H array i len emit_write_barrier kind initial_value_addr S =
     (let first = ArrayElementAddress H array i (value_kind_size H kind);
          bytes_to_set = to_int32 (len * value_kind_size H kind)
      in if 0 \<le> bytes_to_set \<and> bytes_to_set < 8 then Inl CheckFailed
         else bindE (fill_first L H kind first initial_value_addr (wmem S)) (\<lambda>r.
           case r of
             None \<Rightarrow> if bytes_to_set < 0 then Inl OutOfBounds
                     else Inr (S\<lparr>wmem := mem_set first 0 (nat bytes_to_set) (wmem S)\<rparr>)
           | Some M \<Rightarrow>
               bindE (fill_loop 32 first 8 bytes_to_set M) (\<lambda>(bytes_already_set, M).
               bindE (if int bytes_already_set < bytes_to_set
                      then mem_copy (first + bytes_already_set) first
                             (nat (bytes_to_set - int bytes_already_set)) M
                      else Inr M) (\<lambda>M.
                 Inr (S\<lparr>wmem := M,
                        write_barriers := write_barriers S @
                          (if emit_write_barrier
                           then [(array, first, nat (int first + bytes_to_set))] else [])\<rparr>)))))"

definition flat_string_to_f64 :: "(addr \<Rightarrow> bool \<Rightarrow> nat \<Rightarrow> nat) \<Rightarrow> addr \<Rightarrow> nat" where
  "flat_string_to_f64 FlatStringToDouble string_address =
     FlatStringToDouble string_address True (fencode f64 FNaN)"

end
