(* ===== verification/WasmBulkProps.thy ===== *)
theory WasmBulkProps
  imports WasmBulk WasmNumericProps Init
begin

text \<open>
  Bulk operations: which bytes the detector sees of them, and that the array operations do what a
  plain loop over the elements would, whatever ranges they are given.
\<close>

subsection \<open>Samples\<close>

definition sample_points :: "nat \<Rightarrow> nat \<Rightarrow> nat list" where
  "sample_points offset n = map (\<lambda>i. offset + i * (n div min n 64)) [0..<min n 64]"

lemma sample_loop_all:
  assumes "\<And>i. i \<in> set is \<Longrightarrow> offset + i * stride < offset + n" and "offset + n < 18446744073709551616"
  shows "sample_loop report offset n stride is E = runE report (map (\<lambda>i. offset + i * stride) is) E"
  using assms(1)
proof (induction "is" arbitrary: E)
  case (Cons i "is")
  have "offset + i * stride < offset + n" using Cons.prems by simp
  with assms(2) have "size_t (offset + i * stride) = offset + i * stride"
    "size_t (offset + n) = offset + n" "\<not> offset + n \<le> offset + i * stride" by simp_all
  moreover have "sample_loop report offset n stride is = runE report (map (\<lambda>i. offset + i * stride) is)"
    using Cons.IH Cons.prems by (intro ext) simp
  ultimately show ?case by simp
qed simp

lemma sample_bound:
  fixes n i :: nat
  assumes "0 < n" and "i < min n 64"
  shows "i * (n div min n 64) < n"
proof -
  have "0 < n div min n 64" using assms by (simp add: div_greater_zero_iff)
  with assms(2) have "i * (n div min n 64) < min n 64 * (n div min n 64)" by simp
  also have "\<dots> \<le> n" by simp
  finally show ?thesis .
qed

lemma sample_points_set:
  assumes "0 < n"
  shows "set (sample_points offset n) \<subseteq> {offset..<offset + n}" and "distinct (sample_points offset n)"
    and "length (sample_points offset n) = min n 64"
proof -
  show "set (sample_points offset n) \<subseteq> {offset..<offset + n}"
    using sample_bound [OF assms] by (auto simp: sample_points_def)
  have "0 < n div min n 64" using assms by (simp add: div_greater_zero_iff)
  then show "distinct (sample_points offset n)"
    by (auto simp: sample_points_def distinct_map inj_on_def)
qed (simp add: sample_points_def)

lemma bulk_range_sampled_parts:
  assumes "g_callbacks E = webtsan_callbacks" and "memory_backing td k = Some b" and "bs_is_shared b"
    and "WebTSanGetCurrentTid (eng E) \<noteq> UINT32_MAX"
    and "0 < n" and "offset + n < 18446744073709551616"
  shows "MaybeReportTSanBulkRange True td k offset n w E =
      runE (\<lambda>o'. on_eng (OnSABRangeUnsuppressed (buffer_start b) (bs_byte_length b) o' 1
        (WebTSanGetCurrentTid (eng E)) w)) (sample_points offset n) E"
    and "distinct (sample_points offset n)" and "length (sample_points offset n) = min n 64"
    and "if n \<le> 64 then set (sample_points offset n) = {offset..<offset + n}
      else set (sample_points offset n) \<subset> {offset..<offset + n}"
proof -
  let ?tid = "WebTSanGetCurrentTid (eng E)"
  let ?f = "\<lambda>o'. on_eng (OnSABRangeUnsuppressed (buffer_start b) (bs_byte_length b) o' 1 ?tid w)"
  have "0 < n div min n 64" using assms(5) by (simp add: div_greater_zero_iff)
  moreover have "min n 64 = (if n < kMaxSamples then n else kMaxSamples)" by (simp add: kMaxSamples_def min_def)
  ultimately have "MaybeReportTSanBulkRange True td k offset n w E =
      sample_loop ?f offset n (n div min n 64) [0..<min n 64] E"
    using assms(1-5) by (simp add: MaybeReportTSanBulkRange_def webtsan_callbacks_def Let_def)
  also have "\<dots> = runE ?f (sample_points offset n) E"
    unfolding sample_points_def
    by (rule sample_loop_all) (use sample_bound [OF assms(5)] assms(6) in simp_all)
  finally show "MaybeReportTSanBulkRange True td k offset n w E = runE ?f (sample_points offset n) E" .
  note s = sample_points_set [OF assms(5), of offset]
  show "distinct (sample_points offset n)" "length (sample_points offset n) = min n 64" by (rule s)+
  have c: "card (set (sample_points offset n)) = min n 64" using s(2,3) distinct_card by metis
  show "if n \<le> 64 then set (sample_points offset n) = {offset..<offset + n}
      else set (sample_points offset n) \<subset> {offset..<offset + n}"
  proof (cases "n \<le> 64")
    case True
    with s(1) c show ?thesis by (simp add: card_subset_eq)
  next
    case False
    with c have "set (sample_points offset n) \<noteq> {offset..<offset + n}" by auto
    with False s(1) show ?thesis by auto
  qed
qed

text \<open>
  C26: what the detector sees of a bulk operation on a shared memory. Of a range of at most 64 bytes
  every byte is recorded, each once; of a longer one exactly 64 different bytes inside the range are,
  and at least one byte is not, so a race on it goes unnoticed. The records do not look at the
  suppression depth.
\<close>

theorem bulk_range_sampled:
  assumes "g_callbacks E = webtsan_callbacks" and "memory_backing td k = Some b" and "bs_is_shared b"
    and "WebTSanGetCurrentTid (eng E) \<noteq> UINT32_MAX"
    and "0 < n" and "offset + n < 18446744073709551616"
  shows "(MaybeReportTSanBulkRange True td k offset n w E =
      runE (\<lambda>o'. on_eng (OnSABRangeUnsuppressed (buffer_start b) (bs_byte_length b) o' 1
        (WebTSanGetCurrentTid (eng E)) w)) (sample_points offset n) E) \<and>
    (distinct (sample_points offset n)) \<and>
    (length (sample_points offset n) = min n 64) \<and>
    (if n \<le> 64 then set (sample_points offset n) = {offset..<offset + n}
      else set (sample_points offset n) \<subset> {offset..<offset + n})"
  by (intro conjI bulk_range_sampled_parts [OF assms])

text \<open>A shared memory of one page at 4096, used by a thread with id 1; a range of 200 bytes.\<close>

definition demo_shared :: BackingStore where
  "demo_shared = \<lparr>buffer_start = 4096, bs_byte_length = 65536, max_byte_length = 65536,
     byte_capacity = 65536, bs_id = 1, flags = {kIsShared, kIsWasmMemory}, specific = NoData\<rparr>"

definition demo_instance :: trusted_data where
  "demo_instance = \<lparr>memory_base = (\<lambda>_. 4096), memory_size = (\<lambda>_. 65536),
     memory_backing = (\<lambda>_. Some demo_shared), data_segments = (\<lambda>_. (0, 0)), wire_bytes = 0\<rparr>"

definition demo_user :: engine where
  "demo_user = new_engine\<lparr>g_callbacks := webtsan_callbacks,
     eng := WebTSanSetCurrentTid 1 (new_WebTSan\<lparr>enabled := True\<rparr>, init_tls)\<rparr>"

lemma demo_user_sel:
  "g_callbacks demo_user = webtsan_callbacks" "WebTSanGetCurrentTid (eng demo_user) = 1"
  by (simp_all add: demo_user_def WebTSanGetCurrentTid_def WebTSanSetCurrentTid_def)

theorem bulk_range_sampled_witness:
  "MaybeReportTSanBulkRange True demo_instance 0 10 200 True demo_user =
      runE (\<lambda>o'. on_eng (OnSABRangeUnsuppressed 4096 65536 o' 1 1 True)) (sample_points 10 200) demo_user
   \<and> length (sample_points 10 200) = 64 \<and> 11 \<notin> set (sample_points 10 200)"
proof -
  have h: "g_callbacks demo_user = webtsan_callbacks" "memory_backing demo_instance 0 = Some demo_shared"
    "bs_is_shared demo_shared" "WebTSanGetCurrentTid (eng demo_user) \<noteq> UINT32_MAX"
    "(0 :: nat) < 200" "(10 :: nat) + 200 < 18446744073709551616"
    by (simp_all add: demo_user_sel demo_instance_def demo_shared_def UINT32_MAX_def)
  have "buffer_start demo_shared = 4096" "bs_byte_length demo_shared = 65536"
    by (simp_all add: demo_shared_def)
  moreover have "11 \<notin> set (sample_points 10 200)"
    by (auto simp: sample_points_def)
  ultimately show ?thesis
    using bulk_range_sampled [OF h, of True]
    by (simp add: demo_user_sel)
qed

subsection \<open>Copying arrays\<close>

lemma u32n_id: "n < 4294967296 \<Longrightarrow> u32n n = n"
  by (simp add: u32n_def)

text \<open>
  C29: copying elements between arrays that hold no references moves them as if through a buffer, for
  ranges that overlap in one array too: the test for overlap never sends an overlapping copy to
  \<open>memcpy\<close>, where it would be undefined. The bounds are those the caller has checked; different
  arrays do not share memory.
\<close>

theorem array_copy_moves:
  assumes "\<not> is_ref ty"
    and "(di + len) * value_kind_size H ty < 4294967296" and "(si + len) * value_kind_size H ty < 4294967296"
    and "0 < value_kind_size H ty"
    and "da \<noteq> sa \<Longrightarrow> da + array_header H + (di + len) * value_kind_size H ty \<le> sa \<or>
                   sa + array_header H + (si + len) * value_kind_size H ty \<le> da"
  shows "array_copy_wrapper H ty da di sa si len S = Inr (S\<lparr>wmem :=
    mem_move (da + array_header H + di * value_kind_size H ty) (sa + array_header H + si * value_kind_size H ty)
      (len * value_kind_size H ty) (wmem S)\<rparr>)"
proof -
  let ?w = "value_kind_size H ty"
  have le: "di + len \<le> (di + len) * ?w" "si + len \<le> (si + len) * ?w" using assms(4) by simp_all
  have "di * ?w \<le> (di + len) * ?w" "si * ?w \<le> (si + len) * ?w" "len * ?w \<le> (di + len) * ?w"
    by (simp_all only: mult_le_mono1 le_add1 le_add2)
  then have "di * ?w < 4294967296" "si * ?w < 4294967296" "len * ?w < 4294967296"
    "di + len < 4294967296" "si + len < 4294967296"
    using assms(2,3) le by linarith+
  then have u: "u32n (di * ?w) = di * ?w" "u32n (si * ?w) = si * ?w" "u32n (len * ?w) = len * ?w"
    "u32n (di + len) = di + len" "u32n (si + len) = si + len"
    by (simp_all only: u32n_id)
  show ?thesis
  proof (cases "overlapping_ranges da di sa si len")
    case True
    with assms(1) show ?thesis
      by (simp add: array_copy_wrapper_def ArrayElementAddress_def Let_def u)
  next
    case False
    let ?d = "da + array_header H + di * ?w" and ?s = "sa + array_header H + si * ?w"
    have "\<not> (?d < ?s + len * ?w \<and> ?s < ?d + len * ?w)"
    proof (cases "da = sa")
      case True
      with False have "if di < si then di + len \<le> si else si + len \<le> di"
        by (auto simp: overlapping_ranges_def u)
      then have "(di + len) * ?w \<le> si * ?w \<or> (si + len) * ?w \<le> di * ?w"
        by (metis mult_le_mono1)
      with True show ?thesis by (auto simp: add_mult_distrib)
    next
      case False
      with assms(5) show ?thesis by (auto simp: add_mult_distrib)
    qed
    then have "mem_copy ?d ?s (len * ?w) (wmem S) = Inr (mem_move ?d ?s (len * ?w) (wmem S))"
      by (simp add: mem_copy_def)
    with False assms(1) show ?thesis
      by (simp add: array_copy_wrapper_def ArrayElementAddress_def Let_def u)
  qed
qed

definition demo_layout :: heap_layout where
  "demo_layout = \<lparr>array_header = 12, kTaggedSize = 4,
     value_kind_size = (\<lambda>k. case k of kI64 \<Rightarrow> 8 | kF64 \<Rightarrow> 8 | kI32 \<Rightarrow> 4 | kF32 \<Rightarrow> 4 | kF16 \<Rightarrow> 2 | kI16 \<Rightarrow> 2
       | kI8 \<Rightarrow> 1 | kRefNull \<Rightarrow> 4 | kRef \<Rightarrow> 4 | kS128 \<Rightarrow> 16 | _ \<Rightarrow> 0),
     ElementSlot = (\<lambda>a i. a + 12 + 4 * i),
     MoveRange = (\<lambda>a d s n S. S\<lparr>wmem := mem_move d s (4 * n) (wmem S)\<rparr>),
     CopyRange = (\<lambda>a d s n S. S\<lparr>wmem := mem_move d s (4 * n) (wmem S)\<rparr>)\<rparr>"

text \<open>Five 16-bit elements, moved up by one.\<close>

definition demo_wasm :: wasm_state where
  "demo_wasm = \<lparr>wmem = word_of_nat, instance_data = demo_instance, wengine = demo_user,
     write_barriers = []\<rparr>"

theorem array_copy_moves_witness:
  "array_copy_wrapper demo_layout kI16 100 3 100 2 5 demo_wasm =
     Inr (demo_wasm\<lparr>wmem := mem_move 118 116 10 (wmem demo_wasm)\<rparr>)"
proof -
  have w: "value_kind_size demo_layout kI16 = 2" "array_header demo_layout = 12"
    by (simp_all add: demo_layout_def)
  have "\<not> is_ref kI16" by (simp add: is_ref_def)
  note t = array_copy_moves [OF this, of 3 5 demo_layout 2 100 100]
  show ?thesis using t by (simp add: w)
qed

subsection \<open>Filling arrays\<close>

text \<open>The width and the value of the elements a fill writes.\<close>

definition fill_element :: "v8_lib \<Rightarrow> heap_layout \<Rightarrow> value_kind \<Rightarrow> addr \<Rightarrow> mem \<Rightarrow> nat \<times> nat" where
  "fill_element L H kind a M =
     (if kind \<in> {kI64, kF64} then (8, ReadUnaligned L M a 8)
      else if kind \<in> {kI32, kF32} then (4, ReadUnaligned L M a 4)
      else if kind \<in> {kF16, kI16} then (2, ReadUnaligned L M a 4 mod 65536)
      else if kind = kI8 then (1, ReadUnaligned L M a 4 mod 256)
      else if kTaggedSize H = 4 then (4, ReadUnaligned L M a 8 mod 4294967296)
      else (8, ReadUnaligned L M a 8))"

definition pattern :: "v8_lib \<Rightarrow> nat \<Rightarrow> nat \<Rightarrow> nat \<Rightarrow> 8 word" where
  "pattern L w v k = endian L (bytes_of_nat w v) ! (k mod w)"

lemma pattern_period: "0 < w \<Longrightarrow> w dvd p \<Longrightarrow> pattern L w v (p + k) = pattern L w v k"
  by (auto simp: pattern_def dvd_def)

lemma write_elements_apply:
  "0 < w \<Longrightarrow> write_elements L w a v k M x =
     (if a \<le> x \<and> x < a + k * w then pattern L w v (x - a) else M x)"
proof (induction k arbitrary: a M)
  case (Suc k)
  have "pattern L w v (x - a) = pattern L w v (x - (a + w))" if "a + w \<le> x"
    using pattern_period [of w w L v "x - (a + w)"] that Suc.prems by (simp add: add.commute)
  then show ?case
    using Suc by (auto simp: WriteUnaligned_def pattern_def)
qed auto

text \<open>The first \<open>n\<close> bytes are filled and nothing outside the range has changed.\<close>

definition filled :: "(nat \<Rightarrow> 8 word) \<Rightarrow> addr \<Rightarrow> nat \<Rightarrow> nat \<Rightarrow> mem \<Rightarrow> mem \<Rightarrow> bool" where
  "filled pat first sz n M0 M \<longleftrightarrow>
     (\<forall>k<n. M (first + k) = pat k) \<and> (\<forall>x. x < first \<or> first + sz \<le> x \<longrightarrow> M x = M0 x)"

lemma filled_copy:
  assumes "filled pat first sz n M0 M" and "m \<le> n" and "n + m \<le> sz" and "0 < m"
    and "\<And>k. pat (n + k) = pat k"
  obtains M' where "mem_copy (first + n) first m M = Inr M'" and "filled pat first sz (n + m) M0 M'"
proof
  show "mem_copy (first + n) first m M = Inr (mem_move (first + n) first m M)"
    using assms(2) by (simp add: mem_copy_def)
  have "mem_move (first + n) first m M (first + k) = pat k" if "k < n + m" for k
  proof (cases "k < n")
    case True
    with assms(1) show ?thesis by (simp add: mem_move_def filled_def)
  next
    case False
    then obtain j where "k = n + j" using le_Suc_ex not_less by blast
    with that assms(1,2,5) show ?thesis by (simp add: mem_move_def filled_def)
  qed
  with assms(1,3) show "filled pat first sz (n + m) M0 (mem_move (first + n) first m M)"
    by (auto simp: filled_def mem_move_def)
qed

text \<open>The doubling loop ends, and by then has filled more than half of the range.\<close>

lemma fill_loop_fills:
  assumes "filled pat first sz n M0 M" and "8 dvd n" and "0 < n" and "n \<le> sz"
    and "sz < 1073741824" and "sz < n * 2 ^ fuel" and "\<And>m k. 8 dvd m \<Longrightarrow> pat (m + k) = pat k"
  shows "\<exists>b M'. fill_loop fuel first n (int sz) M = Inr (b, M') \<and> filled pat first sz b M0 M' \<and>
    8 dvd b \<and> b \<le> sz \<and> sz < 2 * b"
  using assms
proof (induction fuel arbitrary: n M)
  case (Suc fuel)
  have small: "\<not> n * 2 \<ge> 2147483648" using Suc.prems by simp
  show ?case
  proof (cases "n * 2 \<le> sz")
    case True
    obtain M' where M': "mem_copy (first + n) first n M = Inr M'" "filled pat first sz (n + n) M0 M'"
      using filled_copy [OF Suc.prems(1), of n] True Suc.prems(2,3,7) by auto
    have "sz < (n + n) * 2 ^ fuel" using Suc.prems(6) by (simp add: algebra_simps)
    then have "\<exists>b N. fill_loop fuel first (n + n) (int sz) M' = Inr (b, N) \<and> filled pat first sz b M0 N \<and>
        8 dvd b \<and> b \<le> sz \<and> sz < 2 * b"
      using Suc.IH [OF M'(2)] Suc.prems True by simp
    then have "\<exists>b N. fill_loop fuel first (n * 2) (int sz) M' = Inr (b, N) \<and> filled pat first sz b M0 N \<and>
        8 dvd b \<and> b \<le> sz \<and> sz < 2 * b"
      by (simp only: mult_2_right)
    with M'(1) small True show ?thesis by simp
  next
    case False
    with small Suc.prems show ?thesis by (intro exI [of _ n] exI [of _ M]) simp
  qed
qed simp

definition fillable :: "value_kind \<Rightarrow> bool" where
  "fillable kind \<longleftrightarrow> kind \<in> {kI64, kF64, kI32, kF32, kF16, kI16, kI8, kRefNull, kRef}"

lemma pattern_0: "pattern L w 0 k = 0" if "0 < w"
proof -
  have "bytes_of_nat w 0 = replicate w 0"
    by (rule nth_equalityI) (simp_all add: bytes_of_nat_def)
  with that show ?thesis by (simp add: pattern_def endian_def)
qed

lemma fill_element_width:
  "fillable kind \<Longrightarrow> fill_element L H kind a M = (w, v) \<Longrightarrow> w \<in> {1, 2, 4, 8}"
  by (auto simp: fill_element_def split: if_splits)

lemma fill_first_cases:
  assumes "fillable kind" and "fill_element L H kind a M = (w, v)"
  shows "fill_first L H kind first a M = Inr None \<and> v = 0 \<or>
    (\<exists>M'. fill_first L H kind first a M = Inr (Some M') \<and> M' = write_elements L w first v (8 div w) M)"
proof -
  have e: "8 div 2 = (4 :: nat)" "8 div 4 = (2 :: nat)" "8 div 1 = (8 :: nat)" "8 div 8 = (1 :: nat)" by simp_all
  show ?thesis
    using assms unfolding fillable_def
    by (cases kind) (auto simp: fill_first_def fill_element_def Let_def e split: if_splits)
qed



end
