(* ===== verification/Atomics.thy ===== *)
theory Atomics
  imports RuntimeTsan WasmNumeric
begin

text \<open>
  The \<open>Atomics\<close> builtins of \<open>builtins-sharedarraybuffer-gen.cc\<close>, with the calls of the detector's
  runtime functions. The sources build the builtins from the operations of the assembler; a builtin
  is modelled as what the code it generates does, with a throw as a value. Conversions of arguments
  run JavaScript, and so does a race report through the console; what that JavaScript does, and what
  the assembler's checks of a typed array test, is the record \<open>js_ops\<close>. Targets with a runtime
  function in place of the generated code (MIPS) are left out; words have 64 bits.
\<close>

unbundle bit_operations_syntax

subsection \<open>State\<close>

datatype elements_kind =
    INT8_ELEMENTS | UINT8_ELEMENTS | INT16_ELEMENTS | UINT16_ELEMENTS | INT32_ELEMENTS
  | UINT32_ELEMENTS | BIGINT64_ELEMENTS | BIGUINT64_ELEMENTS
  | UINT8_CLAMPED_ELEMENTS | FLOAT16_ELEMENTS | FLOAT32_ELEMENTS | FLOAT64_ELEMENTS

definition valid_atomics_kind :: "elements_kind \<Rightarrow> bool" where
  "valid_atomics_kind k \<longleftrightarrow>
     k \<notin> {UINT8_CLAMPED_ELEMENTS, FLOAT16_ELEMENTS, FLOAT32_ELEMENTS, FLOAT64_ELEMENTS}"

definition is_big :: "elements_kind \<Rightarrow> bool" where
  "is_big k \<longleftrightarrow> k = BIGINT64_ELEMENTS \<or> k = BIGUINT64_ELEMENTS"

text \<open>The left shift of the index, as a factor; it is also the width of the access.\<close>

fun kind_size :: "elements_kind \<Rightarrow> nat" where
  "kind_size INT8_ELEMENTS = 1"
| "kind_size UINT8_ELEMENTS = 1"
| "kind_size INT16_ELEMENTS = 2"
| "kind_size UINT16_ELEMENTS = 2"
| "kind_size INT32_ELEMENTS = 4"
| "kind_size UINT32_ELEMENTS = 4"
| "kind_size BIGINT64_ELEMENTS = 8"
| "kind_size BIGUINT64_ELEMENTS = 8"
| "kind_size UINT8_CLAMPED_ELEMENTS = 1"
| "kind_size FLOAT16_ELEMENTS = 2"
| "kind_size FLOAT32_ELEMENTS = 4"
| "kind_size FLOAT64_ELEMENTS = 8"

definition signed_kind :: "elements_kind \<Rightarrow> bool" where
  "signed_kind k \<longleftrightarrow> k \<in> {INT8_ELEMENTS, INT16_ELEMENTS, INT32_ELEMENTS, BIGINT64_ELEMENTS}"

record array_info = typed_array +
  a_detached :: bool
  a_out_of_bounds :: bool
  a_immutable :: bool
  a_kind :: elements_kind
  a_length :: nat

definition a_valid :: "array_info \<Rightarrow> bool" where
  "a_valid i \<longleftrightarrow> \<not> a_detached i \<and> \<not> a_out_of_bounds i"

definition data_ptr :: "array_info \<Rightarrow> addr" where
  "data_ptr i = backing_store i + byte_offset i"

datatype js_object = SmiObject | TypedArray nat | JSSharedStruct | JSSharedArray | OtherObject

datatype access_mode = kRead | kWrite

record js_state =
  bengine :: engine
  arrays :: "nat \<Rightarrow> array_info"
  bmem :: mem

datatype 'v js_exn =
    kNotIntegerTypedArray
  | kInvalidAtomicAccessIndex
  | kTypedArrayValidateErrorOperation string
  | kTypedArrayValidateWriteErrorOperation string
  | Thrown 'v

type_synonym ('v, 'a) js = "js_state \<Rightarrow> (('v js_exn + 'a) \<times> js_state) result"

definition returnJ :: "'a \<Rightarrow> ('v, 'a) js" where
  "returnJ x S = Inr (Inr x, S)"

definition throwJ :: "'v js_exn \<Rightarrow> ('v, 'a) js" where
  "throwJ e S = Inr (Inl e, S)"

definition bindJ :: "('v, 'a) js \<Rightarrow> ('a \<Rightarrow> ('v, 'b) js) \<Rightarrow> ('v, 'b) js" where
  "bindJ m f S = bindE (m S) (\<lambda>(r, S). case r of Inl e \<Rightarrow> Inr (Inl e, S) | Inr x \<Rightarrow> f x S)"

definition Unreachable :: "('v, 'a) js" where
  "Unreachable S = Inl CheckFailed"

record 'v js_ops =
  IsJSArrayBufferViewValid :: "array_info \<Rightarrow> access_mode \<Rightarrow> bool"
  LengthAndValidate :: "array_info \<Rightarrow> nat option"
  CheckJSTypedArrayIndex :: "array_info \<Rightarrow> nat \<Rightarrow> bool"
  ToIndex :: "'v \<Rightarrow> ('v, nat option) js" \<comment> \<open>\<open>None\<close> is the label for a range error\<close>
  ToInteger :: "'v \<Rightarrow> ('v, 'v) js"
  ToBigInt :: "'v \<Rightarrow> ('v, 'v) js"
  TruncateTaggedToWord32 :: "'v \<Rightarrow> u32"
  BigIntToRawBytes :: "'v \<Rightarrow> u64"
  SmiTag :: "nat \<Rightarrow> int"
  number_of_int :: "int \<Rightarrow> 'v"
  bigint_of_int :: "int \<Rightarrow> 'v"
  AtomicsSharedStructOrArray :: "string \<Rightarrow> js_object \<Rightarrow> 'v list \<Rightarrow> ('v, 'v) js"
  console_js :: "engine \<Rightarrow> engine \<Rightarrow> js_state \<Rightarrow> js_state" \<comment> \<open>JavaScript run by a report\<close>

record tsan_config =
  tsan_flag :: bool
  tsan_env :: js_env

subsection \<open>Checks\<close>

datatype validated = Valid nat elements_kind addr | ValidateFailed | SharedStructOrArray

definition ValidateIntegerTypedArray ::
  "'v js_ops \<Rightarrow> js_object \<Rightarrow> bool \<Rightarrow> access_mode \<Rightarrow> ('v, validated) js" where
  "ValidateIntegerTypedArray ops obj has_shared_label mode S =
     (let invalid = (if has_shared_label \<and> (obj = JSSharedStruct \<or> obj = JSSharedArray)
                     then returnJ SharedStructOrArray S else throwJ kNotIntegerTypedArray S)
      in case obj of
           TypedArray a \<Rightarrow>
             (let info = arrays S a in
              if \<not> IsJSArrayBufferViewValid ops info mode then returnJ ValidateFailed S
              else if valid_atomics_kind (a_kind info)
              then returnJ (Valid a (a_kind info) (data_ptr info)) S
              else invalid)
         | _ \<Rightarrow> invalid)"

definition ValidateAtomicAccess :: "'v js_ops \<Rightarrow> nat \<Rightarrow> 'v \<Rightarrow> ('v, nat) js" where
  "ValidateAtomicAccess ops a i S =
     (case LengthAndValidate ops (arrays S a) of
        None \<Rightarrow> Unreachable S
      | Some array_length \<Rightarrow>
          bindJ (ToIndex ops i) (\<lambda>r.
            case r of
              None \<Rightarrow> throwJ kInvalidAtomicAccessIndex
            | Some index_uintptr \<Rightarrow>
                if index_uintptr < array_length then returnJ index_uintptr
                else throwJ kInvalidAtomicAccessIndex) S)"

text \<open>\<open>CheckJSTypedArrayIndex\<close>, with a throw as its failure label.\<close>

definition check_index :: "'v js_ops \<Rightarrow> nat \<Rightarrow> nat \<Rightarrow> 'v js_exn \<Rightarrow> ('v, unit) js" where
  "check_index ops a i e S =
     (if CheckJSTypedArrayIndex ops (arrays S a) i then returnJ () S else throwJ e S)"

text \<open>
  A call of one of the detector's runtime functions. It can run JavaScript only for a shared array
  with the flag set.
\<close>

definition call_hook ::
  "'v js_ops \<Rightarrow> tsan_config \<Rightarrow> (bool \<Rightarrow> js_env \<Rightarrow> typed_array \<Rightarrow> int \<Rightarrow> engine \<Rightarrow> engine result) \<Rightarrow>
   nat \<Rightarrow> nat \<Rightarrow> ('v, unit) js" where
  "call_hook ops cfg f a i S =
     (let info = arrays S a in
      bindE (f (tsan_flag cfg) (tsan_env cfg) (typed_array.truncate info) (SmiTag ops i) (bengine S)) (\<lambda>E.
        let S1 = S\<lparr>bengine := E\<rparr> in
        returnJ () (if tsan_flag cfg \<and> is_shared info then console_js ops (bengine S) E S1 else S1)))"

subsection \<open>Accesses\<close>

text \<open>
  An access at \<open>base + index * width\<close>. It is undefined unless the range lies in the array as it is
  now.
\<close>

definition accessible :: "nat \<Rightarrow> addr \<Rightarrow> nat \<Rightarrow> nat \<Rightarrow> js_state \<Rightarrow> bool" where
  "accessible a base i w S \<longleftrightarrow>
     (let info = arrays S a in a_valid info \<and> base = data_ptr info \<and> w = kind_size (a_kind info) \<and> i < a_length info)"

definition atomic_update ::
  "v8_lib \<Rightarrow> nat \<Rightarrow> addr \<Rightarrow> nat \<Rightarrow> nat \<Rightarrow> (nat \<Rightarrow> nat) \<Rightarrow> ('v, nat) js" where
  "atomic_update L a base i w f S =
     (if \<not> accessible a base i w S then Inl OutOfBounds
      else
        let old = ReadUnaligned L (bmem S) (base + i * w) w
        in returnJ old (S\<lparr>bmem := WriteUnaligned L (bmem S) (base + i * w) w (f old)\<rparr>))"

definition atomic_load :: "v8_lib \<Rightarrow> nat \<Rightarrow> addr \<Rightarrow> nat \<Rightarrow> nat \<Rightarrow> ('v, nat) js" where
  "atomic_load L a base i w S =
     (if \<not> accessible a base i w S then Inl OutOfBounds
      else returnJ (ReadUnaligned L (bmem S) (base + i * w) w) S)"

text \<open>The value of the \<open>w\<close> bytes read from an element, as a number or a BigInt.\<close>

definition element_int :: "elements_kind \<Rightarrow> nat \<Rightarrow> int" where
  "element_int k n =
     (let w = 8 * kind_size k in
      if signed_kind k then signed_take_bit (w - 1) (int n) else take_bit w (int n))"

definition tag_element :: "'v js_ops \<Rightarrow> elements_kind \<Rightarrow> nat \<Rightarrow> 'v" where
  "tag_element ops k n =
     (if is_big k then bigint_of_int ops (element_int k n) else number_of_int ops (element_int k n))"

subsection \<open>Builtins\<close>

definition AtomicsLoad ::
  "'v js_ops \<Rightarrow> v8_lib \<Rightarrow> tsan_config \<Rightarrow> js_object \<Rightarrow> 'v \<Rightarrow> ('v, 'v) js" where
  "AtomicsLoad ops L cfg obj i =
     bindJ (ValidateIntegerTypedArray ops obj True kRead) (\<lambda>v.
       let validate_failed = kTypedArrayValidateErrorOperation ''Atomics.load'' in
       case v of
         ValidateFailed \<Rightarrow> throwJ validate_failed
       | SharedStructOrArray \<Rightarrow> AtomicsSharedStructOrArray ops ''load'' obj [i]
       | Valid a kind base \<Rightarrow>
           bindJ (ValidateAtomicAccess ops a i) (\<lambda>index_word.
           bindJ (check_index ops a index_word validate_failed) (\<lambda>_.
           bindJ (call_hook ops cfg Runtime_WebTSanAtomicsLoad a index_word) (\<lambda>_.
             if valid_atomics_kind kind
             then bindJ (atomic_load L a base index_word (kind_size kind)) (\<lambda>n. returnJ (tag_element ops kind n))
             else Unreachable))))"

definition AtomicsStore ::
  "'v js_ops \<Rightarrow> v8_lib \<Rightarrow> tsan_config \<Rightarrow> js_object \<Rightarrow> 'v \<Rightarrow> 'v \<Rightarrow> ('v, 'v) js" where
  "AtomicsStore ops L cfg obj i val =
     bindJ (ValidateIntegerTypedArray ops obj True kWrite) (\<lambda>v.
       let validate_fail = kTypedArrayValidateWriteErrorOperation ''Atomics.store'' in
       case v of
         ValidateFailed \<Rightarrow> throwJ validate_fail
       | SharedStructOrArray \<Rightarrow> AtomicsSharedStructOrArray ops ''store'' obj [i, val]
       | Valid a kind base \<Rightarrow>
           bindJ (ValidateAtomicAccess ops a i) (\<lambda>index_word.
           if is_big kind then
             bindJ (ToBigInt ops val) (\<lambda>value_bigint.
             bindJ (check_index ops a index_word validate_fail) (\<lambda>_.
             bindJ (atomic_update L a base index_word 8 (\<lambda>_. unat (BigIntToRawBytes ops value_bigint))) (\<lambda>_.
               returnJ value_bigint)))
           else
             bindJ (ToInteger ops val) (\<lambda>value_integer.
             bindJ (check_index ops a index_word validate_fail) (\<lambda>_.
             let value_word32 = TruncateTaggedToWord32 ops value_integer in
             bindJ (call_hook ops cfg Runtime_WebTSanAtomicsStore a index_word) (\<lambda>_.
             if valid_atomics_kind kind
             then bindJ (atomic_update L a base index_word (kind_size kind) (\<lambda>_. unat value_word32)) (\<lambda>_.
                    returnJ value_integer)
             else Unreachable)))))"

definition AtomicsExchange ::
  "'v js_ops \<Rightarrow> v8_lib \<Rightarrow> tsan_config \<Rightarrow> js_object \<Rightarrow> 'v \<Rightarrow> 'v \<Rightarrow> ('v, 'v) js" where
  "AtomicsExchange ops L cfg obj i val =
     bindJ (ValidateIntegerTypedArray ops obj True kWrite) (\<lambda>v.
       let validate_fail = kTypedArrayValidateWriteErrorOperation ''Atomics.exchange'' in
       case v of
         ValidateFailed \<Rightarrow> throwJ validate_fail
       | SharedStructOrArray \<Rightarrow> AtomicsSharedStructOrArray ops ''exchange'' obj [i, val]
       | Valid a kind base \<Rightarrow>
           bindJ (ValidateAtomicAccess ops a i) (\<lambda>index_word.
           bindJ (call_hook ops cfg Runtime_WebTSanAtomicsRMW a index_word) (\<lambda>_.
           if is_big kind then
             bindJ (ToBigInt ops val) (\<lambda>value_bigint.
             bindJ (check_index ops a index_word validate_fail) (\<lambda>_.
             bindJ (atomic_update L a base index_word 8 (\<lambda>_. unat (BigIntToRawBytes ops value_bigint))) (\<lambda>old.
               returnJ (tag_element ops kind old))))
           else
             bindJ (ToInteger ops val) (\<lambda>value_integer.
             bindJ (check_index ops a index_word validate_fail) (\<lambda>_.
             let value_word32 = TruncateTaggedToWord32 ops value_integer in
             if valid_atomics_kind kind
             then bindJ (atomic_update L a base index_word (kind_size kind) (\<lambda>_. unat value_word32)) (\<lambda>old.
                    returnJ (tag_element ops kind old))
             else Unreachable)))))"

text \<open>The comparison is with the expected value cut to the width of the element.\<close>

definition compare_and_set :: "nat \<Rightarrow> nat \<Rightarrow> nat \<Rightarrow> nat \<Rightarrow> nat" where
  "compare_and_set w expected replacement old =
     (if old = expected mod 256 ^ w then replacement else old)"

definition AtomicsCompareExchange ::
  "'v js_ops \<Rightarrow> v8_lib \<Rightarrow> tsan_config \<Rightarrow> js_object \<Rightarrow> 'v \<Rightarrow> 'v \<Rightarrow> 'v \<Rightarrow> ('v, 'v) js" where
  "AtomicsCompareExchange ops L cfg obj i old_value new_value =
     bindJ (ValidateIntegerTypedArray ops obj True kWrite) (\<lambda>v.
       let validate_failed = kTypedArrayValidateWriteErrorOperation ''Atomics.store'' in
       case v of
         ValidateFailed \<Rightarrow> throwJ validate_failed
       | SharedStructOrArray \<Rightarrow>
           AtomicsSharedStructOrArray ops ''compareExchange'' obj [i, old_value, new_value]
       | Valid a kind base \<Rightarrow>
           bindJ (ValidateAtomicAccess ops a i) (\<lambda>index_word.
           bindJ (call_hook ops cfg Runtime_WebTSanAtomicsRMW a index_word) (\<lambda>_.
           if is_big kind then
             bindJ (ToBigInt ops old_value) (\<lambda>old_value_bigint.
             bindJ (ToBigInt ops new_value) (\<lambda>new_value_bigint.
             bindJ (check_index ops a index_word validate_failed) (\<lambda>_.
             bindJ (atomic_update L a base index_word 8
                      (compare_and_set 8 (unat (BigIntToRawBytes ops old_value_bigint))
                         (unat (BigIntToRawBytes ops new_value_bigint)))) (\<lambda>old.
               returnJ (tag_element ops kind old)))))
           else
             bindJ (ToInteger ops old_value) (\<lambda>old_value_integer.
             bindJ (ToInteger ops new_value) (\<lambda>new_value_integer.
             bindJ (check_index ops a index_word validate_failed) (\<lambda>_.
             let old_value_word32 = TruncateTaggedToWord32 ops old_value_integer;
                 new_value_word32 = TruncateTaggedToWord32 ops new_value_integer in
             if valid_atomics_kind kind
             then bindJ (atomic_update L a base index_word (kind_size kind)
                           (compare_and_set (kind_size kind) (unat old_value_word32)
                              (unat new_value_word32))) (\<lambda>old.
                    returnJ (tag_element ops kind old))
             else Unreachable))))))"

datatype binop = OpAdd | OpSub | OpAnd | OpOr | OpXor

definition binop64 :: "binop \<Rightarrow> nat \<Rightarrow> nat \<Rightarrow> nat" where
  "binop64 op val old =
     (let x = word_of_nat old :: u64; y = word_of_nat val :: u64 in
      unat (case op of OpAdd \<Rightarrow> x + y | OpSub \<Rightarrow> x - y | OpAnd \<Rightarrow> x AND y | OpOr \<Rightarrow> x OR y
                     | OpXor \<Rightarrow> x XOR y))"

definition method_name :: "binop \<Rightarrow> string" where
  "method_name op =
     (case op of OpAdd \<Rightarrow> ''Atomics.add'' | OpSub \<Rightarrow> ''Atomics.sub'' | OpAnd \<Rightarrow> ''Atomics.and''
               | OpOr \<Rightarrow> ''Atomics.or'' | OpXor \<Rightarrow> ''Atomics.xor'')"

definition AtomicBinopBuiltinCommon ::
  "'v js_ops \<Rightarrow> v8_lib \<Rightarrow> js_object \<Rightarrow> 'v \<Rightarrow> 'v \<Rightarrow> binop \<Rightarrow> string \<Rightarrow> access_mode \<Rightarrow> ('v, 'v) js" where
  "AtomicBinopBuiltinCommon ops L obj i val op method mode =
     bindJ (ValidateIntegerTypedArray ops obj False mode) (\<lambda>v.
       let validate_failed = (if mode = kWrite then kTypedArrayValidateWriteErrorOperation method
                              else kTypedArrayValidateErrorOperation method) in
       case v of
         ValidateFailed \<Rightarrow> throwJ validate_failed
       | SharedStructOrArray \<Rightarrow> Unreachable
       | Valid a kind base \<Rightarrow>
           bindJ (ValidateAtomicAccess ops a i) (\<lambda>index_word.
           if is_big kind then
             bindJ (ToBigInt ops val) (\<lambda>value_bigint.
             bindJ (check_index ops a index_word validate_failed) (\<lambda>_.
             bindJ (atomic_update L a base index_word 8
                      (binop64 op (unat (BigIntToRawBytes ops value_bigint)))) (\<lambda>old.
               returnJ (tag_element ops kind old))))
           else
             bindJ (ToInteger ops val) (\<lambda>value_integer.
             bindJ (check_index ops a index_word validate_failed) (\<lambda>_.
             let value_word32 = TruncateTaggedToWord32 ops value_integer in
             if valid_atomics_kind kind
             then bindJ (atomic_update L a base index_word (kind_size kind)
                           (binop64 op (unat value_word32))) (\<lambda>old.
                    returnJ (tag_element ops kind old))
             else Unreachable))))"

definition AtomicsBinop :: "'v js_ops \<Rightarrow> v8_lib \<Rightarrow> binop \<Rightarrow> js_object \<Rightarrow> 'v \<Rightarrow> 'v \<Rightarrow> ('v, 'v) js" where
  "AtomicsBinop ops L op array i val =
     AtomicBinopBuiltinCommon ops L array i val op (method_name op) kWrite"

end
