(* ===== verification/AtomicsProps.thy ===== *)
theory AtomicsProps
  imports Atomics Init WasmNumericProps
begin

text \<open>
  Properties of the \<open>Atomics\<close> builtins: they access no element out of bounds whatever JavaScript runs
  in the middle of them, a race report included; what they do to the element; and which of them the
  detector is told about.
\<close>

subsection \<open>Triples\<close>

text \<open>From a state with \<open>P\<close> the code does not crash, and if it throws nothing, \<open>Q\<close> holds.\<close>

definition triple :: "(js_state \<Rightarrow> bool) \<Rightarrow> ('v, 'a) js \<Rightarrow> ('a \<Rightarrow> js_state \<Rightarrow> bool) \<Rightarrow> bool" where
  "triple P m Q \<longleftrightarrow> (\<forall>S. P S \<longrightarrow>
     (case m S of Inl _ \<Rightarrow> False | Inr (Inl _, _) \<Rightarrow> True | Inr (Inr x, S') \<Rightarrow> Q x S'))"

lemma triple_return: "triple (Q x) (returnJ x) Q"
  by (simp add: triple_def returnJ_def)

lemma triple_throw: "triple P (throwJ e) Q"
  by (simp add: triple_def throwJ_def)

lemma triple_bind:
  assumes "triple P m R" and "\<And>x. triple (R x) (f x) Q"
  shows "triple P (bindJ m f) Q"
  unfolding triple_def
proof (intro allI impI)
  fix S assume "P S"
  with assms(1) have m: "case m S of Inl _ \<Rightarrow> False | Inr (Inl _, _) \<Rightarrow> True | Inr (Inr x, S') \<Rightarrow> R x S'"
    by (simp add: triple_def)
  have f: "R x S' \<Longrightarrow> case f x S' of Inl _ \<Rightarrow> False | Inr (Inl _, _) \<Rightarrow> True | Inr (Inr y, T) \<Rightarrow> Q y T"
    for x S' using assms(2) [of x] by (simp add: triple_def)
  show "case bindJ m f S of Inl _ \<Rightarrow> False | Inr (Inl _, _) \<Rightarrow> True | Inr (Inr y, T) \<Rightarrow> Q y T"
  proof (cases "m S")
    case (Inr p)
    then obtain r S' where "m S = Inr (r, S')" by (cases p) simp
    with m f show ?thesis by (cases r) (simp_all add: bindJ_def)
  qed (use m in simp)
qed

lemma triple_pre: "\<lbrakk>triple R m Q; \<And>S. P S \<Longrightarrow> R S\<rbrakk> \<Longrightarrow> triple P m Q"
  by (simp add: triple_def)

lemma triple_post:
  assumes "triple P m R" and "\<And>x S. R x S \<Longrightarrow> Q x S"
  shows "triple P m Q"
  using assms unfolding triple_def by (fastforce split: sum.splits prod.splits)

subsection \<open>What JavaScript keeps\<close>

text \<open>
  An engine with the detector's callbacks whose current thread, if any, has a clock; JavaScript that
  sets the id of another thread can break this.
\<close>

definition engine_ok :: "engine \<Rightarrow> bool" where
  "engine_ok E \<longleftrightarrow> g_callbacks E = webtsan_callbacks \<and>
     (WebTSanGetCurrentTid (eng E) = UINT32_MAX \<or> WebTSanGetCurrentTid (eng E) < kMaxThreads)"

text \<open>
  What never changes of a typed array: its kind, whether it is shared, that it is detached, and while
  it is not, where its elements are. A shared one stays valid and does not shrink.
\<close>

definition stable :: "array_info \<Rightarrow> array_info \<Rightarrow> bool" where
  "stable i i' \<longleftrightarrow> a_kind i' = a_kind i \<and> is_shared i' = is_shared i
     \<and> (a_detached i \<longrightarrow> a_detached i') \<and> (\<not> a_detached i' \<longrightarrow> data_ptr i' = data_ptr i)
     \<and> (is_shared i \<and> a_valid i \<longrightarrow> a_valid i' \<and> a_length i \<le> a_length i')"

definition keeps :: "nat \<Rightarrow> js_state \<Rightarrow> js_state \<Rightarrow> bool" where
  "keeps a S S' \<longleftrightarrow> engine_ok (bengine S') \<and> stable (arrays S a) (arrays S' a)"

definition runs :: "nat \<Rightarrow> ('v, 'a) js \<Rightarrow> bool" where
  "runs a m \<longleftrightarrow> (\<forall>S. engine_ok (bengine S) \<longrightarrow> (\<exists>r S'. m S = Inr (r, S') \<and> keeps a S S'))"

definition js_contract :: "'v js_ops \<Rightarrow> tsan_config \<Rightarrow> nat \<Rightarrow> bool" where
  "js_contract ops cfg a \<longleftrightarrow>
     (\<forall>i m. IsJSArrayBufferViewValid ops i m \<longrightarrow> a_valid i)
   \<and> (\<forall>i. a_valid i \<longrightarrow> LengthAndValidate ops i = Some (a_length i))
   \<and> (\<forall>i n. CheckJSTypedArrayIndex ops i n \<longrightarrow> a_valid i \<and> n < a_length i)
   \<and> (\<forall>v. runs a (ToIndex ops v) \<and> runs a (ToInteger ops v) \<and> runs a (ToBigInt ops v))
   \<and> (\<forall>m obj vs. runs a (AtomicsSharedStructOrArray ops m obj vs))
   \<and> (\<forall>E E' S. engine_ok (bengine S) \<longrightarrow> keeps a S (console_js ops E E' S))
   \<and> (\<forall>m E. engine_ok E \<longrightarrow> engine_ok (call_error (tsan_env cfg) m E))"

text \<open>The state between the steps of a builtin: the array has the kind and the place it had.\<close>

definition inv :: "nat \<Rightarrow> elements_kind \<Rightarrow> addr \<Rightarrow> js_state \<Rightarrow> bool" where
  "inv a k p S \<longleftrightarrow> engine_ok (bengine S) \<and> a_kind (arrays S a) = k
     \<and> (\<not> a_detached (arrays S a) \<longrightarrow> data_ptr (arrays S a) = p)"

definition in_bounds :: "nat \<Rightarrow> nat \<Rightarrow> js_state \<Rightarrow> bool" where
  "in_bounds a i S \<longleftrightarrow> a_valid (arrays S a) \<and> i < a_length (arrays S a)"

lemma inv_keeps: "\<lbrakk>inv a k p S; keeps a S S'\<rbrakk> \<Longrightarrow> inv a k p S'"
  by (auto simp: inv_def keeps_def stable_def)

lemma triple_runs: "runs a m \<Longrightarrow> triple (inv a k p) m (\<lambda>_. inv a k p)"
  unfolding triple_def
proof (intro allI impI)
  fix S assume r: "runs a m" and i: "inv a k p S"
  then obtain x S' where "m S = Inr (x, S')" "keeps a S S'" by (auto simp: runs_def inv_def)
  with i show "case m S of Inl _ \<Rightarrow> False | Inr (Inl _, _) \<Rightarrow> True | Inr (Inr x, S') \<Rightarrow> inv a k p S'"
    by (auto intro: inv_keeps split: sum.split)
qed

subsection \<open>The hooks\<close>

lemma MaybeThrowRace_ok:
  assumes "engine_ok E" and "\<And>m E. engine_ok E \<Longrightarrow> engine_ok (call_error env m E)"
  shows "engine_ok (MaybeThrowRace env E)"
proof -
  have "engine_ok (E\<lparr>eng := snd (consume_race_cb n (eng E))\<rparr>)" for n
    using assms(1) by (cases "eng E")
      (simp add: engine_ok_def consume_race_cb_def WebTSanGetCurrentTid_def)
  moreover have "engine_ok (clear_exception E)" if "engine_ok E" for E
    using that by (simp add: clear_exception_def engine_ok_def)
  moreover have "consume_race (g_callbacks E) = Some consume_race_cb"
    using assms(1) by (simp add: engine_ok_def webtsan_callbacks_def)
  ultimately show ?thesis
    using assms(2) by (auto simp: MaybeThrowRace_def Let_def split: prod.split option.split)
      (metis snd_conv)+
qed

lemma tid_hooks_return:
  assumes "tid < kMaxThreads"
  shows "\<exists>W. OnAtomicsLoad tid loc D = Inr (W, snd D)"
    and "\<exists>W. OnAtomicsStore tid loc D = Inr (W, snd D)"
    and "\<exists>W. OnAtomicsRMW tid loc D = Inr (W, snd D)"
proof -
  have a: "\<exists>W'. Acquire tid loc W = Inr W'" and r: "\<exists>W'. Release tid loc W = Inr W'" for W
    using assms by (auto simp: Acquire_def Release_def index_tid_def split: option.split)
  obtain W T where D: "D = (W, T)" by (cases D)
  obtain A where A: "Acquire tid loc W = Inr A" using a by blast
  obtain R where R: "Release tid loc W = Inr R" using r by blast
  obtain B where B: "Release tid loc A = Inr B" using r by blast
  show "\<exists>W. OnAtomicsLoad tid loc D = Inr (W, snd D)"
    by (simp add: D OnAtomicsLoad_def callE_def A)
  show "\<exists>W. OnAtomicsStore tid loc D = Inr (W, snd D)"
    by (simp add: D OnAtomicsStore_def callE_def R)
  show "\<exists>W. OnAtomicsRMW tid loc D = Inr (W, snd D)"
    by (simp add: D OnAtomicsRMW_def callE_def A B)
qed

definition hooks :: "(bool \<Rightarrow> js_env \<Rightarrow> typed_array \<Rightarrow> int \<Rightarrow> engine \<Rightarrow> engine result) set" where
  "hooks = {Runtime_WebTSanAtomicsLoad, Runtime_WebTSanAtomicsStore, Runtime_WebTSanAtomicsRMW}"

lemma hook_returns:
  assumes "f \<in> hooks" and "engine_ok E" and "\<And>m E. engine_ok E \<Longrightarrow> engine_ok (call_error env m E)"
  shows "\<exists>E'. f flag env arr i E = Inr E' \<and> engine_ok E'"
proof -
  let ?t = "WebTSanGetCurrentTid (eng E)" and ?x = "element_address arr i"
  have cb: "g_callbacks E = webtsan_callbacks" using assms(2) by (simp add: engine_ok_def)
  have tid: "GetTid E = ?t" by (simp add: GetTid_def cb webtsan_callbacks_def)
  let ?b = "\<lambda>g. if \<not> flag \<or> \<not> is_shared arr \<or> ?t = UINT32_MAX then Inr E
        else bindE (on_eng (g ?t ?x) E) (\<lambda>E. Inr (MaybeThrowRace env E))"
  have "Runtime_WebTSanAtomicsLoad flag env arr i E = ?b OnAtomicsLoad"
    "Runtime_WebTSanAtomicsStore flag env arr i E = ?b OnAtomicsStore"
    "Runtime_WebTSanAtomicsRMW flag env arr i E = ?b OnAtomicsRMW"
    by (simp_all add: Runtime_WebTSanAtomicsLoad_def tid Let_def
        Runtime_WebTSanAtomicsStore_def Runtime_WebTSanAtomicsRMW_def cb webtsan_callbacks_def)
  with assms(1) obtain g where g: "g = OnAtomicsLoad \<or> g = OnAtomicsStore \<or> g = OnAtomicsRMW"
    and f: "f flag env arr i E = ?b g" unfolding hooks_def by blast
  show ?thesis
  proof (cases "\<not> flag \<or> \<not> is_shared arr \<or> ?t = UINT32_MAX")
    case True
    with f assms(2) show ?thesis by simp
  next
    case False
    then have "?t < kMaxThreads" using assms(2) by (simp add: engine_ok_def)
    from tid_hooks_return [OF this, of ?x "eng E"] g obtain W where "g ?t ?x (eng E) = Inr (W, snd (eng E))"
      by blast
    with False f have e: "f flag env arr i E = Inr (MaybeThrowRace env (E\<lparr>eng := (W, snd (eng E))\<rparr>))"
      by (simp add: on_eng_def)
    have "engine_ok (E\<lparr>eng := (W, snd (eng E))\<rparr>)"
      using assms(2) by (simp add: engine_ok_def WebTSanGetCurrentTid_def)
    with e MaybeThrowRace_ok [OF _ assms(3)] show ?thesis by blast
  qed
qed

subsection \<open>The steps of a builtin\<close>

definition checked :: "nat \<Rightarrow> elements_kind \<Rightarrow> addr \<Rightarrow> nat \<Rightarrow> js_state \<Rightarrow> bool" where
  "checked a k p i S \<longleftrightarrow> inv a k p S \<and> in_bounds a i S"

lemma checked_keeps:
  "\<lbrakk>checked a k p i S; keeps a S S'; is_shared (arrays S a)\<rbrakk> \<Longrightarrow> checked a k p i S'"
  unfolding checked_def by (auto dest: inv_keeps simp: in_bounds_def keeps_def stable_def)

text \<open>The JavaScript a report runs cannot take back a check of a shared array, and none runs for others.\<close>

lemma call_hook_keeps:
  assumes "js_contract ops cfg a" and "f \<in> hooks" and "inv a k p S"
  obtains S' where "call_hook ops cfg f a i S = Inr (Inr (), S')" and "inv a k p S'"
    and "checked a k p j S \<Longrightarrow> checked a k p j S'"
proof -
  let ?i = "arrays S a"
  have ok: "engine_ok (bengine S)" using assms(3) by (simp add: inv_def)
  have env: "\<And>m E. engine_ok E \<Longrightarrow> engine_ok (call_error (tsan_env cfg) m E)"
    using assms(1) by (simp add: js_contract_def)
  from hook_returns [OF assms(2) ok env, of "tsan_flag cfg" "typed_array.truncate ?i" "SmiTag ops i"]
  obtain E where E: "f (tsan_flag cfg) (tsan_env cfg) (typed_array.truncate ?i) (SmiTag ops i) (bengine S) = Inr E"
    and okE: "engine_ok E" by blast
  let ?S = "S\<lparr>bengine := E\<rparr>"
  have i1: "inv a k p ?S" using assms(3) okE by (simp add: inv_def)
  have c1: "checked a k p j S \<Longrightarrow> checked a k p j ?S" using i1 by (simp add: checked_def in_bounds_def)
  have e: "call_hook ops cfg f a i S = Inr (Inr (), if tsan_flag cfg \<and> is_shared ?i
      then console_js ops (bengine S) E ?S else ?S)"
    by (simp add: call_hook_def Let_def E returnJ_def)
  show thesis
  proof (cases "tsan_flag cfg \<and> is_shared ?i")
    case True
    have k: "keeps a ?S (console_js ops (bengine S) E ?S)"
      using assms(1) okE by (simp add: js_contract_def)
    have "is_shared (arrays ?S a)" using True by simp
    with that [of "console_js ops (bengine S) E ?S"] e True inv_keeps [OF i1 k] checked_keeps [OF c1 k]
    show thesis by simp
  next
    case False
    with that [of ?S] e i1 c1 show thesis by simp
  qed
qed

lemma hook_inv:
  assumes "js_contract ops cfg a" and "f \<in> hooks"
  shows "triple (inv a k p) (call_hook ops cfg f a i) (\<lambda>_. inv a k p)"
    and "triple (checked a k p j) (call_hook ops cfg f a i) (\<lambda>_. checked a k p j)"
proof -
  have *: "\<exists>S'. call_hook ops cfg f a i S = Inr (Inr (), S') \<and> inv a k p S' \<and>
      (checked a k p j S \<longrightarrow> checked a k p j S')" if "inv a k p S" for S
    using call_hook_keeps [OF assms that] by blast
  then show "triple (inv a k p) (call_hook ops cfg f a i) (\<lambda>_. inv a k p)"
    by (fastforce simp: triple_def)
  have "checked a k p j S \<Longrightarrow> inv a k p S" for S by (simp add: checked_def)
  with * show "triple (checked a k p j) (call_hook ops cfg f a i) (\<lambda>_. checked a k p j)"
    by (fastforce simp: triple_def)
qed

lemma check_index_checks:
  "js_contract ops cfg a \<Longrightarrow> triple (inv a k p) (check_index ops a i e) (\<lambda>_. checked a k p i)"
  by (auto simp: triple_def check_index_def returnJ_def throwJ_def js_contract_def checked_def in_bounds_def)

lemma update_in_bounds:
  "w = kind_size k \<Longrightarrow> triple (checked a k p i) (atomic_update L a p i w f) (\<lambda>_ _. True)"
  by (auto simp: triple_def atomic_update_def accessible_def checked_def inv_def in_bounds_def
      returnJ_def Let_def a_valid_def)

lemma load_in_bounds:
  "w = kind_size k \<Longrightarrow> triple (checked a k p i) (atomic_load L a p i w) (\<lambda>_ _. True)"
  by (auto simp: triple_def atomic_load_def accessible_def checked_def inv_def in_bounds_def
      returnJ_def Let_def a_valid_def)

lemma access_index:
  assumes "js_contract ops cfg a"
  shows "triple (\<lambda>S. inv a k p S \<and> a_valid (arrays S a)) (ValidateAtomicAccess ops a v) (\<lambda>_. inv a k p)"
  unfolding triple_def
proof (intro allI impI)
  fix S assume S: "inv a k p S \<and> a_valid (arrays S a)"
  have l: "LengthAndValidate ops (arrays S a) = Some (a_length (arrays S a))" and r: "runs a (ToIndex ops v)"
    using assms S by (simp_all add: js_contract_def)
  from r S obtain x S' where "ToIndex ops v S = Inr (x, S')" "keeps a S S'" by (auto simp: runs_def inv_def)
  with S l inv_keeps show "case ValidateAtomicAccess ops a v S of Inl _ \<Rightarrow> False | Inr (Inl _, _) \<Rightarrow> True
      | Inr (Inr x, S') \<Rightarrow> inv a k p S'"
    by (cases x) (auto simp: ValidateAtomicAccess_def bindJ_def throwJ_def returnJ_def split: option.split)
qed

definition ok :: "js_state \<Rightarrow> bool" where
  "ok S \<longleftrightarrow> engine_ok (bengine S)"

text \<open>What the first step leaves to the rest, which is given as a continuation.\<close>

lemma validated:
  assumes "js_contract ops cfg a" and "\<And>b. obj = TypedArray b \<Longrightarrow> b = a"
    and "\<And>k p. valid_atomics_kind k \<Longrightarrow> triple (\<lambda>S. inv a k p S \<and> a_valid (arrays S a)) (f (Valid a k p)) Q"
    and "triple ok (f ValidateFailed) Q"
    and "shared \<Longrightarrow> triple ok (f SharedStructOrArray) Q"
  shows "triple ok (bindJ (ValidateIntegerTypedArray ops obj shared mode) f) Q"
proof (rule triple_bind)
  let ?R = "\<lambda>v S. case v of Valid b k p \<Rightarrow> b = a \<and> valid_atomics_kind k \<and> inv a k p S \<and> a_valid (arrays S a)
      | ValidateFailed \<Rightarrow> ok S | SharedStructOrArray \<Rightarrow> shared \<and> ok S"
  have v: "IsJSArrayBufferViewValid ops i mode \<Longrightarrow> a_valid i" for i
    using assms(1) by (auto simp: js_contract_def)
  show "triple ok (ValidateIntegerTypedArray ops obj shared mode) ?R"
    using assms(2) v by (cases obj) (auto simp: triple_def ValidateIntegerTypedArray_def Let_def
        returnJ_def throwJ_def ok_def inv_def)
  show "triple (?R x) (f x) Q" for x
    using assms(3) [THEN triple_pre] assms(4,5) by (cases x) (auto simp: triple_def)
qed

lemma access_then:
  assumes "js_contract ops cfg a" and "\<And>i. triple (inv a k p) (f i) Q"
  shows "triple (\<lambda>S. inv a k p S \<and> a_valid (arrays S a)) (bindJ (ValidateAtomicAccess ops a v) f) Q"
  by (rule triple_bind [OF access_index [OF assms(1)] assms(2)])

lemma check_then:
  assumes "js_contract ops cfg a" and "\<And>u. triple (checked a k p i) (f u) Q"
  shows "triple (inv a k p) (bindJ (check_index ops a i e) f) Q"
  by (rule triple_bind [OF check_index_checks [OF assms(1)] assms(2)])

lemma hook_then:
  assumes "js_contract ops cfg a" and "f \<in> hooks"
  shows "(\<And>u. triple (inv a k p) (g u) Q) \<Longrightarrow> triple (inv a k p) (bindJ (call_hook ops cfg f a i) g) Q"
    and "(\<And>u. triple (checked a k p j) (g u) Q) \<Longrightarrow>
      triple (checked a k p j) (bindJ (call_hook ops cfg f a i) g) Q"
  by (rule triple_bind [OF hook_inv(1) [OF assms]], assumption)
    (rule triple_bind [OF hook_inv(2) [OF assms]], assumption)

lemma convert_then:
  assumes "js_contract ops cfg a" and "\<And>x. triple (inv a k p) (f x) Q"
  shows "triple (inv a k p) (bindJ (ToInteger ops v) f) Q"
    and "triple (inv a k p) (bindJ (ToBigInt ops v) f) Q"
  using assms(1) by (auto simp: js_contract_def intro!: triple_bind [OF triple_runs assms(2)])

lemma access_last:
  "w = kind_size k \<Longrightarrow>
     triple (checked a k p i) (bindJ (atomic_update L a p i w g) (\<lambda>n. returnJ (h n))) (\<lambda>_ _. True)"
  "w = kind_size k \<Longrightarrow>
     triple (checked a k p i) (bindJ (atomic_load L a p i w) (\<lambda>n. returnJ (h n))) (\<lambda>_ _. True)"
  by (rule triple_bind [OF update_in_bounds] triple_bind [OF load_in_bounds], assumption,
      simp add: triple_def returnJ_def)+

lemma shared_struct:
  "js_contract ops cfg a \<Longrightarrow> triple ok (AtomicsSharedStructOrArray ops m obj vs) (\<lambda>_ _. True)"
proof -
  assume "js_contract ops cfg a"
  then have "runs a (AtomicsSharedStructOrArray ops m obj vs)" by (simp add: js_contract_def)
  then show ?thesis unfolding triple_def ok_def runs_def by (fastforce split: sum.split)
qed

lemma big_size: "is_big k \<Longrightarrow> 8 = kind_size k"
  by (auto simp: is_big_def)

lemma hooks_mem:
  "Runtime_WebTSanAtomicsLoad \<in> hooks" "Runtime_WebTSanAtomicsStore \<in> hooks"
  "Runtime_WebTSanAtomicsRMW \<in> hooks"
  by (simp_all add: hooks_def)

lemma triple_if:
  "\<lbrakk>c \<Longrightarrow> triple P m Q; \<not> c \<Longrightarrow> triple P n Q\<rbrakk> \<Longrightarrow> triple P (if c then m else n) Q"
  by simp

lemmas end_rules = triple_throw triple_if access_last [OF refl] access_last [OF big_size]

lemmas step_rules = hook_then [OF _ hooks_mem(1)] hook_then [OF _ hooks_mem(2)]
  hook_then [OF _ hooks_mem(3)] access_then check_then convert_then shared_struct

lemma builtins_triple:
  assumes c: "js_contract ops cfg a" and b: "\<And>b. obj = TypedArray b \<Longrightarrow> b = a"
  shows "triple ok (AtomicsLoad ops L cfg obj i) (\<lambda>_ _. True)"
    and "triple ok (AtomicsStore ops L cfg obj i v) (\<lambda>_ _. True)"
    and "triple ok (AtomicsExchange ops L cfg obj i v) (\<lambda>_ _. True)"
    and "triple ok (AtomicsCompareExchange ops L cfg obj i v u) (\<lambda>_ _. True)"
    and "triple ok (AtomicsBinop ops L op obj i v) (\<lambda>_ _. True)"
  unfolding AtomicsLoad_def AtomicsStore_def AtomicsExchange_def AtomicsCompareExchange_def
    AtomicsBinop_def AtomicBinopBuiltinCommon_def Let_def
  by (rule validated [OF c b], assumption;
      (simp only: validated.case simp_thms if_True)?; (intro end_rules step_rules [OF c])?; simp?)+

subsection \<open>Safety\<close>

datatype 'v atomics_call =
  CallLoad | CallStore 'v | CallExchange 'v | CallCompareExchange 'v 'v | CallBinop binop 'v

fun run_atomics ::
  "'v js_ops \<Rightarrow> v8_lib \<Rightarrow> tsan_config \<Rightarrow> js_object \<Rightarrow> 'v \<Rightarrow> 'v atomics_call \<Rightarrow> ('v, 'v) js" where
  "run_atomics ops L cfg obj i CallLoad = AtomicsLoad ops L cfg obj i"
| "run_atomics ops L cfg obj i (CallStore v) = AtomicsStore ops L cfg obj i v"
| "run_atomics ops L cfg obj i (CallExchange v) = AtomicsExchange ops L cfg obj i v"
| "run_atomics ops L cfg obj i (CallCompareExchange v u) = AtomicsCompareExchange ops L cfg obj i v u"
| "run_atomics ops L cfg obj i (CallBinop op v) = AtomicsBinop ops L op obj i v"

text \<open>
  C31: the \<open>Atomics\<close> builtins never access memory outside the array, reach an \<open>Unreachable\<close> or index
  the detector out of range, whatever JavaScript the conversions of the arguments and the console call
  of a race report run: it may detach or resize the array before the last check, and a report after
  the check comes only for shared arrays, which neither detach nor shrink. The hypothesis on the
  engine, that the current thread has a clock, is needed (JavaScript can break it, see
  \<open>wild_tid_crashes\<close>).
\<close>

theorem builtins_stay_in_bounds:
  assumes "js_contract ops cfg a" and "\<And>b. obj = TypedArray b \<Longrightarrow> b = a" and "engine_ok (bengine S)"
  shows "\<exists>r S'. run_atomics ops L cfg obj i c S = Inr (r, S')"
proof -
  have "triple ok (run_atomics ops L cfg obj i c) (\<lambda>_ _. True)"
    using builtins_triple [OF assms(1,2)] by (cases c) simp_all
  then show ?thesis
    using assms(3) unfolding triple_def ok_def by (cases "run_atomics ops L cfg obj i c S") auto
qed

text \<open>Conversions that run no JavaScript, but for the index \<open>-1\<close>, which detaches array 0 if it is not shared.\<close>

definition detach :: "js_state \<Rightarrow> js_state" where
  "detach S = (if is_shared (arrays S 0) then S
     else S\<lparr>arrays := (arrays S)(0 := (arrays S 0)\<lparr>a_detached := True\<rparr>)\<rparr>)"

definition demo_js :: "int js_ops" where
  "demo_js =
     \<lparr>IsJSArrayBufferViewValid = (\<lambda>i m. a_valid i \<and> (m = kWrite \<longrightarrow> \<not> a_immutable i)),
      LengthAndValidate = (\<lambda>i. if a_valid i then Some (a_length i) else None),
      CheckJSTypedArrayIndex = (\<lambda>i n. a_valid i \<and> n < a_length i),
      ToIndex = (\<lambda>v S. Inr (Inr (Some (nat v)), if v = - 1 then detach S else S)),
      ToInteger = returnJ, ToBigInt = returnJ, TruncateTaggedToWord32 = word_of_int,
      BigIntToRawBytes = word_of_int, SmiTag = int, number_of_int = id, bigint_of_int = id,
      AtomicsSharedStructOrArray = (\<lambda>m obj vs. throwJ (Thrown 0)), console_js = (\<lambda>E E' S. S)\<rparr>"

definition demo_cfg :: tsan_config where
  "demo_cfg = \<lparr>tsan_flag = True, tsan_env = plain_env\<rparr>"

lemma demo_contract: "js_contract demo_js demo_cfg a"
  by (auto simp: js_contract_def demo_js_def demo_cfg_def plain_env_def runs_def keeps_def stable_def
      engine_ok_def returnJ_def throwJ_def detach_def a_valid_def data_ptr_def)

text \<open>An array of four 32-bit elements at 4096, and a thread with id 1.\<close>

definition demo_array :: "bool \<Rightarrow> elements_kind \<Rightarrow> array_info" where
  "demo_array sh k = \<lparr>is_shared = sh, backing_store = 4096, byte_length = 16, byte_offset = 0,
     element_size = kind_size k, a_detached = False, a_out_of_bounds = False, a_immutable = False,
     a_kind = k, a_length = 16 div kind_size k\<rparr>"

definition demo_state :: "bool \<Rightarrow> elements_kind \<Rightarrow> js_state" where
  "demo_state sh k =
     \<lparr>bengine = new_engine\<lparr>eng := (two_threads, init_tls\<lparr>g_current_tsan_tid := 1\<rparr>),
        g_callbacks := webtsan_callbacks\<rparr>,
      arrays = (\<lambda>_. demo_array sh k), bmem = (\<lambda>_. 0)\<rparr>"

lemma demo_engine_ok: "engine_ok (bengine (demo_state sh k))"
  by (simp add: demo_state_def engine_ok_def WebTSanGetCurrentTid_def kMaxThreads_def)

text \<open>The conversion of the index detaches the array; the check after it throws.\<close>

theorem builtins_stay_in_bounds_witness:
  "(\<exists>r S'. run_atomics demo_js demo_lib demo_cfg (TypedArray 0) (- 1) CallLoad
      (demo_state False INT32_ELEMENTS) = Inr (r, S'))
   \<and> fst (projr (run_atomics demo_js demo_lib demo_cfg (TypedArray 0) (- 1) CallLoad
      (demo_state False INT32_ELEMENTS)))
     = Inl (kTypedArrayValidateErrorOperation ''Atomics.load'')"
proof -
  have "\<exists>r S'. run_atomics demo_js demo_lib demo_cfg (TypedArray 0) (- 1) CallLoad
      (demo_state False INT32_ELEMENTS) = Inr (r, S')"
    by (rule builtins_stay_in_bounds [OF demo_contract [of 0] _ demo_engine_ok]) simp
  then show ?thesis
    by (simp add: AtomicsLoad_def bindJ_def ValidateIntegerTypedArray_def Let_def demo_js_def
        demo_state_def demo_array_def a_valid_def valid_atomics_kind_def returnJ_def
        ValidateAtomicAccess_def check_index_def throwJ_def detach_def)
qed

subsection \<open>A thread id out of range\<close>

text \<open>
  JavaScript can make the detector index its clocks out of range. The installed function
  that sets the current thread takes any number; after a call with one that is no thread's (and is
  not the reserved maximum), the next \<open>Atomics.store\<close> to a shared array reads and writes outside
  the array of clocks.
\<close>

lemma wild_tid_crashes:
  assumes "g_callbacks E = webtsan_callbacks" and "enabled (fst (eng E))"
    and "Uint32Value api v = Some w" and "kMaxThreads \<le> unat w" and "unat w < UINT32_MAX"
    and "is_shared arr"
  shows "\<exists>E'. set_current_tid_js api [v] E = Inr E'
     \<and> Runtime_WebTSanAtomicsStore True env arr i E' = Inl OutOfBounds"
  using assms
  by (cases "eng E") (auto simp: set_current_tid_js_def arg_uint32_def Let_def call_def
      Runtime_WebTSanAtomicsStore_def webtsan_callbacks_def GetTid_def WebTSanGetCurrentTid_def
      WebTSanSetCurrentTid_def on_eng_def OnAtomicsStore_def callE_def Release_def index_tid_def
      ThreadAbsorb_def)

lemma wild_tid_crashes_example:
  "\<exists>E'. set_current_tid_js demo_api [100] (bengine (demo_state True INT32_ELEMENTS)) = Inr E'
     \<and> Runtime_WebTSanAtomicsStore True plain_env
        (typed_array.truncate (demo_array True INT32_ELEMENTS)) 0 E' = Inl OutOfBounds"
  by (rule wild_tid_crashes [where w = 100])
    (simp_all add: demo_state_def demo_api_def kMaxThreads_def UINT32_MAX_def demo_array_def
      two_threads_def one_thread_def typed_array.defs)

subsection \<open>What a call does\<close>

text \<open>Conversions without side effects; \<open>ival\<close> is the integer a converted value stands for.\<close>

definition plain :: "'v js_ops \<Rightarrow> ('v \<Rightarrow> 'v) \<Rightarrow> ('v \<Rightarrow> int) \<Rightarrow> ('v \<Rightarrow> nat) \<Rightarrow> bool" where
  "plain ops num ival idx \<longleftrightarrow>
     (\<forall>i m. IsJSArrayBufferViewValid ops i m \<longleftrightarrow> a_valid i \<and> (m = kWrite \<longrightarrow> \<not> a_immutable i))
   \<and> (\<forall>i. a_valid i \<longrightarrow> LengthAndValidate ops i = Some (a_length i))
   \<and> (\<forall>i n. CheckJSTypedArrayIndex ops i n \<longleftrightarrow> a_valid i \<and> n < a_length i)
   \<and> (\<forall>v S. ToIndex ops v S = Inr (Inr (Some (idx v)), S))
   \<and> (\<forall>v S. ToInteger ops v S = Inr (Inr (num v), S))
   \<and> (\<forall>v S. ToBigInt ops v S = Inr (Inr (num v), S))
   \<and> (\<forall>v. TruncateTaggedToWord32 ops v = word_of_int (ival v))
   \<and> (\<forall>v. BigIntToRawBytes ops v = word_of_int (ival v))
   \<and> (\<forall>E E' S. console_js ops E E' S = S)"

lemma plain_sel:
  assumes "plain ops num ival idx"
  shows "IsJSArrayBufferViewValid ops i m \<longleftrightarrow> a_valid i \<and> (m = kWrite \<longrightarrow> \<not> a_immutable i)"
    and "a_valid i \<Longrightarrow> LengthAndValidate ops i = Some (a_length i)"
    and "CheckJSTypedArrayIndex ops i n \<longleftrightarrow> a_valid i \<and> n < a_length i"
    and "ToIndex ops v S = Inr (Inr (Some (idx v)), S)"
    and "ToInteger ops v S = Inr (Inr (num v), S)" and "ToBigInt ops v S = Inr (Inr (num v), S)"
    and "TruncateTaggedToWord32 ops v = word_of_int (ival v)"
    and "BigIntToRawBytes ops v = word_of_int (ival v)" and "console_js ops E E' S = S"
  using assms by (simp_all add: plain_def)

text \<open>The runtime function a call runs, if any, and the bits it leaves in the element.\<close>

fun hook_of :: "elements_kind \<Rightarrow> 'v atomics_call \<Rightarrow>
    (bool \<Rightarrow> js_env \<Rightarrow> typed_array \<Rightarrow> int \<Rightarrow> engine \<Rightarrow> engine result) option" where
  "hook_of k CallLoad = Some Runtime_WebTSanAtomicsLoad"
| "hook_of k (CallStore v) = (if is_big k then None else Some Runtime_WebTSanAtomicsStore)"
| "hook_of k (CallExchange v) = Some Runtime_WebTSanAtomicsRMW"
| "hook_of k (CallCompareExchange v u) = Some Runtime_WebTSanAtomicsRMW"
| "hook_of k (CallBinop op v) = None"

definition raw_bits :: "elements_kind \<Rightarrow> int \<Rightarrow> nat" where
  "raw_bits k x = (if is_big k then unat (word_of_int x :: u64) else unat (word_of_int x :: u32))"

fun new_bits :: "elements_kind \<Rightarrow> ('v \<Rightarrow> int) \<Rightarrow> 'v atomics_call \<Rightarrow> nat \<Rightarrow> nat" where
  "new_bits k val CallLoad old = old"
| "new_bits k val (CallStore v) old = raw_bits k (val v)"
| "new_bits k val (CallExchange v) old = raw_bits k (val v)"
| "new_bits k val (CallCompareExchange v u) old =
     compare_and_set (kind_size k) (raw_bits k (val v)) (raw_bits k (val u)) old"
| "new_bits k val (CallBinop op v) old = binop64 op (raw_bits k (val v)) old"

fun call_result :: "'v js_ops \<Rightarrow> elements_kind \<Rightarrow> ('v \<Rightarrow> 'v) \<Rightarrow> 'v atomics_call \<Rightarrow> nat \<Rightarrow> 'v" where
  "call_result ops k num (CallStore v) old = num v"
| "call_result ops k num c old = tag_element ops k old"

definition writes :: "'v atomics_call \<Rightarrow> bool" where
  "writes c \<longleftrightarrow> c \<noteq> CallLoad"

lemma call_plain:
  assumes p: "plain ops num ival idx" and v: "a_valid (arrays S a)" and w: "writes c \<longrightarrow> \<not> a_immutable (arrays S a)"
    and k: "valid_atomics_kind (a_kind (arrays S a))" and i: "idx i < a_length (arrays S a)"
    and E: "case hook_of (a_kind (arrays S a)) c of None \<Rightarrow> E = bengine S
      | Some f \<Rightarrow> f (tsan_flag cfg) (tsan_env cfg) (typed_array.truncate (arrays S a)) (SmiTag ops (idx i)) (bengine S) = Inr E"
  shows "run_atomics ops L cfg (TypedArray a) i c S =
    (let k = a_kind (arrays S a); at = data_ptr (arrays S a) + idx i * kind_size k;
         old = ReadUnaligned L (bmem S) at (kind_size k)
     in Inr (Inr (call_result ops k num c old),
          S\<lparr>bengine := E, bmem := (if writes c then WriteUnaligned L (bmem S) at (kind_size k)
               (new_bits k (\<lambda>v. ival (num v)) c old) else bmem S)\<rparr>))"
proof -
  let ?i = "arrays S a" let ?k = "a_kind ?i" let ?p = "data_ptr ?i"
  note sel = plain_sel [OF p]
  have big: "is_big ?k \<Longrightarrow> kind_size ?k = 8" by (auto simp: is_big_def)
  have kw: "kRead \<noteq> kWrite" by simp
  have valid: "(writes c \<or> m = kRead) \<Longrightarrow> ValidateIntegerTypedArray ops (TypedArray a) sh m S = Inr (Inr (Valid a ?k ?p), S)" for sh m
    using v w k by (auto simp: ValidateIntegerTypedArray_def Let_def sel returnJ_def)
  have acc: "ValidateAtomicAccess ops a i S = Inr (Inr (idx i), S)"
    using v i by (simp add: ValidateAtomicAccess_def sel bindJ_def returnJ_def)
  have check: "check_index ops a (idx i) e T = Inr (Inr (), T)" if "arrays T = arrays S" for e T
    using v i that by (simp add: check_index_def sel returnJ_def)
  have hook: "call_hook ops cfg f a (idx i) S = Inr (Inr (), S\<lparr>bengine := E\<rparr>)" if "hook_of ?k c = Some f" for f
    using E that by (simp add: call_hook_def Let_def sel returnJ_def)
  have none: "S\<lparr>bengine := E\<rparr> = S" if "hook_of ?k c = None" using E that by simp
  have upd: "atomic_update L a ?p (idx i) (kind_size ?k) f T =
      Inr (Inr (ReadUnaligned L (bmem S) (?p + idx i * kind_size ?k) (kind_size ?k)),
        T\<lparr>bmem := WriteUnaligned L (bmem S) (?p + idx i * kind_size ?k) (kind_size ?k)
          (f (ReadUnaligned L (bmem S) (?p + idx i * kind_size ?k) (kind_size ?k)))\<rparr>)"
    and load: "atomic_load L a ?p (idx i) (kind_size ?k) T =
      Inr (Inr (ReadUnaligned L (bmem S) (?p + idx i * kind_size ?k) (kind_size ?k)), T)"
    if "arrays T = arrays S" "bmem T = bmem S" for f T
    using v i that by (simp_all add: atomic_update_def atomic_load_def accessible_def Let_def returnJ_def)
  note steps = valid acc check upd load returnJ_def bindJ_def sel(4-8) raw_bits_def Let_def big writes_def hook
  show ?thesis
  proof (cases "is_big ?k")
    case True
    note u = upd [unfolded big [OF True]] load [unfolded big [OF True]]
    from True k E v w show ?thesis
      by (cases c) (simp_all add: AtomicsLoad_def AtomicsStore_def AtomicsExchange_def
          AtomicsCompareExchange_def AtomicsBinop_def AtomicBinopBuiltinCommon_def steps u none)
  next
    case False
    from False k E v w show ?thesis
      by (cases c) (simp_all add: AtomicsLoad_def AtomicsStore_def AtomicsExchange_def
          AtomicsCompareExchange_def AtomicsBinop_def AtomicBinopBuiltinCommon_def steps none)
  qed
qed

text \<open>The integer of the element's type that \<open>x\<close> is converted to, and the element after a call.\<close>

definition wrap :: "elements_kind \<Rightarrow> int \<Rightarrow> int" where
  "wrap k x = (let w = 8 * kind_size k in
     if signed_kind k then signed_take_bit (w - 1) x else take_bit w x)"

fun int_op :: "binop \<Rightarrow> int \<Rightarrow> int \<Rightarrow> int" where
  "int_op OpAdd x y = x + y"
| "int_op OpSub x y = x - y"
| "int_op OpAnd x y = x AND y"
| "int_op OpOr x y = x OR y"
| "int_op OpXor x y = x XOR y"

fun new_value :: "elements_kind \<Rightarrow> ('v \<Rightarrow> int) \<Rightarrow> 'v atomics_call \<Rightarrow> int \<Rightarrow> int" where
  "new_value k val CallLoad x = x"
| "new_value k val (CallStore v) x = wrap k (val v)"
| "new_value k val (CallExchange v) x = wrap k (val v)"
| "new_value k val (CallCompareExchange v u) x = (if x = wrap k (val v) then wrap k (val u) else x)"
| "new_value k val (CallBinop op v) x = wrap k (int_op op x (val v))"

definition bits :: "elements_kind \<Rightarrow> nat" where
  "bits k = 8 * kind_size k"

lemma kind_bits: "1 \<le> kind_size k" "bits k \<le> 64" "\<not> is_big k \<and> valid_atomics_kind k \<Longrightarrow> bits k \<le> 32"
  "256 ^ kind_size k = (2 :: nat) ^ bits k"
  by (cases k; simp add: bits_def is_big_def valid_atomics_kind_def)+

lemma wrap_cong: "take_bit (bits k) x = take_bit (bits k) y \<Longrightarrow> wrap k x = wrap k y"
proof -
  assume "take_bit (bits k) x = take_bit (bits k) y"
  then have "take_bit (Suc (bits k - 1)) x = take_bit (Suc (bits k - 1)) y"
    using kind_bits(1) [of k] by (simp add: bits_def)
  then have "signed_take_bit (bits k - 1) x = signed_take_bit (bits k - 1) y"
    by (simp add: signed_take_bit_eq_iff_take_bit_eq)
  with \<open>take_bit (bits k) x = take_bit (bits k) y\<close> show ?thesis
    by (simp add: wrap_def bits_def Let_def)
qed

lemma take_wrap: "take_bit (bits k) (wrap k x) = take_bit (bits k) x"
  using kind_bits(1) [of k] by (auto simp: wrap_def bits_def Let_def take_bit_signed_take_bit)

lemma wrap_eq_iff: "wrap k x = wrap k y \<longleftrightarrow> take_bit (bits k) x = take_bit (bits k) y"
  using wrap_cong take_wrap by metis

lemma element_wrap: "element_int k n = wrap k (int n)"
  by (simp add: element_int_def wrap_def)

lemma take_raw: "valid_atomics_kind k \<Longrightarrow> take_bit (bits k) (int (raw_bits k x)) = take_bit (bits k) x"
  using kind_bits(2,3) [of k]
  by (simp add: raw_bits_def unsigned_of_int take_bit_take_bit min_def flip: uint_nat)

lemma take_op:
  assumes "b \<le> 64" and "take_bit b y = take_bit b (int v)"
  shows "take_bit b (int (binop64 op v n)) = take_bit b (int_op op (int n) y)"
proof -
  have mn: "min b 64 = b" using assms(1) by simp
  have t: "take_bit b (take_bit 64 x) = take_bit b x" for x :: int
    by (simp add: take_bit_take_bit mn)
  have u: "uint (word_of_nat m :: u64) = take_bit 64 (int m)" for m
    by (simp add: unsigned_of_nat of_nat_take_bit)
  have s: "uint (x + y) = take_bit 64 (uint x + uint y)" "uint (x - y) = take_bit 64 (uint x - uint y)"
    for x y :: u64 by (simp_all add: uint_word_ariths take_bit_eq_mod)
  have r: "take_bit b (take_bit 64 x + take_bit 64 z) = take_bit b (x + z)"
    "take_bit b (take_bit 64 x - take_bit 64 z) = take_bit b (x - z)" for x z :: int
    by (metis t take_bit_add) (metis t take_bit_diff)
  show ?thesis
  proof (cases op)
    case OpAdd
    then have "take_bit b (int (binop64 op v n)) = take_bit b (int n + int v)"
      by (simp add: binop64_def Let_def s u mn r flip: uint_nat)
    then show ?thesis using assms(2) OpAdd by (metis int_op.simps(1) take_bit_add)
  next
    case OpSub
    then have "take_bit b (int (binop64 op v n)) = take_bit b (int n - int v)"
      by (simp add: binop64_def Let_def s u mn r flip: uint_nat)
    then show ?thesis using assms(2) OpSub by (metis int_op.simps(2) take_bit_diff)
  next
    case OpAnd
    have "int (binop64 op v n) = uint (word_of_nat n :: u64) AND uint (word_of_nat v :: u64)"
      unfolding binop64_def Let_def OpAnd binop.case uint_nat [symmetric] by (rule uint_and)
    then show ?thesis by (simp add: OpAnd u mn assms(2))
  next
    case OpOr
    have "int (binop64 op v n) = uint (word_of_nat n :: u64) OR uint (word_of_nat v :: u64)"
      unfolding binop64_def Let_def OpOr binop.case uint_nat [symmetric] by (rule uint_or)
    then show ?thesis by (simp add: OpOr u mn assms(2))
  next
    case OpXor
    have "int (binop64 op v n) = uint (word_of_nat n :: u64) XOR uint (word_of_nat v :: u64)"
      unfolding binop64_def Let_def OpXor binop.case uint_nat [symmetric] by (rule uint_xor)
    then show ?thesis by (simp add: OpXor u mn assms(2))
  qed
qed

lemma new_bits_value:
  assumes "valid_atomics_kind k" and "old < 256 ^ kind_size k"
  shows "element_int k (new_bits k val c old mod 256 ^ kind_size k) = new_value k val c (element_int k old)"
proof -
  have m: "take_bit (bits k) (int (n mod 256 ^ kind_size k)) = take_bit (bits k) (int n)" for n
    by (simp add: kind_bits(4) take_bit_eq_mod zmod_int)
  have store: "element_int k (raw_bits k x mod 256 ^ kind_size k) = wrap k x" for x
    unfolding element_wrap wrap_eq_iff m by (rule take_raw [OF assms(1)])
  have old: "old mod 256 ^ kind_size k = old" using assms(2) by simp
  show ?thesis
  proof (cases c)
    case (CallCompareExchange v u)
    have full: "take_bit (bits k) (int old) = int old"
      using assms(2) by (simp add: kind_bits(4) flip: of_nat_take_bit) (simp add: take_bit_eq_mod)
    have "old = raw_bits k (val v) mod 256 ^ kind_size k \<longleftrightarrow> int old = int (take_bit (bits k) (raw_bits k (val v)))"
      by (simp only: kind_bits(4) take_bit_eq_mod of_nat_eq_iff)
    also have "\<dots> \<longleftrightarrow> element_int k old = wrap k (val v)"
      unfolding element_wrap wrap_eq_iff of_nat_take_bit take_raw [OF assms(1)] full ..
    finally show ?thesis
      using store [of "val u"] old by (simp add: CallCompareExchange compare_and_set_def)
  next
    case (CallBinop op v)
    have "take_bit (bits k) (int (binop64 op (raw_bits k (val v)) old)) = take_bit (bits k) (int_op op (int old) (val v))"
      by (rule take_op [OF kind_bits(2)]) (simp add: take_raw assms(1))
    also have "\<dots> = take_bit (bits k) (int_op op (wrap k (int old)) (val v))"
      by (cases op; simp add: take_wrap) (metis take_wrap take_bit_add, metis take_wrap take_bit_diff)
    finally show ?thesis
      by (simp add: CallBinop element_wrap wrap_eq_iff m)
  qed (simp_all add: store old)
qed

text \<open>
  C32: what an \<open>Atomics\<close> call does to the element, for arguments whose conversion runs no JavaScript.
  A call on a valid index succeeds; it returns the integer that was in the element (a store, its
  argument) and leaves the sum, difference, bitwise combination, replacement or stored value,
  converted to the element's type with wrap-around, and a comparison is with the expected value so
  converted. No other byte of memory changes.
\<close>

theorem builtins_meet_spec:
  fixes idx :: "'v \<Rightarrow> nat"
  assumes "plain ops num ival idx" and "a_valid (arrays S a)" and "writes c \<longrightarrow> \<not> a_immutable (arrays S a)"
    and "valid_atomics_kind (a_kind (arrays S a))" and "idx i < a_length (arrays S a)"
    and "engine_ok (bengine S)" and "\<And>m E. engine_ok E \<Longrightarrow> engine_ok (call_error (tsan_env cfg) m E)"
  shows "let k = a_kind (arrays S a); w = kind_size k; at = data_ptr (arrays S a) + idx i * w;
             value = (\<lambda>M. element_int k (ReadUnaligned L M at w)); val = (\<lambda>v. ival (num v))
    in \<exists>S'. run_atomics ops L cfg (TypedArray a) i c S = Inr (Inr (case c of CallStore v \<Rightarrow> num v
         | _ \<Rightarrow> (if is_big k then bigint_of_int ops else number_of_int ops) (value (bmem S))), S')
     \<and> value (bmem S') = new_value k val c (value (bmem S))
     \<and> (\<forall>x. x < at \<or> at + w \<le> x \<longrightarrow> bmem S' x = bmem S x)"
proof -
  let ?k = "a_kind (arrays S a)"
  have "\<exists>E. case hook_of ?k c of None \<Rightarrow> E = bengine S
      | Some f \<Rightarrow> f (tsan_flag cfg) (tsan_env cfg) (typed_array.truncate (arrays S a)) (SmiTag ops (idx i)) (bengine S) = Inr E"
    using hook_returns [OF _ assms(6,7)] hooks_mem by (cases c) (auto, blast+)
  then obtain E where "case hook_of ?k c of None \<Rightarrow> E = bengine S
      | Some f \<Rightarrow> f (tsan_flag cfg) (tsan_env cfg) (typed_array.truncate (arrays S a)) (SmiTag ops (idx i)) (bengine S) = Inr E" ..
  note run = call_plain [OF assms(1-5) this, of L]
  have tag: "(if is_big ?k then bigint_of_int ops else number_of_int ops) (element_int ?k n) = tag_element ops ?k n" for n
    by (simp add: tag_element_def)
  have res: "call_result ops ?k num c n = (case c of CallStore v \<Rightarrow> num v | _ \<Rightarrow> tag_element ops ?k n)" for n
    by (cases c) simp_all
  have new: "element_int ?k (new_bits ?k (\<lambda>v. ival (num v)) c n mod 256 ^ kind_size ?k)
      = new_value ?k (\<lambda>v. ival (num v)) c (element_int ?k n)" if "n < 256 ^ kind_size ?k" for n
    by (rule new_bits_value [OF assms(4) that])
  have "\<not> writes c \<Longrightarrow> new_value ?k val c x = x" for val :: "'v \<Rightarrow> int" and x by (simp add: writes_def)
  then show ?thesis
    unfolding Let_def run tag res
    by (simp add: new [OF ReadUnaligned_less] write_outside)
qed

subsection \<open>What the detector is told\<close>

text \<open>A thread with an id, the detector installed and enabled, and no report pending.\<close>

definition traced :: "nat \<Rightarrow> engine \<Rightarrow> bool" where
  "traced t E \<longleftrightarrow> g_callbacks E = webtsan_callbacks \<and> enabled (fst (eng E)) \<and> t < kMaxThreads
     \<and> g_current_tsan_tid (snd (eng E)) = t \<and> \<not> g_race_detected (snd (eng E))"

definition acquired :: "nat \<Rightarrow> addr \<Rightarrow> WebTSan \<Rightarrow> WebTSan" where
  "acquired t x W = (case sync_clocks W x of None \<Rightarrow> W | Some c \<Rightarrow> join_thread t c W)"

lemma traced_hooks:
  assumes "traced t E" and "is_shared arr"
  shows "Runtime_WebTSanAtomicsLoad True env arr i E
       = Inr (E\<lparr>eng := (acquired t (element_address arr i) (fst (eng E)), snd (eng E))\<rparr>)"
    and "Runtime_WebTSanAtomicsStore True env arr i E
       = Inr (E\<lparr>eng := (publish t (element_address arr i) (fst (eng E)), snd (eng E))\<rparr>)"
    and "Runtime_WebTSanAtomicsRMW True env arr i E
       = Inr (E\<lparr>eng := (publish t (element_address arr i) (acquired t (element_address arr i) (fst (eng E))), snd (eng E))\<rparr>)"
proof -
  obtain W T where e: "eng E = (W, T)" by (cases "eng E")
  have t: "t \<noteq> UINT32_MAX" "t < kMaxThreads" "g_current_tsan_tid T = t" "enabled W" "\<not> g_race_detected T"
    and cb: "g_callbacks E = webtsan_callbacks"
    using assms(1) e by (auto simp: traced_def kMaxThreads_def UINT32_MAX_def)
  have none: "MaybeThrowRace env (E\<lparr>eng := (W', T)\<rparr>) = E\<lparr>eng := (W', T)\<rparr>" for W'
    using t(5) cb by (simp add: MaybeThrowRace_def webtsan_callbacks_def consume_race_cb_def)
  have tid: "GetTid E = t" using t(3) cb e by (simp add: GetTid_def webtsan_callbacks_def WebTSanGetCurrentTid_def)
  have a: "Acquire t x W = Inr (acquired t x W)" "enabled (acquired t x W) = enabled W" for x
    using t(2,4) by (auto simp: Acquire_def acquired_def index_tid_def join_thread_def split: option.split)
  have r: "enabled V \<Longrightarrow> Release t x V = Inr (publish t x V)" for x V
    using t(2) by (simp add: Release_def index_tid_def)
  note defs = cb tid e t(1,4) assms(2) webtsan_callbacks_def on_eng_def callE_def none a r
  show "Runtime_WebTSanAtomicsLoad True env arr i E
       = Inr (E\<lparr>eng := (acquired t (element_address arr i) (fst (eng E)), snd (eng E))\<rparr>)"
    by (simp add: Runtime_WebTSanAtomicsLoad_def OnAtomicsLoad_def defs)
  show "Runtime_WebTSanAtomicsStore True env arr i E
       = Inr (E\<lparr>eng := (publish t (element_address arr i) (fst (eng E)), snd (eng E))\<rparr>)"
    by (simp add: Runtime_WebTSanAtomicsStore_def OnAtomicsStore_def defs)
  show "Runtime_WebTSanAtomicsRMW True env arr i E
       = Inr (E\<lparr>eng := (publish t (element_address arr i) (acquired t (element_address arr i) (fst (eng E))), snd (eng E))\<rparr>)"
    by (simp add: Runtime_WebTSanAtomicsRMW_def OnAtomicsRMW_def defs)
qed

fun told :: "elements_kind \<Rightarrow> nat \<Rightarrow> addr \<Rightarrow> 'v atomics_call \<Rightarrow> WebTSan \<Rightarrow> WebTSan" where
  "told k t x CallLoad W = acquired t x W"
| "told k t x (CallStore v) W = (if is_big k then W else publish t x W)"
| "told k t x (CallExchange v) W = publish t x (acquired t x W)"
| "told k t x (CallCompareExchange v u) W = publish t x (acquired t x W)"
| "told k t x (CallBinop op v) W = W"

text \<open>
  C33: which \<open>Atomics\<close> calls on a shared array make happens-before edges. A load acquires, a store
  releases, an exchange and a compare-exchange (even one that fails) do both; but \<open>Atomics.add\<close>, \<open>sub\<close>,
  \<open>and\<close>, \<open>or\<close> and \<open>xor\<close> have no call of the detector and a store to an array of 64-bit integers leaves
  before it is made: the detector stays as it was, and what these calls order is reported as a race.
\<close>

theorem builtins_tell_detector:
  assumes "plain ops num ival idx" and "a_valid (arrays S a)" and "writes c \<longrightarrow> \<not> a_immutable (arrays S a)"
    and "valid_atomics_kind (a_kind (arrays S a))" and "idx i < a_length (arrays S a)"
    and "is_shared (arrays S a)" and "tsan_flag cfg" and "traced t (bengine S)"
  shows "\<exists>r S'. run_atomics ops L cfg (TypedArray a) i c S = Inr (Inr r, S')
     \<and> eng (bengine S') = (told (a_kind (arrays S a)) t
          (element_address (typed_array.truncate (arrays S a)) (SmiTag ops (idx i))) c (fst (eng (bengine S))),
          snd (eng (bengine S)))"
proof -
  let ?k = "a_kind (arrays S a)" and ?arr = "typed_array.truncate (arrays S a)"
  let ?x = "element_address ?arr (SmiTag ops (idx i))"
  let ?E = "(bengine S)\<lparr>eng := (told ?k t ?x c (fst (eng (bengine S))), snd (eng (bengine S)))\<rparr>"
  have "is_shared ?arr" using assms(6) by (simp add: typed_array.defs)
  note h = traced_hooks [OF assms(8) this, of "tsan_env cfg" "SmiTag ops (idx i)"]
  have "case hook_of ?k c of None \<Rightarrow> ?E = bengine S
      | Some f \<Rightarrow> f (tsan_flag cfg) (tsan_env cfg) ?arr (SmiTag ops (idx i)) (bengine S) = Inr ?E"
    using assms(7) by (cases c) (simp_all add: h)
  from call_plain [OF assms(1-5) this, of L] show ?thesis by (simp add: Let_def)
qed

text \<open>Four 32-bit elements, shared; \<open>2 ^ 32 - 1\<close> is added to the second, which holds 0.\<close>

definition quiet_js :: "int js_ops" where
  "quiet_js = demo_js\<lparr>ToIndex := (\<lambda>v S. Inr (Inr (Some (nat v)), S))\<rparr>"

lemma quiet_plain: "plain quiet_js id id nat"
  by (simp add: plain_def quiet_js_def demo_js_def returnJ_def)

lemma demo_hyps:
  "a_valid (arrays (demo_state True INT32_ELEMENTS) 0)" "\<not> a_immutable (arrays (demo_state True INT32_ELEMENTS) 0)"
  "valid_atomics_kind (a_kind (arrays (demo_state True INT32_ELEMENTS) 0))"
  "nat 1 < a_length (arrays (demo_state True INT32_ELEMENTS) 0)"
  "is_shared (arrays (demo_state True INT32_ELEMENTS) 0)" "tsan_flag demo_cfg"
  "\<And>m E. engine_ok E \<Longrightarrow> engine_ok (call_error (tsan_env demo_cfg) m E)"
  by (simp_all add: demo_state_def demo_array_def a_valid_def valid_atomics_kind_def demo_cfg_def
      plain_env_def engine_ok_def)

lemma zero_read: "ReadUnaligned demo_lib (\<lambda>_. 0) a 4 = 0"
  by (simp add: ReadUnaligned_def endian_def demo_lib_def numeral_eq_Suc upt_rec)

theorem builtins_meet_spec_witness:
  "\<exists>S'. run_atomics quiet_js demo_lib demo_cfg (TypedArray 0) 1 (CallBinop OpAdd 4294967295)
      (demo_state True INT32_ELEMENTS) = Inr (Inr 0, S')
    \<and> element_int INT32_ELEMENTS (ReadUnaligned demo_lib (bmem S') 4100 4) = - 1"
proof -
  have sel: "a_kind (arrays (demo_state True INT32_ELEMENTS) 0) = INT32_ELEMENTS"
    "data_ptr (arrays (demo_state True INT32_ELEMENTS) 0) = 4096" "bmem (demo_state True INT32_ELEMENTS) = (\<lambda>_. 0)"
    "number_of_int quiet_js = id" "\<not> is_big INT32_ELEMENTS"
    by (simp_all add: demo_state_def demo_array_def data_ptr_def quiet_js_def demo_js_def is_big_def)
  have z: "element_int INT32_ELEMENTS 0 = 0" by (simp add: element_int_def)
  have "writes (CallBinop OpAdd 4294967295) \<longrightarrow> \<not> a_immutable (arrays (demo_state True INT32_ELEMENTS) 0)"
    using demo_hyps(2) by blast
  from builtins_meet_spec [OF quiet_plain demo_hyps(1) this demo_hyps(3,4) demo_engine_ok demo_hyps(7), of demo_lib]
  obtain S' where "run_atomics quiet_js demo_lib demo_cfg (TypedArray 0) 1 (CallBinop OpAdd 4294967295)
      (demo_state True INT32_ELEMENTS) = Inr (Inr 0, S')"
    and "element_int INT32_ELEMENTS (ReadUnaligned demo_lib (bmem S') 4100 4) = wrap INT32_ELEMENTS 4294967295"
    unfolding Let_def sel by (auto simp: zero_read z sel)
  moreover have "wrap INT32_ELEMENTS 4294967295 = - 1"
    by (simp add: wrap_def signed_kind_def)
  ultimately show ?thesis by auto
qed

lemma demo_traced: "traced 1 (bengine (demo_state sh k))"
  by (simp add: traced_def demo_state_def kMaxThreads_def two_threads_def one_thread_def init_tls_def)

text \<open>The same addition leaves the detector as it was.\<close>

theorem builtins_tell_detector_witness:
  "\<exists>r S'. run_atomics quiet_js demo_lib demo_cfg (TypedArray 0) 1 (CallBinop OpAdd 5)
      (demo_state True INT32_ELEMENTS) = Inr (Inr r, S')
    \<and> fst (eng (bengine S')) = two_threads"
proof -
  have "writes (CallBinop OpAdd 5) \<longrightarrow> \<not> a_immutable (arrays (demo_state True INT32_ELEMENTS) 0)"
    using demo_hyps(2) by blast
  from builtins_tell_detector [OF quiet_plain demo_hyps(1) this demo_hyps(3,4,5,6) demo_traced, of demo_lib]
  obtain r S' where "run_atomics quiet_js demo_lib demo_cfg (TypedArray 0) 1 (CallBinop OpAdd 5)
      (demo_state True INT32_ELEMENTS) = Inr (Inr r, S')"
    and "eng (bengine S') = (fst (eng (bengine (demo_state True INT32_ELEMENTS))),
      snd (eng (bengine (demo_state True INT32_ELEMENTS))))" by auto
  then show ?thesis by (simp add: demo_state_def)
qed

subsection \<open>A load that acquires too early\<close>

text \<open>The same memory, seen by the thread with the thread-local state \<open>T\<close>.\<close>

definition as_thread :: "tls \<Rightarrow> js_state \<Rightarrow> js_state" where
  "as_thread T S = S\<lparr>bengine := (bengine S)\<lparr>eng := (fst (eng (bengine S)), T)\<rparr>\<rparr>"

text \<open>
  C34: \<open>Atomics.load\<close> acquires before it reads. If another thread's \<open>Atomics.store\<close> comes in between, the
  load returns the stored value but the reader's clock has not reached the writer's: a write the
  writer made before its store, which the load makes visible, races with the reader's next access.
\<close>

theorem load_acquires_too_early:
  fixes idx :: "'v \<Rightarrow> nat"
  assumes "plain ops num ival idx" and "a_valid (arrays S a)" and "\<not> a_immutable (arrays S a)"
    and "valid_atomics_kind (a_kind (arrays S a))" and "\<not> is_big (a_kind (arrays S a))"
    and "idx i < a_length (arrays S a)" and "is_shared (arrays S a)" and "tsan_flag cfg"
    and "eng (bengine S) = (W, Tt)" and "traced t (bengine S)"
    and "traced s (bengine (as_thread Ts S))" and "s \<noteq> t"
    and "Get (thread_clocks W t) s < Get (thread_clocks W s) s"
    and "Get (sync_clock W (element_address (typed_array.truncate (arrays S a)) (SmiTag ops (idx i)))) s
      < Get (thread_clocks W s) s"
  shows "let k = a_kind (arrays S a); at = data_ptr (arrays S a);
       acquire = (call_hook ops cfg Runtime_WebTSanAtomicsLoad a (idx i) :: ('v, unit) js);
       rd = (atomic_load L a at (idx i) (kind_size k) :: ('v, nat) js) in
     AtomicsLoad ops L cfg (TypedArray a) i S = bindJ acquire (\<lambda>_. bindJ rd (\<lambda>n. returnJ (tag_element ops k n))) S
     \<and> (\<exists>S1 S2 r n. acquire S = Inr (Inr (), S1)
         \<and> run_atomics ops L cfg (TypedArray a) i (CallStore v) (as_thread Ts S1) = Inr (Inr r, S2)
         \<and> rd (as_thread Tt S2) = Inr (Inr n, as_thread Tt S2) \<and> element_int k n = wrap k (ival (num v))
         \<and> racy (access_cell s True (thread_clocks W s)) t w (thread_clocks (fst (eng (bengine S2))) t))"
proof -
  let ?i = "arrays S a" let ?k = "a_kind ?i" and ?at = "data_ptr ?i" and ?arr = "typed_array.truncate ?i"
  let ?x = "element_address ?arr (SmiTag ops (idx i))"
  note sel = plain_sel [OF assms(1)]
  define S1 where "S1 = S\<lparr>bengine := (bengine S)\<lparr>eng := (acquired t ?x W, Tt)\<rparr>\<rparr>"
  have sh: "is_shared ?arr" using assms(7) by (simp add: typed_array.defs)
  have a1: "arrays (as_thread T S1) = arrays S" "bmem (as_thread T S1) = bmem S" for T
    by (simp_all add: as_thread_def S1_def)
  have hook: "call_hook ops cfg Runtime_WebTSanAtomicsLoad a (idx i) S = Inr (Inr (), S1)"
    using traced_hooks(1) [OF assms(10) sh] assms(8,9)
    by (simp add: call_hook_def Let_def sel returnJ_def S1_def)
  have "traced s (bengine (as_thread Ts S1))"
    using assms(9,11) by (simp add: traced_def as_thread_def S1_def acquired_def join_thread_def split: option.split)
  from traced_hooks(2) [OF this sh, of "tsan_env cfg" "SmiTag ops (idx i)"]
  have E: "case hook_of (a_kind (arrays (as_thread Ts S1) a)) (CallStore v) of
      None \<Rightarrow> bengine (as_thread Ts S1)\<lparr>eng := (publish s ?x (acquired t ?x W), Ts)\<rparr> = bengine (as_thread Ts S1)
    | Some f \<Rightarrow> f (tsan_flag cfg) (tsan_env cfg) (typed_array.truncate (arrays (as_thread Ts S1) a)) (SmiTag ops (idx i))
        (bengine (as_thread Ts S1)) = Inr (bengine (as_thread Ts S1)\<lparr>eng := (publish s ?x (acquired t ?x W), Ts)\<rparr>)"
    using assms(5,8) by (simp add: a1) (simp add: as_thread_def S1_def)
  obtain r S2 where store: "run_atomics ops L cfg (TypedArray a) i (CallStore v) (as_thread Ts S1) = Inr (Inr r, S2)"
    and S2: "arrays S2 = arrays S" "fst (eng (bengine S2)) = publish s ?x (acquired t ?x W)"
      "bmem S2 = WriteUnaligned L (bmem S) (?at + idx i * kind_size ?k) (kind_size ?k) (raw_bits ?k (ival (num v)))"
    using call_plain [OF assms(1) _ _ _ _ E, of L] assms(2-6) by (simp add: a1 Let_def writes_def)
  have read: "atomic_load L a ?at (idx i) (kind_size ?k) (as_thread Tt S2)
      = Inr (Inr (raw_bits ?k (ival (num v)) mod 256 ^ kind_size ?k), as_thread Tt S2)"
    using assms(2,6) S2 by (simp add: atomic_load_def accessible_def Let_def returnJ_def as_thread_def)
  have val: "element_int ?k (raw_bits ?k (ival (num v)) mod 256 ^ kind_size ?k) = wrap ?k (ival (num v))"
    using new_bits_value [OF assms(4), of 0 ival "CallStore (num v)"] by simp
  have "Get (thread_clocks (fst (eng (bengine S2))) t) s = Get (thread_clocks (acquired t ?x W) t) s"
    using assms(12) by (simp add: S2(2) publish_def tick_thread_def)
  also have "\<dots> < Get (thread_clocks W s) s"
    using assms(13,14) by (auto simp: acquired_def sync_clock_def join_thread_def split: option.split_asm option.split)
  finally have "racy (access_cell s True (thread_clocks W s)) t w (thread_clocks (fst (eng (bengine S2))) t)"
    using assms(12) by (simp add: racy_def access_cell_def)
  moreover have "AtomicsLoad ops L cfg (TypedArray a) i S = bindJ (call_hook ops cfg Runtime_WebTSanAtomicsLoad a (idx i))
      (\<lambda>_. bindJ (atomic_load L a ?at (idx i) (kind_size ?k)) (\<lambda>n. returnJ (tag_element ops ?k n))) S"
    using assms(2,4,6) by (simp add: AtomicsLoad_def Let_def bindJ_def ValidateIntegerTypedArray_def sel
        returnJ_def ValidateAtomicAccess_def check_index_def)
  ultimately show ?thesis using hook store read val unfolding Let_def by blast
qed

text \<open>Thread 1 loads the second element while thread 0 stores 7 in it.\<close>

theorem load_acquires_too_early_witness:
  "\<exists>S1 S2 r n. call_hook quiet_js demo_cfg Runtime_WebTSanAtomicsLoad 0 1 (demo_state True INT32_ELEMENTS) = Inr (Inr (), S1)
     \<and> run_atomics quiet_js demo_lib demo_cfg (TypedArray 0) 1 (CallStore 7)
         (as_thread (init_tls\<lparr>g_current_tsan_tid := 0\<rparr>) S1) = Inr (Inr r, S2)
     \<and> element_int INT32_ELEMENTS n = 7
     \<and> racy (access_cell 0 True (thread_clocks two_threads 0)) 1 False (thread_clocks (fst (eng (bengine S2))) 1)"
proof -
  let ?S = "demo_state True INT32_ELEMENTS" and ?T = "init_tls\<lparr>g_current_tsan_tid := 1\<rparr>"
  have e: "eng (bengine ?S) = (two_threads, ?T)" and k: "a_kind (arrays ?S 0) = INT32_ELEMENTS"
    by (simp_all add: demo_state_def demo_array_def)
  have b: "\<not> is_big (a_kind (arrays ?S 0))" by (simp add: k is_big_def)
  have t: "traced 0 (bengine (as_thread (init_tls\<lparr>g_current_tsan_tid := 0\<rparr>) ?S))"
    by (simp add: traced_def as_thread_def demo_state_def kMaxThreads_def two_threads_def one_thread_def init_tls_def)
  have c: "Get (thread_clocks two_threads 1) 0 < Get (thread_clocks two_threads 0) 0"
    "Get (sync_clock two_threads x) 0 < Get (thread_clocks two_threads 0) 0" for x
    by (simp_all add: two_threads_def one_thread_def new_WebTSan_def sync_clock_def)
  have w: "wrap INT32_ELEMENTS 7 = 7" by (simp add: wrap_def signed_kind_def)
  have n: "nat 1 = 1" "id 7 = (7 :: int)" "(0 :: nat) \<noteq> 1" by simp_all
  note load_acquires_too_early [OF quiet_plain demo_hyps(1,2,3) b demo_hyps(4,5,6) e demo_traced t n(3) c,
      of demo_lib 7 False, unfolded Let_def k n(1) n(2) w, THEN conjunct2]
  then show ?thesis by blast
qed

end
