(* ===== verification/Workers.thy ===== *)
theory Workers
  imports Init
begin

text \<open>
  Workers and messages: the life of a \<open>WorkerThread\<close> (\<open>worker_thread.cc\<close>) from its creation on the
  parent's thread to its shutdown on its own, with the detector's thread ids; and the messages between
  a worker and its parent (\<open>dedicated_worker.cc\<close>, \<open>dedicated_worker_messaging_proxy.cc\<close>,
  \<open>dedicated_worker_global_scope.cc\<close>, \<open>worker_global_scope.cc\<close>) or over a \<open>MessagePort\<close>
  (\<open>message_port.cc\<close>), with the edges they carry. Threads run tasks from queues; a run is a list of
  actions, one for each locked section or task. A failed \<open>CHECK\<close> or \<open>DCHECK\<close> is a failure.
\<close>

subsection \<open>State\<close>

type_synonym thread = nat
type_synonym wid = nat

datatype thread_state = NotStarted | Running | ReadyToShutdown
datatype termination_progress = NotRequested | Requested | Prepared | Performing
datatype exit_code =
  NotTerminated | GracefullyTerminated | SyncForciblyTerminated | AsyncForciblyTerminated

text \<open>How far the parent's call of \<open>Terminate\<close> has come, which runs beside the worker's thread.\<close>

datatype terminate_pc = NotCalled | WaitForRunners | BeforeLock | BeforePerform | Returned

record BlinkTransferableMessage =
  msg_data :: nat
  tsan_edge_id :: u64

datatype wtask =
    InitializeTask wid | PrepareTask wid | PerformTask wid
  | MessageToWorker wid BlinkTransferableMessage
  | MessageToParent wid BlinkTransferableMessage
  | PortMessage "wid option" BlinkTransferableMessage

record WorkerThread =
  parent :: "wid option" \<comment> \<open>\<open>None\<close>: created on the main thread\<close>
  backing_thread :: thread
  thread_state :: thread_state
  termination_progress :: termination_progress
  terminate_pc :: terminate_pc
  runners_initialized :: bool
  forcible_termination_task :: bool
  exit_code :: exit_code
  child_threads :: "wid set"
  num_child_threads :: nat
  debugger_task_counter :: nat
  pause_or_freeze_count :: nat
  nested_runner :: bool
  is_closing :: bool
  context_globals :: js_globals
  shutdown_signalled :: bool
  asked_to_terminate :: bool \<comment> \<open>from here on, the proxy on the parent's side\<close>
  was_script_evaluated :: bool
  queued_early_tasks :: "BlinkTransferableMessage list"
  has_worker_object :: bool

record process =
  web_tsan :: WebTSan
  tls_of :: "thread \<Rightarrow> tls"
  workers :: "wid \<rightharpoonup> WorkerThread"
  tasks :: "thread \<Rightarrow> wtask list"
  InitializingWorkerThreads :: "wid set"
  WorkerThreads :: "wid set"

definition main_thread :: thread where
  "main_thread = 0"

definition get_worker :: "wid \<Rightarrow> process \<Rightarrow> WorkerThread result" where
  "get_worker w P = (case workers P w of None \<Rightarrow> Inl BadPointer | Some r \<Rightarrow> Inr r)"

definition set_worker :: "wid \<Rightarrow> WorkerThread \<Rightarrow> process \<Rightarrow> process" where
  "set_worker w r P = P\<lparr>workers := (workers P)(w \<mapsto> r)\<rparr>"

definition check :: "bool \<Rightarrow> 'a \<Rightarrow> 'a result" where
  "check b x = (if b then Inr x else Inl CheckFailed)"

definition post_task :: "thread \<Rightarrow> wtask \<Rightarrow> process \<Rightarrow> process" where
  "post_task t k P = P\<lparr>tasks := (tasks P)(t := tasks P t @ [k])\<rparr>"

text \<open>The thread of an execution context: the main thread's, or a worker's.\<close>

definition context_thread :: "wid option \<Rightarrow> process \<Rightarrow> thread result" where
  "context_thread p P =
     (case p of
        None \<Rightarrow> Inr main_thread
      | Some p \<Rightarrow> bindE (get_worker p P) (\<lambda>q. Inr (backing_thread q)))"

text \<open>Code of the detector on a thread: its thread-local state is that thread's.\<close>

definition dstate_of :: "thread \<Rightarrow> process \<Rightarrow> dstate" where
  "dstate_of t P = (web_tsan P, tls_of P t)"

definition set_dstate :: "thread \<Rightarrow> dstate \<Rightarrow> process \<Rightarrow> process" where
  "set_dstate t D P = P\<lparr>web_tsan := fst D, tls_of := (tls_of P)(t := snd D)\<rparr>"

subsection \<open>The life of a worker thread\<close>

definition SetThreadState :: "thread_state \<Rightarrow> WorkerThread \<Rightarrow> WorkerThread result" where
  "SetThreadState next r =
     (case next of
        NotStarted \<Rightarrow> Inl CheckFailed
      | Running \<Rightarrow> check (thread_state r = NotStarted) (r\<lparr>thread_state := Running\<rparr>)
      | ReadyToShutdown \<Rightarrow> check (thread_state r = Running) (r\<lparr>thread_state := ReadyToShutdown\<rparr>))"

definition SetExitCode :: "exit_code \<Rightarrow> WorkerThread \<Rightarrow> WorkerThread result" where
  "SetExitCode c r = check (exit_code r = NotTerminated) (r\<lparr>exit_code := c\<rparr>)"

definition IsRequestedToTerminate :: "WorkerThread \<Rightarrow> bool" where
  "IsRequestedToTerminate r \<longleftrightarrow> termination_progress r \<noteq> NotRequested"

definition IsForciblyTerminated :: "WorkerThread \<Rightarrow> bool" where
  "IsForciblyTerminated r \<longleftrightarrow> exit_code r = SyncForciblyTerminated \<or> exit_code r = AsyncForciblyTerminated"

definition new_WorkerThread :: "wid option \<Rightarrow> thread \<Rightarrow> WorkerThread" where
  "new_WorkerThread p t =
     \<lparr>parent = p, backing_thread = t, thread_state = NotStarted, termination_progress = NotRequested,
      terminate_pc = NotCalled, runners_initialized = False, forcible_termination_task = False,
      exit_code = NotTerminated, child_threads = {}, num_child_threads = 0, debugger_task_counter = 0,
      pause_or_freeze_count = 0, nested_runner = False, is_closing = False, context_globals = Map.empty,
      shutdown_signalled = False, asked_to_terminate = False, was_script_evaluated = False,
      queued_early_tasks = [], has_worker_object = True\<rparr>"

text \<open>The registration with the parent, which refuses it once it is asked to terminate.\<close>

definition ChildThreadStartedOnWorkerThread :: "wid \<Rightarrow> WorkerThread \<Rightarrow> WorkerThread option result" where
  "ChildThreadStartedOnWorkerThread child q =
     (if termination_progress q \<noteq> NotRequested then Inr None
      else if thread_state q \<noteq> Running then Inl CheckFailed
      else
        let q1 = q\<lparr>child_threads := insert child (child_threads q), num_child_threads := num_child_threads q + 1\<rparr>
        in check (card (child_threads q1) = num_child_threads q1) (Some q1))"

definition ChildThreadStartedOnWorkerThreadLegacy :: "wid \<Rightarrow> WorkerThread \<Rightarrow> WorkerThread result" where
  "ChildThreadStartedOnWorkerThreadLegacy child q =
     (if thread_state q \<noteq> Running \<or> termination_progress q \<noteq> NotRequested then Inl CheckFailed
      else
        let q1 = q\<lparr>child_threads := insert child (child_threads q), num_child_threads := num_child_threads q + 1\<rparr>
        in check (card (child_threads q1) = num_child_threads q1) q1)"

definition Start :: "wid \<Rightarrow> process \<Rightarrow> process result" where
  "Start w P = bindE (get_worker w P) (\<lambda>r. Inr (post_task (backing_thread r) (InitializeTask w) P))"

text \<open>A worker made and started by its parent; nothing is started if the registration is refused.\<close>

definition CreateWorker :: "wid \<Rightarrow> wid option \<Rightarrow> thread \<Rightarrow> process \<Rightarrow> process result" where
  "CreateWorker w p t P =
     (let P1 = (set_worker w (new_WorkerThread p t) P)
                 \<lparr>InitializingWorkerThreads := insert w (InitializingWorkerThreads P)\<rparr>
      in case p of
           None \<Rightarrow> Start w P1
         | Some q \<Rightarrow>
             bindE (get_worker q P) (\<lambda>r.
             bindE (ChildThreadStartedOnWorkerThread w r) (\<lambda>reg.
               case reg of
                 None \<Rightarrow> Inr P
               | Some r1 \<Rightarrow> Start w (set_worker q r1 P1))))"

text \<open>\<open>Terminate\<close> on the parent's thread, cut where the worker's thread can run in between.\<close>

definition ScheduleToTerminateScriptExecution :: "WorkerThread \<Rightarrow> WorkerThread result" where
  "ScheduleToTerminateScriptExecution r =
     check (\<not> forcible_termination_task r) (r\<lparr>forcible_termination_task := True\<rparr>)"

definition TerminateRequest :: "wid \<Rightarrow> process \<Rightarrow> process result" where
  "TerminateRequest w P =
     bindE (get_worker w P) (\<lambda>r.
       if termination_progress r \<noteq> NotRequested then Inr P
       else bindE (ScheduleToTerminateScriptExecution
                     (r\<lparr>termination_progress := Requested, asked_to_terminate := True\<rparr>))
              (\<lambda>r. Inr (set_worker w (r\<lparr>terminate_pc := WaitForRunners\<rparr>) P)))"

definition TerminatePost :: "wid \<Rightarrow> process \<Rightarrow> process result" where
  "TerminatePost w P =
     bindE (get_worker w P) (\<lambda>r.
       if terminate_pc r = WaitForRunners \<and> runners_initialized r
       then Inr (post_task (backing_thread r) (PrepareTask w) (set_worker w (r\<lparr>terminate_pc := BeforeLock\<rparr>) P))
       else Inr P)"

definition TerminateLocked :: "wid \<Rightarrow> process \<Rightarrow> process result" where
  "TerminateLocked w P =
     bindE (get_worker w P) (\<lambda>r.
       if terminate_pc r \<noteq> BeforeLock then Inr P
       else if termination_progress r \<noteq> Requested then Inl CheckFailed
       else if num_child_threads r = 0
       then Inr (set_worker w (r\<lparr>termination_progress := Performing, terminate_pc := BeforePerform\<rparr>) P)
       else Inr (set_worker w (r\<lparr>termination_progress := Prepared, terminate_pc := Returned\<rparr>) P))"

definition TerminatePerform :: "wid \<Rightarrow> process \<Rightarrow> process result" where
  "TerminatePerform w P =
     bindE (get_worker w P) (\<lambda>r.
       if terminate_pc r = BeforePerform
       then Inr (post_task (backing_thread r) (PerformTask w) (set_worker w (r\<lparr>terminate_pc := Returned\<rparr>) P))
       else Inr P)"

definition PrepareForShutdownOnWorkerThread :: "wid \<Rightarrow> process \<Rightarrow> process result" where
  "PrepareForShutdownOnWorkerThread w P =
     bindE (get_worker w P) (\<lambda>r.
       if thread_state r = ReadyToShutdown then Inr P
       else bindE (SetThreadState ReadyToShutdown r) (\<lambda>r.
         if pause_or_freeze_count r > 0
         then check (nested_runner r) (set_worker w (r\<lparr>pause_or_freeze_count := 0, nested_runner := False\<rparr>) P)
         else Inr (set_worker w r P)))"

text \<open>The part of the initialization that gives the thread its id and its global functions.\<close>

definition tsan_worker_created :: "thread \<Rightarrow> process \<Rightarrow> process result" where
  "tsan_worker_created t P =
     (if enabled (web_tsan P)
      then bindE (OnWorkerCreate (dstate_of t P)) (\<lambda>(tid, D).
             Inr (set_dstate t (WebTSanSetCurrentTid tid D) P))
      else Inr P)"

definition InitializeOnWorkerThread :: "wid \<Rightarrow> process \<Rightarrow> process result" where
  "InitializeOnWorkerThread w P =
     bindE (get_worker w P) (\<lambda>r.
       if thread_state r \<noteq> NotStarted then Inl CheckFailed
       else
         let t = backing_thread r in
         bindE (tsan_worker_created t P) (\<lambda>P.
           let g = (if enabled (web_tsan P) then InstallWebTSanGlobals (dstate_of t P) (context_globals r)
                    else context_globals r) in
           bindE (SetThreadState Running (r\<lparr>runners_initialized := True, context_globals := g\<rparr>)) (\<lambda>r.
             let P1 = set_worker w r P in
             if IsRequestedToTerminate r then PrepareForShutdownOnWorkerThread w P1
             else Inr (P1\<lparr>InitializingWorkerThreads := InitializingWorkerThreads P1 - {w},
                          WorkerThreads := insert w (WorkerThreads P1)\<rparr>))))"

definition tsan_worker_destroyed :: "thread \<Rightarrow> process \<Rightarrow> process result" where
  "tsan_worker_destroyed t P =
     (let tid = WebTSanGetCurrentTid (dstate_of t P) in
      if tid \<noteq> UINT32_MAX
      then bindE (OnWorkerDestroy tid (dstate_of t P)) (\<lambda>D.
             Inr (set_dstate t (WebTSanSetCurrentTid UINT32_MAX D) P))
      else Inr P)"

definition PerformShutdownOnWorkerThread :: "wid \<Rightarrow> process \<Rightarrow> process result" where
  "PerformShutdownOnWorkerThread w P =
     bindE (get_worker w P) (\<lambda>r.
     bindE (tsan_worker_destroyed (backing_thread r) P) (\<lambda>P.
       if termination_progress r \<noteq> Performing \<or> thread_state r \<noteq> ReadyToShutdown then Inl CheckFailed
       else bindE (if exit_code r = NotTerminated then SetExitCode GracefullyTerminated r else Inr r) (\<lambda>r.
         check (child_threads r = {}) (set_worker w (r\<lparr>shutdown_signalled := True\<rparr>) P))))"

definition ChildThreadTerminatedOnWorkerThread :: "wid \<Rightarrow> wid \<Rightarrow> process \<Rightarrow> process result" where
  "ChildThreadTerminatedOnWorkerThread w child P =
     bindE (get_worker w P) (\<lambda>r.
       let r1 = r\<lparr>child_threads := child_threads r - {child}, num_child_threads := num_child_threads r - 1\<rparr> in
       if card (child_threads r1) \<noteq> num_child_threads r1 then Inl CheckFailed
       else if num_child_threads r1 = 0 \<and> termination_progress r1 = Prepared
       then Inr (post_task (backing_thread r1) (PerformTask w)
                   (set_worker w (r1\<lparr>termination_progress := Performing\<rparr>) P))
       else Inr (set_worker w r1 P))"

text \<open>
  The notice of the shutdown on the parent's thread, and the destructor.
\<close>

definition WorkerThreadTerminated :: "wid \<Rightarrow> process \<Rightarrow> process result" where
  "WorkerThreadTerminated w P =
     bindE (get_worker w P) (\<lambda>r.
       if \<not> shutdown_signalled r then Inr P
       else bindE (case parent r of None \<Rightarrow> Inr P | Some p \<Rightarrow> ChildThreadTerminatedOnWorkerThread p w P) (\<lambda>P.
         if child_threads r \<noteq> {} \<or> exit_code r = NotTerminated then Inl CheckFailed
         else Inr (P\<lparr>workers := (workers P)(w := None),
                     InitializingWorkerThreads := InitializingWorkerThreads P - {w},
                     WorkerThreads := WorkerThreads P - {w}\<rparr>)))"

datatype termination_state = Terminate | PostponeTerminate | TerminationUnnecessary

definition ShouldTerminateScriptExecution :: "WorkerThread \<Rightarrow> termination_state" where
  "ShouldTerminateScriptExecution r =
     (case thread_state r of
        NotStarted \<Rightarrow> TerminationUnnecessary
      | Running \<Rightarrow> if debugger_task_counter r > 0 then PostponeTerminate else Terminate
      | ReadyToShutdown \<Rightarrow> if exit_code r = NotTerminated then Terminate else TerminationUnnecessary)"

text \<open>The delayed task on the parent's thread; once it runs its handle is inactive.\<close>

definition EnsureScriptExecutionTerminates :: "exit_code \<Rightarrow> WorkerThread \<Rightarrow> WorkerThread result" where
  "EnsureScriptExecutionTerminates code r =
     (case ShouldTerminateScriptExecution r of
        TerminationUnnecessary \<Rightarrow> Inr r
      | PostponeTerminate \<Rightarrow> ScheduleToTerminateScriptExecution r
      | Terminate \<Rightarrow> bindE (SetExitCode code r) (\<lambda>r. Inr (r\<lparr>forcible_termination_task := False\<rparr>)))"

definition ForcibleTermination :: "wid \<Rightarrow> process \<Rightarrow> process result" where
  "ForcibleTermination w P =
     bindE (get_worker w P) (\<lambda>r.
       if \<not> forcible_termination_task r then Inr P
       else bindE (EnsureScriptExecutionTerminates AsyncForciblyTerminated (r\<lparr>forcible_termination_task := False\<rparr>))
              (\<lambda>r. Inr (set_worker w r P)))"

definition DidProcessTask :: "wid \<Rightarrow> process \<Rightarrow> process result" where
  "DidProcessTask w P =
     bindE (get_worker w P) (\<lambda>r.
       if is_closing r then PrepareForShutdownOnWorkerThread w P
       else if IsForciblyTerminated r then PrepareForShutdownOnWorkerThread w P
       else Inr P)"

definition PauseOrFreezeOnWorkerThread :: "WorkerThread \<Rightarrow> WorkerThread" where
  "PauseOrFreezeOnWorkerThread r =
     (if thread_state r \<noteq> Running then r
      else
        let r1 = r\<lparr>pause_or_freeze_count := pause_or_freeze_count r + 1\<rparr>
        in if pause_or_freeze_count r1 > 1 then r1 else r1\<lparr>nested_runner := True\<rparr>)"

definition ResumeOnWorkerThread :: "WorkerThread \<Rightarrow> WorkerThread result" where
  "ResumeOnWorkerThread r =
     (if pause_or_freeze_count r > 0 then
        if \<not> nested_runner r then Inl CheckFailed
        else
          let r1 = r\<lparr>pause_or_freeze_count := pause_or_freeze_count r - 1\<rparr>
          in Inr (if pause_or_freeze_count r1 = 0 then r1\<lparr>nested_runner := False\<rparr> else r1)
      else Inr r)"

subsection \<open>Messages\<close>

text \<open>
  Code of an execution context runs only while its thread does: after that its scheduler is gone, and
  the tasks still in its queue are dropped.
\<close>

definition running :: "wid \<Rightarrow> process \<Rightarrow> bool" where
  "running w P \<longleftrightarrow> (case workers P w of None \<Rightarrow> False | Some r \<Rightarrow> thread_state r = Running)"

definition runs_script :: "wid option \<Rightarrow> process \<Rightarrow> bool" where
  "runs_script p P \<longleftrightarrow> (case p of None \<Rightarrow> True | Some q \<Rightarrow> running q P)"

text \<open>Sending and receiving on a thread, as far as the detector goes.\<close>

definition send_edge :: "thread \<Rightarrow> process \<Rightarrow> (u64 \<times> process) result" where
  "send_edge t P =
     bindE (OnPostMessageSend (WebTSanGetCurrentTid (dstate_of t P)) (dstate_of t P))
       (\<lambda>(e, D). Inr (e, set_dstate t D P))"

definition receive_edge :: "thread \<Rightarrow> BlinkTransferableMessage \<Rightarrow> process \<Rightarrow> process result" where
  "receive_edge t m P =
     bindE (OnPostMessageReceive (WebTSanGetCurrentTid (dstate_of t P)) (tsan_edge_id m) (dstate_of t P))
       (\<lambda>D. Inr (set_dstate t D P))"

text \<open>From the parent to the worker; messages wait until the worker's script has been evaluated.\<close>

definition PostMessageToWorkerGlobalScope :: "wid \<Rightarrow> BlinkTransferableMessage \<Rightarrow> process \<Rightarrow> process result" where
  "PostMessageToWorkerGlobalScope w m P =
     bindE (get_worker w P) (\<lambda>r.
       if asked_to_terminate r then Inr P
       else if \<not> was_script_evaluated r
       then Inr (set_worker w (r\<lparr>queued_early_tasks := queued_early_tasks r @ [m]\<rparr>) P)
       else Inr (post_task (backing_thread r) (MessageToWorker w m) P))"

definition DedicatedWorker_postMessage :: "wid \<Rightarrow> nat \<Rightarrow> process \<Rightarrow> process result" where
  "DedicatedWorker_postMessage w data P =
     bindE (get_worker w P) (\<lambda>r.
     bindE (context_thread (parent r) P) (\<lambda>t.
     bindE (send_edge t P) (\<lambda>(e, P).
       PostMessageToWorkerGlobalScope w \<lparr>msg_data = data, tsan_edge_id = e\<rparr> P)))"

definition DidEvaluateScript :: "wid \<Rightarrow> process \<Rightarrow> process result" where
  "DidEvaluateScript w P =
     bindE (get_worker w P) (\<lambda>r.
       let P1 = set_worker w (r\<lparr>was_script_evaluated := True, queued_early_tasks := []\<rparr>) P
       in Inr (fold (\<lambda>m. post_task (backing_thread r) (MessageToWorker w m)) (queued_early_tasks r) P1))"


definition ReceiveMessage :: "wid \<Rightarrow> BlinkTransferableMessage \<Rightarrow> process \<Rightarrow> process result" where
  "ReceiveMessage w m P =
     (case workers P w of
        None \<Rightarrow> Inr P
      | Some r \<Rightarrow> if thread_state r = Running then receive_edge (backing_thread r) m P else Inr P)"

text \<open>From the worker to the parent.\<close>

definition DedicatedWorkerGlobalScope_postMessage :: "wid \<Rightarrow> nat \<Rightarrow> process \<Rightarrow> process result" where
  "DedicatedWorkerGlobalScope_postMessage w data P =
     bindE (get_worker w P) (\<lambda>r.
     bindE (send_edge (backing_thread r) P) (\<lambda>(e, P).
     bindE (context_thread (parent r) P) (\<lambda>t.
       Inr (post_task t (MessageToParent w \<lparr>msg_data = data, tsan_edge_id = e\<rparr>) P))))"

definition PostMessageToWorkerObject :: "wid \<Rightarrow> BlinkTransferableMessage \<Rightarrow> process \<Rightarrow> process result" where
  "PostMessageToWorkerObject w m P =
     (case workers P w of
        None \<Rightarrow> Inr P
      | Some r \<Rightarrow>
          if \<not> runs_script (parent r) P then Inr P
          else if \<not> has_worker_object r \<or> asked_to_terminate r then Inr P
          else bindE (context_thread (parent r) P) (\<lambda>t. receive_edge t m P))"

text \<open>Over a port of the context \<open>p\<close> whose other end belongs to the context \<open>p'\<close>.\<close>

definition MessagePort_postMessage :: "bool \<Rightarrow> wid option \<Rightarrow> wid option \<Rightarrow> nat \<Rightarrow> process \<Rightarrow> process result" where
  "MessagePort_postMessage is_entangled p p' data P =
     (if \<not> is_entangled then Inr P
      else bindE (context_thread p P) (\<lambda>t.
           bindE (send_edge t P) (\<lambda>(e, P).
           bindE (context_thread p' P) (\<lambda>t'.
             Inr (post_task t' (PortMessage p' \<lparr>msg_data = data, tsan_edge_id = e\<rparr>) P)))))"

definition DispatchMessageEvent :: "wid option \<Rightarrow> BlinkTransferableMessage \<Rightarrow> process \<Rightarrow> process result" where
  "DispatchMessageEvent p m P =
     (if \<not> runs_script p P then Inr P else bindE (context_thread p P) (\<lambda>t. receive_edge t m P))"

subsection \<open>Runs\<close>

definition run_task :: "thread \<Rightarrow> process \<Rightarrow> process result" where
  "run_task t P =
     (case tasks P t of
        [] \<Rightarrow> Inr P
      | k # ks \<Rightarrow>
          let P = P\<lparr>tasks := (tasks P)(t := ks)\<rparr> in
          (case k of
             InitializeTask w \<Rightarrow> InitializeOnWorkerThread w P
           | PrepareTask w \<Rightarrow> PrepareForShutdownOnWorkerThread w P
           | PerformTask w \<Rightarrow> PerformShutdownOnWorkerThread w P
           | MessageToWorker w m \<Rightarrow> ReceiveMessage w m P
           | MessageToParent w m \<Rightarrow> PostMessageToWorkerObject w m P
           | PortMessage p m \<Rightarrow> DispatchMessageEvent p m P))"

datatype action =
    Create wid "wid option" thread
  | RequestTermination wid | PostPrepare wid | LockedTermination wid | PostPerform wid
  | RunTask thread | TaskDone wid | CloseScope wid | FireForcible wid | Destroyed wid
  | DebuggerTaskStarted wid | DebuggerTaskFinished wid | PauseWorker wid | ResumeWorker wid
  | PostToWorker wid nat | ScriptEvaluated wid | PostToParent wid nat
  | PostToPort bool "wid option" "wid option" nat | ForgetObject wid

text \<open>
  When an action can happen: script of a worker runs only while its state is \<open>Running\<close>, and a new
  worker is an object of its own, which no worker and no task left in a queue refers to.
\<close>

fun task_worker :: "wtask \<Rightarrow> wid option" where
  "task_worker (InitializeTask w) = Some w"
| "task_worker (PrepareTask w) = Some w"
| "task_worker (PerformTask w) = Some w"
| "task_worker (MessageToWorker w m) = Some w"
| "task_worker (MessageToParent w m) = Some w"
| "task_worker (PortMessage p m) = p"

definition new_object :: "wid \<Rightarrow> process \<Rightarrow> bool" where
  "new_object w P \<longleftrightarrow> workers P w = None \<and> (\<forall>t. \<forall>k \<in> set (tasks P t). task_worker k \<noteq> Some w)"

fun can :: "action \<Rightarrow> process \<Rightarrow> bool" where
  "can (Create w p t) P \<longleftrightarrow> new_object w P \<and> runs_script p P"
| "can (RunTask t) P \<longleftrightarrow> True"
| "can (PostToWorker w n) P \<longleftrightarrow> (case workers P w of None \<Rightarrow> False | Some r \<Rightarrow> runs_script (parent r) P)"
| "can (PostToPort e p p' n) P \<longleftrightarrow> runs_script p P \<and> runs_script p' P"
| "can (PostToParent w n) P \<longleftrightarrow> running w P"
| "can (TaskDone w) P \<longleftrightarrow> running w P"
| "can (CloseScope w) P \<longleftrightarrow> running w P"
| "can (PauseWorker w) P \<longleftrightarrow> running w P"
| "can (ResumeWorker w) P \<longleftrightarrow> running w P"
| "can (DebuggerTaskStarted w) P \<longleftrightarrow> running w P"
| "can (RequestTermination w) P \<longleftrightarrow> workers P w \<noteq> None"
| "can (PostPrepare w) P \<longleftrightarrow> workers P w \<noteq> None"
| "can (LockedTermination w) P \<longleftrightarrow> workers P w \<noteq> None"
| "can (PostPerform w) P \<longleftrightarrow> workers P w \<noteq> None"
| "can (FireForcible w) P \<longleftrightarrow> workers P w \<noteq> None"
| "can (Destroyed w) P \<longleftrightarrow> workers P w \<noteq> None"
| "can (DebuggerTaskFinished w) P \<longleftrightarrow> workers P w \<noteq> None"
| "can (ScriptEvaluated w) P \<longleftrightarrow> workers P w \<noteq> None"
| "can (ForgetObject w) P \<longleftrightarrow> workers P w \<noteq> None"

definition modify :: "wid \<Rightarrow> (WorkerThread \<Rightarrow> WorkerThread) \<Rightarrow> process \<Rightarrow> process result" where
  "modify w f P = bindE (get_worker w P) (\<lambda>r. Inr (set_worker w (f r) P))"

fun act :: "action \<Rightarrow> process \<Rightarrow> process result" where
  "act (Create w p t) P = CreateWorker w p t P"
| "act (RequestTermination w) P = TerminateRequest w P"
| "act (PostPrepare w) P = TerminatePost w P"
| "act (LockedTermination w) P = TerminateLocked w P"
| "act (PostPerform w) P = TerminatePerform w P"
| "act (RunTask t) P = run_task t P"
| "act (TaskDone w) P = DidProcessTask w P"
| "act (CloseScope w) P = modify w (\<lambda>r. r\<lparr>is_closing := True\<rparr>) P"
| "act (FireForcible w) P = ForcibleTermination w P"
| "act (Destroyed w) P = WorkerThreadTerminated w P"
| "act (DebuggerTaskStarted w) P = modify w (\<lambda>r. r\<lparr>debugger_task_counter := debugger_task_counter r + 1\<rparr>) P"
| "act (DebuggerTaskFinished w) P = modify w (\<lambda>r. r\<lparr>debugger_task_counter := debugger_task_counter r - 1\<rparr>) P"
| "act (PauseWorker w) P = modify w PauseOrFreezeOnWorkerThread P"
| "act (ResumeWorker w) P = bindE (get_worker w P) (\<lambda>r. bindE (ResumeOnWorkerThread r) (\<lambda>r. Inr (set_worker w r P)))"
| "act (PostToWorker w n) P = DedicatedWorker_postMessage w n P"
| "act (ScriptEvaluated w) P = DidEvaluateScript w P"
| "act (PostToParent w n) P = DedicatedWorkerGlobalScope_postMessage w n P"
| "act (PostToPort e p p' n) P = MessagePort_postMessage e p p' n P"
| "act (ForgetObject w) P = modify w (\<lambda>r. r\<lparr>has_worker_object := False\<rparr>) P"

text \<open>
  The states a process reaches; \<open>dedicated\<close> if each worker owns its thread (worklets share theirs).
\<close>

fun own_thread :: "action \<Rightarrow> process \<Rightarrow> bool" where
  "own_thread (Create w p t) P \<longleftrightarrow>
     t \<noteq> main_thread \<and> (\<forall>v r. workers P v = Some r \<longrightarrow> backing_thread r \<noteq> t)"
| "own_thread a P \<longleftrightarrow> True"

inductive reaches :: "bool \<Rightarrow> process \<Rightarrow> action list \<Rightarrow> process \<Rightarrow> bool" for dedicated P where
  start: "reaches dedicated P [] P"
| step: "\<lbrakk>reaches dedicated P as Q; can a Q; dedicated \<longrightarrow> own_thread a Q; act a Q = Inr R\<rbrakk>
    \<Longrightarrow> reaches dedicated P (as @ [a]) R"

definition only_main :: "process \<Rightarrow> bool" where
  "only_main P \<longleftrightarrow> workers P = Map.empty \<and> (\<forall>t. tasks P t = [])"

end
