(* ===== verification/WorkersProps.thy ===== *)
theory WorkersProps
  imports Workers
begin

text \<open>
  Properties of workers and messages: no check of the shutdown fails in any interleaving of the parent
  and the worker; running workers have thread ids of their own; a message orders what its sender did
  before sending it; and what goes wrong when workers share a thread.
\<close>

subsection \<open>The stages of a worker\<close>

definition life :: "wid \<Rightarrow> thread \<Rightarrow> process \<Rightarrow> wtask list" where
  "life w t P = filter (\<lambda>k. k = InitializeTask w \<or> k = PrepareTask w \<or> k = PerformTask w) (tasks P t)"

text \<open>The tasks of its life still to come, in their order on its thread.\<close>

definition queue_of :: "wid \<Rightarrow> WorkerThread \<Rightarrow> bool \<Rightarrow> bool \<Rightarrow> wtask list" where
  "queue_of w r prep perf =
     (if thread_state r = NotStarted then [InitializeTask w] else [])
     @ (if prep then [PrepareTask w] else []) @ (if perf then [PerformTask w] else [])"

definition stage_ok :: "WorkerThread \<Rightarrow> bool \<Rightarrow> bool \<Rightarrow> bool" where
  "stage_ok r prep perf \<longleftrightarrow>
     (terminate_pc r = NotCalled \<longleftrightarrow> termination_progress r = NotRequested)
   \<and> (terminate_pc r = WaitForRunners \<or> terminate_pc r = BeforeLock \<longleftrightarrow> termination_progress r = Requested)
   \<and> (terminate_pc r = BeforePerform \<longrightarrow> termination_progress r = Performing \<and> \<not> perf \<and> \<not> shutdown_signalled r)
   \<and> (terminate_pc r = NotCalled \<or> terminate_pc r = WaitForRunners \<longrightarrow> \<not> prep)
   \<and> (terminate_pc r \<noteq> NotCalled \<and> terminate_pc r \<noteq> WaitForRunners \<and> thread_state r \<noteq> ReadyToShutdown \<longrightarrow> prep)
   \<and> (perf \<longrightarrow> terminate_pc r = Returned \<and> termination_progress r = Performing \<and> \<not> shutdown_signalled r)
   \<and> (termination_progress r = Performing \<longrightarrow> num_child_threads r = 0)
   \<and> (shutdown_signalled r \<longrightarrow> termination_progress r = Performing \<and> thread_state r = ReadyToShutdown
        \<and> exit_code r \<noteq> NotTerminated \<and> \<not> prep)
   \<and> (forcible_termination_task r \<and> thread_state r = Running \<longrightarrow> exit_code r = NotTerminated)
   \<and> (terminate_pc r = NotCalled \<longrightarrow> exit_code r = NotTerminated \<and> \<not> forcible_termination_task r)
   \<and> (thread_state r = NotStarted \<longrightarrow> exit_code r = NotTerminated)
   \<and> (pause_or_freeze_count r > 0 \<longrightarrow> nested_runner r)"

text \<open>Parents and children know each other, and a parent counts its children.\<close>

definition family_ok :: "process \<Rightarrow> wid \<Rightarrow> WorkerThread \<Rightarrow> bool" where
  "family_ok P w r \<longleftrightarrow> finite (child_threads r) \<and> num_child_threads r = card (child_threads r)
   \<and> (\<forall>c \<in> child_threads r. \<exists>q. workers P c = Some q \<and> parent q = Some w)
   \<and> (\<forall>p. parent r = Some p \<longrightarrow> (\<exists>q. workers P p = Some q \<and> w \<in> child_threads q))"

definition worker_ok :: "process \<Rightarrow> wid \<Rightarrow> WorkerThread \<Rightarrow> bool" where
  "worker_ok P w r \<longleftrightarrow>
     (\<exists>prep perf. life w (backing_thread r) P = queue_of w r prep perf \<and> stage_ok r prep perf)
   \<and> (\<forall>t. t \<noteq> backing_thread r \<longrightarrow> life w t P = []) \<and> family_ok P w r"

definition lives_ok :: "process \<Rightarrow> bool" where
  "lives_ok P \<longleftrightarrow> (\<forall>w. case workers P w of None \<Rightarrow> \<forall>t. life w t P = [] | Some r \<Rightarrow> worker_ok P w r)"

lemma lives_okD: "\<lbrakk>lives_ok P; workers P w = Some r\<rbrakk> \<Longrightarrow> worker_ok P w r"
  "\<lbrakk>lives_ok P; workers P w = None\<rbrakk> \<Longrightarrow> life w t P = []"
  unfolding lives_ok_def by (drule spec [where x = w], simp)+

lemma lives_okI:
  "\<lbrakk>\<And>w r. workers P w = Some r \<Longrightarrow> worker_ok P w r; \<And>w t. workers P w = None \<Longrightarrow> life w t P = []\<rbrakk> \<Longrightarrow> lives_ok P"
  by (simp add: lives_ok_def split: option.split)

lemma life_same: "tasks P' = tasks P \<Longrightarrow> life w t P' = life w t P"
  by (simp add: life_def)

lemma life_post [simp]: "life w t (post_task u k P) = (if t = u \<and> (k = InitializeTask w \<or> k = PrepareTask w \<or> k = PerformTask w)
    then life w t P @ [k] else life w t P)"
  by (simp add: life_def post_task_def)

lemma life_sets [simp]: "life w t (P\<lparr>InitializingWorkerThreads := A\<rparr>) = life w t P"
  "life w t (P\<lparr>WorkerThreads := A\<rparr>) = life w t P" "life w t (P\<lparr>workers := W\<rparr>) = life w t P"
  by (simp_all add: life_def)

lemma workers_post [simp]: "workers (post_task t k P) = workers P"
  by (simp add: post_task_def)

lemma life_set [simp]: "life w t (set_worker v r P) = life w t P" "life w t (set_dstate u D P) = life w t P"
  by (simp_all add: life_def set_worker_def set_dstate_def)

lemma workers_set [simp]: "workers (set_worker w r P) = (workers P)(w \<mapsto> r)"
  "workers (set_dstate u D P) = workers P"
  by (simp_all add: set_worker_def set_dstate_def)

lemma lives_same:
  assumes "lives_ok P" and "workers P' = workers P" and "\<And>w t. life w t P' = life w t P"
  shows "lives_ok P'"
  using assms(1) unfolding lives_ok_def worker_ok_def family_ok_def
  by (simp add: assms(2,3) cong: option.case_cong)

text \<open>A step of one worker that leaves its family alone.\<close>

lemma lives_update:
  assumes "lives_ok P" and "workers P w = Some r" and "workers P' = (workers P)(w \<mapsto> r')"
    and "parent r' = parent r" and "backing_thread r' = backing_thread r"
    and "child_threads r' = child_threads r" and "num_child_threads r' = num_child_threads r"
    and step: "\<And>prep perf. \<lbrakk>life w (backing_thread r) P = queue_of w r prep perf; stage_ok r prep perf\<rbrakk>
        \<Longrightarrow> \<exists>prep perf. life w (backing_thread r) P' = queue_of w r' prep perf \<and> stage_ok r' prep perf"
    and other: "\<And>v t. v \<noteq> w \<or> t \<noteq> backing_thread r \<Longrightarrow> life v t P' = life v t P"
  shows "lives_ok P'"
proof (rule lives_okI)
  have fam: "family_ok P v q \<Longrightarrow> family_ok P' v q" for v q
    using assms(2-6) unfolding family_ok_def by (auto; metis)
  fix v q assume v: "workers P' v = Some q"
  show "worker_ok P' v q"
  proof (cases "v = w")
    case True
    then have q: "q = r'" using v assms(3) by simp
    have ok: "worker_ok P w r" using lives_okD(1) [OF assms(1,2)] .
    then have "\<exists>prep perf. life w (backing_thread r) P' = queue_of w r' prep perf \<and> stage_ok r' prep perf"
      unfolding worker_ok_def using step by blast
    moreover have "family_ok P w r'" using ok assms(4,6,7) by (simp add: worker_ok_def family_ok_def)
    ultimately show ?thesis using ok True q assms(5) other fam by (simp add: worker_ok_def)
  next
    case False
    then have "workers P v = Some q" using v assms(3) by simp
    with lives_okD(1) [OF assms(1)] have "worker_ok P v q" by blast
    with False other fam show ?thesis by (simp add: worker_ok_def)
  qed
next
  fix v t assume "workers P' v = None"
  then have "v \<noteq> w" "workers P v = None" using assms(3) by (auto split: if_splits)
  with other lives_okD(2) [OF assms(1)] show "life v t P' = []" by simp
qed

subsection \<open>Every step keeps the stages\<close>

lemma get_worker_Inr [simp]: "workers P w = Some r \<Longrightarrow> get_worker w P = Inr r"
  by (simp add: get_worker_def)

text \<open>A step that sets one worker's record and posts nothing.\<close>

lemma lives_set:
  assumes "lives_ok P" and "workers P w = Some r"
    and "parent r' = parent r" and "backing_thread r' = backing_thread r"
    and "child_threads r' = child_threads r" and "num_child_threads r' = num_child_threads r"
    and "thread_state r' = thread_state r"
    and "\<And>prep perf. stage_ok r prep perf \<Longrightarrow> stage_ok r' prep perf"
  shows "lives_ok (set_worker w r' P)"
proof (rule lives_update [OF assms(1,2) _ assms(3-6)])
  fix prep perf assume "life w (backing_thread r) P = queue_of w r prep perf" "stage_ok r prep perf"
  then have "life w (backing_thread r) (set_worker w r' P) = queue_of w r' prep perf" "stage_ok r' prep perf"
    using assms(7,8) by (simp_all add: queue_of_def)
  then show "\<exists>prep perf. life w (backing_thread r) (set_worker w r' P) = queue_of w r' prep perf \<and> stage_ok r' prep perf"
    by blast
qed simp_all

definition kept :: "process result \<Rightarrow> bool" where
  "kept R \<longleftrightarrow> (\<exists>P. R = Inr P \<and> lives_ok P)"

lemma kept_Inr [simp]: "kept (Inr P) \<longleftrightarrow> lives_ok P"
  by (simp add: kept_def)

lemma stageD:
  assumes "stage_ok r prep perf"
  shows "terminate_pc r = NotCalled \<longleftrightarrow> termination_progress r = NotRequested"
    and "terminate_pc r = WaitForRunners \<or> terminate_pc r = BeforeLock \<longleftrightarrow> termination_progress r = Requested"
    and "pause_or_freeze_count r > 0 \<Longrightarrow> nested_runner r"
    and "forcible_termination_task r \<Longrightarrow> thread_state r = Running \<Longrightarrow> exit_code r = NotTerminated"
    and "terminate_pc r = NotCalled \<Longrightarrow> exit_code r = NotTerminated \<and> \<not> forcible_termination_task r"
  using assms by (simp_all add: stage_ok_def)

lemma some_stage: "\<lbrakk>lives_ok P; workers P w = Some r\<rbrakk> \<Longrightarrow>
    \<exists>prep perf. life w (backing_thread r) P = queue_of w r prep perf \<and> stage_ok r prep perf"
  using lives_okD(1) by (auto simp: worker_ok_def)

lemma keep_TerminateRequest:
  assumes "lives_ok P" and "workers P w = Some r"
  shows "kept (TerminateRequest w P)"
proof (cases "termination_progress r = NotRequested")
  case True
  obtain prep perf where "stage_ok r prep perf" using some_stage [OF assms] by blast
  with True have f: "\<not> forcible_termination_task r" using stageD by blast
  let ?r = "r\<lparr>termination_progress := Requested, asked_to_terminate := True,
      forcible_termination_task := True, terminate_pc := WaitForRunners\<rparr>"
  have "lives_ok (set_worker w ?r P)"
    by (rule lives_set [OF assms]) (use True in \<open>auto simp: stage_ok_def\<close>)
  with True f assms(2) show ?thesis
    by (simp add: TerminateRequest_def ScheduleToTerminateScriptExecution_def check_def)
qed (use assms in \<open>simp add: TerminateRequest_def\<close>)

lemma keep_TerminatePost:
  assumes "lives_ok P" and "workers P w = Some r"
  shows "kept (TerminatePost w P)"
proof (cases "terminate_pc r = WaitForRunners \<and> runners_initialized r")
  case True
  let ?r = "r\<lparr>terminate_pc := BeforeLock\<rparr>"
  have "lives_ok (post_task (backing_thread r) (PrepareTask w) (set_worker w ?r P))"
  proof (rule lives_update [OF assms, where r' = ?r])
    fix prep perf assume q: "life w (backing_thread r) P = queue_of w r prep perf" "stage_ok r prep perf"
    have "\<not> prep" "\<not> perf" using q(2) True by (auto simp: stage_ok_def)
    then have "life w (backing_thread r) (post_task (backing_thread r) (PrepareTask w) (set_worker w ?r P))
        = queue_of w ?r True perf" using q(1) by (simp add: queue_of_def)
    moreover have "stage_ok ?r True perf" using q(2) True by (auto simp: stage_ok_def)
    ultimately show "\<exists>prep perf. life w (backing_thread r) (post_task (backing_thread r) (PrepareTask w) (set_worker w ?r P))
        = queue_of w ?r prep perf \<and> stage_ok ?r prep perf" by blast
  qed auto
  with True assms(2) show ?thesis by (simp add: TerminatePost_def)
qed (use assms in \<open>auto simp: TerminatePost_def\<close>)

lemma keep_TerminateLocked:
  assumes "lives_ok P" and "workers P w = Some r"
  shows "kept (TerminateLocked w P)"
proof (cases "terminate_pc r = BeforeLock")
  case True
  obtain prep perf where s: "stage_ok r prep perf" using some_stage [OF assms] by blast
  then have t: "termination_progress r = Requested" using True by (simp add: stage_ok_def)
  have "lives_ok (set_worker w (r\<lparr>termination_progress := Performing, terminate_pc := BeforePerform\<rparr>) P)"
    if "num_child_threads r = 0"
    by (rule lives_set [OF assms]) (use True that in \<open>auto simp: stage_ok_def\<close>)
  moreover have "lives_ok (set_worker w (r\<lparr>termination_progress := Prepared, terminate_pc := Returned\<rparr>) P)"
    by (rule lives_set [OF assms]) (use True in \<open>auto simp: stage_ok_def\<close>)
  ultimately show ?thesis using True t assms(2) by (simp add: TerminateLocked_def)
qed (use assms in \<open>simp add: TerminateLocked_def\<close>)

lemma keep_TerminatePerform:
  assumes "lives_ok P" and "workers P w = Some r"
  shows "kept (TerminatePerform w P)"
proof (cases "terminate_pc r = BeforePerform")
  case True
  let ?r = "r\<lparr>terminate_pc := Returned\<rparr>"
  have "lives_ok (post_task (backing_thread r) (PerformTask w) (set_worker w ?r P))"
  proof (rule lives_update [OF assms, where r' = ?r])
    fix prep perf assume q: "life w (backing_thread r) P = queue_of w r prep perf" "stage_ok r prep perf"
    have "\<not> perf" using q(2) True by (auto simp: stage_ok_def)
    then have "life w (backing_thread r) (post_task (backing_thread r) (PerformTask w) (set_worker w ?r P))
        = queue_of w ?r prep True" using q(1) by (simp add: queue_of_def)
    moreover have "stage_ok ?r prep True" using q(2) True by (auto simp: stage_ok_def)
    ultimately show "\<exists>prep perf. life w (backing_thread r) (post_task (backing_thread r) (PerformTask w) (set_worker w ?r P))
        = queue_of w ?r prep perf \<and> stage_ok ?r prep perf" by blast
  qed auto
  with True assms(2) show ?thesis by (simp add: TerminatePerform_def)
qed (use assms in \<open>simp add: TerminatePerform_def\<close>)

lemma keep_set:
  assumes "lives_ok P" and "workers P w = Some r"
    and "parent r' = parent r" and "backing_thread r' = backing_thread r"
    and "child_threads r' = child_threads r" and "num_child_threads r' = num_child_threads r"
    and "thread_state r' = thread_state r" and "termination_progress r' = termination_progress r"
    and "terminate_pc r' = terminate_pc r" and "shutdown_signalled r' = shutdown_signalled r"
    and "exit_code r' = exit_code r" and "forcible_termination_task r' = forcible_termination_task r"
    and "pause_or_freeze_count r' > 0 \<Longrightarrow> pause_or_freeze_count r = 0 \<or> nested_runner r \<Longrightarrow> nested_runner r'"
  shows "lives_ok (set_worker w r' P)"
proof (rule lives_set [OF assms(1-7)])
  fix prep perf assume s: "stage_ok r prep perf"
  then have "pause_or_freeze_count r = 0 \<or> nested_runner r" using stageD(3) by auto
  with assms(13) have "pause_or_freeze_count r' > 0 \<longrightarrow> nested_runner r'" by blast
  with s show "stage_ok r' prep perf"
    unfolding stage_ok_def assms(6-12) by (elim conjE, intro conjI)
qed

lemma keep_modify:
  assumes "lives_ok P" and "workers P w = Some r"
  shows "kept (modify w (\<lambda>r. r\<lparr>is_closing := True\<rparr>) P)"
    and "kept (modify w (\<lambda>r. r\<lparr>has_worker_object := False\<rparr>) P)"
    and "kept (modify w (\<lambda>r. r\<lparr>debugger_task_counter := f (debugger_task_counter r)\<rparr>) P)"
    and "kept (modify w PauseOrFreezeOnWorkerThread P)"
  unfolding modify_def
  by (simp_all add: assms(2), (rule keep_set [OF assms];
      simp add: PauseOrFreezeOnWorkerThread_def Let_def split: if_splits)+)

lemma keep_Resume:
  assumes "lives_ok P" and "workers P w = Some r"
  shows "kept (bindE (get_worker w P) (\<lambda>r. bindE (ResumeOnWorkerThread r) (\<lambda>r. Inr (set_worker w r P))))"
proof -
  obtain prep perf where "stage_ok r prep perf" using some_stage [OF assms] by blast
  then have "ResumeOnWorkerThread r = Inr (if pause_or_freeze_count r = 0 then r
      else r\<lparr>pause_or_freeze_count := pause_or_freeze_count r - 1,
             nested_runner := (if pause_or_freeze_count r = 1 then False else nested_runner r)\<rparr>)"
    using stageD(3) by (auto simp: ResumeOnWorkerThread_def Let_def)
  then show ?thesis
    using assms(2) by (simp, intro conjI impI)
      (rule keep_set [OF assms]; auto split: if_splits)+
qed

lemma keep_Forcible:
  assumes "lives_ok P" and "workers P w = Some r"
  shows "kept (ForcibleTermination w P)"
proof (cases "forcible_termination_task r")
  case True
  obtain prep perf where s: "stage_ok r prep perf" using some_stage [OF assms] by blast
  let ?r = "r\<lparr>forcible_termination_task := False\<rparr>"
  have pc: "terminate_pc r \<noteq> NotCalled" using stageD(5) [OF s] True by blast
  have l1: "lives_ok (set_worker w ?r P)"
    by (rule lives_set [OF assms]) (auto simp: stage_ok_def)
  have l2: "lives_ok (set_worker w (?r\<lparr>forcible_termination_task := True\<rparr>) P)"
    by (rule lives_set [OF assms]) (use True in \<open>auto simp: stage_ok_def\<close>)
  have l3: "lives_ok (set_worker w (?r\<lparr>exit_code := AsyncForciblyTerminated, forcible_termination_task := False\<rparr>) P)"
    if "thread_state r \<noteq> NotStarted"
    by (rule lives_set [OF assms]) (use pc that in \<open>auto simp: stage_ok_def\<close>)
  note defs = ForcibleTermination_def EnsureScriptExecutionTerminates_def
        ShouldTerminateScriptExecution_def ScheduleToTerminateScriptExecution_def SetExitCode_def check_def
  show ?thesis
  proof (cases "thread_state r")
    case NotStarted
    then show ?thesis using True assms(2) l1 by (simp add: defs)
  next
    case Running
    then have "exit_code r = NotTerminated" using stageD(4) [OF s True] by blast
    then show ?thesis using Running True assms(2) l2 l3 by (simp add: defs)
  next
    case ReadyToShutdown
    then show ?thesis using True assms(2) l1 l3 by (simp add: defs)
  qed
qed (use assms in \<open>simp add: ForcibleTermination_def\<close>)

lemma keep_DidProcessTask:
  assumes "lives_ok P" and "workers P w = Some r" and "thread_state r = Running"
  shows "kept (DidProcessTask w P)"
proof -
  obtain prep perf where s: "stage_ok r prep perf" using some_stage [OF assms(1,2)] by blast
  let ?r = "r\<lparr>thread_state := ReadyToShutdown\<rparr>" let ?q = "?r\<lparr>pause_or_freeze_count := 0, nested_runner := False\<rparr>"
  have "lives_ok (set_worker w r' P)" if r': "r' = ?r \<or> r' = ?q" for r'
  proof (rule lives_update [OF assms(1,2)])
    fix prep perf assume q: "life w (backing_thread r) P = queue_of w r prep perf" "stage_ok r prep perf"
    have "stage_ok ?r prep perf" "stage_ok ?q prep perf" using q(2) assms(3) by (auto simp: stage_ok_def)
    moreover have "life w (backing_thread r) (set_worker w r' P) = queue_of w r' prep perf"
      using q(1) assms(3) r' by (auto simp: queue_of_def)
    ultimately show "\<exists>prep perf. life w (backing_thread r) (set_worker w r' P) = queue_of w r' prep perf \<and> stage_ok r' prep perf"
      using r' by blast
  qed (use r' in auto)
  then have "kept (PrepareForShutdownOnWorkerThread w P)"
    using assms(2,3) stageD(3) [OF s]
    by (simp add: PrepareForShutdownOnWorkerThread_def SetThreadState_def check_def)
  then show ?thesis using assms(1,2) by (simp add: DidProcessTask_def)
qed

subsection \<open>The tasks of a life\<close>

definition pop :: "thread \<Rightarrow> process \<Rightarrow> process" where
  "pop t P = P\<lparr>tasks := (tasks P)(t := tl (tasks P t))\<rparr>"

lemma pop_sel [simp]: "workers (pop t P) = workers P" "web_tsan (pop t P) = web_tsan P" "tls_of (pop t P) = tls_of P"
  by (simp_all add: pop_def)

definition about :: "wid \<Rightarrow> wtask \<Rightarrow> bool" where
  "about w k \<longleftrightarrow> k = InitializeTask w \<or> k = PrepareTask w \<or> k = PerformTask w"

lemma life_pop:
  assumes "tasks P t = k # ks"
  shows "life w u (pop t P) = (if u = t \<and> about w k then tl (life w u P) else life w u P)"
  using assms by (auto simp: life_def pop_def about_def)

lemma about_inj: "\<lbrakk>about w k; about v k\<rbrakk> \<Longrightarrow> v = w"
  by (auto simp: about_def)

text \<open>The task at the head of a thread's queue is the next of its worker's life.\<close>

lemma head_of_life:
  assumes "lives_ok P" and "tasks P t = k # ks" and "about w k"
  obtains r prep perf where "workers P w = Some r" and "backing_thread r = t"
    and "life w t P = queue_of w r prep perf" and "stage_ok r prep perf"
    and "queue_of w r prep perf = k # tl (queue_of w r prep perf)"
    and "worker_ok P w r"
proof -
  have l: "life w t P = k # tl (life w t P)" using assms(2,3) by (auto simp: life_def about_def)
  then have "workers P w \<noteq> None" using lives_okD(2) [OF assms(1)] by (metis list.distinct(1))
  then obtain r where r: "workers P w = Some r" by auto
  have ok: "worker_ok P w r" using lives_okD(1) [OF assms(1) r] .
  then have t: "backing_thread r = t" using l unfolding worker_ok_def by (metis list.distinct(1))
  with ok obtain prep perf where "life w t P = queue_of w r prep perf" "stage_ok r prep perf"
    by (auto simp: worker_ok_def)
  with that r t ok l show thesis by simp
qed

text \<open>The effect of such a task on the stages, for the state \<open>P'\<close> and the record \<open>r'\<close> it leaves.\<close>

lemma lives_task:
  assumes "lives_ok P" and "tasks P t = k # ks" and "about w k" and "workers P w = Some r"
    and "workers P' = (workers P)(w \<mapsto> r')" and "\<And>v u. life v u P' = life v u (pop t P)"
    and "parent r' = parent r" and "backing_thread r' = backing_thread r"
    and "child_threads r' = child_threads r" and "num_child_threads r' = num_child_threads r"
    and "\<And>prep perf. \<lbrakk>queue_of w r prep perf = k # tl (queue_of w r prep perf); stage_ok r prep perf\<rbrakk>
        \<Longrightarrow> \<exists>prep' perf'. tl (queue_of w r prep perf) = queue_of w r' prep' perf' \<and> stage_ok r' prep' perf'"
  shows "lives_ok P'"
proof -
  from head_of_life [OF assms(1-3)] obtain prep perf where
    t: "backing_thread r = t" "life w t P = k # tl (life w t P)" using assms(4) by (metis option.inject)
  show ?thesis
  proof (rule lives_update [OF assms(1,4,5,7-10)])
    fix prep perf assume q: "life w (backing_thread r) P = queue_of w r prep perf" "stage_ok r prep perf"
    then have "queue_of w r prep perf = k # tl (queue_of w r prep perf)" using t by simp
    from assms(11) [OF this q(2)] q(1) show "\<exists>prep perf. life w (backing_thread r) P' = queue_of w r' prep perf \<and> stage_ok r' prep perf"
      using t(1) assms(3,6) life_pop [OF assms(2)] by simp
  next
    fix v u assume "v \<noteq> w \<or> u \<noteq> backing_thread r"
    then show "life v u P' = life v u P"
      using assms(6) life_pop [OF assms(2)] about_inj [OF assms(3)] t(1) by auto
  qed
qed

lemma created_same: "tsan_worker_created t P = Inr Q \<Longrightarrow> workers Q = workers P \<and> tasks Q = tasks P"
  by (auto simp: tsan_worker_created_def set_dstate_def bindE_eq_Inr split: if_splits prod.splits)

lemma destroyed_same: "tsan_worker_destroyed t P = Inr Q \<Longrightarrow> workers Q = workers P \<and> tasks Q = tasks P"
  by (auto simp: tsan_worker_destroyed_def set_dstate_def bindE_eq_Inr Let_def split: if_splits prod.splits)

lemma edge_same:
  "send_edge t P = Inr (e, Q) \<Longrightarrow> workers Q = workers P \<and> tasks Q = tasks P"
  "receive_edge t m P = Inr Q \<Longrightarrow> workers Q = workers P \<and> tasks Q = tasks P"
  by (auto simp: send_edge_def receive_edge_def set_dstate_def bindE_eq_Inr split: if_splits prod.splits)

lemma keep_Prepare_task:
  assumes "lives_ok P" and "tasks P t = PrepareTask w # ks"
  shows "kept (PrepareForShutdownOnWorkerThread w (pop t P))"
proof -
  have a: "about w (PrepareTask w)" by (simp add: about_def)
  obtain r prep perf where r: "workers P w = Some r" "backing_thread r = t" "stage_ok r prep perf"
    and q: "queue_of w r prep perf = PrepareTask w # tl (queue_of w r prep perf)"
    using head_of_life [OF assms a] by metis
  have started: "thread_state r \<noteq> NotStarted" using q by (auto simp: queue_of_def)
  let ?r = "r\<lparr>thread_state := ReadyToShutdown\<rparr>" let ?q = "?r\<lparr>pause_or_freeze_count := 0, nested_runner := False\<rparr>"
  have "lives_ok P'" if r': "r' = ?r \<or> r' = ?q" and P': "workers P' = (workers P)(w \<mapsto> r')" "tasks P' = tasks (pop t P)" for r' P'
  proof (rule lives_task [OF assms a r(1) P'(1) life_same [OF P'(2)]])
    fix prep perf
    assume q: "queue_of w r prep perf = PrepareTask w # tl (queue_of w r prep perf)" and s: "stage_ok r prep perf"
    have "tl (queue_of w r prep perf) = queue_of w r' False perf" using q started r'
      by (auto simp: queue_of_def split: if_splits)
    moreover have "stage_ok ?r False perf" "stage_ok ?q False perf" using s started by (auto simp: stage_ok_def)
    ultimately show "\<exists>prep' perf'. tl (queue_of w r prep perf) = queue_of w r' prep' perf' \<and> stage_ok r' prep' perf'"
      using r' by blast
  qed (use r' in auto)
  note l = this
  show ?thesis
  proof (cases "thread_state r")
    case ReadyToShutdown
    then have "?r = r" by simp
    with l [of ?r "pop t P"] ReadyToShutdown r(1) show ?thesis
      by (simp add: PrepareForShutdownOnWorkerThread_def fun_upd_idem)
  next
    case Running
    have "lives_ok (set_worker w ?r (pop t P))" "lives_ok (set_worker w ?q (pop t P))"
      by (rule l; simp add: set_worker_def)+
    with Running r(1) stageD(3) [OF r(3)] show ?thesis
      by (simp add: PrepareForShutdownOnWorkerThread_def SetThreadState_def check_def)
  qed (use started in simp)
qed

lemma keep_Initialize_task:
  assumes "lives_ok P" and "tasks P t = InitializeTask w # ks"
    and "\<And>Q. workers Q = workers P \<Longrightarrow> tasks Q = tasks (pop t P) \<Longrightarrow> web_tsan Q = web_tsan P \<Longrightarrow> tls_of Q = tls_of P
      \<Longrightarrow> \<exists>R. tsan_worker_created t Q = Inr R"
  shows "kept (InitializeOnWorkerThread w (pop t P))"
proof -
  have a: "about w (InitializeTask w)" by (simp add: about_def)
  obtain r prep perf where r: "workers P w = Some r" "backing_thread r = t" "stage_ok r prep perf"
    and q: "queue_of w r prep perf = InitializeTask w # tl (queue_of w r prep perf)"
    using head_of_life [OF assms(1,2) a] by metis
  have ns: "thread_state r = NotStarted" using q by (auto simp: queue_of_def split: if_splits)
  obtain R where R: "tsan_worker_created t (pop t P) = Inr R"
    using assms(3) [of "pop t P"] by auto
  have same: "workers R = workers P" "tasks R = tasks (pop t P)" using created_same [OF R] by simp_all
  define g where "g = (if enabled (web_tsan R) then InstallWebTSanGlobals (dstate_of t R) (context_globals r)
      else context_globals r)"
  let ?r = "r\<lparr>runners_initialized := True, context_globals := g, thread_state := Running\<rparr>"
  let ?s = "?r\<lparr>thread_state := ReadyToShutdown\<rparr>" let ?z = "?s\<lparr>pause_or_freeze_count := 0, nested_runner := False\<rparr>"
  have l: "lives_ok P'" if r': "r' = ?r \<or> r' = ?s \<or> r' = ?z" and P': "workers P' = (workers P)(w \<mapsto> r')" "tasks P' = tasks (pop t P)" for r' P'
  proof (rule lives_task [OF assms(1,2) a r(1) P'(1) life_same [OF P'(2)]])
    fix prep perf
    assume q: "queue_of w r prep perf = InitializeTask w # tl (queue_of w r prep perf)" and s: "stage_ok r prep perf"
    have "tl (queue_of w r prep perf) = queue_of w r' prep perf" using ns r' by (auto simp: queue_of_def)
    moreover have "stage_ok ?r prep perf" "stage_ok ?s prep perf" "stage_ok ?z prep perf"
      using s ns by (auto simp: stage_ok_def)
    ultimately show "\<exists>prep' perf'. tl (queue_of w r prep perf) = queue_of w r' prep' perf' \<and> stage_ok r' prep' perf'"
      using r' by blast
  qed (use r' in auto)
  have p: "pause_or_freeze_count r > 0 \<Longrightarrow> nested_runner r" using stageD(3) [OF r(3)] .
  have 1: "lives_ok (set_worker w ?r R\<lparr>InitializingWorkerThreads := A, WorkerThreads := B\<rparr>)" for A B
    by (rule l [of ?r]) (simp_all add: set_worker_def same)
  have 2: "lives_ok (set_worker w ?s (set_worker w ?r R))" "lives_ok (set_worker w ?z (set_worker w ?r R))"
    by (rule l [of ?s] l [of ?z]; simp add: set_worker_def same)+
  show ?thesis
    using R r(1,2) ns p 1 2
    by (simp add: InitializeOnWorkerThread_def Let_def SetThreadState_def check_def
        PrepareForShutdownOnWorkerThread_def flip: g_def)
qed

lemma keep_Perform_task:
  assumes "lives_ok P" and "tasks P t = PerformTask w # ks"
    and "\<And>Q r. workers Q = workers P \<Longrightarrow> web_tsan Q = web_tsan P \<Longrightarrow> tls_of Q = tls_of P \<Longrightarrow>
      workers P w = Some r \<Longrightarrow> backing_thread r = t \<Longrightarrow> thread_state r = ReadyToShutdown \<Longrightarrow> \<not> shutdown_signalled r
      \<Longrightarrow> \<exists>R. tsan_worker_destroyed t Q = Inr R"
  shows "kept (PerformShutdownOnWorkerThread w (pop t P))"
proof -
  have a: "about w (PerformTask w)" by (simp add: about_def)
  obtain r prep perf where r: "workers P w = Some r" "backing_thread r = t" "stage_ok r prep perf" "worker_ok P w r"
    and q: "queue_of w r prep perf = PerformTask w # tl (queue_of w r prep perf)"
    using head_of_life [OF assms(1,2) a] by metis
  have st: "thread_state r \<noteq> NotStarted" "\<not> prep" "perf" using q by (auto simp: queue_of_def split: if_splits)
  then have ready: "thread_state r = ReadyToShutdown" "termination_progress r = Performing" "\<not> shutdown_signalled r"
    "num_child_threads r = 0" using r(3) by (auto simp: stage_ok_def)
  have "finite (child_threads r)" "card (child_threads r) = 0"
    using r(4) ready(4) by (simp_all add: worker_ok_def family_ok_def)
  then have none: "child_threads r = {}" by simp
  obtain R where R: "tsan_worker_destroyed t (pop t P) = Inr R"
    using assms(3) [of "pop t P" r] r ready by auto
  have same: "workers R = workers P" "tasks R = tasks (pop t P)" using destroyed_same [OF R] by simp_all
  define c where "c = (if exit_code r = NotTerminated then GracefullyTerminated else exit_code r)"
  let ?r = "r\<lparr>exit_code := c, shutdown_signalled := True\<rparr>"
  have c: "c \<noteq> NotTerminated" by (simp add: c_def)
  have "lives_ok (set_worker w ?r R)"
  proof (rule lives_task [OF assms(1,2) a r(1)])
    fix prep perf
    assume q: "queue_of w r prep perf = PerformTask w # tl (queue_of w r prep perf)" and s: "stage_ok r prep perf"
    have "\<not> prep" "perf" using q by (auto simp: queue_of_def split: if_splits)
    then have "tl (queue_of w r prep perf) = queue_of w ?r False False" "stage_ok ?r False False"
      using s ready c by (auto simp: queue_of_def stage_ok_def)
    then show "\<exists>prep' perf'. tl (queue_of w r prep perf) = queue_of w ?r prep' perf' \<and> stage_ok ?r prep' perf'" by blast
  qed (simp_all add: same life_same [OF same(2)])
  moreover have "r\<lparr>exit_code := exit_code r, shutdown_signalled := True\<rparr> = r\<lparr>shutdown_signalled := True\<rparr>" by simp
  ultimately show ?thesis
    using R r(1,2) ready none
    by (simp add: PerformShutdownOnWorkerThread_def SetExitCode_def check_def c_def split: if_split_asm)
qed

subsection \<open>Births and deaths\<close>

lemma stage_new: "stage_ok (new_WorkerThread p t) False False"
  by (simp add: stage_ok_def new_WorkerThread_def)

lemma new_sel: "parent (new_WorkerThread p t) = p" "backing_thread (new_WorkerThread p t) = t"
  "thread_state (new_WorkerThread p t) = NotStarted" "child_threads (new_WorkerThread p t) = {}"
  "num_child_threads (new_WorkerThread p t) = 0"
  by (simp_all add: new_WorkerThread_def)

lemma child_known: "\<lbrakk>lives_ok P; workers P p = Some q; c \<in> child_threads q\<rbrakk> \<Longrightarrow> workers P c \<noteq> None"
  using lives_okD(1) unfolding worker_ok_def family_ok_def by blast

lemma keep_Create:
  assumes "lives_ok P" and "workers P w = None" and "runs_script p P"
  shows "kept (CreateWorker w p t P)"
proof -
  let ?n = "new_WorkerThread p t"
  let ?P = "set_worker w ?n P\<lparr>InitializingWorkerThreads := insert w (InitializingWorkerThreads P)\<rparr>"
  have none: "life w u P = []" for u using lives_okD(2) [OF assms(1,2)] .
  have new: "worker_ok P' w ?n" if "\<And>v u. life v u P' = life v u (post_task t (InitializeTask w) P)"
    and "\<forall>q. p = Some q \<longrightarrow> (\<exists>r. workers P' q = Some r \<and> w \<in> child_threads r)" for P'
    using that none stage_new [of p t] unfolding worker_ok_def family_ok_def
    by (auto simp: new_sel queue_of_def intro!: exI [where x = False])
  show ?thesis
  proof (cases p)
    case None
    let ?Q = "post_task t (InitializeTask w) ?P"
    have life: "life v u ?Q = life v u (post_task t (InitializeTask w) P)" for v u
      by (simp add: life_def post_task_def set_worker_def)
    have "lives_ok ?Q"
    proof (rule lives_okI)
      fix v r assume v: "workers ?Q v = Some r"
      show "worker_ok ?Q v r"
      proof (cases "v = w")
        case True
        with v new [OF life] None show ?thesis by simp
      next
        case False
        with v have "worker_ok P v r" using lives_okD(1) [OF assms(1)] by simp
        moreover have "family_ok P v r \<Longrightarrow> family_ok ?Q v r"
          using assms(2) unfolding family_ok_def by auto
        ultimately show ?thesis using False by (auto simp: worker_ok_def life)
      qed
    next
      fix v u assume "workers ?Q v = None"
      then show "life v u ?Q = []"
        using lives_okD(2) [OF assms(1), of v u] by (auto split: if_splits simp: life)
    qed
    then show ?thesis by (simp add: CreateWorker_def Let_def None Start_def get_worker_def new_sel)
  next
    case (Some q)
    with assms(3) obtain r where r: "workers P q = Some r" "thread_state r = Running"
      by (auto simp: runs_script_def running_def split: option.splits)
    show ?thesis
    proof (cases "termination_progress r = NotRequested")
      case False
      with r Some assms(1) show ?thesis
        by (simp add: CreateWorker_def Let_def ChildThreadStartedOnWorkerThread_def)
    next
      case True
      let ?r = "r\<lparr>child_threads := insert w (child_threads r), num_child_threads := num_child_threads r + 1\<rparr>"
      let ?Q = "post_task t (InitializeTask w) (set_worker q ?r ?P)"
      have qw: "q \<noteq> w" using r assms(2) by auto
      have fresh: "w \<notin> child_threads r" using child_known [OF assms(1) r(1)] assms(2) by blast
      have okr: "worker_ok P q r" using lives_okD(1) [OF assms(1) r(1)] .
      then have fin: "finite (child_threads r)" "num_child_threads r = card (child_threads r)"
        by (simp_all add: worker_ok_def family_ok_def)
      have life: "life v u ?Q = life v u (post_task t (InitializeTask w) P)" for v u
        by (simp add: life_def post_task_def set_worker_def)
      have wk: "workers ?Q = (workers P)(w \<mapsto> ?n, q \<mapsto> ?r)" by simp
      have "lives_ok ?Q"
      proof (rule lives_okI)
        fix v x assume v: "workers ?Q v = Some x"
        show "worker_ok ?Q v x"
        proof (cases "v = w")
          case True
          with v qw new [OF life] Some show ?thesis by simp
        next
          case False
          define y where "y = (if v = q then r else x)"
          have y: "workers P v = Some y" using v False r(1) by (auto simp: y_def split: if_splits)
          have oky: "worker_ok P v y" using lives_okD(1) [OF assms(1) y] .
          have "v = q \<and> x = ?r \<and> y = r \<or> v \<noteq> q \<and> x = y"
            using v False by (cases "v = q") (simp_all add: y_def)
          moreover have "queue_of q ?r = queue_of q r" "stage_ok r a b \<Longrightarrow> stage_ok ?r a b" for a b
            using True by (auto simp: queue_of_def fun_eq_iff stage_ok_def)
          ultimately have same: "child_threads x = (if v = q then insert w (child_threads y) else child_threads y)"
            "num_child_threads x = (if v = q then num_child_threads y + 1 else num_child_threads y)"
            "parent x = parent y" "backing_thread x = backing_thread y" "queue_of v x = queue_of v y"
            "\<And>a b. stage_ok y a b \<Longrightarrow> stage_ok x a b"
            by auto
          have freshy: "w \<notin> child_threads y" using child_known [OF assms(1) y] assms(2) by blast
          have up: "\<exists>z'. workers ?Q c = Some z' \<and> parent z' = parent z \<and> child_threads z \<subseteq> child_threads z'"
            if "workers P c = Some z" for c z
            using that r(1) assms(2) qw by (cases "c = q") auto
          have "finite (child_threads x)" "num_child_threads x = card (child_threads x)"
            using oky freshy by (simp_all add: worker_ok_def family_ok_def same)
          moreover have "\<exists>z. workers ?Q c = Some z \<and> parent z = Some v" if "c \<in> child_threads x" for c
          proof (cases "c = w")
            case True
            with that freshy have "v = q" by (simp add: same split: if_splits)
            with True Some qw show ?thesis by (simp add: new_sel)
          next
            case False
            with that have "c \<in> child_threads y" by (simp add: same split: if_splits)
            then obtain z where "workers P c = Some z" "parent z = Some v"
              using oky unfolding worker_ok_def family_ok_def by blast
            with up show ?thesis by metis
          qed
          moreover have "\<exists>z. workers ?Q u = Some z \<and> v \<in> child_threads z" if "parent x = Some u" for u
          proof -
            from that have "parent y = Some u" by (simp add: same)
            then obtain z where "workers P u = Some z" "v \<in> child_threads z"
              using oky unfolding worker_ok_def family_ok_def by blast
            with up show ?thesis by blast
          qed
          ultimately have "family_ok ?Q v x" unfolding family_ok_def by blast
          with oky False same(6) show ?thesis by (auto simp: worker_ok_def life same(4,5))
        qed
      next
        fix v u assume "workers ?Q v = None"
        then show "life v u ?Q = []"
          using lives_okD(2) [OF assms(1), of v u] by (auto split: if_splits simp: life)
      qed
      then show ?thesis
        using r True fin fresh qw
        by (simp add: CreateWorker_def Let_def Some Start_def get_worker_def new_sel
            ChildThreadStartedOnWorkerThread_def check_def)
    qed
  qed
qed

text \<open>A dead worker has no task left and no children.\<close>

lemma dead:
  assumes "lives_ok P" and "workers P w = Some r" and "shutdown_signalled r"
  shows "life w t P = []" and "child_threads r = {}" and "exit_code r \<noteq> NotTerminated"
proof -
  have ok: "worker_ok P w r" using lives_okD(1) [OF assms(1,2)] .
  then obtain prep perf where q: "life w (backing_thread r) P = queue_of w r prep perf" "stage_ok r prep perf"
    by (auto simp: worker_ok_def)
  then have s: "\<not> prep" "\<not> perf" "thread_state r = ReadyToShutdown" "termination_progress r = Performing"
    "exit_code r \<noteq> NotTerminated" "num_child_threads r = 0"
    using assms(3) by (auto simp: stage_ok_def)
  with q have "life w (backing_thread r) P = []" by (simp add: queue_of_def)
  with ok show "life w t P = []" by (cases "t = backing_thread r") (simp_all add: worker_ok_def)
  have "finite (child_threads r)" "card (child_threads r) = 0"
    using ok s(6) by (simp_all add: worker_ok_def family_ok_def)
  then show "child_threads r = {}" by simp
  show "exit_code r \<noteq> NotTerminated" by (rule s)
qed

lemma remove_worker:
  assumes "lives_ok P" and "workers P w = Some r" and "shutdown_signalled r"
    and "\<And>v. v \<noteq> w \<Longrightarrow> workers Q v = (if parent r = Some v then Some (f v) else workers P v)"
    and "workers Q w = None"
    and "\<And>p q. \<lbrakk>parent r = Some p; workers P p = Some q\<rbrakk> \<Longrightarrow> parent (f p) = parent q
       \<and> backing_thread (f p) = backing_thread q \<and> child_threads (f p) = child_threads q - {w}
       \<and> num_child_threads (f p) = num_child_threads q - 1
       \<and> (\<forall>prep perf. life p (backing_thread q) P = queue_of p q prep perf \<and> stage_ok q prep perf \<longrightarrow>
           (\<exists>prep' perf'. life p (backing_thread q) Q = queue_of p (f p) prep' perf' \<and> stage_ok (f p) prep' perf'))"
    and "\<And>v u. \<not> (\<exists>q. parent r = Some v \<and> workers P v = Some q \<and> u = backing_thread q) \<Longrightarrow> life v u Q = life v u P"
  shows "lives_ok Q"
proof (rule lives_okI)
  note dw = dead [OF assms(1-3)]
  have okr: "worker_ok P w r" using lives_okD(1) [OF assms(1,2)] .
  fix v x assume x: "workers Q v = Some x"
  then have vw: "v \<noteq> w" using assms(5) by auto
  have "workers P v \<noteq> None"
    using x assms(4) [OF vw] okr unfolding worker_ok_def family_ok_def by (auto split: if_splits)
  then obtain y where y: "workers P v = Some y" by auto
  have oky: "worker_ok P v y" using lives_okD(1) [OF assms(1) y] .
  have up: "\<exists>z'. workers Q c = Some z' \<and> parent z' = parent z \<and> child_threads z - {w} \<subseteq> child_threads z'"
    if "workers P c = Some z" "c \<noteq> w" for c z
    using assms(4) [OF that(2)] assms(6) [of c z] that(1) by auto
  show "worker_ok Q v x"
  proof (cases "parent r = Some v")
    case True
    then have xf: "x = f v" using x assms(4) [OF vw] by simp
    note f = assms(6) [OF True y, folded xf]
    have mem: "w \<in> child_threads y" using okr True y unfolding worker_ok_def family_ok_def by auto
    have "\<forall>u. u \<noteq> backing_thread y \<longrightarrow> life v u Q = life v u P"
      using assms(7) y by simp
    moreover have "family_ok Q v x"
      unfolding family_ok_def
    proof (intro conjI ballI allI impI)
      show "finite (child_threads x)" "num_child_threads x = card (child_threads x)"
        using oky f mem by (simp_all add: worker_ok_def family_ok_def)
      fix c assume c: "c \<in> child_threads x"
      then obtain z where z: "workers P c = Some z" "parent z = Some v" "c \<noteq> w"
        using f oky unfolding worker_ok_def family_ok_def by auto
      show "\<exists>q. workers Q c = Some q \<and> parent q = Some v" using up [OF z(1,3)] z(2) by metis
    next
      fix p assume "parent x = Some p"
      then obtain z where z: "workers P p = Some z" "v \<in> child_threads z"
        using f oky unfolding worker_ok_def family_ok_def by auto
      then have "p \<noteq> w" using dw(2) assms(2) by auto
      from up [OF z(1) this] z(2) vw show "\<exists>q. workers Q p = Some q \<and> v \<in> child_threads q" by blast
    qed
    ultimately show ?thesis using oky f unfolding worker_ok_def by auto
  next
    case False
    then have xy: "x = y" using x assms(4) [OF vw] y by simp
    have "life v u Q = life v u P" for u using assms(7) False by blast
    moreover have "family_ok Q v y"
      unfolding family_ok_def
    proof (intro conjI ballI allI impI)
      show "finite (child_threads y)" "num_child_threads y = card (child_threads y)"
        using oky by (simp_all add: worker_ok_def family_ok_def)
      fix c assume "c \<in> child_threads y"
      then obtain z where z: "workers P c = Some z" "parent z = Some v"
        using oky unfolding worker_ok_def family_ok_def by auto
      then have "c \<noteq> w" using False assms(2) by auto
      with up [OF z(1)] z(2) show "\<exists>q. workers Q c = Some q \<and> parent q = Some v" by metis
    next
      fix p assume "parent y = Some p"
      then obtain z where z: "workers P p = Some z" "v \<in> child_threads z"
        using oky unfolding worker_ok_def family_ok_def by auto
      then have "p \<noteq> w" using dw(2) assms(2) by auto
      from up [OF z(1) this] z(2) vw show "\<exists>q. workers Q p = Some q \<and> v \<in> child_threads q" by blast
    qed
    ultimately show ?thesis using oky by (simp add: worker_ok_def xy)
  qed
next
  fix v u assume v: "workers Q v = None"
  show "life v u Q = []"
  proof (cases "v = w")
    case True
    have "parent r \<noteq> Some w"
      using lives_okD(1) [OF assms(1,2)] dead(2) [OF assms(1-3)] assms(2) unfolding worker_ok_def family_ok_def by auto
    with True assms(7) [of w u] dead(1) [OF assms(1-3)] show ?thesis by auto
  next
    case False
    with v assms(4) have "parent r \<noteq> Some v" "workers P v = None" by (auto split: if_splits)
    with assms(7) [of v u] lives_okD(2) [OF assms(1)] show ?thesis by auto
  qed
qed

lemma keep_Destroyed:
  assumes "lives_ok P" and "workers P w = Some r"
  shows "kept (WorkerThreadTerminated w P)"
proof (cases "shutdown_signalled r")
  case True
  note dw = dead [OF assms True]
  have okr: "worker_ok P w r" using lives_okD(1) [OF assms] .
  show ?thesis
  proof (cases "parent r")
    case None
    let ?Q = "P\<lparr>workers := (workers P)(w := None), InitializingWorkerThreads := InitializingWorkerThreads P - {w},
       WorkerThreads := WorkerThreads P - {w}\<rparr>"
    have "lives_ok ?Q"
      by (rule remove_worker [OF assms True, where f = "\<lambda>_. undefined"]) (simp_all add: None)
    then show ?thesis using True assms(2) dw by (simp add: WorkerThreadTerminated_def None)
  next
    case (Some p)
    then obtain q where q: "workers P p = Some q" "w \<in> child_threads q"
      using okr unfolding worker_ok_def family_ok_def by auto
    have pw: "p \<noteq> w" using q assms(2) dw(2) by auto
    have okq: "worker_ok P p q" using lives_okD(1) [OF assms(1) q(1)] .
    then have fin: "finite (child_threads q)" "num_child_threads q = card (child_threads q)"
      by (simp_all add: worker_ok_def family_ok_def)
    then have n: "card (child_threads q - {w}) = num_child_threads q - 1" using q(2) by simp
    let ?q = "q\<lparr>child_threads := child_threads q - {w}, num_child_threads := num_child_threads q - 1\<rparr>"
    define b where "b \<longleftrightarrow> num_child_threads ?q = 0 \<and> termination_progress ?q = Prepared"
    define x where "x = (if b then ?q\<lparr>termination_progress := Performing\<rparr> else ?q)"
    define P1 where "P1 = (if b then post_task (backing_thread q) (PerformTask p) (set_worker p x P) else set_worker p x P)"
    have run: "ChildThreadTerminatedOnWorkerThread p w P = Inr P1"
      using q(1) n by (simp add: ChildThreadTerminatedOnWorkerThread_def Let_def P1_def x_def b_def)
    let ?Q = "P1\<lparr>workers := (workers P1)(w := None), InitializingWorkerThreads := InitializingWorkerThreads P1 - {w},
       WorkerThreads := WorkerThreads P1 - {w}\<rparr>"
    have wk: "workers P1 = (workers P)(p \<mapsto> x)" by (simp add: P1_def)
    have life: "life v u ?Q = (if b \<and> v = p \<and> u = backing_thread q then life v u P @ [PerformTask p] else life v u P)" for v u
      by (simp add: P1_def)
    have "lives_ok ?Q"
    proof (rule remove_worker [OF assms True, where f = "\<lambda>_. x"])
      fix v y assume "parent r = Some v" "workers P v = Some y"
      then have v: "v = p" "y = q" using Some q(1) by auto
      have "\<exists>prep' perf'. life p (backing_thread q) ?Q = queue_of p x prep' perf' \<and> stage_ok x prep' perf'"
        if l: "life p (backing_thread q) P = queue_of p q prep perf" and s: "stage_ok q prep perf" for prep perf
      proof (cases b)
        case True
        then have t: "termination_progress q = Prepared" by (simp add: b_def)
        then have "\<not> perf" "terminate_pc q = Returned" "\<not> shutdown_signalled q"
          using s by (cases "terminate_pc q"; auto simp: stage_ok_def)+
        then have "queue_of p x prep True = queue_of p q prep perf @ [PerformTask p]" "stage_ok x prep True"
          using True s by (auto simp: queue_of_def x_def b_def stage_ok_def)
        then show ?thesis using l True by (metis life)
      next
        case False
        then have "queue_of p x prep perf = queue_of p q prep perf" "stage_ok x prep perf"
          using s by (auto simp: queue_of_def x_def stage_ok_def)
        then show ?thesis using l False life by metis
      qed
      moreover have "parent x = parent q" "backing_thread x = backing_thread q"
        "child_threads x = child_threads q - {w}" "num_child_threads x = num_child_threads q - 1"
        by (simp_all add: x_def)
      ultimately show "parent x = parent y \<and> backing_thread x = backing_thread y \<and> child_threads x = child_threads y - {w}
         \<and> num_child_threads x = num_child_threads y - 1
         \<and> (\<forall>prep perf. life v (backing_thread y) P = queue_of v y prep perf \<and> stage_ok y prep perf \<longrightarrow>
           (\<exists>prep' perf'. life v (backing_thread y) ?Q = queue_of v x prep' perf' \<and> stage_ok x prep' perf'))"
        unfolding v by blast
    next
      fix v u assume "\<not> (\<exists>z. parent r = Some v \<and> workers P v = Some z \<and> u = backing_thread z)"
      then show "life v u ?Q = life v u P" using Some q(1) life by auto
    qed (use Some pw in \<open>auto simp: wk\<close>)
    then show ?thesis using True assms(2) dw run Some by (simp add: WorkerThreadTerminated_def)
  qed
qed (use assms in \<open>simp add: WorkerThreadTerminated_def\<close>)

subsection \<open>Thread ids\<close>

definition tid_at :: "thread \<Rightarrow> process \<Rightarrow> nat" where
  "tid_at t P = g_current_tsan_tid (tls_of P t)"

text \<open>
  With the detector enabled and a thread for each worker: which threads have an id. A worker has one
  from its initialization to its shutdown.
\<close>

definition has_tid :: "WorkerThread \<Rightarrow> bool" where
  "has_tid r \<longleftrightarrow> thread_state r \<noteq> NotStarted \<and> \<not> shutdown_signalled r"

definition tids_ok :: "process \<Rightarrow> bool" where
  "tids_ok P \<longleftrightarrow> enabled (web_tsan P) \<and> next_tid (web_tsan P) < kMaxThreads \<and> tid_at main_thread P < kMaxThreads
   \<and> (\<forall>w r. workers P w = Some r \<longrightarrow> backing_thread r \<noteq> main_thread
        \<and> (\<forall>v q. workers P v = Some q \<and> backing_thread q = backing_thread r \<longrightarrow> v = w)
        \<and> (if has_tid r then tid_at (backing_thread r) P < kMaxThreads
           else tid_at (backing_thread r) P = UINT32_MAX))
   \<and> (\<forall>t. t \<noteq> main_thread \<and> (\<forall>w r. workers P w = Some r \<longrightarrow> backing_thread r \<noteq> t) \<longrightarrow> tid_at t P = UINT32_MAX)"

lemma tids_okD:
  assumes "tids_ok P"
  shows "enabled (web_tsan P)" and "next_tid (web_tsan P) < kMaxThreads" and "tid_at main_thread P < kMaxThreads"
    and "workers P w = Some r \<Longrightarrow> backing_thread r \<noteq> main_thread"
    and "\<lbrakk>workers P w = Some r; workers P v = Some q; backing_thread q = backing_thread r\<rbrakk> \<Longrightarrow> v = w"
    and "\<lbrakk>workers P w = Some r; has_tid r\<rbrakk> \<Longrightarrow> tid_at (backing_thread r) P < kMaxThreads"
    and "\<lbrakk>workers P w = Some r; \<not> has_tid r\<rbrakk> \<Longrightarrow> tid_at (backing_thread r) P = UINT32_MAX"
    and "\<lbrakk>t \<noteq> main_thread; \<And>w r. workers P w = Some r \<Longrightarrow> backing_thread r \<noteq> t\<rbrakk> \<Longrightarrow> tid_at t P = UINT32_MAX"
  using assms unfolding tids_ok_def by meson+

lemma tid_max: "n < kMaxThreads \<Longrightarrow> n \<noteq> UINT32_MAX"
  by (auto simp: kMaxThreads_def UINT32_MAX_def)

text \<open>A step of one worker \<open>w\<close> on its thread, which changes no other thread's id.\<close>

lemma tids_update:
  assumes "tids_ok P" and "workers P w = Some r" and "workers Q = (workers P)(w \<mapsto> r')"
    and "backing_thread r' = backing_thread r"
    and "enabled (web_tsan Q)" and "next_tid (web_tsan Q) < kMaxThreads"
    and "\<And>t. t \<noteq> backing_thread r \<Longrightarrow> tid_at t Q = tid_at t P"
    and "if has_tid r' then tid_at (backing_thread r) Q < kMaxThreads else tid_at (backing_thread r) Q = UINT32_MAX"
  shows "tids_ok Q"
proof -
  note d = tids_okD [OF assms(1)]
  have m: "main_thread \<noteq> backing_thread r" using d(4) [OF assms(2)] by metis
  have old: "\<exists>y. workers P v = Some y \<and> backing_thread y = backing_thread x \<and> (v \<noteq> w \<longrightarrow> y = x)"
    if "workers Q v = Some x" for v x
    using that assms(2-4) by (cases "v = w") auto
  show ?thesis
    unfolding tids_ok_def
  proof (intro conjI allI impI)
    show "tid_at main_thread Q < kMaxThreads" using d(3) assms(7) [OF m] by simp
    fix v x assume x: "workers Q v = Some x"
    then obtain y where y: "workers P v = Some y" "backing_thread y = backing_thread x" "v \<noteq> w \<longrightarrow> y = x"
      using old by blast
    show "backing_thread x \<noteq> main_thread" using d(4) [OF y(1)] y(2) by simp
    show "u = v" if "workers Q u = Some z \<and> backing_thread z = backing_thread x" for u z
      using old [of u z] that d(5) [OF y(1), of u] y(2) by auto
    show "if has_tid x then tid_at (backing_thread x) Q < kMaxThreads else tid_at (backing_thread x) Q = UINT32_MAX"
    proof (cases "v = w")
      case True
      with x assms(3,4,8) show ?thesis by auto
    next
      case False
      then have "backing_thread x \<noteq> backing_thread r" using d(5) [OF assms(2) y(1)] y(2) by auto
      with False y d(6,7) [OF y(1)] assms(7) show ?thesis by auto
    qed
  next
    fix t assume t: "t \<noteq> main_thread \<and> (\<forall>w r. workers Q w = Some r \<longrightarrow> backing_thread r \<noteq> t)"
    then have "workers Q w = Some r' \<longrightarrow> backing_thread r' \<noteq> t" by blast
    then have "t \<noteq> backing_thread r" using assms(3,4) by auto
    moreover have "\<And>v x. workers P v = Some x \<Longrightarrow> backing_thread x \<noteq> t"
      using t assms(2-4) by (metis fun_upd_apply option.inject)
    ultimately show "tid_at t Q = UINT32_MAX" using d(8) [of t] t assms(7) by simp
  qed (use assms in auto)
qed

lemma tid_sel [simp]: "tid_at t (set_worker w r P) = tid_at t P" "tid_at t (post_task u k P) = tid_at t P"
  "tid_at t (pop u P) = tid_at t P" "web_tsan (set_worker w r P) = web_tsan P" "web_tsan (post_task u k P) = web_tsan P"
  "tid_at t (P\<lparr>InitializingWorkerThreads := A\<rparr>) = tid_at t P" "tid_at t (P\<lparr>WorkerThreads := A\<rparr>) = tid_at t P"
  "tid_at t (P\<lparr>workers := W\<rparr>) = tid_at t P"
  by (simp_all add: tid_at_def set_worker_def post_task_def pop_def)

lemma tid_set_dstate [simp]: "tid_at t (set_dstate u D P) = (if t = u then g_current_tsan_tid (snd D) else tid_at t P)"
  "web_tsan (set_dstate u D P) = fst D"
  by (simp_all add: tid_at_def set_dstate_def)

lemma tids_same:
  assumes "tids_ok P" and "workers Q = workers P" and "\<And>t. tid_at t Q = tid_at t P"
    and "enabled (web_tsan Q)" and "next_tid (web_tsan Q) < kMaxThreads"
  shows "tids_ok Q"
  using assms(1,4,5) unfolding tids_ok_def assms(2,3) by blast

text \<open>The detector's part of the steps.\<close>

lemma current_tid: "WebTSanGetCurrentTid (dstate_of t P) = tid_at t P"
  by (simp add: WebTSanGetCurrentTid_def dstate_of_def tid_at_def)

lemma send_returns:
  assumes "enabled (web_tsan P)" and "tid_at t P < kMaxThreads"
  obtains Q where "send_edge t P = Inr (next_edge_id (web_tsan P), Q)" and "workers Q = workers P" and "tasks Q = tasks P"
    and "tls_of Q = tls_of P" and "web_tsan Q = web_tsan P\<lparr>next_edge_id := next_edge_id (web_tsan P) + 1,
      hb_edges := (hb_edges (web_tsan P))(next_edge_id (web_tsan P) \<mapsto> thread_clocks (web_tsan P) (tid_at t P))\<rparr>"
proof -
  let ?W = "web_tsan P\<lparr>next_edge_id := next_edge_id (web_tsan P) + 1,
      hb_edges := (hb_edges (web_tsan P))(next_edge_id (web_tsan P) \<mapsto> thread_clocks (web_tsan P) (tid_at t P))\<rparr>"
  have "send_edge t P = Inr (next_edge_id (web_tsan P), set_dstate t (?W, tls_of P t) P)"
    using assms by (simp add: send_edge_def OnPostMessageSend_def current_tid HappensBefore_def index_tid_def Let_def)
      (simp add: dstate_of_def)
  then show thesis by (rule that) (simp_all add: set_dstate_def)
qed

lemma receive_returns:
  assumes "enabled (web_tsan P)" and "tid_at t P < kMaxThreads"
  obtains Q where "receive_edge t m P = Inr Q" and "workers Q = workers P" and "tasks Q = tasks P" and "tls_of Q = tls_of P"
    and "web_tsan Q = (case if tsan_edge_id m = 0 then None else hb_edges (web_tsan P) (tsan_edge_id m) of None \<Rightarrow> web_tsan P
       | Some c \<Rightarrow> join_thread (tid_at t P) c (web_tsan P)\<lparr>hb_edges := (hb_edges (web_tsan P))(tsan_edge_id m := None)\<rparr>)"
proof -
  let ?W = "case if tsan_edge_id m = 0 then None else hb_edges (web_tsan P) (tsan_edge_id m) of None \<Rightarrow> web_tsan P
       | Some c \<Rightarrow> join_thread (tid_at t P) c (web_tsan P)\<lparr>hb_edges := (hb_edges (web_tsan P))(tsan_edge_id m := None)\<rparr>"
  have "receive_edge t m P = Inr (set_dstate t (?W, tls_of P t) P)"
    unfolding receive_edge_def current_tid using assms
    by (auto simp: OnPostMessageReceive_def callE_def HappensAfter_def index_tid_def dstate_of_def split: option.split)
  then show thesis by (rule that) (simp_all add: set_dstate_def)
qed

lemma created_returns:
  assumes "enabled (web_tsan P)" and "next_tid (web_tsan P) < kMaxThreads"
  obtains Q where "tsan_worker_created t P = Inr Q" and "workers Q = workers P" and "tasks Q = tasks P"
    and "enabled (web_tsan Q)" and "next_tid (web_tsan Q) < kMaxThreads"
    and "\<And>u. tid_at u Q = (if u = t then find_slot (web_tsan P) else tid_at u P)"
    and "thread_alive (web_tsan Q) = (thread_alive (web_tsan P))(find_slot (web_tsan P) := True)"
    and "next_edge_id (web_tsan Q) = next_edge_id (web_tsan P)" and "hb_edges (web_tsan Q) = hb_edges (web_tsan P)"
proof -
  have ne: "next_edge_id W' = next_edge_id W" if "ThreadCreate p W = Inr (i, W')" for p W i W'
    using that by (auto simp: ThreadCreate_def Let_def tick_thread_def join_thread_def split: if_splits)
  obtain W where W: "ThreadCreate UINT32_MAX (web_tsan P) = Inr (find_slot (web_tsan P), W)"
    and e: "enabled W = enabled (web_tsan P)" "thread_alive W = (thread_alive (web_tsan P))(find_slot (web_tsan P) := True)"
      "next_tid W < kMaxThreads" "hb_edges W = hb_edges (web_tsan P)"
    using ThreadCreate_eq [OF assms(2), of UINT32_MAX] by blast
  let ?Q = "set_dstate t (WebTSanSetCurrentTid (find_slot (web_tsan P)) (W, tls_of P t)) P"
  have "tsan_worker_created t P = Inr ?Q"
    using assms(1) W by (simp add: tsan_worker_created_def OnWorkerCreate_def dstate_of_def)
  moreover have "tid_at u ?Q = (if u = t then find_slot (web_tsan P) else tid_at u P)" for u
    by (simp add: WebTSanSetCurrentTid_def)
  ultimately show thesis
    using assms(1) e ne [OF W] by (intro that [of ?Q]) (simp_all add: set_dstate_def WebTSanSetCurrentTid_def)
qed

lemma destroyed_returns:
  assumes "enabled (web_tsan P)" and "tid_at t P < kMaxThreads"
  obtains Q where "tsan_worker_destroyed t P = Inr Q" and "workers Q = workers P" and "tasks Q = tasks P"
    and "enabled (web_tsan Q)" and "next_tid (web_tsan Q) = next_tid (web_tsan P)"
    and "\<And>u. tid_at u Q = (if u = t then UINT32_MAX else tid_at u P)"
    and "thread_alive (web_tsan Q) = (thread_alive (web_tsan P))(tid_at t P := False)"
    and "next_edge_id (web_tsan Q) = next_edge_id (web_tsan P)" and "hb_edges (web_tsan Q) = hb_edges (web_tsan P)"
proof -
  obtain W where W: "ThreadDestroy (tid_at t P) (web_tsan P) = Inr W" "enabled W" "next_tid W = next_tid (web_tsan P)"
    "thread_alive W = (thread_alive (web_tsan P))(tid_at t P := False)"
    "next_edge_id W = next_edge_id (web_tsan P)" "hb_edges W = hb_edges (web_tsan P)"
    using assms by (auto simp: ThreadDestroy_def index_tid_def Let_def)
  let ?Q = "set_dstate t (WebTSanSetCurrentTid UINT32_MAX (W, tls_of P t)) P"
  have "tsan_worker_destroyed t P = Inr ?Q"
    using W(1) tid_max [OF assms(2)]
    by (simp add: tsan_worker_destroyed_def Let_def current_tid OnWorkerDestroy_def callE_def)
      (simp add: dstate_of_def)
  moreover have "tid_at u ?Q = (if u = t then UINT32_MAX else tid_at u P)" for u
    by (simp add: WebTSanSetCurrentTid_def)
  ultimately show thesis
    using W by (intro that [of ?Q]) (simp_all add: set_dstate_def WebTSanSetCurrentTid_def)
qed

definition tid_view :: "wid \<Rightarrow> process \<Rightarrow> (thread \<times> bool) option" where
  "tid_view w P = map_option (\<lambda>r. (backing_thread r, has_tid r)) (workers P w)"

lemma tids_view:
  assumes "tids_ok P" and "\<And>w. tid_view w R = tid_view w P" and "\<And>t. tid_at t R = tid_at t P"
    and "enabled (web_tsan R)" and "next_tid (web_tsan R) < kMaxThreads"
  shows "tids_ok R"
proof -
  have eq: "\<exists>q. workers P w = Some q \<and> backing_thread q = backing_thread r \<and> has_tid q = has_tid r"
    if "workers R w = Some r" for w r
    using assms(2) [of w] that by (cases "workers P w") (auto simp: tid_view_def)
  have qe: "\<exists>r. workers R w = Some r \<and> backing_thread q = backing_thread r"
    if "workers P w = Some q" for w q
    using assms(2) [of w] that by (cases "workers R w") (auto simp: tid_view_def)
  note d = tids_okD [OF assms(1)]
  show ?thesis
    unfolding tids_ok_def assms(3)
  proof (intro conjI allI impI)
    fix w r assume "workers R w = Some r"
    then obtain q where q: "workers P w = Some q" "backing_thread q = backing_thread r" "has_tid q = has_tid r"
      using eq by blast
    show "backing_thread r \<noteq> main_thread" using d(4) [OF q(1)] q(2) by simp
    show "if has_tid r then tid_at (backing_thread r) P < kMaxThreads else tid_at (backing_thread r) P = UINT32_MAX"
      using d(6,7) [OF q(1)] q(2,3) by simp
    show "v = w" if "workers R v = Some z \<and> backing_thread z = backing_thread r" for v z
      using d(5) [OF q(1)] q(2) eq [of v z] that by auto
  next
    fix t assume "t \<noteq> main_thread \<and> (\<forall>w r. workers R w = Some r \<longrightarrow> backing_thread r \<noteq> t)"
    then show "tid_at t P = UINT32_MAX" using d(8) [of t] qe by metis
  qed (use assms(4,5) d(3) in auto)
qed

text \<open>The steps that neither touch the detector nor change who has an id.\<close>

definition record_only :: "process \<Rightarrow> process \<Rightarrow> bool" where
  "record_only P R \<longleftrightarrow> (\<forall>w. tid_view w R = tid_view w P) \<and> (\<forall>t. tid_at t R = tid_at t P) \<and> web_tsan R = web_tsan P"

lemma tids_record_only: "\<lbrakk>tids_ok P; record_only P R\<rbrakk> \<Longrightarrow> tids_ok R"
  using tids_view tids_okD(1,2) by (simp add: record_only_def)

lemma record_only_refl [simp]: "record_only P P"
  by (simp add: record_only_def)

lemma record_only_trans: "\<lbrakk>record_only P Q; record_only Q R\<rbrakk> \<Longrightarrow> record_only P R"
  by (simp add: record_only_def)

lemma record_only_set:
  "\<lbrakk>workers P w = Some r; backing_thread r' = backing_thread r; has_tid r' = has_tid r\<rbrakk> \<Longrightarrow> record_only P (set_worker w r' P)"
  by (auto simp: record_only_def tid_view_def)

lemma record_only_post [simp]: "record_only P (post_task t k P)" "record_only P (pop t P)"
  by (simp_all add: record_only_def tid_view_def)

lemma record_only_set_post:
  "\<lbrakk>workers P w = Some r; backing_thread r' = backing_thread r; has_tid r' = has_tid r\<rbrakk>
   \<Longrightarrow> record_only P (post_task t k (set_worker w r' P))"
  by (rule record_only_trans [OF record_only_set record_only_post(1)])

lemmas record_onlyI = record_only_set record_only_set_post

lemma terminate_record_only:
  assumes "workers P w = Some r"
  shows "TerminateRequest w P = Inr R \<Longrightarrow> record_only P R" and "TerminatePost w P = Inr R \<Longrightarrow> record_only P R"
    and "TerminateLocked w P = Inr R \<Longrightarrow> record_only P R" and "TerminatePerform w P = Inr R \<Longrightarrow> record_only P R"
    and "ForcibleTermination w P = Inr R \<Longrightarrow> record_only P R"
  using assms
  by (auto simp: TerminateRequest_def TerminatePost_def TerminateLocked_def TerminatePerform_def ForcibleTermination_def
      ScheduleToTerminateScriptExecution_def EnsureScriptExecutionTerminates_def SetExitCode_def check_def has_tid_def
      bindE_eq_Inr split: if_splits termination_state.splits intro!: record_onlyI [OF assms])

lemma prepare_record_only:
  assumes "workers P w = Some r" and "PrepareForShutdownOnWorkerThread w P = Inr R"
  shows "record_only P R"
  using assms by (auto simp: PrepareForShutdownOnWorkerThread_def SetThreadState_def check_def has_tid_def bindE_eq_Inr
      split: if_splits intro!: record_onlyI [OF assms(1)])

lemma modify_record_only:
  assumes "workers P w = Some r" and "modify w f P = Inr R" and "backing_thread (f r) = backing_thread r" and "has_tid (f r) = has_tid r"
  shows "record_only P R"
  using assms by (auto simp: modify_def intro!: record_only_set)

lemma tids_new:
  assumes "tids_ok P" and "workers P w = None" and "t \<noteq> main_thread"
    and "\<And>v r. workers P v = Some r \<Longrightarrow> backing_thread r \<noteq> t"
    and "\<And>v. tid_view v R = (if v = w then Some (t, False) else tid_view v P)"
    and "\<And>u. tid_at u R = tid_at u P" and "web_tsan R = web_tsan P"
  shows "tids_ok R"
proof -
  note d = tids_okD [OF assms(1)]
  have max: "tid_at t P = UINT32_MAX" using d(8) assms(3,4) by blast
  have eq: "v = w \<and> backing_thread r = t \<and> \<not> has_tid r \<or>
      v \<noteq> w \<and> (\<exists>q. workers P v = Some q \<and> backing_thread q = backing_thread r \<and> has_tid q = has_tid r)"
    if "workers R v = Some r" for v r
    using assms(5) [of v] that by (cases "v = w"; cases "workers P v") (auto simp: tid_view_def)
  have qe: "\<exists>r. workers R v = Some r \<and> backing_thread q = backing_thread r" if "workers P v = Some q" for v q
    using assms(2) assms(5) [of v] that by (cases "v = w"; cases "workers R v") (auto simp: tid_view_def)
  have here: "\<exists>r. workers R w = Some r \<and> backing_thread r = t"
    using assms(5) [of w] by (cases "workers R w") (auto simp: tid_view_def)
  show ?thesis
    unfolding tids_ok_def assms(6,7)
  proof (intro conjI allI impI)
    fix v r assume r: "workers R v = Some r"
    show "backing_thread r \<noteq> main_thread" using eq [OF r] d(4) assms(3) by metis
    show "if has_tid r then tid_at (backing_thread r) P < kMaxThreads else tid_at (backing_thread r) P = UINT32_MAX"
      using eq [OF r] max d(6,7) by metis
    show "u = v" if "workers R u = Some z \<and> backing_thread z = backing_thread r" for u z
      using eq [OF r] eq [of u z] that assms(4) d(5) by metis
  next
    fix u assume "u \<noteq> main_thread \<and> (\<forall>w r. workers R w = Some r \<longrightarrow> backing_thread r \<noteq> u)"
    then show "tid_at u P = UINT32_MAX" using d(8) [of u] qe by metis
  qed (use d in auto)
qed

lemma tids_removed:
  assumes "tids_ok P" and "workers P w = Some r" and "\<not> has_tid r"
    and "\<And>v. tid_view v R = (if v = w then None else tid_view v P)"
    and "\<And>u. tid_at u R = tid_at u P" and "web_tsan R = web_tsan P"
  shows "tids_ok R"
proof -
  note d = tids_okD [OF assms(1)]
  have eq: "v \<noteq> w \<and> (\<exists>q. workers P v = Some q \<and> backing_thread q = backing_thread x \<and> has_tid q = has_tid x)"
    if "workers R v = Some x" for v x
    using assms(4) [of v] that by (cases "v = w"; cases "workers P v") (auto simp: tid_view_def)
  have qe: "v \<noteq> w \<Longrightarrow> \<exists>r. workers R v = Some r \<and> backing_thread q = backing_thread r" if "workers P v = Some q" for v q
    using assms(4) [of v] that by (cases "workers R v") (auto simp: tid_view_def)
  show ?thesis
    unfolding tids_ok_def assms(5,6)
  proof (intro conjI allI impI)
    fix v x assume x: "workers R v = Some x"
    show "backing_thread x \<noteq> main_thread" using eq [OF x] d(4) by metis
    show "if has_tid x then tid_at (backing_thread x) P < kMaxThreads else tid_at (backing_thread x) P = UINT32_MAX"
      using eq [OF x] d(6,7) by metis
    show "u = v" if "workers R u = Some z \<and> backing_thread z = backing_thread x" for u z
      using eq [OF x] eq [of u z] that d(5) by metis
  next
    fix u assume u: "u \<noteq> main_thread \<and> (\<forall>w r. workers R w = Some r \<longrightarrow> backing_thread r \<noteq> u)"
    show "tid_at u P = UINT32_MAX"
    proof (cases "backing_thread r = u")
      case True
      with d(7) [OF assms(2,3)] show ?thesis by simp
    next
      case False
      then show ?thesis using d(8) [of u] u qe assms(2) by (metis option.inject)
    qed
  qed (use d in auto)
qed

definition good :: "process \<Rightarrow> bool" where
  "good P \<longleftrightarrow> lives_ok P \<and> tids_ok P"

text \<open>A running worker has an id.\<close>

lemma running_tid:
  assumes "good P" and "workers P w = Some r" and "thread_state r = Running"
  shows "tid_at (backing_thread r) P < kMaxThreads"
proof -
  have l: "lives_ok P" using assms(1) by (simp add: good_def)
  obtain prep perf where "stage_ok r prep perf" using some_stage [OF l assms(2)] by blast
  then have "\<not> shutdown_signalled r" using assms(3) by (auto simp: stage_ok_def)
  with assms show ?thesis using tids_okD(6) by (simp add: good_def has_tid_def)
qed

lemma script_tid:
  assumes "good P" and "runs_script p P"
  obtains t where "context_thread p P = Inr t" and "tid_at t P < kMaxThreads"
proof (cases p)
  case None
  with that [of main_thread] assms(1) tids_okD(3) show thesis by (simp add: good_def context_thread_def)
next
  case (Some q)
  with assms(2) obtain r where "workers P q = Some r" "thread_state r = Running"
    by (auto simp: runs_script_def running_def split: option.splits)
  with that Some running_tid [OF assms(1)] show thesis by (simp add: context_thread_def)
qed

lemma good_detector:
  assumes "good P" and "workers Q = workers P" and "tasks Q = tasks P" and "tls_of Q = tls_of P"
    and "enabled (web_tsan Q)" and "next_tid (web_tsan Q) = next_tid (web_tsan P)"
  shows "good Q"
proof -
  have "lives_ok Q"
    by (rule lives_same [of P]) (use assms in \<open>simp_all add: good_def life_same [OF assms(3)]\<close>)
  moreover have "tids_ok Q"
    using assms(1) by (intro tids_same [of P Q]) (simp_all add: good_def assms(2-6) tid_at_def tids_okD(2))
  ultimately show ?thesis by (simp add: good_def)
qed

lemma good_send:
  assumes "good P" and "tid_at t P < kMaxThreads"
  obtains e Q where "send_edge t P = Inr (e, Q)" and "workers Q = workers P" and "tasks Q = tasks P" and "good Q"
proof -
  have "enabled (web_tsan P)" using assms(1) tids_okD(1) by (simp add: good_def)
  from send_returns [OF this assms(2)] obtain Q where Q: "send_edge t P = Inr (next_edge_id (web_tsan P), Q)"
    "workers Q = workers P" "tasks Q = tasks P" "tls_of Q = tls_of P"
    "web_tsan Q = web_tsan P\<lparr>next_edge_id := next_edge_id (web_tsan P) + 1,
      hb_edges := (hb_edges (web_tsan P))(next_edge_id (web_tsan P) \<mapsto> thread_clocks (web_tsan P) (tid_at t P))\<rparr>" by blast
  then have "good Q" using good_detector [OF assms(1) Q(2-4)] \<open>enabled (web_tsan P)\<close> by simp
  with that Q show thesis by blast
qed

lemma good_receive:
  assumes "good P" and "tid_at t P < kMaxThreads"
  obtains Q where "receive_edge t m P = Inr Q" and "workers Q = workers P" and "tasks Q = tasks P" and "good Q"
proof -
  have e: "enabled (web_tsan P)" using assms(1) tids_okD(1) by (simp add: good_def)
  from receive_returns [OF e assms(2), of m] obtain Q where Q: "receive_edge t m P = Inr Q"
    "workers Q = workers P" "tasks Q = tasks P" "tls_of Q = tls_of P"
    "web_tsan Q = (case if tsan_edge_id m = 0 then None else hb_edges (web_tsan P) (tsan_edge_id m) of None \<Rightarrow> web_tsan P
       | Some c \<Rightarrow> join_thread (tid_at t P) c (web_tsan P)\<lparr>hb_edges := (hb_edges (web_tsan P))(tsan_edge_id m := None)\<rparr>)" by metis
  then have "good Q" using good_detector [OF assms(1) Q(2-4)] e
    by (auto simp: join_thread_def split: option.split)
  with that Q show thesis by blast
qed

definition fine :: "process result \<Rightarrow> bool" where
  "fine R \<longleftrightarrow> (\<exists>P. R = Inr P \<and> good P)"

lemma fine_Inr [simp]: "fine (Inr P) \<longleftrightarrow> good P"
  by (simp add: fine_def)

lemma goodD: "good P \<Longrightarrow> lives_ok P" "good P \<Longrightarrow> tids_ok P"
  by (simp_all add: good_def)

lemma fine_record_only:
  assumes "good P" and "kept X" and "\<And>R. X = Inr R \<Longrightarrow> record_only P R"
  shows "fine X"
  using assms tids_record_only [OF goodD(2) [OF assms(1)]] by (auto simp: kept_def good_def)

lemma fine_messages:
  assumes "good P" and "runs_script p P"
  shows "\<exists>t e Q. context_thread p P = Inr t \<and> send_edge t P = Inr (e, Q) \<and> workers Q = workers P \<and> good Q"
    and "fine (bindE (context_thread p P) (\<lambda>t. receive_edge t m P))"
proof -
  obtain t where t: "context_thread p P = Inr t" "tid_at t P < kMaxThreads" using script_tid [OF assms] .
  obtain e Q where Q: "send_edge t P = Inr (e, Q)" "workers Q = workers P" "good Q" using good_send [OF assms(1) t(2)] by metis
  with t(1) show "\<exists>t e Q. context_thread p P = Inr t \<and> send_edge t P = Inr (e, Q) \<and> workers Q = workers P \<and> good Q" by blast
  show "fine (bindE (context_thread p P) (\<lambda>t. receive_edge t m P))"
    using good_receive [OF assms(1) t(2), of m] t(1) by force
qed

lemma context_thread_same: "workers Q = workers P \<Longrightarrow> context_thread p Q = context_thread p P"
  by (simp add: context_thread_def get_worker_def split: option.split)

definition is_message :: "wtask \<Rightarrow> bool" where
  "is_message k = (case k of MessageToWorker w m \<Rightarrow> True | MessageToParent w m \<Rightarrow> True | PortMessage p m \<Rightarrow> True | _ \<Rightarrow> False)"

lemma life_message [simp]: "is_message k \<Longrightarrow> life w t (post_task u k P) = life w t P"
  by (auto simp: is_message_def split: wtask.splits)

lemma good_post: "\<lbrakk>good P; is_message k\<rbrakk> \<Longrightarrow> good (post_task t k P)"
  using lives_same [OF _ workers_post life_message, of P k t] tids_record_only [of P "post_task t k P"]
  by (simp add: good_def)

lemma good_pop:
  assumes "good P" and "tasks P t = k # ks" and "is_message k"
  shows "good (pop t P)"
proof -
  have "\<not> about w k" for w using assms(3) by (auto simp: about_def is_message_def)
  then have "lives_ok (pop t P)" using lives_same [of P "pop t P"] life_pop [OF assms(2)] goodD(1) [OF assms(1)] by simp
  then show ?thesis using tids_record_only [OF goodD(2) [OF assms(1)], of "pop t P"] by (simp add: good_def)
qed

lemma is_message_simps [simp]: "is_message (MessageToWorker w m)" "is_message (MessageToParent w m)" "is_message (PortMessage p m)"
  by (simp_all add: is_message_def)

lemma set_messages:
  assumes "good P" and "workers P w = Some r"
    and "backing_thread r' = backing_thread r" and "has_tid r' = has_tid r" and "lives_ok (set_worker w r' P)"
  shows "good (set_worker w r' P)"
  using assms record_only_set [OF assms(2-4)] tids_record_only [OF goodD(2)] by (auto simp: good_def)

lemma good_folds: "good P \<Longrightarrow> good (fold (\<lambda>m. post_task t (MessageToWorker w m)) ms P)"
  by (induction ms arbitrary: P) (simp_all add: good_post)

lemma fine_posts:
  assumes "good P"
  shows "can (PostToWorker w n) P \<Longrightarrow> fine (act (PostToWorker w n) P)"
    and "can (PostToParent w n) P \<Longrightarrow> fine (act (PostToParent w n) P)"
    and "can (PostToPort b p p' n) P \<Longrightarrow> fine (act (PostToPort b p p' n) P)"
    and "can (ScriptEvaluated w) P \<Longrightarrow> fine (act (ScriptEvaluated w) P)"
proof -
  show "fine (act (PostToPort b p p' n) P)" if "can (PostToPort b p p' n) P"
  proof -
    from that have c: "runs_script p P" "runs_script p' P" by simp_all
    obtain t e Q where Q: "context_thread p P = Inr t" "send_edge t P = Inr (e, Q)" "workers Q = workers P" "good Q"
      using fine_messages(1) [OF assms c(1)] by blast
    obtain t' where "context_thread p' P = Inr t'" using script_tid [OF assms c(2)] .
    then have "context_thread p' Q = Inr t'" using context_thread_same [OF Q(3)] by simp
    with Q assms show ?thesis by (simp add: MessagePort_postMessage_def good_post)
  qed
  show "fine (act (PostToParent w n) P)" if c: "can (PostToParent w n) P"
  proof -
    obtain r where r: "workers P w = Some r" "thread_state r = Running"
      using c by (auto simp: running_def split: option.splits)
    obtain e Q where Q: "send_edge (backing_thread r) P = Inr (e, Q)" "workers Q = workers P" "good Q"
      using good_send [OF assms running_tid [OF assms r]] by metis
    have "\<exists>t. context_thread (parent r) P = Inr t"
      using lives_okD(1) [OF goodD(1) [OF assms] r(1)]
      by (auto simp: worker_ok_def family_ok_def context_thread_def split: option.split)
    then obtain t where "context_thread (parent r) Q = Inr t" using context_thread_same [OF Q(2)] by metis
    with Q r show ?thesis by (simp add: DedicatedWorkerGlobalScope_postMessage_def good_post)
  qed
  show "fine (act (PostToWorker w n) P)" if c: "can (PostToWorker w n) P"
  proof -
    obtain r where r: "workers P w = Some r" "runs_script (parent r) P" using c by (auto split: option.splits)
    obtain t e Q where Q: "context_thread (parent r) P = Inr t" "send_edge t P = Inr (e, Q)" "workers Q = workers P" "good Q"
      using fine_messages(1) [OF assms r(2)] by blast
    have w: "workers Q w = Some r" using Q(3) r(1) by simp
    have "lives_ok (set_worker w (r\<lparr>queued_early_tasks := ms\<rparr>) Q)" for ms
      by (rule keep_set [OF goodD(1) [OF Q(4)] w]) simp_all
    then have "good (set_worker w (r\<lparr>queued_early_tasks := ms\<rparr>) Q)" for ms
      by (intro set_messages [OF Q(4) w]) (simp_all add: has_tid_def)
    with Q r(1) w show ?thesis
      by (simp add: DedicatedWorker_postMessage_def PostMessageToWorkerGlobalScope_def good_post)
  qed
  show "fine (act (ScriptEvaluated w) P)" if c: "can (ScriptEvaluated w) P"
  proof -
    obtain r where r: "workers P w = Some r" using c by auto
    let ?r = "r\<lparr>was_script_evaluated := True, queued_early_tasks := []\<rparr>"
    have "lives_ok (set_worker w ?r P)"
      by (rule keep_set [OF goodD(1) [OF assms] r]) simp_all
    then have "good (set_worker w ?r P)"
      by (intro set_messages [OF assms r]) (simp_all add: has_tid_def)
    with r show ?thesis by (simp add: DidEvaluateScript_def Let_def good_folds)
  qed
qed

lemma fine_terminate:
  assumes "good P" and "workers P w = Some r"
  shows "fine (TerminateRequest w P)" and "fine (TerminatePost w P)" and "fine (TerminateLocked w P)"
    and "fine (TerminatePerform w P)" and "fine (ForcibleTermination w P)"
proof -
  note k = fine_record_only [OF assms(1)] note l = goodD(1) [OF assms(1)]
  show "fine (TerminateRequest w P)" by (rule k [OF keep_TerminateRequest [OF l assms(2)] terminate_record_only(1) [OF assms(2)]])
  show "fine (TerminatePost w P)" by (rule k [OF keep_TerminatePost [OF l assms(2)] terminate_record_only(2) [OF assms(2)]])
  show "fine (TerminateLocked w P)" by (rule k [OF keep_TerminateLocked [OF l assms(2)] terminate_record_only(3) [OF assms(2)]])
  show "fine (TerminatePerform w P)" by (rule k [OF keep_TerminatePerform [OF l assms(2)] terminate_record_only(4) [OF assms(2)]])
  show "fine (ForcibleTermination w P)" by (rule k [OF keep_Forcible [OF l assms(2)] terminate_record_only(5) [OF assms(2)]])
qed

lemma fine_task_done:
  assumes "good P" and "running w P"
  shows "fine (DidProcessTask w P)"
proof -
  obtain r where r: "workers P w = Some r" "thread_state r = Running"
    using assms(2) by (auto simp: running_def split: option.splits)
  show ?thesis
    by (rule fine_record_only [OF assms(1) keep_DidProcessTask [OF goodD(1) [OF assms(1)] r]])
      (use r prepare_record_only [OF r(1)] in \<open>auto simp: DidProcessTask_def split: if_splits\<close>)
qed

lemma fine_modify:
  assumes "good P" and "workers P w = Some r"
  shows "fine (act (CloseScope w) P)" and "fine (act (ForgetObject w) P)"
    and "fine (act (DebuggerTaskStarted w) P)" and "fine (act (DebuggerTaskFinished w) P)"
    and "fine (act (PauseWorker w) P)" and "fine (act (ResumeWorker w) P)"
proof -
  note k = fine_record_only [OF assms(1)] note m = keep_modify [OF goodD(1) [OF assms(1)] assms(2)]
  note o = modify_record_only [OF assms(2)]
  show "fine (act (CloseScope w) P)" by simp (rule k [OF m(1)], erule o; simp add: has_tid_def)
  show "fine (act (ForgetObject w) P)" by simp (rule k [OF m(2)], erule o; simp add: has_tid_def)
  show "fine (act (DebuggerTaskStarted w) P)" unfolding act.simps by (rule k [OF m(3)], erule o; simp add: has_tid_def)
  show "fine (act (DebuggerTaskFinished w) P)" unfolding act.simps by (rule k [OF m(3)], erule o; simp add: has_tid_def)
  show "fine (act (PauseWorker w) P)"
    by simp (rule k [OF m(4)], erule o; simp add: has_tid_def PauseOrFreezeOnWorkerThread_def Let_def)
  show "fine (act (ResumeWorker w) P)"
    unfolding act.simps
    by (rule k [OF keep_Resume [OF goodD(1) [OF assms(1)] assms(2)]])
      (use assms(2) in \<open>auto simp: ResumeOnWorkerThread_def Let_def has_tid_def split: if_splits intro!: record_only_set\<close>)
qed

lemma created_view:
  assumes "CreateWorker w p t P = Inr R" and "workers P w = None" and "R \<noteq> P"
  shows "tid_view v R = (if v = w then Some (t, False) else tid_view v P)" and "tid_at u R = tid_at u P"
    and "web_tsan R = web_tsan P"
proof -
  let ?P = "set_worker w (new_WorkerThread p t) P\<lparr>InitializingWorkerThreads := insert w (InitializingWorkerThreads P)\<rparr>"
  have "R = post_task t (InitializeTask w) ?P \<or> (\<exists>q r r'. workers P q = Some r \<and> q \<noteq> w
      \<and> backing_thread r' = backing_thread r \<and> has_tid r' = has_tid r \<and> R = post_task t (InitializeTask w) (set_worker q r' ?P))"
  proof (cases p)
    case None
    with assms(1) show ?thesis by (simp add: CreateWorker_def Start_def get_worker_def new_sel)
  next
    case (Some q)
    with assms obtain r r' where r: "get_worker q P = Inr r" "ChildThreadStartedOnWorkerThread w r = Inr (Some r')"
      "Start w (set_worker q r' ?P) = Inr R"
      by (auto simp: CreateWorker_def Let_def bindE_eq_Inr split: option.splits)
    then have q: "workers P q = Some r" "q \<noteq> w" using assms(2) by (auto simp: get_worker_def split: option.splits)
    have "backing_thread r' = backing_thread r" "has_tid r' = has_tid r"
      using r(2) by (auto simp: ChildThreadStartedOnWorkerThread_def Let_def check_def has_tid_def split: if_splits)
    moreover have "R = post_task t (InitializeTask w) (set_worker q r' ?P)"
      using r(3) q(2) by (simp add: Start_def get_worker_def new_sel)
    ultimately show ?thesis using q by metis
  qed
  then show "tid_view v R = (if v = w then Some (t, False) else tid_view v P)" "tid_at u R = tid_at u P"
    "web_tsan R = web_tsan P"
    by (elim disjE exE conjE, auto simp: tid_view_def new_sel has_tid_def)+
qed

lemma fine_create:
  assumes "good P" and "can (Create w p t) P" and "own_thread (Create w p t) P"
  shows "fine (act (Create w p t) P)"
proof -
  have c: "workers P w = None" "runs_script p P" using assms(2) by (simp_all add: new_object_def)
  obtain R where R: "CreateWorker w p t P = Inr R" "lives_ok R"
    using keep_Create [OF goodD(1) [OF assms(1)] c] by (auto simp: kept_def)
  have "tids_ok R"
  proof (cases "R = P")
    case False
    show ?thesis
      by (rule tids_new [OF goodD(2) [OF assms(1)] c(1) _ _ created_view [OF R(1) c(1) False]])
        (use assms(3) in auto)
  qed (use assms(1) in \<open>simp add: goodD\<close>)
  with R show ?thesis by (simp add: good_def)
qed

lemma fine_destroyed:
  assumes "good P" and "workers P w = Some r"
  shows "fine (act (Destroyed w) P)"
proof (cases "shutdown_signalled r")
  case True
  obtain R where R: "WorkerThreadTerminated w P = Inr R" "lives_ok R"
    using keep_Destroyed [OF goodD(1) [OF assms(1)] assms(2)] by (auto simp: kept_def)
  have f: "parent r \<noteq> Some w"
    using lives_okD(1) [OF goodD(1) [OF assms(1)] assms(2)] dead(2) [OF goodD(1) [OF assms(1)] assms(2) True] assms(2)
    unfolding worker_ok_def family_ok_def by auto
  note defs = WorkerThreadTerminated_def ChildThreadTerminatedOnWorkerThread_def bindE_eq_Inr Let_def
  have "tid_view v R = (if v = w then None else tid_view v P)" for v
    using R(1) assms(2) True f by (auto simp: defs get_worker_def tid_view_def has_tid_def split: option.splits if_splits)
  moreover have "tid_at u R = tid_at u P" "web_tsan R = web_tsan P" for u
    using R(1) assms(2) True f by (auto simp: defs get_worker_def split: option.splits if_splits)
  moreover have "\<not> has_tid r" using True by (simp add: has_tid_def)
  ultimately have "tids_ok R" using tids_removed [OF goodD(2) [OF assms(1)] assms(2)] by blast
  with R show ?thesis by (simp add: good_def)
qed (use assms in \<open>simp add: WorkerThreadTerminated_def\<close>)

lemma fine_initialize:
  assumes "good P" and "tasks P t = InitializeTask w # ks"
  shows "fine (InitializeOnWorkerThread w (pop t P))"
proof -
  note l = goodD(1) [OF assms(1)] and d = tids_okD [OF goodD(2) [OF assms(1)]]
  have "about w (InitializeTask w)" by (simp add: about_def)
  then obtain r prep perf where r: "workers P w = Some r" "backing_thread r = t" "stage_ok r prep perf"
    and q: "queue_of w r prep perf = InitializeTask w # tl (queue_of w r prep perf)"
    using head_of_life [OF l assms(2)] by metis
  have ns: "thread_state r = NotStarted" using q by (auto simp: queue_of_def split: if_splits)
  have sig: "\<not> shutdown_signalled r" using r(3) ns by (auto simp: stage_ok_def)
  have "\<exists>R. tsan_worker_created t Q = Inr R" if "web_tsan Q = web_tsan P" for Q
    using created_returns [of Q t] that d(1,2) by metis
  then obtain R where R: "InitializeOnWorkerThread w (pop t P) = Inr R" "lives_ok R"
    using keep_Initialize_task [OF l assms(2)] by (auto simp: kept_def)
  have e: "enabled (web_tsan (pop t P))" "next_tid (web_tsan (pop t P)) < kMaxThreads" using d(1,2) by simp_all
  obtain Q where Q: "tsan_worker_created t (pop t P) = Inr Q" "workers Q = workers P" "enabled (web_tsan Q)"
    "next_tid (web_tsan Q) < kMaxThreads" "\<And>u. tid_at u Q = (if u = t then find_slot (web_tsan P) else tid_at u P)"
    by (rule created_returns [OF e, of t, unfolded pop_sel tid_sel]) metis
  have "\<exists>r'. workers R = (workers P)(w \<mapsto> r') \<and> backing_thread r' = backing_thread r
      \<and> thread_state r' \<noteq> NotStarted \<and> \<not> shutdown_signalled r' \<and> tls_of R = tls_of Q \<and> web_tsan R = web_tsan Q"
    using R(1) r(1,2) Q(1,2) ns sig
    by (auto simp: InitializeOnWorkerThread_def Let_def SetThreadState_def check_def bindE_eq_Inr
        PrepareForShutdownOnWorkerThread_def set_worker_def get_worker_def split: if_splits)
  then obtain r' where r': "workers R = (workers P)(w \<mapsto> r')" "backing_thread r' = backing_thread r" "has_tid r'"
    "tls_of R = tls_of Q" "web_tsan R = web_tsan Q" by (auto simp: has_tid_def)
  have tid: "tid_at u R = (if u = t then find_slot (web_tsan P) else tid_at u P)" for u
    using Q(5) r'(4) by (simp add: tid_at_def)
  have "find_slot (web_tsan P) < kMaxThreads" using find_slot_less [OF d(2)] .
  then have "tids_ok R"
    by (intro tids_update [OF goodD(2) [OF assms(1)] r(1) r'(1,2)]) (simp_all add: r' Q tid r(2))
  with R show ?thesis by (simp add: good_def)
qed

lemma fine_perform:
  assumes "good P" and "tasks P t = PerformTask w # ks"
  shows "fine (PerformShutdownOnWorkerThread w (pop t P))"
proof -
  note l = goodD(1) [OF assms(1)] and d = tids_okD [OF goodD(2) [OF assms(1)]]
  have "about w (PerformTask w)" by (simp add: about_def)
  then obtain r prep perf where r: "workers P w = Some r" "backing_thread r = t" "stage_ok r prep perf"
    and q: "queue_of w r prep perf = PerformTask w # tl (queue_of w r prep perf)"
    using head_of_life [OF l assms(2)] by metis
  have "thread_state r \<noteq> NotStarted" "\<not> prep" "perf" using q by (auto simp: queue_of_def split: if_splits)
  then have "has_tid r" using r(3) by (auto simp: stage_ok_def has_tid_def)
  then have tid: "tid_at t P < kMaxThreads" using d(6) [OF r(1)] r(2) by simp
  have "\<exists>R. tsan_worker_destroyed t Q = Inr R" if "web_tsan Q = web_tsan P" "tls_of Q = tls_of P" for Q
    using destroyed_returns [of Q t] that d(1) tid by (metis tid_at_def)
  then obtain R where R: "PerformShutdownOnWorkerThread w (pop t P) = Inr R" "lives_ok R"
    using keep_Perform_task [OF l assms(2)] by (auto simp: kept_def)
  have e: "enabled (web_tsan (pop t P))" "tid_at t (pop t P) < kMaxThreads" using d(1) tid by simp_all
  obtain Q where Q: "tsan_worker_destroyed t (pop t P) = Inr Q" "workers Q = workers P" "enabled (web_tsan Q)"
    "next_tid (web_tsan Q) = next_tid (web_tsan P)" "\<And>u. tid_at u Q = (if u = t then UINT32_MAX else tid_at u P)"
    by (rule destroyed_returns [OF e, unfolded pop_sel tid_sel]) metis
  have "\<exists>r'. R = set_worker w r' Q \<and> backing_thread r' = backing_thread r \<and> shutdown_signalled r'"
    using R(1) r(1,2) Q(1,2)
    by (auto simp: PerformShutdownOnWorkerThread_def SetExitCode_def check_def bindE_eq_Inr split: if_splits)
  then obtain r' where r': "R = set_worker w r' Q" "backing_thread r' = backing_thread r" "\<not> has_tid r'"
    by (auto simp: has_tid_def)
  then have "tids_ok R"
    using d(2) by (intro tids_update [OF goodD(2) [OF assms(1)] r(1) _ r'(2)]) (simp_all add: Q r(2))
  with R show ?thesis by (simp add: good_def)
qed

lemma fine_prepare:
  assumes "good P" and "tasks P t = PrepareTask w # ks"
  shows "fine (PrepareForShutdownOnWorkerThread w (pop t P))"
proof -
  have "about w (PrepareTask w)" by (simp add: about_def)
  then obtain r where r: "workers P w = Some r" using head_of_life [OF goodD(1) [OF assms(1)] assms(2)] by metis
  show ?thesis
    by (rule fine_record_only [OF assms(1) keep_Prepare_task [OF goodD(1) [OF assms(1)] assms(2)]])
      (use r prepare_record_only [of "pop t P" w r] record_only_trans [OF record_only_post(2)] in auto)
qed

lemma fine_deliver:
  assumes "good P"
  shows "fine (ReceiveMessage w m P)" and "fine (PostMessageToWorkerObject w m P)" and "fine (DispatchMessageEvent p m P)"
proof -
  show "fine (ReceiveMessage w m P)"
  proof (cases "running w P")
    case True
    then obtain r where r: "workers P w = Some r" "thread_state r = Running" by (auto simp: running_def split: option.splits)
    obtain Q where "receive_edge (backing_thread r) m P = Inr Q" "good Q"
      using good_receive [OF assms running_tid [OF assms r]] by metis
    with r show ?thesis by (simp add: ReceiveMessage_def)
  qed (use assms in \<open>auto simp: ReceiveMessage_def running_def split: option.splits\<close>)
  show "fine (PostMessageToWorkerObject w m P)" "fine (DispatchMessageEvent p m P)"
    using assms fine_messages(2) [OF assms]
    by (auto simp: PostMessageToWorkerObject_def DispatchMessageEvent_def split: option.split)
qed

lemma fine_run_task:
  assumes "good P"
  shows "fine (run_task t P)"
proof (cases "tasks P t")
  case Nil
  with assms show ?thesis by (simp add: run_task_def)
next
  case (Cons k ks)
  have pop: "P\<lparr>tasks := (tasks P)(t := ks)\<rparr> = pop t P" using Cons by (simp add: pop_def)
  have m: "is_message k \<Longrightarrow> good (pop t P)" by (rule good_pop [OF assms Cons])
  show ?thesis
    using fine_initialize [OF assms] fine_prepare [OF assms] fine_perform [OF assms] fine_deliver m Cons
    by (cases k) (simp_all add: run_task_def pop)
qed

theorem fine_act:
  assumes "good P" and "can a P" and "own_thread a P"
  shows "fine (act a P)"
  using assms fine_create [OF assms(1)] fine_destroyed [OF assms(1)] fine_modify [OF assms(1)]
    fine_terminate [OF assms(1)] fine_task_done [OF assms(1)] fine_run_task [OF assms(1)] fine_posts [OF assms(1)]
  by (cases a) (auto simp: running_def split: option.splits)

lemma good_only_main:
  assumes "only_main P" and "enabled (web_tsan P)" and "next_tid (web_tsan P) < kMaxThreads"
    and "tid_at main_thread P < kMaxThreads" and "\<And>t. t \<noteq> main_thread \<Longrightarrow> tid_at t P = UINT32_MAX"
  shows "good P"
  using assms by (simp add: good_def lives_ok_def tids_ok_def only_main_def life_def)

end
