(* ===== verification/WorkerMessages.thy ===== *)
theory WorkerMessages
  imports WorkersProps
begin

text \<open>
  Runs of a renderer process from start-up: no check fails, running workers have ids of their own, a
  message orders what its sender did before it, and what goes wrong when workers share a thread.
\<close>

subsection \<open>From start-up\<close>

definition new_process :: "engine \<Rightarrow> process" where
  "new_process E =
     \<lparr>web_tsan = fst (eng E), tls_of = (\<lambda>_. init_tls)(main_thread := snd (eng E)),
      workers = Map.empty, tasks = (\<lambda>_. []), InitializingWorkerThreads = {}, WorkerThreads = {}\<rparr>"

lemma initialized:
  assumes "InitializeWebTSan True new_engine = Inr E"
  shows "enabled (fst (eng E))" and "next_tid (fst (eng E)) = 1" and "g_current_tsan_tid (snd (eng E)) = 0"
    and "thread_alive (fst (eng E)) = (\<lambda>_. False)(0 := True)" and "next_edge_id (fst (eng E)) = 1"
    and "hb_edges (fst (eng E)) = Map.empty"
proof -
  have [simp]: "find_slot (Enable new_WebTSan) = 0"
    using find_slot_next [of "Enable new_WebTSan"] by (simp add: Enable_def new_WebTSan_def kMaxThreads_def)
  show "enabled (fst (eng E))" "next_tid (fst (eng E)) = 1" "g_current_tsan_tid (snd (eng E)) = 0"
    "thread_alive (fst (eng E)) = (\<lambda>_. False)(0 := True)" "next_edge_id (fst (eng E)) = 1" "hb_edges (fst (eng E)) = Map.empty"
    using assms by (auto simp: InitializeWebTSan_def Let_def ThreadCreate_def bindE_eq_Inr RegisterCallbacks_def
        new_engine_def WebTSanSetCurrentTid_def join_thread_def tick_thread_def kMaxThreads_def)
      (simp_all add: Enable_def new_WebTSan_def)
qed

lemma new_process_sel [simp]: "workers (new_process E) = Map.empty" "tasks (new_process E) = (\<lambda>_. [])"
  "web_tsan (new_process E) = fst (eng E)"
  "tls_of (new_process E) = (\<lambda>_. init_tls)(main_thread := snd (eng E))"
  by (simp_all add: new_process_def)

lemma tid_new_process:
  assumes "InitializeWebTSan True new_engine = Inr E"
  shows "tid_at t (new_process E) = (if t = main_thread then 0 else UINT32_MAX)"
  using initialized(3) [OF assms] by (simp add: tid_at_def init_tls_def)

lemma good_new_process:
  assumes "InitializeWebTSan True new_engine = Inr E"
  shows "good (new_process E)"
  by (rule good_only_main)
    (simp_all add: only_main_def initialized [OF assms] tid_new_process [OF assms] kMaxThreads_def)

lemma good_reaches:
  assumes "reaches True P as Q" and "good P"
  shows "good Q"
  using assms
proof (induction rule: reaches.induct)
  case (step as Q a R)
  then show ?case using fine_act [of Q a] by (auto simp: fine_def)
qed


subsection \<open>What a step does to the detector\<close>

definition quiet :: "process \<Rightarrow> process \<Rightarrow> bool" where
  "quiet P R \<longleftrightarrow> web_tsan R = web_tsan P \<and> tls_of R = tls_of P"

lemma quiet_simps [simp]: "quiet P P" "quiet P (set_worker w r Q) \<longleftrightarrow> quiet P Q" "quiet P (post_task t k Q) \<longleftrightarrow> quiet P Q"
  "quiet P (pop t Q) \<longleftrightarrow> quiet P Q" "quiet P (Q\<lparr>InitializingWorkerThreads := A\<rparr>) \<longleftrightarrow> quiet P Q"
  "quiet P (Q\<lparr>WorkerThreads := A\<rparr>) \<longleftrightarrow> quiet P Q" "quiet P (Q\<lparr>workers := W\<rparr>) \<longleftrightarrow> quiet P Q"
  "quiet P (Q\<lparr>tasks := T\<rparr>) \<longleftrightarrow> quiet P Q" "quiet (set_worker w r P) Q \<longleftrightarrow> quiet P Q"
  "quiet (pop t P) Q \<longleftrightarrow> quiet P Q"
  by (simp_all add: quiet_def set_worker_def post_task_def pop_def)

lemma quiet_trans: "\<lbrakk>quiet P Q; quiet Q R\<rbrakk> \<Longrightarrow> quiet P R"
  by (simp add: quiet_def)

lemma quiet_folds [simp]: "quiet P (fold (\<lambda>m. post_task t (MessageToWorker w m)) ms Q) \<longleftrightarrow> quiet P Q"
  by (induction ms arbitrary: Q) simp_all

lemma get_worker_eq: "get_worker w P = Inr r \<longleftrightarrow> workers P w = Some r"
  by (simp add: get_worker_def split: option.split)

lemma check_eq: "check b x = Inr y \<longleftrightarrow> b \<and> y = x"
  by (auto simp: check_def)

lemmas eff = bindE_eq_Inr get_worker_eq check_eq Let_def

lemma no_messages [simp]: "\<not> is_message (InitializeTask w)" "\<not> is_message (PrepareTask w)" "\<not> is_message (PerformTask w)"
  by (simp_all add: is_message_def)

text \<open>
  What most steps of the life cycle have in common: they set a worker's record, all but its queue of
  early messages, and post tasks that are no messages. A relation between states that allows this
  holds across each of them.
\<close>

locale life_steps =
  fixes rel :: "process \<Rightarrow> process \<Rightarrow> bool"
  assumes same: "rel P P"
    and set: "\<lbrakk>rel P Q; workers Q w = Some r; queued_early_tasks r' = queued_early_tasks r\<rbrakk> \<Longrightarrow> rel P (set_worker w r' Q)"
    and post: "\<lbrakk>rel P Q; \<not> is_message k\<rbrakk> \<Longrightarrow> rel P (post_task t k Q)"
begin

lemma terminate:
  "\<lbrakk>TerminateRequest w Q = Inr R; rel P Q\<rbrakk> \<Longrightarrow> rel P R" "\<lbrakk>TerminatePost w Q = Inr R; rel P Q\<rbrakk> \<Longrightarrow> rel P R"
  "\<lbrakk>TerminateLocked w Q = Inr R; rel P Q\<rbrakk> \<Longrightarrow> rel P R" "\<lbrakk>TerminatePerform w Q = Inr R; rel P Q\<rbrakk> \<Longrightarrow> rel P R"
  by (auto simp: TerminateRequest_def TerminatePost_def TerminateLocked_def TerminatePerform_def
      ScheduleToTerminateScriptExecution_def eff split: if_splits intro!: post set)

lemma forcible: "\<lbrakk>ForcibleTermination w Q = Inr R; rel P Q\<rbrakk> \<Longrightarrow> rel P R"
  by (auto simp: ForcibleTermination_def EnsureScriptExecutionTerminates_def ScheduleToTerminateScriptExecution_def
      SetExitCode_def eff split: if_splits termination_state.splits intro!: set)

lemma prepare: "\<lbrakk>PrepareForShutdownOnWorkerThread w Q = Inr R; rel P Q\<rbrakk> \<Longrightarrow> rel P R"
  by (auto simp: PrepareForShutdownOnWorkerThread_def SetThreadState_def eff split: if_splits intro!: set)

lemma task_done: "\<lbrakk>DidProcessTask w Q = Inr R; rel P Q\<rbrakk> \<Longrightarrow> rel P R"
  using prepare by (auto simp: DidProcessTask_def eff split: if_splits)

lemma modify: "\<lbrakk>modify w f Q = Inr R; rel P Q; \<And>r. queued_early_tasks (f r) = queued_early_tasks r\<rbrakk> \<Longrightarrow> rel P R"
  by (auto simp: modify_def eff intro!: set)

lemma resume: "\<lbrakk>act (ResumeWorker w) Q = Inr R; rel P Q\<rbrakk> \<Longrightarrow> rel P R"
  by (auto simp: ResumeOnWorkerThread_def eff split: if_splits intro!: set)

lemma child_terminated: "\<lbrakk>ChildThreadTerminatedOnWorkerThread w c Q = Inr R; rel P Q\<rbrakk> \<Longrightarrow> rel P R"
  by (auto simp: ChildThreadTerminatedOnWorkerThread_def eff split: if_splits intro!: post set)

text \<open>The actions of this kind.\<close>

lemma life_action:
  assumes "act a P = Inr R"
    and "\<not> (\<exists>w p t n. a \<in> {Create w p t, Destroyed w, RunTask t, ScriptEvaluated w, PostToWorker w n, PostToParent w n})"
    and "\<not> (\<exists>b p p' n. a = PostToPort b p p' n)"
  shows "rel P R"
proof (cases a)
  case (ResumeWorker w)
  then show ?thesis using resume [OF _ same] assms(1) by blast
next
  case (PauseWorker w)
  with assms(1) show ?thesis
    using modify [OF _ same, of w PauseOrFreezeOnWorkerThread] by (simp add: PauseOrFreezeOnWorkerThread_def Let_def)
qed (use assms in \<open>auto intro: terminate [OF _ same] forcible [OF _ same] task_done [OF _ same] elim!: modify [OF _ same]\<close>)

end

interpretation qs: life_steps quiet
  by unfold_locales simp_all

lemma quiet_create: "CreateWorker w p t P = Inr R \<Longrightarrow> quiet P R"
  by (auto simp: CreateWorker_def Start_def eff split: option.splits)

lemma quiet_destroyed: "WorkerThreadTerminated w P = Inr R \<Longrightarrow> quiet P R"
  by (auto simp: WorkerThreadTerminated_def eff split: option.splits if_splits
      dest!: qs.child_terminated [OF _ qs.same])

text \<open>
  A step leaves the detector and the thread-local states alone, or sends, receives, gives a new
  thread its id or takes it back.
\<close>

datatype effect = Quiet | Sent thread | Received thread BlinkTransferableMessage | Born thread | Dead thread

fun effects :: "effect \<Rightarrow> process \<Rightarrow> process \<Rightarrow> bool" where
  "effects Quiet P R \<longleftrightarrow> quiet P R"
| "effects (Sent t) P R \<longleftrightarrow> (\<exists>e Q. send_edge t P = Inr (e, Q) \<and> quiet Q R)"
| "effects (Received t m) P R \<longleftrightarrow> (\<exists>P1 Q. quiet P P1 \<and> receive_edge t m P1 = Inr Q \<and> quiet Q R)"
| "effects (Born t) P R \<longleftrightarrow> (\<exists>w r P1 Q. workers P w = Some r \<and> backing_thread r = t \<and> thread_state r = NotStarted
     \<and> quiet P P1 \<and> tsan_worker_created t P1 = Inr Q \<and> quiet Q R)"
| "effects (Dead t) P R \<longleftrightarrow> (\<exists>P1 Q. quiet P P1 \<and> tsan_worker_destroyed t P1 = Inr Q \<and> quiet Q R)"

lemma deliver_effect:
  "ReceiveMessage w m P = Inr R \<Longrightarrow> R = P \<or> (\<exists>t. receive_edge t m P = Inr R)"
  "PostMessageToWorkerObject w m P = Inr R \<Longrightarrow> R = P \<or> (\<exists>t. receive_edge t m P = Inr R)"
  "DispatchMessageEvent p m P = Inr R \<Longrightarrow> R = P \<or> (\<exists>t. receive_edge t m P = Inr R)"
  by (auto simp: ReceiveMessage_def PostMessageToWorkerObject_def DispatchMessageEvent_def eff
      split: option.splits if_splits)

lemma run_task_pop: "run_task t P = (case tasks P t of [] \<Rightarrow> Inr P | k # ks \<Rightarrow>
    (case k of InitializeTask w \<Rightarrow> InitializeOnWorkerThread w (pop t P)
     | PrepareTask w \<Rightarrow> PrepareForShutdownOnWorkerThread w (pop t P)
     | PerformTask w \<Rightarrow> PerformShutdownOnWorkerThread w (pop t P)
     | MessageToWorker w m \<Rightarrow> ReceiveMessage w m (pop t P)
     | MessageToParent w m \<Rightarrow> PostMessageToWorkerObject w m (pop t P)
     | PortMessage p m \<Rightarrow> DispatchMessageEvent p m (pop t P)))"
  by (auto simp: run_task_def pop_def split: list.split wtask.split)

lemma initialize_effect:
  assumes "InitializeOnWorkerThread w (pop t P) = Inr R"
  shows "\<exists>u. effects (Born u) P R"
proof -
  obtain r Q where r: "workers P w = Some r" "thread_state r = NotStarted"
    "tsan_worker_created (backing_thread r) (pop t P) = Inr Q" "quiet Q R"
    using assms by (auto simp: InitializeOnWorkerThread_def SetThreadState_def eff split: if_splits
        dest!: qs.prepare)
  then show ?thesis unfolding effects.simps by (metis quiet_simps(1,4))
qed

lemma perform_effect:
  assumes "PerformShutdownOnWorkerThread w (pop t P) = Inr R"
  shows "\<exists>u. effects (Dead u) P R"
proof -
  obtain r Q where "workers P w = Some r" "tsan_worker_destroyed (backing_thread r) (pop t P) = Inr Q" "quiet Q R"
    using assms by (auto simp: PerformShutdownOnWorkerThread_def SetExitCode_def eff split: if_splits)
  then show ?thesis unfolding effects.simps by (metis quiet_simps(1,4))
qed

lemma received: "\<lbrakk>receive_edge t m (pop u P) = Inr R\<rbrakk> \<Longrightarrow> effects (Received t m) P R"
  unfolding effects.simps by (metis quiet_simps(1,4))

text \<open>A message is received by a task at the head of a queue.\<close>

fun edge_of :: "wtask \<Rightarrow> u64 option" where
  "edge_of (MessageToWorker w m) = Some (tsan_edge_id m)"
| "edge_of (MessageToParent w m) = Some (tsan_edge_id m)"
| "edge_of (PortMessage p m) = Some (tsan_edge_id m)"
| "edge_of k = None"

definition sound_effect :: "effect \<Rightarrow> action \<Rightarrow> process \<Rightarrow> process \<Rightarrow> bool" where
  "sound_effect f a P R \<longleftrightarrow> effects f P R \<and> (\<forall>t m. f = Received t m \<longrightarrow>
     (\<exists>u k ks. a = RunTask u \<and> tasks P u = k # ks \<and> edge_of k = Some (tsan_edge_id m)))"

lemma sound_effectI:
  "quiet P R \<Longrightarrow> \<exists>f. sound_effect f a P R" "effects (Sent t) P R \<Longrightarrow> \<exists>f. sound_effect f a P R"
  "effects (Born t) P R \<Longrightarrow> \<exists>f. sound_effect f a P R" "effects (Dead t) P R \<Longrightarrow> \<exists>f. sound_effect f a P R"
  unfolding sound_effect_def by (metis effects.simps(1) effect.distinct)+

lemma run_task_effect:
  assumes "run_task t P = Inr R"
  shows "\<exists>f. sound_effect f (RunTask t) P R"
proof (cases "tasks P t")
  case Nil
  with assms show ?thesis using sound_effectI(1) [of P P] by (simp add: run_task_def)
next
  case (Cons k ks)
  have q: "\<exists>f. sound_effect f (RunTask t) P R" if "quiet (pop t P) R"
    using that sound_effectI(1) [of P R] by simp
  have d: "\<exists>f. sound_effect f (RunTask t) P R"
    if "R = pop t P \<or> (\<exists>u. receive_edge u m (pop t P) = Inr R)" "edge_of k = Some (tsan_edge_id m)" for m
    using that q received Cons unfolding sound_effect_def by fastforce
  show ?thesis
  proof (cases k)
    case (InitializeTask w)
    with assms Cons have "InitializeOnWorkerThread w (pop t P) = Inr R" by (simp add: run_task_pop)
    then show ?thesis using initialize_effect sound_effectI(3) by blast
  next
    case (PrepareTask w)
    with assms Cons have "PrepareForShutdownOnWorkerThread w (pop t P) = Inr R" by (simp add: run_task_pop)
    then have "quiet (pop t P) R" by (rule qs.prepare) simp
    then show ?thesis by (rule q)
  next
    case (PerformTask w)
    with assms Cons have "PerformShutdownOnWorkerThread w (pop t P) = Inr R" by (simp add: run_task_pop)
    then show ?thesis using perform_effect sound_effectI(4) by blast
  next
    case (MessageToWorker w m)
    with assms Cons have "ReceiveMessage w m (pop t P) = Inr R" by (simp add: run_task_pop)
    then show ?thesis using d [of m] deliver_effect(1) MessageToWorker by simp
  next
    case (MessageToParent w m)
    with assms Cons have "PostMessageToWorkerObject w m (pop t P) = Inr R" by (simp add: run_task_pop)
    then show ?thesis using d [of m] deliver_effect(2) MessageToParent by simp
  next
    case (PortMessage p m)
    with assms Cons have "DispatchMessageEvent p m (pop t P) = Inr R" by (simp add: run_task_pop)
    then show ?thesis using d [of m] deliver_effect(3) PortMessage by simp
  qed
qed

lemma post_effect:
  "DedicatedWorker_postMessage w n P = Inr R \<Longrightarrow> \<exists>t. effects (Sent t) P R"
  "DedicatedWorkerGlobalScope_postMessage w n P = Inr R \<Longrightarrow> \<exists>t. effects (Sent t) P R"
  "MessagePort_postMessage b p p' n P = Inr R \<Longrightarrow> R = P \<or> (\<exists>t. effects (Sent t) P R)"
  by (force simp: DedicatedWorker_postMessage_def PostMessageToWorkerGlobalScope_def
      DedicatedWorkerGlobalScope_postMessage_def MessagePort_postMessage_def eff split: if_splits prod.splits)+

lemma script_evaluated: "DidEvaluateScript w P = Inr R \<Longrightarrow> quiet P R"
  by (auto simp: DidEvaluateScript_def eff)

lemma act_effect:
  assumes "act a P = Inr R"
  shows "\<exists>f. sound_effect f a P R"
proof (cases a)
  case (Create w p t)
  with assms quiet_create have "quiet P R" by simp
  then show ?thesis by (rule sound_effectI(1))
next
  case (Destroyed w)
  with assms quiet_destroyed have "quiet P R" by simp
  then show ?thesis by (rule sound_effectI(1))
next
  case (ScriptEvaluated w)
  with assms script_evaluated have "quiet P R" by simp
  then show ?thesis by (rule sound_effectI(1))
next
  case (RunTask t)
  with assms run_task_effect show ?thesis by simp
next
  case (PostToWorker w n)
  with assms post_effect(1) obtain t where "effects (Sent t) P R" by (metis act.simps)
  then show ?thesis by (rule sound_effectI(2))
next
  case (PostToParent w n)
  with assms post_effect(2) obtain t where "effects (Sent t) P R" by (metis act.simps)
  then show ?thesis by (rule sound_effectI(2))
next
  case (PostToPort b p p' n)
  with assms post_effect(3) [of b p p' n P R] consider "R = P" | t where "effects (Sent t) P R" by auto
  then show ?thesis
  proof cases
    case 1
    then have "quiet P R" by simp
    then show ?thesis by (rule sound_effectI(1))
  qed (rule sound_effectI(2))
qed (rule sound_effectI(1), rule qs.life_action [OF assms]; simp)+

subsection \<open>Ids\<close>

definition ids_ok :: "process \<Rightarrow> bool" where
  "ids_ok P \<longleftrightarrow> (\<forall>t. tid_at t P < kMaxThreads \<longrightarrow> thread_alive (web_tsan P) (tid_at t P))
   \<and> (\<forall>t u. tid_at t P < kMaxThreads \<and> tid_at t P = tid_at u P \<longrightarrow> t = u)
   \<and> (\<forall>n < kMaxThreads. thread_alive (web_tsan P) n \<longrightarrow> (\<exists>t. tid_at t P = n))"

lemma tid_range:
  assumes "good P"
  shows "tid_at t P < kMaxThreads \<or> tid_at t P = UINT32_MAX"
  using tids_okD(3,6,7,8) [OF goodD(2) [OF assms]] by metis

lemma ids_okD:
  assumes "ids_ok P"
  shows "tid_at t P < kMaxThreads \<Longrightarrow> thread_alive (web_tsan P) (tid_at t P)"
    and "\<lbrakk>tid_at t P < kMaxThreads; tid_at u P = tid_at t P\<rbrakk> \<Longrightarrow> u = t"
    and "\<lbrakk>n < kMaxThreads; thread_alive (web_tsan P) n\<rbrakk> \<Longrightarrow> \<exists>t. tid_at t P = n"
  using assms by (auto simp: ids_ok_def)

text \<open>Fewer workers than slots leave a slot free for one that has not started.\<close>

lemma slot_free:
  assumes "good P" and "ids_ok P" and "finite (dom (workers P))" and "card (dom (workers P)) < kMaxThreads"
    and "workers P w = Some r" and "\<not> has_tid r"
  shows "\<exists>n < kMaxThreads. \<not> thread_alive (web_tsan P) n"
proof (rule ccontr)
  assume "\<not> ?thesis"
  then have all: "thread_alive (web_tsan P) n" if "n < kMaxThreads" for n using that by blast
  note d = tids_okD [OF goodD(2) [OF assms(1)]]
  let ?f = "\<lambda>v. if v = w then tid_at main_thread P else tid_at (backing_thread (the (workers P v))) P"
  have "{..<kMaxThreads} \<subseteq> ?f ` dom (workers P)"
  proof
    fix n assume "n \<in> {..<kMaxThreads}"
    then obtain t where t: "tid_at t P = n" "n < kMaxThreads" using all assms(2) unfolding ids_ok_def by blast
    then have nm: "tid_at t P \<noteq> UINT32_MAX" using tid_max by simp
    show "n \<in> ?f ` dom (workers P)"
    proof (cases "t = main_thread")
      case True
      then show ?thesis using t assms(5) by (intro image_eqI [where x = w]) auto
    next
      case False
      then obtain v x where v: "workers P v = Some x" "backing_thread x = t" using d(8) nm by blast
      then have "v \<noteq> w" using d(7) assms(5,6) nm by auto
      then show ?thesis using t v by (intro image_eqI [where x = v]) auto
    qed
  qed
  from surj_card_le [OF assms(3) this] assms(4) show False by simp
qed

lemma ids_created:
  assumes "good P" and "ids_ok P" and "effects (Born t) P R"
    and "finite (dom (workers P))" and "card (dom (workers P)) < kMaxThreads"
  shows "ids_ok R"
proof -
  note d = tids_okD [OF goodD(2) [OF assms(1)]]
  from assms(3) obtain w r P1 Q0 where w: "workers P w = Some r" "backing_thread r = t" "thread_state r = NotStarted"
    and q: "quiet P P1" "tsan_worker_created t P1 = Inr Q0" "quiet Q0 R" by auto
  have nt: "\<not> has_tid r" using w(3) by (simp add: has_tid_def)
  then have old: "tid_at t P = UINT32_MAX" using d(7) w by blast
  let ?n = "find_slot (web_tsan P)"
  obtain u where "u < kMaxThreads" "\<not> thread_alive (web_tsan P) u"
    using slot_free [OF assms(1,2,4,5) w(1) nt] by blast
  then have free: "\<not> thread_alive (web_tsan P) ?n" using find_slot_free d(2) by blast
  have "enabled (web_tsan P1)" "next_tid (web_tsan P1) < kMaxThreads" using q(1) d(1,2) by (simp_all add: quiet_def)
  then obtain Q where "tsan_worker_created t P1 = Inr Q"
    "\<And>u. tid_at u Q = (if u = t then find_slot (web_tsan P1) else tid_at u P1)"
    "thread_alive (web_tsan Q) = (thread_alive (web_tsan P1))(find_slot (web_tsan P1) := True)"
    by (rule created_returns [of P1 t]) metis
  with q have tid: "tid_at u R = (if u = t then ?n else tid_at u P)"
    and al: "thread_alive (web_tsan R) = (thread_alive (web_tsan P))(?n := True)" for u
    by (auto simp: quiet_def tid_at_def)
  have mx: "UINT32_MAX \<noteq> n" if "n < kMaxThreads" for n using tid_max [OF that] by simp
  show ?thesis
    unfolding ids_ok_def tid al
  proof (intro conjI allI impI)
    fix u assume "(if u = t then ?n else tid_at u P) < kMaxThreads"
    then show "((thread_alive (web_tsan P))(?n := True)) (if u = t then ?n else tid_at u P)"
      using assms(2) unfolding ids_ok_def by auto
  next
    fix u v assume a: "(if u = t then ?n else tid_at u P) < kMaxThreads
      \<and> (if u = t then ?n else tid_at u P) = (if v = t then ?n else tid_at v P)"
    have new: "tid_at x P \<noteq> ?n" if "?n < kMaxThreads" for x
      using ids_okD(1) [OF assms(2), of x] free that by auto
    show "u = v"
    proof (cases "u = t \<or> v = t")
      case True
      with a new [of u] new [of v] show ?thesis by (auto split: if_splits)
    next
      case False
      with a ids_okD(2) [OF assms(2), of v u] show ?thesis by auto
    qed
  next
    fix n assume n: "n < kMaxThreads" "((thread_alive (web_tsan P))(?n := True)) n"
    show "\<exists>u. (if u = t then ?n else tid_at u P) = n"
    proof (cases "n = ?n")
      case False
      then obtain u where u: "tid_at u P = n" using n assms(2) unfolding ids_ok_def by auto
      then have "u \<noteq> t" using old mx [OF n(1)] by auto
      with u show ?thesis by auto
    qed auto
  qed
qed

lemma ids_destroyed:
  assumes "good P" and "ids_ok P" and "effects (Dead t) P R"
  shows "ids_ok R"
proof -
  note d = tids_okD [OF goodD(2) [OF assms(1)]]
  from assms(3) obtain P1 Q0 where q: "quiet P P1" "tsan_worker_destroyed t P1 = Inr Q0" "quiet Q0 R" by auto
  show ?thesis
  proof (cases "tid_at t P = UINT32_MAX")
    case True
    then have "Q0 = P1" using q by (simp add: tsan_worker_destroyed_def current_tid quiet_def tid_at_def)
    with q have "tls_of R = tls_of P" "web_tsan R = web_tsan P" by (simp_all add: quiet_def)
    then show ?thesis using assms(2) by (simp add: ids_ok_def tid_at_def)
  next
    case False
    then have lt: "tid_at t P < kMaxThreads" using tid_range [OF assms(1)] by blast
    then have "enabled (web_tsan P1)" "tid_at t P1 < kMaxThreads" using q(1) d(1) by (simp_all add: quiet_def tid_at_def)
    then obtain Q where "tsan_worker_destroyed t P1 = Inr Q"
      "\<And>u. tid_at u Q = (if u = t then UINT32_MAX else tid_at u P1)"
      "thread_alive (web_tsan Q) = (thread_alive (web_tsan P1))(tid_at t P1 := False)"
      by (rule destroyed_returns) metis
    with q have tid: "tid_at u R = (if u = t then UINT32_MAX else tid_at u P)"
      and al: "thread_alive (web_tsan R) = (thread_alive (web_tsan P))(tid_at t P := False)" for u
      by (auto simp: quiet_def tid_at_def)
    have big: "\<not> UINT32_MAX < kMaxThreads" by (simp add: UINT32_MAX_def kMaxThreads_def)
    show ?thesis
      unfolding ids_ok_def tid al
    proof (intro conjI allI impI)
      fix u assume "(if u = t then UINT32_MAX else tid_at u P) < kMaxThreads"
      then have u: "u \<noteq> t" "tid_at u P < kMaxThreads" using big by (auto split: if_splits)
      then show "((thread_alive (web_tsan P))(tid_at t P := False)) (if u = t then UINT32_MAX else tid_at u P)"
        using ids_okD(1,2) [OF assms(2) u(2)] by auto
    next
      fix u v assume "(if u = t then UINT32_MAX else tid_at u P) < kMaxThreads
        \<and> (if u = t then UINT32_MAX else tid_at u P) = (if v = t then UINT32_MAX else tid_at v P)"
      then have "tid_at u P < kMaxThreads" "tid_at v P = tid_at u P" using big by (auto split: if_splits)
      then show "u = v" using ids_okD(2) [OF assms(2), of u v] by simp
    next
      fix n assume n: "n < kMaxThreads" "((thread_alive (web_tsan P))(tid_at t P := False)) n"
      then obtain u where "tid_at u P = n" "n \<noteq> tid_at t P" using ids_okD(3) [OF assms(2) n(1)] by (auto split: if_splits)
      then show "\<exists>u. (if u = t then UINT32_MAX else tid_at u P) = n" by (intro exI [of _ u]) auto
    qed
  qed
qed

lemma ids_effect:
  assumes "good P" and "ids_ok P" and "effects f P R"
    and "finite (dom (workers P))" and "card (dom (workers P)) < kMaxThreads"
  shows "ids_ok R"
proof (cases f)
  case Quiet
  with assms(2,3) show ?thesis by (simp add: quiet_def ids_ok_def tid_at_def)
next
  case (Sent t)
  with assms(3) have "thread_alive (web_tsan R) = thread_alive (web_tsan P)" "tls_of R = tls_of P"
    by (auto simp: quiet_def send_edge_def OnPostMessageSend_def HappensBefore_def index_tid_def Let_def
        bindE_eq_Inr dstate_of_def set_dstate_def split: if_splits prod.splits)
  with assms(2) show ?thesis by (simp add: ids_ok_def tid_at_def)
next
  case (Received t m)
  with assms(3) have "thread_alive (web_tsan R) = thread_alive (web_tsan P)" "tls_of R = tls_of P"
    by (auto simp: quiet_def receive_edge_def OnPostMessageReceive_def HappensAfter_def index_tid_def Let_def callE_def
        bindE_eq_Inr dstate_of_def set_dstate_def join_thread_def split: if_splits option.splits)
  with assms(2) show ?thesis by (simp add: ids_ok_def tid_at_def)
next
  case (Born t)
  with assms show ?thesis using ids_created by blast
next
  case (Dead t)
  with assms show ?thesis using ids_destroyed by blast
qed

text \<open>Only \<open>Create\<close> adds a worker.\<close>

definition no_new :: "process \<Rightarrow> process \<Rightarrow> bool" where
  "no_new P R \<longleftrightarrow> dom (workers R) \<subseteq> dom (workers P)"

lemma no_new_simps [simp]: "no_new P P" "no_new P (post_task t k Q) \<longleftrightarrow> no_new P Q" "no_new P (pop t Q) \<longleftrightarrow> no_new P Q"
  "no_new P (Q\<lparr>InitializingWorkerThreads := A\<rparr>) \<longleftrightarrow> no_new P Q" "no_new P (Q\<lparr>WorkerThreads := A\<rparr>) \<longleftrightarrow> no_new P Q"
  "no_new (pop t P) Q \<longleftrightarrow> no_new P Q" "no_new P Q \<Longrightarrow> no_new P (Q\<lparr>workers := (workers Q)(w := None)\<rparr>)"
  by (auto simp: no_new_def)

lemma no_new_set: "\<lbrakk>workers Q w = Some r; no_new P Q\<rbrakk> \<Longrightarrow> no_new P (set_worker w r' Q)"
  by (auto simp: no_new_def)

lemma no_new_trans: "\<lbrakk>no_new P Q; no_new Q R\<rbrakk> \<Longrightarrow> no_new P R"
  by (auto simp: no_new_def)

lemma no_new_same: "workers Q = workers P \<Longrightarrow> no_new P Q"
  by (simp add: no_new_def)

lemma no_new_folds [simp]: "no_new P (fold (\<lambda>m. post_task t (MessageToWorker w m)) ms Q) \<longleftrightarrow> no_new P Q"
  by (induction ms arbitrary: Q) simp_all

interpretation ns: life_steps no_new
  by unfold_locales (auto simp: no_new_set)

lemma initialize_cases:
  assumes "InitializeOnWorkerThread w P = Inr R"
  obtains r Q r' where "workers P w = Some r" and "thread_state r = NotStarted"
    and "tsan_worker_created (backing_thread r) P = Inr Q" and "queued_early_tasks r' = queued_early_tasks r"
    and "PrepareForShutdownOnWorkerThread w (set_worker w r' Q) = Inr R \<or>
       R = set_worker w r' Q\<lparr>InitializingWorkerThreads := InitializingWorkerThreads Q - {w}, WorkerThreads := insert w (WorkerThreads Q)\<rparr>"
proof -
  obtain r Q where r: "workers P w = Some r" "thread_state r = NotStarted" "tsan_worker_created (backing_thread r) P = Inr Q"
    using assms by (auto simp: InitializeOnWorkerThread_def eff split: if_splits)
  let ?r = "r\<lparr>runners_initialized := True, context_globals := if enabled (web_tsan Q)
     then InstallWebTSanGlobals (dstate_of (backing_thread r) Q) (context_globals r) else context_globals r,
     thread_state := Running\<rparr>"
  have "PrepareForShutdownOnWorkerThread w (set_worker w ?r Q) = Inr R \<or>
       R = set_worker w ?r Q\<lparr>InitializingWorkerThreads := InitializingWorkerThreads Q - {w}, WorkerThreads := insert w (WorkerThreads Q)\<rparr>"
    using assms r by (simp add: InitializeOnWorkerThread_def SetThreadState_def check_def Let_def set_worker_def split: if_splits)
  then show thesis by (intro that [OF r, of ?r]) simp_all
qed

lemma no_new_run_task:
  assumes "run_task t P = Inr R"
  shows "no_new P R"
proof (cases "tasks P t")
  case Nil
  with assms show ?thesis by (simp add: run_task_def)
next
  case (Cons k ks)
  have e: "receive_edge u m (pop t P) = Inr R \<Longrightarrow> no_new P R" for u m
    using edge_same(2) [of u m "pop t P" R] no_new_same by auto
  have i: "no_new P R" if i: "InitializeOnWorkerThread w (pop t P) = Inr R" for w
  proof -
    obtain r Q r' where q: "workers P w = Some r" "tsan_worker_created (backing_thread r) (pop t P) = Inr Q"
      "PrepareForShutdownOnWorkerThread w (set_worker w r' Q) = Inr R \<or>
       R = set_worker w r' Q\<lparr>InitializingWorkerThreads := InitializingWorkerThreads Q - {w}, WorkerThreads := insert w (WorkerThreads Q)\<rparr>"
      by (rule initialize_cases [OF i, unfolded pop_sel]) blast
    have "workers Q = workers P" using created_same [OF q(2)] by simp
    then have s: "no_new P (set_worker w r' Q)" using q(1) by (intro no_new_set no_new_same) auto
    from q(3) show ?thesis
    proof
      assume "PrepareForShutdownOnWorkerThread w (set_worker w r' Q) = Inr R"
      from ns.prepare [OF this s] show ?thesis .
    qed (use s in simp)
  qed
  have f: "no_new P R" if i: "PerformShutdownOnWorkerThread w (pop t P) = Inr R" for w
  proof -
    obtain r Q r' where q: "workers P w = Some r" "tsan_worker_destroyed (backing_thread r) (pop t P) = Inr Q"
      "R = set_worker w r' Q"
      using i by (auto simp: PerformShutdownOnWorkerThread_def eff split: if_splits)
    have "workers Q = workers P" using destroyed_same [OF q(2)] by simp
    then show ?thesis unfolding q(3) using q(1) by (intro no_new_set no_new_same) auto
  qed
  show ?thesis
    using assms Cons
    by (cases k; simp add: run_task_pop)
      (auto intro: i f e ns.prepare dest!: deliver_effect)
qed

lemma no_new_posts:
  "DedicatedWorker_postMessage w n P = Inr R \<Longrightarrow> no_new P R"
  "DedicatedWorkerGlobalScope_postMessage w n P = Inr R \<Longrightarrow> no_new P R"
  "MessagePort_postMessage b p p' n P = Inr R \<Longrightarrow> no_new P R"
  by (auto simp: DedicatedWorker_postMessage_def PostMessageToWorkerGlobalScope_def
      DedicatedWorkerGlobalScope_postMessage_def MessagePort_postMessage_def eff
      split: if_splits prod.splits dest!: edge_same intro: no_new_same no_new_set)

lemma no_new_destroyed: "WorkerThreadTerminated w P = Inr R \<Longrightarrow> no_new P R"
  by (auto simp: WorkerThreadTerminated_def eff split: option.splits if_splits
      dest!: ns.child_terminated [OF _ ns.same])

fun created :: "action \<Rightarrow> wid set" where
  "created (Create w p t) = {w}"
| "created a = {}"

lemma act_workers:
  assumes "act a P = Inr R"
  shows "dom (workers R) \<subseteq> dom (workers P) \<union> created a"
proof (cases "\<exists>w p t. a = Create w p t")
  case True
  then obtain w p t where a: "a = Create w p t" by blast
  with assms show ?thesis
    by (auto simp: CreateWorker_def Start_def ChildThreadStartedOnWorkerThread_def eff split: option.splits if_splits)
next
  case False
  have "no_new P R"
  proof (cases "\<exists>w t n b p p'. a \<in> {Destroyed w, RunTask t, ScriptEvaluated w, PostToWorker w n, PostToParent w n, PostToPort b p p' n}")
    case True
    have "DidEvaluateScript w P = Inr R \<Longrightarrow> no_new P R" for w
      by (auto simp: DidEvaluateScript_def eff no_new_set)
    with True assms no_new_destroyed [of _ P R] no_new_run_task [of _ P R] no_new_posts(1,2) [of _ _ P R]
      no_new_posts(3) [of _ _ _ _ P R] show ?thesis
      by auto
  next
    case rest: False
    show ?thesis by (rule ns.life_action [OF assms]) (use rest False in auto)
  qed
  then show ?thesis by (auto simp: no_new_def)
qed

lemma created_card: "finite (created a) \<and> card (created a) \<le> length (filter (\<lambda>a. created a \<noteq> {}) [a])"
  by (cases a) simp_all

text \<open>There are at most as many workers as were created.\<close>

lemma workers_bounded:
  assumes "reaches d P as Q" and "workers P = Map.empty"
  shows "finite (dom (workers Q)) \<and> card (dom (workers Q)) \<le> length (filter (\<lambda>a. created a \<noteq> {}) as)"
  using assms
proof (induction rule: reaches.induct)
  case (step as Q a R)
  then have f: "finite (dom (workers Q) \<union> created a)" using created_card [of a] by simp
  have "card (dom (workers R)) \<le> card (dom (workers Q) \<union> created a)"
    using act_workers [OF step(4)] f by (rule card_mono [rotated])
  also have "\<dots> \<le> card (dom (workers Q)) + card (created a)" by (rule card_Un_le)
  finally show ?case
    using step.IH step.prems created_card [of a] finite_subset [OF act_workers [OF step(4)] f] by auto
qed simp

lemma ids_reaches:
  assumes "reaches True P as Q" and "good P" and "ids_ok P" and "workers P = Map.empty"
    and "\<And>bs cs S. \<lbrakk>as = bs @ cs; reaches True P bs S\<rbrakk> \<Longrightarrow> card (dom (workers S)) < kMaxThreads"
  shows "ids_ok Q"
  using assms
proof (induction rule: reaches.induct)
  case (step as Q a R)
  have "card (dom (workers S)) < kMaxThreads" if "as = bs @ cs" "reaches True P bs S" for bs cs S
    using step.prems(4) [of bs "cs @ [a]" S] that by simp
  then have ids: "ids_ok Q" using step.IH step.prems by blast
  have "card (dom (workers Q)) < kMaxThreads" using step.prems(4) [of as "[a]" Q] step(1) by simp
  moreover have "finite (dom (workers Q))" using workers_bounded [OF step(1)] step.prems by blast
  moreover have "good Q" using good_reaches [OF step(1) step.prems(1)] .
  moreover obtain f where "effects f Q R" using act_effect [OF step(4)] by (auto simp: sound_effect_def)
  ultimately show ?case using ids_effect ids by blast
qed simp

lemma ids_new_process:
  assumes "InitializeWebTSan True new_engine = Inr E"
  shows "ids_ok (new_process E)"
  unfolding ids_ok_def tid_new_process [OF assms]
  by (auto simp: initialized(4) [OF assms] kMaxThreads_def UINT32_MAX_def)

text \<open>
  C37: as long as fewer workers exist than the detector has slots, running workers have ids of their own:
  in range, alive, different from each other's and from the main thread's. (Each worker has its thread.)
\<close>

theorem running_workers_have_own_ids:
  assumes "InitializeWebTSan True new_engine = Inr E" and "reaches True (new_process E) as Q"
    and "\<And>bs cs S. \<lbrakk>as = bs @ cs; reaches True (new_process E) bs S\<rbrakk> \<Longrightarrow> card (dom (workers S)) < kMaxThreads"
    and "workers Q v = Some r" and "thread_state r = Running" and "workers Q w = Some q" and "thread_state q = Running"
    and "v \<noteq> w"
  shows "tid_at (backing_thread r) Q < kMaxThreads \<and> thread_alive (web_tsan Q) (tid_at (backing_thread r) Q)
    \<and> tid_at (backing_thread r) Q \<noteq> tid_at (backing_thread q) Q
    \<and> tid_at (backing_thread r) Q \<noteq> tid_at main_thread Q"
proof -
  have ids: "ids_ok Q"
    by (rule ids_reaches [OF assms(2) good_new_process [OF assms(1)] ids_new_process [OF assms(1)] _ assms(3)]) simp_all
  have g: "good Q" using good_reaches [OF assms(2) good_new_process [OF assms(1)]] .
  note d = tids_okD [OF goodD(2) [OF g]]
  have lt: "tid_at (backing_thread r) Q < kMaxThreads" using running_tid [OF g assms(4,5)] .
  have "backing_thread q \<noteq> backing_thread r" "main_thread \<noteq> backing_thread r"
    using d(4) [OF assms(4)] d(5) [OF assms(4,6)] assms(8) by auto
  then show ?thesis using lt ids_okD(1,2) [OF ids lt] by metis
qed

subsection \<open>A message in flight\<close>

definition pending :: "u64 \<Rightarrow> wtask list \<Rightarrow> nat" where
  "pending e ks = length (filter (\<lambda>k. edge_of k = Some e) ks)"

text \<open>How many messages with an edge are in a thread's queue, or held back for a worker.\<close>

definition copies :: "u64 \<Rightarrow> process \<Rightarrow> thread + wid \<Rightarrow> nat" where
  "copies e P x = (case x of
     Inl t \<Rightarrow> pending e (tasks P t)
   | Inr w \<Rightarrow> (case workers P w of None \<Rightarrow> 0 | Some r \<Rightarrow> length (filter (\<lambda>m. tsan_edge_id m = e) (queued_early_tasks r))))"

lemma copies_thread: "copies e P (Inl t) = pending e (tasks P t)"
  by (simp add: copies_def)

lemma copies_worker: "workers P w = Some r \<Longrightarrow> copies e P (Inr w) = length (filter (\<lambda>m. tsan_edge_id m = e) (queued_early_tasks r))"
  by (simp add: copies_def)

lemma copies_post: "copies e (post_task t k P) = (if edge_of k = Some e then (copies e P)(Inl t := copies e P (Inl t) + 1) else copies e P)"
  by (auto simp: copies_def post_task_def pending_def fun_eq_iff split: sum.split)

lemma copies_set:
  "\<lbrakk>workers P w = Some r; queued_early_tasks r' = queued_early_tasks r\<rbrakk> \<Longrightarrow> copies e (set_worker w r' P) = copies e P"
  by (auto simp: copies_def set_worker_def fun_eq_iff split: sum.split)

lemma copies_same: "\<lbrakk>workers Q = workers P; tasks Q = tasks P\<rbrakk> \<Longrightarrow> copies e Q = copies e P"
  by (rule ext) (simp add: copies_def split: sum.split)

lemma copies_sets [simp]: "copies e (P\<lparr>InitializingWorkerThreads := A\<rparr>) = copies e P" "copies e (P\<lparr>WorkerThreads := A\<rparr>) = copies e P"
  by (rule copies_same; simp)+

lemma copies_pop:
  assumes "tasks P t = k # ks"
  shows "copies e (pop t P) = (if edge_of k = Some e then (copies e P)(Inl t := copies e P (Inl t) - 1) else copies e P)"
  using assms by (auto simp: copies_def pop_def pending_def fun_eq_iff split: sum.split)

lemma edge_of_life [simp]: "\<not> is_message k \<Longrightarrow> edge_of k = None"
  by (cases k) (simp_all add: is_message_def)

interpretation cs: life_steps "\<lambda>P Q. copies e Q = copies e P"
  by unfold_locales (simp_all add: copies_set copies_post)

text \<open>An edge in flight: its clock is kept, and one message carries it.\<close>

definition in_flight :: "u64 \<Rightarrow> vclock \<Rightarrow> process \<Rightarrow> bool" where
  "in_flight e c P \<longleftrightarrow> hb_edges (web_tsan P) e = Some c \<and> (\<exists>x. copies e P = (\<lambda>_. 0)(x := 1))"

definition edge_safe :: "u64 \<Rightarrow> vclock \<Rightarrow> process \<Rightarrow> bool" where
  "edge_safe e c P \<longleftrightarrow> e < next_edge_id (web_tsan P) \<and> (copies e P = (\<lambda>_. 0) \<or> in_flight e c P)"

text \<open>What a step can do to the copies of an edge that is not its own.\<close>

definition moves :: "u64 \<Rightarrow> process \<Rightarrow> process \<Rightarrow> bool" where
  "moves e P R \<longleftrightarrow> copies e R = copies e P \<or> (\<exists>x. copies e R = (copies e P)(x := 0))
     \<or> (\<exists>w t. copies e R = (copies e P)(Inr w := 0, Inl t := copies e P (Inl t) + copies e P (Inr w)))"

lemma copies_create:
  assumes "CreateWorker w p t P = Inr R" and "workers P w = None"
  shows "copies e R = copies e P"
proof -
  have n: "copies e (set_worker w (new_WorkerThread p u) Q) = copies e Q" if "workers Q w = None" for u Q
    using that by (auto simp: copies_def set_worker_def new_WorkerThread_def fun_eq_iff split: sum.split)
  have s: "copies e (set_worker v r' (set_worker w (new_WorkerThread p u) P\<lparr>InitializingWorkerThreads := A\<rparr>)) = copies e P"
    if "workers P v = Some r" "queued_early_tasks r' = queued_early_tasks r" for v r r' u A
    using copies_set [of "set_worker w (new_WorkerThread p u) P\<lparr>InitializingWorkerThreads := A\<rparr>" v r r' e] n [OF assms(2)] that assms(2)
    by (cases "v = w") auto
  show ?thesis
    using assms n s
    by (auto simp: CreateWorker_def Start_def ChildThreadStartedOnWorkerThread_def eff copies_post split: option.splits if_splits)
qed

lemma copies_destroyed:
  assumes "WorkerThreadTerminated w P = Inr R"
  shows "copies e R = copies e P \<or> copies e R = (copies e P)(Inr w := 0)"
proof -
  have z: "copies e (Q\<lparr>workers := (workers Q)(w := None), InitializingWorkerThreads := A, WorkerThreads := B\<rparr>)
      = (copies e Q)(Inr w := 0)" for Q A B
    by (auto simp: copies_def fun_eq_iff split: sum.split)
  have "R = P \<or> (\<exists>Q. copies e Q = copies e P \<and>
      R = Q\<lparr>workers := (workers Q)(w := None), InitializingWorkerThreads := InitializingWorkerThreads Q - {w},
            WorkerThreads := WorkerThreads Q - {w}\<rparr>)"
    using assms by (auto simp: WorkerThreadTerminated_def eff split: option.splits if_splits
        dest!: cs.child_terminated [OF _ refl, of _ _ _ _ e])
  then show ?thesis using z by auto
qed

lemma copies_evaluated:
  assumes "DidEvaluateScript w P = Inr R"
  obtains t where "copies e R = (copies e P)(Inr w := 0, Inl t := copies e P (Inl t) + copies e P (Inr w))"
proof -
  have f: "copies e (fold (\<lambda>m. post_task t (MessageToWorker w m)) ms Q)
      = (copies e Q)(Inl t := copies e Q (Inl t) + length (filter (\<lambda>m. tsan_edge_id m = e) ms))" for t ms Q
    by (induction ms arbitrary: Q) (simp_all add: copies_post)
  obtain r where r: "workers P w = Some r" "R = fold (\<lambda>m. post_task (backing_thread r) (MessageToWorker w m)) (queued_early_tasks r)
      (set_worker w (r\<lparr>was_script_evaluated := True, queued_early_tasks := []\<rparr>) P)"
    using assms by (auto simp: DidEvaluateScript_def eff)
  have "copies e (set_worker w (r\<lparr>was_script_evaluated := True, queued_early_tasks := []\<rparr>) P) = (copies e P)(Inr w := 0)"
    by (auto simp: copies_def set_worker_def fun_eq_iff split: sum.split)
  with r(2) show thesis
    by (intro that [of "backing_thread r"]) (simp add: f copies_worker [of P w r e, OF r(1)])
qed

text \<open>The detector's counter and edges across a step.\<close>

lemma effect_edges:
  assumes "effects f P R" and "good P"
  shows "(next_edge_id (web_tsan R) = next_edge_id (web_tsan P) \<or>
      (\<exists>t. f = Sent t) \<and> next_edge_id (web_tsan R) = next_edge_id (web_tsan P) + 1)
    \<and> (\<forall>e. hb_edges (web_tsan R) e = hb_edges (web_tsan P) e \<or> (\<exists>t. f = Sent t) \<and> e = next_edge_id (web_tsan P)
        \<or> (\<exists>t m. f = Received t m \<and> tsan_edge_id m = e))"
proof (cases f)
  case Quiet
  with assms show ?thesis by (simp add: quiet_def)
next
  case (Sent t)
  with assms show ?thesis
    by (auto simp: quiet_def send_edge_def OnPostMessageSend_def HappensBefore_def index_tid_def Let_def
        bindE_eq_Inr dstate_of_def set_dstate_def split: if_splits prod.splits)
next
  case (Received t m)
  with assms show ?thesis
    by (auto simp: quiet_def receive_edge_def OnPostMessageReceive_def HappensAfter_def index_tid_def Let_def callE_def
        bindE_eq_Inr dstate_of_def set_dstate_def join_thread_def split: if_splits option.splits)
next
  case (Born t)
  with assms obtain P1 Q0 where q: "quiet P P1" "tsan_worker_created t P1 = Inr Q0" "quiet Q0 R" by auto
  have "enabled (web_tsan P1)" "next_tid (web_tsan P1) < kMaxThreads"
    using q(1) tids_okD(1,2) [OF goodD(2) [OF assms(2)]] by (simp_all add: quiet_def)
  then obtain Q where "tsan_worker_created t P1 = Inr Q" "next_edge_id (web_tsan Q) = next_edge_id (web_tsan P1)"
    "hb_edges (web_tsan Q) = hb_edges (web_tsan P1)"
    by (rule created_returns [of P1 t]) metis
  with q show ?thesis by (simp add: quiet_def)
next
  case (Dead t)
  with assms obtain P1 Q0 where q: "quiet P P1" "tsan_worker_destroyed t P1 = Inr Q0" "quiet Q0 R" by auto
  show ?thesis
  proof (cases "tid_at t P = UINT32_MAX")
    case True
    then have "Q0 = P1" using q by (simp add: tsan_worker_destroyed_def current_tid quiet_def tid_at_def)
    with q show ?thesis by (simp add: quiet_def)
  next
    case False
    then have "tid_at t P < kMaxThreads" using tid_range [OF assms(2)] by blast
    then have "enabled (web_tsan P1)" "tid_at t P1 < kMaxThreads"
      using q(1) tids_okD(1) [OF goodD(2) [OF assms(2)]] by (simp_all add: quiet_def tid_at_def)
    then obtain Q where "tsan_worker_destroyed t P1 = Inr Q" "next_edge_id (web_tsan Q) = next_edge_id (web_tsan P1)"
      "hb_edges (web_tsan Q) = hb_edges (web_tsan P1)"
      by (rule destroyed_returns) metis
    with q show ?thesis by (simp add: quiet_def)
  qed
qed

text \<open>Where the message with the new edge goes.\<close>

lemma send_eq:
  assumes "send_edge t P = Inr (e, Q)" and "good P"
  shows "workers Q = workers P" and "tasks Q = tasks P" and "e = next_edge_id (web_tsan P)"
    and "next_edge_id (web_tsan Q) = next_edge_id (web_tsan P) + 1"
    and "hb_edges (web_tsan Q) = (hb_edges (web_tsan P))(e \<mapsto> thread_clocks (web_tsan P) (tid_at t P))"
  using assms edge_same(1) [OF assms(1)] tids_okD(1) [OF goodD(2) [OF assms(2)]]
  by (auto simp: send_edge_def OnPostMessageSend_def HappensBefore_def index_tid_def Let_def
      bindE_eq_Inr dstate_of_def set_dstate_def tid_at_def WebTSanGetCurrentTid_def split: if_splits prod.splits)

lemma copies_posts:
  assumes "act a P = Inr R" and "good P"
    and "a \<in> {PostToWorker w n, PostToParent w n, PostToPort b p p' n}"
  shows "copies e R = copies e P \<or>
    (e = next_edge_id (web_tsan P) \<and> next_edge_id (web_tsan R) = e + 1 \<and> (\<exists>x. copies e R = (copies e P)(x := copies e P x + 1)))"
proof -
  have s: "copies e Q = copies e P \<and> e' = next_edge_id (web_tsan P) \<and> next_edge_id (web_tsan Q) = next_edge_id (web_tsan P) + 1"
    if "send_edge t P = Inr (e', Q)" for t e' Q
    using copies_same [OF send_eq(1,2) [OF that assms(2)]] send_eq(3,4) [OF that assms(2)] by simp
  have q: "copies e (set_worker w (r\<lparr>queued_early_tasks := queued_early_tasks r @ [m]\<rparr>) Q)
      = (if e = tsan_edge_id m then (copies e Q)(Inr w := copies e Q (Inr w) + 1) else copies e Q)"
    if "workers Q w = Some r" for r m Q
    using that by (auto simp: copies_def set_worker_def fun_eq_iff split: sum.split)
  from assms(3) consider "a = PostToWorker w n" | "a = PostToParent w n" | "a = PostToPort b p p' n" by blast
  then show ?thesis
  proof cases
    case 1
    with assms(1) obtain r t e' Q where q1: "workers P w = Some r" "send_edge t P = Inr (e', Q)"
      "PostMessageToWorkerGlobalScope w \<lparr>msg_data = n, tsan_edge_id = e'\<rparr> Q = Inr R"
      by (auto simp: DedicatedWorker_postMessage_def eff split: prod.splits)
    have w: "workers Q w = Some r" using q1 send_eq(1) [OF q1(2) assms(2)] by simp
    show ?thesis
      using q1(3) w s [OF q1(2)] q [OF w, of "\<lparr>msg_data = n, tsan_edge_id = e'\<rparr>"]
      by (auto simp: PostMessageToWorkerGlobalScope_def copies_post split: if_splits)
  next
    case 2
    with assms(1) obtain t e' Q u where q2: "send_edge t P = Inr (e', Q)"
      "R = post_task u (MessageToParent w \<lparr>msg_data = n, tsan_edge_id = e'\<rparr>) Q"
      by (auto simp: DedicatedWorkerGlobalScope_postMessage_def eff split: prod.splits)
    then show ?thesis using s [OF q2(1)] by (auto simp: copies_post)
  next
    case 3
    show ?thesis
    proof (cases b)
      case False
      with 3 assms(1) show ?thesis by (simp add: MessagePort_postMessage_def)
    next
      case True
      with 3 assms(1) obtain t e' Q u where q2: "send_edge t P = Inr (e', Q)"
        "R = post_task u (PortMessage p' \<lparr>msg_data = n, tsan_edge_id = e'\<rparr>) Q"
        by (auto simp: MessagePort_postMessage_def eff split: prod.splits)
      then show ?thesis using s [OF q2(1)] by (auto simp: copies_post)
    qed
  qed
qed

lemma copies_run_task:
  assumes "run_task t P = Inr R" and "tasks P t = k # ks"
  shows "copies e R = copies e (pop t P)"
proof -
  have e: "receive_edge u m Q = Inr R \<Longrightarrow> copies e R = copies e Q" for u m Q
    using edge_same(2) [of u m Q R] copies_same by blast
  have i: "copies e R = copies e (pop t P)" if i: "InitializeOnWorkerThread w (pop t P) = Inr R" for w
  proof -
    obtain r Q r' where q: "workers P w = Some r" "tsan_worker_created (backing_thread r) (pop t P) = Inr Q"
      "queued_early_tasks r' = queued_early_tasks r"
      "PrepareForShutdownOnWorkerThread w (set_worker w r' Q) = Inr R \<or>
       R = set_worker w r' Q\<lparr>InitializingWorkerThreads := InitializingWorkerThreads Q - {w}, WorkerThreads := insert w (WorkerThreads Q)\<rparr>"
      by (rule initialize_cases [OF i, unfolded pop_sel]) blast
    have same: "workers Q = workers P" "copies e Q = copies e (pop t P)"
      using created_same [OF q(2)] copies_same [of Q "pop t P"] by simp_all
    then have "copies e (set_worker w r' Q) = copies e (pop t P)" using copies_set [of Q w r r' e] q(1,3) by simp
    then show ?thesis using q(4) cs.prepare [of w "set_worker w r' Q" R e "set_worker w r' Q"] by auto
  qed
  have f: "copies e R = copies e (pop t P)" if i: "PerformShutdownOnWorkerThread w (pop t P) = Inr R" for w
  proof -
    obtain r Q r' where q: "workers P w = Some r" "tsan_worker_destroyed (backing_thread r) (pop t P) = Inr Q"
      "R = set_worker w r' Q" "queued_early_tasks r' = queued_early_tasks r"
      using i by (auto simp: PerformShutdownOnWorkerThread_def SetExitCode_def eff split: if_splits)
    have same: "workers Q = workers P" "copies e Q = copies e (pop t P)"
      using destroyed_same [OF q(2)] copies_same [of Q "pop t P"] by simp_all
    then show ?thesis using copies_set [of Q w r r' e] q by simp
  qed
  show ?thesis
    using assms
    by (cases k; simp add: run_task_pop)
      (auto intro: i f e cs.prepare [OF _ refl] dest!: deliver_effect)
qed

lemma moves_act:
  assumes "act a P = Inr R" and "good P" and "can a P"
    and "e < next_edge_id (web_tsan P) \<or> (\<nexists>w n b p p'. a \<in> {PostToWorker w n, PostToParent w n, PostToPort b p p' n})"
    and "\<nexists>t. a = RunTask t"
  shows "moves e P R"
proof -
  have same: "copies e R = copies e P \<Longrightarrow> moves e P R" by (simp add: moves_def)
  show ?thesis
  proof (cases a)
    case (Create w p t)
    with assms(1,3) show ?thesis using copies_create by (intro same) (simp add: new_object_def)
  next
    case (Destroyed w)
    with assms(1) have "WorkerThreadTerminated w P = Inr R" by simp
    from copies_destroyed [OF this] show ?thesis unfolding moves_def by blast
  next
    case (ScriptEvaluated w)
    with assms(1) have "DidEvaluateScript w P = Inr R" by simp
    then show ?thesis by (rule copies_evaluated [of w P R e]) (auto simp: moves_def)
  next
    case (PostToWorker w n)
    then show ?thesis using copies_posts [OF assms(1,2), of w n] assms(4) by (intro same) auto
  next
    case (PostToParent w n)
    then show ?thesis using copies_posts [OF assms(1,2), of w n] assms(4) by (intro same) auto
  next
    case (PostToPort b p p' n)
    then show ?thesis using copies_posts [OF assms(1,2), of _ n b p p'] assms(4) by (intro same) auto
  next
    case (RunTask t)
    with assms(5) show ?thesis by blast
  qed (rule same, rule cs.life_action [OF assms(1)]; simp)+
qed

lemma moves_flight:
  assumes "moves e P R" and "hb_edges (web_tsan R) e = hb_edges (web_tsan P) e" and "copies e P = (\<lambda>_. 0) \<or> in_flight e c P"
  shows "copies e R = (\<lambda>_. 0) \<or> in_flight e c R"
proof -
  from assms(3) consider "copies e P = (\<lambda>_. 0)" | x where "hb_edges (web_tsan P) e = Some c" "copies e P = (\<lambda>_. 0)(x := 1)"
    by (auto simp: in_flight_def)
  then show ?thesis
  proof cases
    case 1
    with assms(1) have "copies e R = (\<lambda>_. 0)" by (auto simp: moves_def fun_eq_iff)
    then show ?thesis ..
  next
    case 2
    have "copies e R = (\<lambda>_. 0) \<or> (\<exists>y. copies e R = (\<lambda>_. 0)(y := 1))"
      using assms(1) unfolding moves_def 2(2)
    proof (elim disjE exE)
      fix z assume "copies e R = ((\<lambda>_. 0)(x := 1, z := 0))"
      moreover have "((\<lambda>_. 0::nat)(x := 1, z := 0)) = (if z = x then (\<lambda>_. 0) else (\<lambda>_. 0)(x := 1))"
        by (auto simp: fun_eq_iff)
      ultimately show ?thesis by (auto split: if_splits)
    next
      fix w t assume m: "copies e R = ((\<lambda>_. 0)(x := 1, Inr w := 0, Inl t := ((\<lambda>_. 0)(x := 1)) (Inl t) + ((\<lambda>_. 0)(x := 1)) (Inr w)))"
      show ?thesis
      proof (cases "x = Inr w \<or> x = Inl t")
        case True
        with m have "copies e R = (\<lambda>_. 0)(Inl t := 1)" by (auto simp: fun_eq_iff)
        then show ?thesis by blast
      next
        case False
        with m have "copies e R = (\<lambda>_. 0)(x := 1)" by (auto simp: fun_eq_iff)
        then show ?thesis by blast
      qed
    qed blast
    with 2(1) assms(2) show ?thesis unfolding in_flight_def by auto
  qed
qed

lemma edge_step:
  assumes "edge_safe e c P" and "good P" and "can a P" and "act a P = Inr R"
    and "unat (next_edge_id (web_tsan P)) + 1 < 18446744073709551616"
  shows "edge_safe e c R \<and> unat (next_edge_id (web_tsan R)) \<le> unat (next_edge_id (web_tsan P)) + 1"
proof -
  obtain f where f: "sound_effect f a P R" using act_effect [OF assms(4)] by blast
  note ef = effect_edges [OF _ assms(2), of f R]
  have suc: "unat (next_edge_id (web_tsan P) + 1) = unat (next_edge_id (web_tsan P)) + 1"
    using assms(5) by (simp add: unat_word_ariths)
  have e: "e < next_edge_id (web_tsan P)" "copies e P = (\<lambda>_. 0) \<or> in_flight e c P"
    using assms(1) by (simp_all add: edge_safe_def)
  have nx: "next_edge_id (web_tsan R) = next_edge_id (web_tsan P) \<or> next_edge_id (web_tsan R) = next_edge_id (web_tsan P) + 1"
    using ef f by (auto simp: sound_effect_def)
  have "e < next_edge_id (web_tsan P) + 1" using e(1) suc by (simp add: word_less_nat_alt)
  then have lt: "e < next_edge_id (web_tsan R)" using nx e(1) by auto
  have hb: "hb_edges (web_tsan R) e = hb_edges (web_tsan P) e" if "\<nexists>t m. f = Received t m \<and> tsan_edge_id m = e"
    using ef f that e(1) by (auto simp: sound_effect_def)
  have "copies e R = (\<lambda>_. 0) \<or> in_flight e c R"
  proof (cases "\<exists>t k ks. a = RunTask t \<and> tasks P t = k # ks")
    case True
    then obtain t k ks where a: "a = RunTask t" "tasks P t = k # ks" by blast
    have c: "copies e R = copies e (pop t P)" using copies_run_task [OF _ a(2)] assms(4) a(1) by simp
    show ?thesis
    proof (cases "edge_of k = Some e")
      case True
      then have "copies e P (Inl t) \<noteq> 0" using a(2) by (simp add: copies_thread pending_def)
      then obtain x where x: "copies e P = (\<lambda>_. 0)(x := 1)" using e(2) unfolding in_flight_def by auto
      then have "x = Inl t" using \<open>copies e P (Inl t) \<noteq> 0\<close> by (auto split: if_splits)
      with x have "copies e P = (\<lambda>_. 0)(Inl t := 1)" by simp
      then have "copies e R = (\<lambda>_. 0)" using c True copies_pop [OF a(2), of e] by auto
      then show ?thesis ..
    next
      case False
      have "\<nexists>u m. f = Received u m \<and> tsan_edge_id m = e" using f a False by (auto simp: sound_effect_def)
      from hb [OF this] show ?thesis
        using moves_flight [of e P R] c copies_pop [OF a(2), of e] False e(2) by (simp add: moves_def)
    qed
  next
    case False
    then have "\<nexists>u m. f = Received u m \<and> tsan_edge_id m = e" using f by (auto simp: sound_effect_def)
    note hb = hb [OF this]
    have "moves e P R"
    proof (cases "\<exists>t. a = RunTask t")
      case True
      with False assms(4) have "R = P" by (auto simp: run_task_def split: list.splits)
      then show ?thesis by (simp add: moves_def)
    next
      case other: False
      show ?thesis using moves_act [OF assms(4,2,3) disjI1 [OF e(1)] other] .
    qed
    from moves_flight [OF this hb e(2)] show ?thesis .
  qed
  with lt nx suc show ?thesis by (auto simp: edge_safe_def)
qed

lemma edge_reaches:
  assumes "reaches True P as Q" and "good P" and "edge_safe e c P"
    and "unat (next_edge_id (web_tsan P)) + length as < 18446744073709551616"
  shows "edge_safe e c Q \<and> unat (next_edge_id (web_tsan Q)) \<le> unat (next_edge_id (web_tsan P)) + length as"
  using assms
proof (induction rule: reaches.induct)
  case (step as Q a R)
  then have "edge_safe e c Q" "unat (next_edge_id (web_tsan Q)) \<le> unat (next_edge_id (web_tsan P)) + length as" by auto
  moreover have "good Q" using good_reaches [OF step(1)] step.prems by blast
  ultimately show ?case using edge_step [OF _ _ step(2,4), of e c] step.prems(3) by auto
qed simp

text \<open>The thread a send or a delivery happens on.\<close>

fun sender :: "action \<Rightarrow> process \<Rightarrow> thread option" where
  "sender (PostToWorker w n) P = (case workers P w of None \<Rightarrow> None
     | Some r \<Rightarrow> (case context_thread (parent r) P of Inl x \<Rightarrow> None | Inr t \<Rightarrow> Some t))"
| "sender (PostToParent w n) P = map_option backing_thread (workers P w)"
| "sender (PostToPort b p p' n) P = (case context_thread p P of Inl x \<Rightarrow> None | Inr t \<Rightarrow> if b then Some t else None)"
| "sender a P = None"

fun receiver :: "wtask \<Rightarrow> process \<Rightarrow> thread option" where
  "receiver (MessageToWorker w m) P = (if running w P then map_option backing_thread (workers P w) else None)"
| "receiver (MessageToParent w m) P = (case workers P w of None \<Rightarrow> None
     | Some r \<Rightarrow> if runs_script (parent r) P \<and> has_worker_object r \<and> \<not> asked_to_terminate r
         then (case context_thread (parent r) P of Inl x \<Rightarrow> None | Inr t \<Rightarrow> Some t) else None)"
| "receiver (PortMessage p m) P = (if runs_script p P
     then (case context_thread p P of Inl x \<Rightarrow> None | Inr t \<Rightarrow> Some t) else None)"
| "receiver k P = None"

lemma sent_in_flight:
  assumes "act a P = Inr R" and "good P" and "sender a P = Some t" and "copies (next_edge_id (web_tsan P)) P = (\<lambda>_. 0)"
    and "next_edge_id (web_tsan P) < next_edge_id (web_tsan P) + 1"
  shows "edge_safe (next_edge_id (web_tsan P)) (thread_clocks (web_tsan P) (tid_at t P)) R"
proof -
  let ?e = "next_edge_id (web_tsan P)"
  obtain w n b p p' where a: "a \<in> {PostToWorker w n, PostToParent w n, PostToPort b p p' n}"
    using assms(3) by (cases a) auto
  from copies_posts [OF assms(1,2) a, of ?e] assms(4)
  have c: "copies ?e R = (\<lambda>_. 0) \<or> (\<exists>x. copies ?e R = (\<lambda>_. 0)(x := 1))" by auto
  have "\<exists>Q. send_edge t P = Inr (?e, Q) \<and> web_tsan R = web_tsan Q"
  proof -
    have q: "web_tsan R = web_tsan Q" if "PostMessageToWorkerGlobalScope w m Q = Inr R" for w m Q
      using that by (auto simp: PostMessageToWorkerGlobalScope_def eff split: if_splits)
    obtain e Q where "send_edge t P = Inr (e, Q)" "web_tsan R = web_tsan Q"
      using assms(1,3) a q
      by (auto simp: DedicatedWorker_postMessage_def DedicatedWorkerGlobalScope_postMessage_def MessagePort_postMessage_def eff
          split: option.splits sum.splits prod.splits if_splits)
    with send_eq(3) assms(2) show ?thesis by blast
  qed
  then obtain Q where Q: "send_edge t P = Inr (?e, Q)" "web_tsan R = web_tsan Q" by blast
  from send_eq(4,5) [OF Q(1) assms(2)] Q(2) c assms(5) show ?thesis by (auto simp: edge_safe_def in_flight_def)
qed

lemma delivered:
  assumes "act (RunTask u) P = Inr R" and "tasks P u = k # ks" and "receiver k P = Some t" and "edge_of k = Some e"
  shows "\<exists>m. tsan_edge_id m = e \<and> receive_edge t m (pop u P) = Inr R"
proof -
  have c: "context_thread p (pop u P) = context_thread p P" for p by (rule context_thread_same) simp
  have rs: "runs_script p (pop u P) = runs_script p P" for p by (simp add: runs_script_def running_def split: option.split)
  show ?thesis
    using assms
    by (cases k) (auto simp: run_task_pop ReceiveMessage_def PostMessageToWorkerObject_def DispatchMessageEvent_def
        running_def c rs eff split: option.splits sum.splits if_splits)
qed

text \<open>No message carries an edge that has not been given out.\<close>

lemma fresh_reaches:
  assumes "reaches True P as Q" and "good P" and "\<And>e. copies e P = (\<lambda>_. 0)"
    and "unat (next_edge_id (web_tsan P)) + length as < 18446744073709551616"
  shows "(\<forall>e \<ge> next_edge_id (web_tsan Q). copies e Q = (\<lambda>_. 0))
    \<and> unat (next_edge_id (web_tsan Q)) \<le> unat (next_edge_id (web_tsan P)) + length as
    \<and> next_edge_id (web_tsan P) \<le> next_edge_id (web_tsan Q)"
  using assms
proof (induction rule: reaches.induct)
  case (step as Q a R)
  then have IH: "\<forall>e \<ge> next_edge_id (web_tsan Q). copies e Q = (\<lambda>_. 0)"
    "unat (next_edge_id (web_tsan Q)) \<le> unat (next_edge_id (web_tsan P)) + length as"
    "next_edge_id (web_tsan P) \<le> next_edge_id (web_tsan Q)" by auto
  have g: "good Q" using good_reaches [OF step(1)] step.prems by blast
  obtain f where f: "sound_effect f a Q R" using act_effect [OF step(4)] by blast
  have small: "unat (next_edge_id (web_tsan Q)) + 1 < 18446744073709551616" using IH(2) step.prems(3) by simp
  then have suc: "unat (next_edge_id (web_tsan Q) + 1) = unat (next_edge_id (web_tsan Q)) + 1"
    by (simp add: unat_word_ariths)
  have nx: "next_edge_id (web_tsan R) = next_edge_id (web_tsan Q) \<or> next_edge_id (web_tsan R) = next_edge_id (web_tsan Q) + 1"
    using effect_edges [OF _ g, of f R] f by (auto simp: sound_effect_def)
  have up: "next_edge_id (web_tsan Q) \<le> next_edge_id (web_tsan R)" using nx suc by (auto simp: word_le_nat_alt)
  have "copies e R = (\<lambda>_. 0)" if e: "next_edge_id (web_tsan R) \<le> e" for e
  proof -
    have z: "copies e Q = (\<lambda>_. 0)" using IH(1) up e by auto
    consider t k ks where "a = RunTask t" "tasks Q t = k # ks" | "\<nexists>t k ks. a = RunTask t \<and> tasks Q t = k # ks" by blast
    then show ?thesis
    proof cases
      case 1
      then show ?thesis using copies_run_task [OF _ 1(2)] step(4) copies_pop [OF 1(2), of e] z by (auto split: if_splits)
    next
      case 2
      show ?thesis
      proof (cases "\<exists>w n b p p'. a \<in> {PostToWorker w n, PostToParent w n, PostToPort b p p' n}")
        case True
        then obtain w n b p p' where a: "a \<in> {PostToWorker w n, PostToParent w n, PostToPort b p p' n}" by blast
        show ?thesis
        proof (cases "next_edge_id (web_tsan R) = e + 1 \<and> e = next_edge_id (web_tsan Q)")
          case False
          then show ?thesis using copies_posts [OF step(4) g a, of e] z by auto
        next
          case True
          then have "unat (next_edge_id (web_tsan R)) > unat e" using suc by simp
          with e show ?thesis by (simp add: word_le_nat_alt)
        qed
      next
        case False
        have "moves e Q R"
        proof (cases "\<exists>t. a = RunTask t")
          case True
          with 2 step(4) have "R = Q" by (auto simp: run_task_def split: list.splits)
          then show ?thesis by (simp add: moves_def)
        next
          case other: False
          show ?thesis using moves_act [OF step(4) g step(2) disjI2 [OF False] other] .
        qed
        with z show ?thesis by (auto simp: moves_def fun_eq_iff)
      qed
    qed
  qed
  with nx suc IH up show ?case by auto
qed simp

text \<open>
  C35: messages carry happens-before. Script on a thread sends a message, by \<open>postMessage\<close> of a worker
  object, of a worker's global scope or of a port; after any run, however long the message waits and
  whatever else is sent, received, started or shut down, the task with its edge is delivered to another
  context. Then the receiver has reached the sender's clock at the send, so that no access the sender
  made before it is a race for the receiver.
\<close>

theorem messages_order:
  assumes "InitializeWebTSan True new_engine = Inr E" and "reaches True (new_process E) as P"
    and "can a P" and "own_thread a P" and "sender a P = Some s" and "act a P = Inr Q"
    and "reaches True Q bs R" and "tasks R u = k # ks" and "edge_of k = Some (next_edge_id (web_tsan P))"
    and "receiver k R = Some t" and "act (RunTask u) R = Inr S" and "length as + length bs < 18446744073709551614"
  shows "thread_clocks (web_tsan P) (tid_at s P) \<le> thread_clocks (web_tsan S) (tid_at t S)
    \<and> (sc_tid cell = tid_at s P \<and> sc_epoch cell \<le> Get (thread_clocks (web_tsan P) (tid_at s P)) (tid_at s P)
        \<longrightarrow> \<not> racy cell (tid_at t S) w (thread_clocks (web_tsan S) (tid_at t S)))"
proof -
  let ?e = "next_edge_id (web_tsan P)" and ?c = "thread_clocks (web_tsan P) (tid_at s P)"
  have g0: "good (new_process E)" using good_new_process [OF assms(1)] .
  have n0: "unat (next_edge_id (web_tsan (new_process E))) = 1" by (simp add: initialized [OF assms(1)])
  have gP: "good P" using good_reaches [OF assms(2) g0] .
  then have gQ: "good Q" using fine_act [OF gP assms(3,4)] assms(6) by (simp add: fine_def)
  have gR: "good R" using good_reaches [OF assms(7) gQ] .
  have c0: "copies e (new_process E) = (\<lambda>_. 0)" for e
    by (rule ext) (simp add: copies_def pending_def split: sum.split)
  have "unat (next_edge_id (web_tsan (new_process E))) + length as < 18446744073709551616"
    using assms(12) unfolding n0 by simp
  from fresh_reaches [OF assms(2) g0 c0 this]
  have f: "copies ?e P = (\<lambda>_. 0)" "unat ?e \<le> 1 + length as" "1 \<le> ?e"
    using n0 initialized(5) [OF assms(1)] by auto
  have suc: "unat (?e + 1) = unat ?e + 1" using f(2) assms(12) by (simp add: unat_word_ariths)
  then have "?e < ?e + 1" by (simp add: word_less_nat_alt)
  from sent_in_flight [OF assms(6) gP assms(5) f(1) this] have safe: "edge_safe ?e ?c Q" .
  obtain h where "sound_effect h a P Q" using act_effect [OF assms(6)] by blast
  then have "next_edge_id (web_tsan Q) = ?e \<or> next_edge_id (web_tsan Q) = ?e + 1"
    using effect_edges [OF _ gP, of h Q] by (auto simp: sound_effect_def)
  then have "unat (next_edge_id (web_tsan Q)) + length bs < 18446744073709551616"
    using suc f(2) assms(12) by auto
  from edge_reaches [OF assms(7) gQ safe this] have safe: "edge_safe ?e ?c R" by blast
  have "copies ?e R (Inl u) \<noteq> 0" using assms(8,9) by (simp add: copies_thread pending_def)
  then have hb: "hb_edges (web_tsan R) ?e = Some ?c" using safe by (auto simp: edge_safe_def in_flight_def)
  obtain m where m: "tsan_edge_id m = ?e" "receive_edge t m (pop u R) = Inr S"
    using delivered [OF assms(11,8,10,9)] by blast
  have en: "enabled (web_tsan R)" using tids_okD(1) [OF goodD(2) [OF gR]] .
  have "?e \<noteq> 0" using f(3) by auto
  with m hb en have S: "web_tsan S = join_thread (tid_at t R) ?c (web_tsan R)\<lparr>hb_edges := (hb_edges (web_tsan R))(?e := None)\<rparr>"
    "tls_of S = tls_of R"
    by (auto simp: receive_edge_def OnPostMessageReceive_def callE_def HappensAfter_def index_tid_def bindE_eq_Inr
        dstate_of_def set_dstate_def WebTSanGetCurrentTid_def tid_at_def split: if_splits)
  then have clk: "thread_clocks (web_tsan S) (tid_at t S) = Join (thread_clocks (web_tsan R) (tid_at t R)) ?c"
    by (simp add: join_thread_def tid_at_def)
  have le: "?c \<le> thread_clocks (web_tsan S) (tid_at t S)" unfolding clk by (simp add: Join_sup)
  then have "Get ?c (tid_at s P) \<le> Get (thread_clocks (web_tsan S) (tid_at t S)) (tid_at s P)"
    by (rule vclock_leD)
  then have "\<not> racy cell (tid_at t S) w (thread_clocks (web_tsan S) (tid_at t S))"
    if "sc_tid cell = tid_at s P" "sc_epoch cell \<le> Get ?c (tid_at s P)"
    using that order_trans [of "sc_epoch cell" "Get ?c (tid_at s P)"] by (simp add: racy_def)
  with le show ?thesis by blast
qed

subsection \<open>Concrete runs\<close>

lemma reaches_step: "\<lbrakk>reaches d P as Q; can a Q; d \<longrightarrow> own_thread a Q; act a Q = Inr R; bs = as @ [a]\<rbrakk> \<Longrightarrow> reaches d P bs R"
  by (auto intro: reaches.step)

lemma reaches_any: "reaches True P as Q \<Longrightarrow> reaches False P as Q"
  by (induction rule: reaches.induct) (auto intro: reaches.intros)

lemma reaches_append: "\<lbrakk>reaches d Q bs R; reaches d P as Q\<rbrakk> \<Longrightarrow> reaches d P (as @ bs) R"
proof (induction rule: reaches.induct)
  case (step bs R a S)
  then show ?case using reaches.step [of d P "as @ bs" R a S] by simp
qed simp

text \<open>A worker started from the main thread.\<close>

lemma birth:
  assumes "reaches d P as Q" and "good Q" and "new_object w Q" and "tasks Q t = []" and "d \<longrightarrow> own_thread (Create w None t) Q"
  obtains R r where "reaches d P (as @ [Create w None t, RunTask t]) R" and "workers R = (workers Q)(w \<mapsto> r)"
    and "thread_state r = Running" and "backing_thread r = t" and "parent r = None" and "\<not> was_script_evaluated r"
    and "queued_early_tasks r = []" and "\<not> asked_to_terminate r" and "tasks R = tasks Q"
    and "tid_at t R = find_slot (web_tsan Q)" and "\<And>u. u \<noteq> t \<Longrightarrow> tid_at u R = tid_at u Q"
    and "r = new_WorkerThread None t\<lparr>runners_initialized := True, context_globals := context_globals r, thread_state := Running\<rparr>"
    and "enabled (web_tsan R)" and "next_tid (web_tsan R) < kMaxThreads"
proof -
  note d = tids_okD [OF goodD(2) [OF assms(2)]]
  let ?n = "new_WorkerThread None t"
  let ?P = "post_task t (InitializeTask w) (set_worker w ?n Q\<lparr>InitializingWorkerThreads := insert w (InitializingWorkerThreads Q)\<rparr>)"
  have w: "workers Q w = None" using assms(3) by (simp add: new_object_def)
  have 1: "act (Create w None t) Q = Inr ?P" by (simp add: CreateWorker_def Start_def get_worker_def new_sel)
  have "can (Create w None t) Q" using assms(3) by (simp add: runs_script_def)
  from reaches_step [OF assms(1) this assms(5) 1 refl] have r1: "reaches d P (as @ [Create w None t]) ?P" .
  have tk: "tasks ?P t = [InitializeTask w]" "tasks (pop t ?P) = tasks Q" using assms(4)
    by (auto simp: post_task_def set_worker_def pop_def)
  have wp: "workers (pop t ?P) = (workers Q)(w \<mapsto> ?n)" by simp
  have wt: "web_tsan (pop t ?P) = web_tsan Q" "tid_at u (pop t ?P) = tid_at u Q" for u by simp_all
  have e: "enabled (web_tsan (pop t ?P))" "next_tid (web_tsan (pop t ?P)) < kMaxThreads" using d(1,2) by simp_all
  obtain S where S: "tsan_worker_created t (pop t ?P) = Inr S" "workers S = (workers Q)(w \<mapsto> ?n)" "tasks S = tasks Q"
    "enabled (web_tsan S)" "next_tid (web_tsan S) < kMaxThreads" "\<And>u. tid_at u S = (if u = t then find_slot (web_tsan Q) else tid_at u Q)"
    by (rule created_returns [OF e, of t]) (metis wp wt tk(2))
  let ?r = "?n\<lparr>runners_initialized := True, context_globals := InstallWebTSanGlobals (dstate_of t S) Map.empty, thread_state := Running\<rparr>"
  let ?R = "set_worker w ?r S\<lparr>InitializingWorkerThreads := InitializingWorkerThreads S - {w}, WorkerThreads := insert w (WorkerThreads S)\<rparr>"
  have "InitializeOnWorkerThread w (pop t ?P) = Inr ?R"
    using S(1,4) by (simp add: InitializeOnWorkerThread_def get_worker_def SetThreadState_def check_def Let_def
        IsRequestedToTerminate_def new_WorkerThread_def set_worker_def)
  then have 2: "act (RunTask t) ?P = Inr ?R" using tk(1) by (simp add: run_task_pop)
  have c2: "can (RunTask t) ?P" "d \<longrightarrow> own_thread (RunTask t) ?P" by simp_all
  have "reaches d P (as @ [Create w None t, RunTask t]) ?R"
    by (rule reaches_step [OF r1 c2 2]) simp
  then show thesis
    using S(2-6) by (intro that [of ?R ?r]) (auto simp: new_WorkerThread_def set_worker_def tid_at_def)
qed

lemma started_process:
  obtains E where "InitializeWebTSan True new_engine = Inr E" and "good (new_process E)"
  using Initialize_new good_new_process by blast


theorem running_workers_have_own_ids_witness:
  "\<exists>E as Q r q. InitializeWebTSan True new_engine = Inr E \<and> reaches True (new_process E) as Q
     \<and> workers Q 1 = Some r \<and> workers Q 2 = Some q
     \<and> tid_at (backing_thread r) Q < kMaxThreads \<and> tid_at (backing_thread r) Q \<noteq> tid_at (backing_thread q) Q"
proof -
  obtain E where E: "InitializeWebTSan True new_engine = Inr E" and g: "good (new_process E)" using started_process .
  have o: "new_object 1 (new_process E)" "True \<longrightarrow> own_thread (Create 1 None 1) (new_process E)"
    by (simp_all add: new_object_def main_thread_def)
  obtain P r where P: "reaches True (new_process E) ([] @ [Create 1 None 1, RunTask 1]) P" "workers P = Map.empty(1 \<mapsto> r)"
    "thread_state r = Running" "backing_thread r = 1" "tasks P = (\<lambda>_. [])"
    by (rule birth [OF reaches.start g o(1) _ o(2)]) simp_all
  have gP: "good P" using good_reaches [OF P(1) g] .
  have o2: "new_object 2 P" "True \<longrightarrow> own_thread (Create 2 None 2) P"
    using P(2,4,5) by (simp_all add: new_object_def main_thread_def)
  obtain Q q where Q: "reaches True (new_process E) (([] @ [Create 1 None 1, RunTask 1]) @ [Create 2 None 2, RunTask 2]) Q"
    "workers Q = Map.empty(1 \<mapsto> r, 2 \<mapsto> q)" "thread_state q = Running"
    by (rule birth [OF P(1) gP o2(1) _ o2(2)]) (simp_all add: P(2,5))
  have few: "card (dom (workers S)) < kMaxThreads"
    if "([] @ [Create 1 None 1, RunTask 1]) @ [Create 2 None 2, RunTask 2] = bs @ cs" "reaches True (new_process E) bs S" for bs cs S
  proof -
    have "length bs \<le> 4" using arg_cong [OF that(1), of length] by simp
    then have "length (filter (\<lambda>a. created a \<noteq> {}) bs) \<le> 4" using le_trans [OF length_filter_le] by blast
    then show ?thesis using workers_bounded [OF that(2)] by (simp add: kMaxThreads_def)
  qed
  have ws: "workers Q 1 = Some r" "workers Q 2 = Some q" "(1::wid) \<noteq> 2" using Q(2) by simp_all
  have "tid_at (backing_thread r) Q < kMaxThreads \<and> thread_alive (web_tsan Q) (tid_at (backing_thread r) Q)
    \<and> tid_at (backing_thread r) Q \<noteq> tid_at (backing_thread q) Q \<and> tid_at (backing_thread r) Q \<noteq> tid_at main_thread Q"
    by (rule running_workers_have_own_ids [OF E Q(1) _ ws(1) P(3) ws(2) Q(3) ws(3)]) (erule few)
  with E Q(1) ws show ?thesis by blast
qed

text \<open>A message sent before the worker's script is evaluated is held back, posted and delivered.\<close>

lemma early_message_run:
  obtains E P Q R S r k where "InitializeWebTSan True new_engine = Inr E"
    and "reaches True (new_process E) [Create 1 None 1, RunTask 1] P" and "workers P 1 = Some r" "parent r = None"
    and "act (PostToWorker 1 7) P = Inr Q" and "reaches True Q [ScriptEvaluated 1] R"
    and "tasks R 1 = [k]" and "edge_of k = Some (next_edge_id (web_tsan P))" and "receiver k R = Some 1"
    and "act (RunTask 1) R = Inr S"
proof -
  obtain E where E: "InitializeWebTSan True new_engine = Inr E" and g: "good (new_process E)" using started_process .
  have o: "new_object 1 (new_process E)" "True \<longrightarrow> own_thread (Create 1 None 1) (new_process E)"
    by (simp_all add: new_object_def main_thread_def)
  obtain P r where P: "reaches True (new_process E) ([] @ [Create 1 None 1, RunTask 1]) P" "workers P = Map.empty(1 \<mapsto> r)"
    and r: "thread_state r = Running" "backing_thread r = 1" "parent r = None" "\<not> was_script_evaluated r"
    "queued_early_tasks r = []" "\<not> asked_to_terminate r" and t: "tasks P = (\<lambda>_. [])"
    by (rule birth [OF reaches.start g o(1) _ o(2)]) simp_all
  have gP: "good P" using good_reaches [OF P(1) g] .
  have w: "workers P 1 = Some r" using P(2) by simp
  have "tid_at main_thread P < kMaxThreads" using tids_okD(3) [OF goodD(2) [OF gP]] .
  from good_send [OF gP this] obtain e Q0 where Q0: "send_edge main_thread P = Inr (e, Q0)" "workers Q0 = workers P"
    "tasks Q0 = tasks P" "good Q0" by metis
  have e: "e = next_edge_id (web_tsan P)" using send_eq(3) [OF Q0(1) gP] .
  let ?m = "\<lparr>msg_data = 7, tsan_edge_id = e\<rparr>"
  let ?Q = "set_worker 1 (r\<lparr>queued_early_tasks := [?m]\<rparr>) Q0"
  have 3: "act (PostToWorker 1 7) P = Inr ?Q"
    using w r Q0 by (simp add: DedicatedWorker_postMessage_def context_thread_def PostMessageToWorkerGlobalScope_def get_worker_def)
  have "can (PostToWorker 1 7) P" using w r by (simp add: runs_script_def)
  from fine_act [OF gP this] 3 have gQ: "good ?Q" by (simp add: fine_def)
  let ?R = "post_task 1 (MessageToWorker 1 ?m) (set_worker 1 (r\<lparr>was_script_evaluated := True, queued_early_tasks := []\<rparr>) ?Q)"
  have 4: "act (ScriptEvaluated 1) ?Q = Inr ?R"
    using r(2) by (simp add: DidEvaluateScript_def get_worker_def)
  have c: "can (ScriptEvaluated 1) ?Q" "own_thread (ScriptEvaluated 1) ?Q" by simp_all
  have R: "reaches True ?Q [ScriptEvaluated 1] ?R" by (rule reaches_step [OF reaches.start c(1) _ 4]) simp_all
  have gR: "good ?R" using good_reaches [OF R gQ] .
  have tk: "tasks ?R 1 = [MessageToWorker 1 ?m]" using Q0(3) t by (simp add: post_task_def set_worker_def)
  obtain S where S: "act (RunTask 1) ?R = Inr S" using fine_run_task [OF gR, of 1] by (auto simp: fine_def)
  have rc: "receiver (MessageToWorker 1 ?m) ?R = Some 1" using r by (simp add: running_def)
  have ek: "edge_of (MessageToWorker 1 ?m) = Some (next_edge_id (web_tsan P))" using e by simp
  have P1: "reaches True (new_process E) [Create 1 None 1, RunTask 1] P" using P(1) by simp
  show thesis by (rule that [OF E P1 w r(3) 3 R tk ek rc S])
qed

theorem messages_order_witness:
  "\<exists>E P S. InitializeWebTSan True new_engine = Inr E \<and> reaches True (new_process E) [Create 1 None 1, RunTask 1] P
     \<and> thread_clocks (web_tsan P) (tid_at main_thread P) \<le> thread_clocks (web_tsan S) (tid_at 1 S)
     \<and> \<not> racy (access_cell (tid_at main_thread P) True (thread_clocks (web_tsan P) (tid_at main_thread P)))
           (tid_at 1 S) True (thread_clocks (web_tsan S) (tid_at 1 S))"
proof -
  obtain E P Q R S r k where run: "InitializeWebTSan True new_engine = Inr E"
    "reaches True (new_process E) [Create 1 None 1, RunTask 1] P" "workers P 1 = Some r" "parent r = None"
    "act (PostToWorker 1 7) P = Inr Q" "reaches True Q [ScriptEvaluated 1] R" "tasks R 1 = [k]"
    "edge_of k = Some (next_edge_id (web_tsan P))" "receiver k R = Some 1" "act (RunTask 1) R = Inr S"
    using early_message_run .
  have c: "can (PostToWorker 1 7) P" "own_thread (PostToWorker 1 7) P" "sender (PostToWorker 1 7) P = Some main_thread"
    "length [Create 1 None 1, RunTask 1] + length [ScriptEvaluated 1] < 18446744073709551614"
    using run(3,4) by (simp_all add: runs_script_def context_thread_def)
  let ?cell = "access_cell (tid_at main_thread P) True (thread_clocks (web_tsan P) (tid_at main_thread P))"
  have "sc_tid ?cell = tid_at main_thread P \<and> sc_epoch ?cell \<le> Get (thread_clocks (web_tsan P) (tid_at main_thread P)) (tid_at main_thread P)"
    by (simp add: access_cell_def)
  with messages_order [OF run(1,2) c(1,2,3) run(5,6,7,8,9,10) c(4), of ?cell True] run(1,2) show ?thesis by blast
qed

subsection \<open>Threads shared by workers\<close>

text \<open>
  C38: worklets share a thread, but the id belongs to the thread. When one of the workers of a thread
  shuts down, the id is taken from the thread; for the others, still running, the next \<open>postMessage\<close>
  indexes the detector's clocks with \<open>UINT32_MAX\<close>, out of bounds.
\<close>

theorem shutdown_strands_thread_sharer:
  assumes "enabled (web_tsan P)" and "tasks P t = PerformTask w # ks" and "act (RunTask t) P = Inr R"
    and "workers P w = Some r" and "backing_thread r = t"
    and "workers P v = Some q" and "v \<noteq> w" and "backing_thread q = t" and "thread_state q = Running"
  shows "running v R \<and> tid_at t R = UINT32_MAX \<and> act (PostToPort True (Some v) p n) R = Inl OutOfBounds"
proof -
  have run: "PerformShutdownOnWorkerThread w (pop t P) = Inr R" using assms(2,3) by (simp add: run_task_pop)
  then obtain Q r' where Q: "tsan_worker_destroyed t (pop t P) = Inr Q" "R = set_worker w r' Q"
    using assms(4,5) by (auto simp: PerformShutdownOnWorkerThread_def eff split: if_splits)
  have en: "enabled (web_tsan (pop t P))" using assms(1) by simp
  have "enabled (web_tsan Q) \<and> tid_at t Q = UINT32_MAX \<and> workers Q = workers P"
  proof (cases "tid_at t P = UINT32_MAX")
    case True
    then have "Q = pop t P" using Q(1) by (simp add: tsan_worker_destroyed_def current_tid)
    with True en show ?thesis by simp
  next
    case False
    have "tid_at t (pop t P) < kMaxThreads"
      using Q(1) False en by (auto simp: tsan_worker_destroyed_def current_tid Let_def OnWorkerDestroy_def callE_def
          WebTSanGetCurrentTid_def tid_at_def ThreadDestroy_def index_tid_def dstate_of_def bindE_eq_Inr split: if_splits)
    from destroyed_returns [OF en this] obtain S where "tsan_worker_destroyed t (pop t P) = Inr S" "workers S = workers (pop t P)"
      "enabled (web_tsan S)" "\<And>u. tid_at u S = (if u = t then UINT32_MAX else tid_at u (pop t P))" by metis
    with Q(1) show ?thesis by simp
  qed
  then have R: "enabled (web_tsan R)" "tid_at t R = UINT32_MAX" "workers R v = Some q" using Q(2) assms(6,7) by simp_all
  have "send_edge t R = Inl OutOfBounds"
    using R(1,2) by (simp add: send_edge_def WebTSanGetCurrentTid_def tid_at_def OnPostMessageSend_def HappensBefore_def index_tid_def
        dstate_of_def UINT32_MAX_def kMaxThreads_def)
  then show ?thesis
    using R assms(8,9) by (simp add: running_def MessagePort_postMessage_def context_thread_def get_worker_def)
qed

text \<open>The steps of a termination without children, up to the worker's own shutdown.\<close>

lemma terminate_run:
  assumes "workers Q w = Some r" and "tasks Q t = []"
    and "r = new_WorkerThread None t\<lparr>runners_initialized := True, context_globals := G, thread_state := Running\<rparr>"
  obtains S x where "reaches False Q [RequestTermination w, PostPrepare w, LockedTermination w, PostPerform w, RunTask t] S"
    and "workers S = (workers Q)(w \<mapsto> x)" and "tasks S t = [PerformTask w]" and "web_tsan S = web_tsan Q" and "tls_of S = tls_of Q"
    and "x = r\<lparr>termination_progress := Performing, asked_to_terminate := True, forcible_termination_task := True,
      terminate_pc := Returned, thread_state := ReadyToShutdown\<rparr>"
proof -
  define r1 where "r1 = r\<lparr>termination_progress := Requested, asked_to_terminate := True, forcible_termination_task := True,
    terminate_pc := WaitForRunners\<rparr>"
  define r2 where "r2 = r1\<lparr>terminate_pc := BeforeLock\<rparr>"
  define r3 where "r3 = r2\<lparr>termination_progress := Performing, terminate_pc := BeforePerform\<rparr>"
  define r4 where "r4 = r3\<lparr>terminate_pc := Returned\<rparr>"
  define r5 where "r5 = r4\<lparr>thread_state := ReadyToShutdown\<rparr>"
  note rs = r1_def r2_def r3_def r4_def r5_def assms(3) new_WorkerThread_def
  define S1 where "S1 = set_worker w r1 Q"
  define S2 where "S2 = post_task t (PrepareTask w) (set_worker w r2 S1)"
  define S3 where "S3 = set_worker w r3 S2"
  define S4 where "S4 = post_task t (PerformTask w) (set_worker w r4 S3)"
  define S5 where "S5 = set_worker w r5 (pop t S4)"
  have w: "workers S1 w = Some r1" "workers S2 w = Some r2" "workers S3 w = Some r3" "workers S4 w = Some r4"
    by (simp_all add: S1_def S2_def S3_def S4_def)
  have tk: "tasks S4 t = [PrepareTask w, PerformTask w]" using assms(2)
    by (simp add: S1_def S2_def S3_def S4_def post_task_def set_worker_def)
  have 1: "act (RequestTermination w) Q = Inr S1"
    using assms(1) by (simp add: TerminateRequest_def ScheduleToTerminateScriptExecution_def check_def S1_def rs)
  have 2: "act (PostPrepare w) S1 = Inr S2" using w(1) by (simp add: TerminatePost_def S2_def) (simp add: rs)
  have 3: "act (LockedTermination w) S2 = Inr S3" using w(2) by (simp add: TerminateLocked_def S3_def) (simp add: rs)
  have 4: "act (PostPerform w) S3 = Inr S4" using w(3) by (simp add: TerminatePerform_def S4_def) (simp add: rs)
  have 5: "act (RunTask t) S4 = Inr S5"
    using w(4) tk by (simp add: run_task_pop PrepareForShutdownOnWorkerThread_def SetThreadState_def check_def S5_def)
      (simp add: rs)
  have "reaches False Q [RequestTermination w] S1" by (rule reaches_step [OF reaches.start _ _ 1]) (simp_all add: assms(1))
  then have "reaches False Q [RequestTermination w, PostPrepare w] S2" by (rule reaches_step [OF _ _ _ 2]) (simp_all add: w)
  then have "reaches False Q [RequestTermination w, PostPrepare w, LockedTermination w] S3"
    by (rule reaches_step [OF _ _ _ 3]) (simp_all add: w)
  then have "reaches False Q [RequestTermination w, PostPrepare w, LockedTermination w, PostPerform w] S4"
    by (rule reaches_step [OF _ _ _ 4]) (simp_all add: w)
  then have "reaches False Q [RequestTermination w, PostPrepare w, LockedTermination w, PostPerform w, RunTask t] S5"
    by (rule reaches_step [OF _ _ _ 5]) simp_all
  moreover have "workers S5 = (workers Q)(w \<mapsto> r5)" by (simp add: S1_def S2_def S3_def S4_def S5_def)
  moreover have "tasks S5 t = [PerformTask w]" using tk by (simp add: S5_def set_worker_def pop_def)
  moreover have "web_tsan S5 = web_tsan Q" "tls_of S5 = tls_of Q"
    by (simp_all add: S1_def S2_def S3_def S4_def S5_def set_worker_def post_task_def pop_def)
  ultimately show thesis by (rule that) (simp add: r1_def r2_def r3_def r4_def r5_def)
qed

text \<open>Such a state is reached: two workers on thread 1, of which the first is terminated.\<close>

theorem shutdown_strands_thread_sharer_witness:
  "\<exists>E as P R. InitializeWebTSan True new_engine = Inr E \<and> reaches False (new_process E) as P
     \<and> act (RunTask 1) P = Inr R \<and> running 2 R \<and> act (PostToPort True (Some 2) None 7) R = Inl OutOfBounds"
proof -
  obtain E where E: "InitializeWebTSan True new_engine = Inr E" and g: "good (new_process E)" using started_process .
  have o: "new_object 1 (new_process E)" "True \<longrightarrow> own_thread (Create 1 None 1) (new_process E)"
    by (simp_all add: new_object_def main_thread_def)
  obtain P r where P: "reaches True (new_process E) ([] @ [Create 1 None 1, RunTask 1]) P" "workers P = Map.empty(1 \<mapsto> r)"
    "tasks P = (\<lambda>_. [])"
    and r: "r = new_WorkerThread None 1\<lparr>runners_initialized := True, context_globals := context_globals r, thread_state := Running\<rparr>"
    by (rule birth [OF reaches.start g o(1) _ o(2)]) simp_all
  have o2: "new_object 2 P" "False \<longrightarrow> own_thread (Create 2 None 1) P" using P(2,3) by (simp_all add: new_object_def)
  obtain Q q where Q: "reaches False (new_process E) (([] @ [Create 1 None 1, RunTask 1]) @ [Create 2 None 1, RunTask 1]) Q"
    "workers Q = Map.empty(1 \<mapsto> r, 2 \<mapsto> q)" "tasks Q = (\<lambda>_. [])" "enabled (web_tsan Q)"
    "tid_at 1 Q = find_slot (web_tsan P)" and q: "thread_state q = Running" "backing_thread q = 1"
    by (rule birth [OF reaches_any [OF P(1)] good_reaches [OF P(1) g] o2(1) _ o2(2)]) (simp_all add: P(2,3))
  have "tid_at 1 Q < kMaxThreads"
    using find_slot_less Q(5) tids_okD(2) [OF goodD(2) [OF good_reaches [OF P(1) g]]] by simp
  note tid = this
  obtain G where G: "r = new_WorkerThread None 1\<lparr>runners_initialized := True, context_globals := G, thread_state := Running\<rparr>"
    using r by blast
  obtain S x where S: "reaches False Q [RequestTermination 1, PostPrepare 1, LockedTermination 1, PostPerform 1, RunTask 1] S"
    "workers S = (workers Q)(1 \<mapsto> x)" "tasks S 1 = [PerformTask 1]" "web_tsan S = web_tsan Q" "tls_of S = tls_of Q"
    and x: "x = r\<lparr>termination_progress := Performing, asked_to_terminate := True, forcible_termination_task := True,
      terminate_pc := Returned, thread_state := ReadyToShutdown\<rparr>"
    by (rule terminate_run [of Q 1 r 1, OF _ _ G]) (simp_all add: Q(2,3))
  have ws: "workers S 1 = Some x" "workers S 2 = Some q" "backing_thread x = 1" "(2::wid) \<noteq> 1"
    using S(2) Q(2) by (simp_all add: x, simp add: G new_WorkerThread_def)
  have en: "enabled (web_tsan S)" using S(4) Q(4) by simp
  have "enabled (web_tsan (pop 1 S))" "tid_at 1 (pop 1 S) < kMaxThreads" using en tid S(5) by (simp_all add: tid_at_def)
  then obtain T where T: "tsan_worker_destroyed 1 (pop 1 S) = Inr T" by (rule destroyed_returns) metis
  have "child_threads x = {}" "exit_code x = NotTerminated" by (simp_all add: x, simp_all add: G new_WorkerThread_def)
  then obtain R where R: "act (RunTask 1) S = Inr R"
    using S(3) ws(1,3) T by (simp add: run_task_pop PerformShutdownOnWorkerThread_def SetExitCode_def check_def x)
  from reaches_append [OF S(1) Q(1)] E R shutdown_strands_thread_sharer [OF en S(3) R ws(1,3,2,4) q(2,1), of None 7]
  show ?thesis by blast
qed

end
