(* ===== verification/Liftoff.thy ===== *)
theory Liftoff
  imports WasmTrace BackingStore
begin

text \<open>
  The memory instructions of the baseline compiler (\<open>liftoff-compiler.cc\<close>), which emits the calls that
  tell the detector of WebAssembly accesses. Each function is modelled by what the code it emits does
  on a 64-bit target; its decisions at compile time are conditions. Register allocation, spilling and
  debug information are not modelled; a register is its value. The assembler, the representations of
  values and the builtins called are parameters.
\<close>

subsection \<open>State\<close>

datatype BoundsCheckStrategy = kExplicitBoundsChecks | kTrapHandler | kNoBoundsChecks

record WasmMemory =
  wm_is_shared :: bool
  wm_is_memory64 :: bool
  wm_min_memory_size :: nat
  wm_max_memory_size :: nat
  wm_bounds_checks :: BoundsCheckStrategy

record MemoryAccessImmediate =
  imm_mem_index :: nat
  imm_offset :: u64
  imm_memory :: WasmMemory

text \<open>A slot of the value stack: a constant, or a value of which memory32 uses the low half.\<close>

datatype VarState = ConstSlot u32 | ValueSlot u64

text \<open>A \<open>LoadType\<close> or \<open>StoreType\<close>: size and representation in memory.\<close>

record access_type =
  at_size :: nat
  at_rep :: byte
  at_is_f16 :: bool

datatype trap_reason = ThrowWasmTrapMemOutOfBounds | ThrowWasmTrapUnalignedAccess

datatype stop = Trapped trap_reason | Broken crash

type_synonym 'a code = "stop + 'a"

fun bindC :: "'a code \<Rightarrow> ('a \<Rightarrow> 'b code) \<Rightarrow> 'b code" where
  "bindC (Inl e) f = Inl e"
| "bindC (Inr x) f = f x"

definition runtime_call :: "'a result \<Rightarrow> 'a code" where
  "runtime_call r = (case r of Inl e \<Rightarrow> Inl (Broken e) | Inr x \<Rightarrow> Inr x)"

text \<open>Memory contents, and for each memory its start, its size now and the size reserved for it.\<close>

record machine =
  ram :: "addr \<Rightarrow> byte"
  mem_start :: "nat \<Rightarrow> addr"
  mem_size :: "nat \<Rightarrow> nat"
  mem_reserved :: "nat \<Rightarrow> nat"
  caller :: wasm_frame
  runtime :: wasm_state

record liftoff_config =
  v8_flags :: wasm_flags
  wasm_memory64_trap_handling :: bool
  max_memory64_size :: nat
  supports_f16_mem_access :: bool
  kPartialOOBWritesAreNoops :: bool
  i32_load16u :: access_type
  i32_store16 :: access_type
  after_c_call :: "u64 \<Rightarrow> u64" \<comment> \<open>a register not in use, after a call of C code\<close>
  float16_to_float32 :: "byte list \<Rightarrow> byte list"
  float32_to_float16 :: "byte list \<Rightarrow> byte list"
  mem_rep_size :: "byte \<Rightarrow> nat"
  js :: js_env

subsection \<open>Bounds and alignment\<close>

text \<open>\<open>base::IsInBounds\<close>.\<close>

definition IsInBounds64 :: "nat \<Rightarrow> nat \<Rightarrow> nat \<Rightarrow> bool" where
  "IsInBounds64 index len limit \<longleftrightarrow> len \<le> limit \<and> index \<le> limit - len"

definition zero_extend :: "u64 \<Rightarrow> u64" where
  "zero_extend r = ucast (ucast r :: u32)"

definition AlignmentCheckMem :: "nat \<Rightarrow> u64 \<Rightarrow> u64 \<Rightarrow> unit code" where
  "AlignmentCheckMem access_size offset index =
     (if access_size = 1 then Inr ()
      else
        let align_mask = word_of_nat access_size - 1 :: u32;
            address = (if and offset (ucast align_mask) = 0 then and (ucast index) align_mask
                       else and (ucast index + ucast offset) align_mask)
        in if address \<noteq> 0 then Inl (Trapped ThrowWasmTrapUnalignedAccess) else Inr ())"

definition BoundsCheckMem ::
  "liftoff_config \<Rightarrow> WasmMemory \<Rightarrow> nat \<Rightarrow> nat \<Rightarrow> u64 \<Rightarrow> u64 \<Rightarrow> bool \<Rightarrow> bool \<Rightarrow> machine \<Rightarrow> u64 code" where
  "BoundsCheckMem cfg memory mem_index access_size offset index force_check check_alignment m =
     (if \<not> IsInBounds64 (unat offset) access_size (wm_max_memory_size memory) then Inl (Broken CheckFailed)
      else bindC (if check_alignment then AlignmentCheckMem access_size offset index else Inr ()) (\<lambda>_.
        if wm_bounds_checks memory = kNoBoundsChecks then Inr index
        else
          let end_offset = offset + word_of_nat access_size - 1 in
          if \<not> force_check \<and> wm_bounds_checks memory = kTrapHandler then
            (if wm_is_memory64 memory \<and> index \<ge> word_of_nat (max_memory64_size cfg) - end_offset
             then Inl (Trapped ThrowWasmTrapMemOutOfBounds) else Inr index)
          else
            let index = (if wm_is_memory64 memory then index else zero_extend index);
                size = word_of_nat (mem_size m mem_index) :: u64
            in if unat end_offset > wm_min_memory_size memory \<and> end_offset \<ge> size
               then Inl (Trapped ThrowWasmTrapMemOutOfBounds)
               else let effective_size = size - end_offset in
                    if index \<ge> effective_size then Inl (Trapped ThrowWasmTrapMemOutOfBounds) else Inr index))"

definition IndexStaticallyInBounds :: "WasmMemory \<Rightarrow> VarState \<Rightarrow> nat \<Rightarrow> u64 \<Rightarrow> u64 option" where
  "IndexStaticallyInBounds memory index_slot access_size offset =
     (case index_slot of
        ValueSlot r \<Rightarrow> None
      | ConstSlot c \<Rightarrow>
          let index = (if wm_is_memory64 memory then scast c else ucast c);
              effective_offset = index + offset
          in if effective_offset < index \<or>
                \<not> IsInBounds64 (unat effective_offset) access_size (wm_min_memory_size memory)
             then None else Some effective_offset)"

definition IndexStaticallyInBoundsAndAligned :: "WasmMemory \<Rightarrow> VarState \<Rightarrow> nat \<Rightarrow> u64 \<Rightarrow> u64 option" where
  "IndexStaticallyInBoundsAndAligned memory index_slot access_size offset =
     (case IndexStaticallyInBounds memory index_slot access_size offset of
        None \<Rightarrow> None
      | Some new_offset \<Rightarrow> if unat new_offset mod access_size = 0 then Some new_offset else None)"

text \<open>The value of a slot in a register.\<close>

definition PopToRegister :: "WasmMemory \<Rightarrow> VarState \<Rightarrow> u64" where
  "PopToRegister memory slot =
     (case slot of ValueSlot r \<Rightarrow> r | ConstSlot c \<Rightarrow> if wm_is_memory64 memory then scast c else ucast c)"

subsection \<open>Accesses\<close>

definition GetMemoryStart :: "nat \<Rightarrow> machine \<Rightarrow> addr" where
  "GetMemoryStart mem_index m = mem_start m mem_index"

text \<open>
  An access at start, index and offset, of which memory32 takes the index as 32 bits. Beyond the size
  of the memory, but within its reservation, it faults, which is a trap for an instruction registered
  with the trap handler.
\<close>

definition pointer_index :: "WasmMemory \<Rightarrow> u64 option \<Rightarrow> nat" where
  "pointer_index memory index =
     (case index of None \<Rightarrow> 0 | Some r \<Rightarrow> unat (if wm_is_memory64 memory then r else zero_extend r))"

definition touch :: "bool \<Rightarrow> MemoryAccessImmediate \<Rightarrow> u64 option \<Rightarrow> u64 \<Rightarrow> nat \<Rightarrow> machine \<Rightarrow> addr code" where
  "touch registered imm index offset n m =
     (let at = pointer_index (imm_memory imm) index + unat offset in
      if at + n \<le> mem_size m (imm_mem_index imm) then Inr (GetMemoryStart (imm_mem_index imm) m + at)
      else if registered \<and> at + n \<le> mem_reserved m (imm_mem_index imm)
      then Inl (Trapped ThrowWasmTrapMemOutOfBounds)
      else Inl (Broken OutOfBounds))"

definition peek :: "addr \<Rightarrow> nat \<Rightarrow> machine \<Rightarrow> byte list" where
  "peek a n m = map (\<lambda>i. ram m (a + i)) [0..<n]"

definition poke :: "addr \<Rightarrow> byte list \<Rightarrow> machine \<Rightarrow> machine" where
  "poke a bs m = m\<lparr>ram := (\<lambda>x. if a \<le> x \<and> x < a + length bs then bs ! (x - a) else ram m x)\<rparr>"

subsection \<open>Tracing\<close>

definition TraceMemoryOperation ::
  "liftoff_config \<Rightarrow> bool \<Rightarrow> MemoryAccessImmediate \<Rightarrow> byte \<Rightarrow> u64 option \<Rightarrow> u64 \<Rightarrow> bool \<Rightarrow> machine \<Rightarrow> machine code" where
  "TraceMemoryOperation cfg is_store imm rep index offset is_atomic m =
     (let memory64 = wm_is_memory64 (imm_memory imm) in
      if \<not> (flag_trace_wasm_memory (v8_flags cfg) \<or> flag_wasm_tsan (v8_flags cfg)) then Inl (Broken CheckFailed)
      else if \<not> memory64 \<and> \<not> unat offset \<le> UINT32_MAX then Inl (Broken CheckFailed)
      else
        let effective_offset =
              (if memory64 then offset + (case index of None \<Rightarrow> 0 | Some r \<Rightarrow> r)
               else ucast (ucast offset + (case index of None \<Rightarrow> 0 | Some r \<Rightarrow> ucast r) :: u32));
            info = \<lparr>ti_offset = unat effective_offset, ti_mem_index = imm_mem_index imm,
              ti_is_store = (if is_store then 1 else 0), ti_mem_rep = rep,
              ti_is_atomic = (if is_atomic then 1 else 0)\<rparr>
        in bindC (runtime_call (Runtime_WasmTraceMemory (mem_rep_size cfg) (ram m) (js cfg) (v8_flags cfg)
                    (caller m) (Some info) (runtime m)))
             (\<lambda>s. Inr (m\<lparr>runtime := s\<rparr>)))"

definition trace_enabled :: "liftoff_config \<Rightarrow> WasmMemory \<Rightarrow> bool" where
  "trace_enabled cfg memory \<longleftrightarrow>
     flag_trace_wasm_memory (v8_flags cfg) \<or> flag_wasm_tsan (v8_flags cfg) \<and> wm_is_shared memory"

definition maybe_trace ::
  "liftoff_config \<Rightarrow> bool \<Rightarrow> MemoryAccessImmediate \<Rightarrow> byte \<Rightarrow> u64 option \<Rightarrow> u64 \<Rightarrow> bool \<Rightarrow> machine \<Rightarrow> machine code" where
  "maybe_trace cfg is_store imm rep index offset is_atomic m =
     (if trace_enabled cfg (imm_memory imm)
      then TraceMemoryOperation cfg is_store imm rep index offset is_atomic m else Inr m)"

definition TraceGlobalOperation :: "liftoff_config \<Rightarrow> nat \<Rightarrow> bool \<Rightarrow> machine \<Rightarrow> machine code" where
  "TraceGlobalOperation cfg global_index is_store m =
     bindC (runtime_call (Runtime_WasmTraceGlobal (v8_flags cfg) (caller m)
              (Some \<lparr>gi_global_index = global_index, gi_is_store = (if is_store then 1 else 0)\<rparr>) (runtime m)))
       (\<lambda>s. Inr (m\<lparr>runtime := s\<rparr>))"

subsection \<open>Loads and stores\<close>

text \<open>The address of a plain access: a constant index that is in bounds costs no check.\<close>

definition plain_index ::
  "liftoff_config \<Rightarrow> MemoryAccessImmediate \<Rightarrow> VarState \<Rightarrow> nat \<Rightarrow> bool \<Rightarrow> machine \<Rightarrow> (u64 option \<times> u64) code" where
  "plain_index cfg imm slot access_size force_check m =
     (case IndexStaticallyInBounds (imm_memory imm) slot access_size (imm_offset imm) of
        Some offset \<Rightarrow> Inr (None, offset)
      | None \<Rightarrow>
          bindC (BoundsCheckMem cfg (imm_memory imm) (imm_mem_index imm) access_size (imm_offset imm)
                   (PopToRegister (imm_memory imm) slot) force_check False m)
            (\<lambda>index. Inr (Some index, imm_offset imm)))"

definition trapping :: "MemoryAccessImmediate \<Rightarrow> u64 option \<Rightarrow> bool" where
  "trapping imm index \<longleftrightarrow> index \<noteq> None \<and> wm_bounds_checks (imm_memory imm) = kTrapHandler"

text \<open>Without hardware support a half float is loaded as an integer and converted by a call of C code.\<close>

definition LoadMem ::
  "liftoff_config \<Rightarrow> access_type \<Rightarrow> MemoryAccessImmediate \<Rightarrow> VarState \<Rightarrow> machine \<Rightarrow> (byte list \<times> machine) code" where
  "LoadMem cfg ty imm slot m =
     (let needs_f16_to_f32_conv = (at_is_f16 ty \<and> \<not> supports_f16_mem_access cfg);
          ty = (if needs_f16_to_f32_conv then i32_load16u cfg else ty)
      in bindC (plain_index cfg imm slot (at_size ty) False m) (\<lambda>(index, offset).
         bindC (touch (trapping imm index) imm index offset (at_size ty) m) (\<lambda>a.
           let value = peek a (at_size ty) m;
               index = (if needs_f16_to_f32_conv then map_option (after_c_call cfg) index else index);
               result = (if needs_f16_to_f32_conv then float16_to_float32 cfg value else value)
           in bindC (maybe_trace cfg False imm (at_rep ty) index offset False m) (\<lambda>m. Inr (result, m)))))"

definition force_check_of :: "liftoff_config \<Rightarrow> access_type \<Rightarrow> bool" where
  "force_check_of cfg ty \<longleftrightarrow> \<not> (kPartialOOBWritesAreNoops cfg \<or> at_size ty = 1)"

definition StoreMem ::
  "liftoff_config \<Rightarrow> access_type \<Rightarrow> MemoryAccessImmediate \<Rightarrow> VarState \<Rightarrow> byte list \<Rightarrow> machine \<Rightarrow> machine code" where
  "StoreMem cfg ty imm slot value m =
     (let conv = (at_is_f16 ty \<and> \<not> supports_f16_mem_access cfg);
          ty = (if conv then i32_store16 cfg else ty);
          value = (if conv then float32_to_float16 cfg value else value)
      in bindC (plain_index cfg imm slot (at_size ty) (force_check_of cfg ty) m) (\<lambda>(index, offset).
         bindC (touch (trapping imm index) imm index offset (at_size ty) m) (\<lambda>a.
           maybe_trace cfg True imm (at_rep ty) index offset False (poke a (take (at_size ty) value) m))))"

text \<open>Vector accesses check every index.\<close>

definition vector_index ::
  "liftoff_config \<Rightarrow> MemoryAccessImmediate \<Rightarrow> VarState \<Rightarrow> nat \<Rightarrow> bool \<Rightarrow> machine \<Rightarrow> u64 code" where
  "vector_index cfg imm slot access_size force_check m =
     BoundsCheckMem cfg (imm_memory imm) (imm_mem_index imm) access_size (imm_offset imm)
       (PopToRegister (imm_memory imm) slot) force_check False m"

datatype LoadTransformationKind = kSplat | kExtend | kZeroExtend

text \<open>
  What a transformation makes of the bytes loaded, a matter of the assembler, is \<open>transform_value\<close>; 4 is
  the representation of 64-bit words.
\<close>

definition LoadTransform ::
  "liftoff_config \<Rightarrow> byte \<Rightarrow> (LoadTransformationKind \<Rightarrow> access_type \<Rightarrow> byte list \<Rightarrow> byte list) \<Rightarrow> access_type \<Rightarrow>
   LoadTransformationKind \<Rightarrow> MemoryAccessImmediate \<Rightarrow> VarState \<Rightarrow> machine \<Rightarrow> (byte list \<times> machine) code" where
  "LoadTransform cfg kWord64 transform_value ty transform imm slot m =
     (let access_size = (if transform = kExtend then 8 else at_size ty)
      in bindC (vector_index cfg imm slot access_size False m) (\<lambda>index.
         bindC (touch (trapping imm (Some index)) imm (Some index) (imm_offset imm) access_size m) (\<lambda>a.
           let result = transform_value transform ty (peek a access_size m);
               mem_rep = (if transform = kExtend then kWord64 else at_rep ty)
           in bindC (maybe_trace cfg False imm mem_rep (Some index) (imm_offset imm) False m) (\<lambda>m.
                Inr (result, m)))))"

definition LoadLane ::
  "liftoff_config \<Rightarrow> access_type \<Rightarrow> byte list \<Rightarrow> VarState \<Rightarrow> MemoryAccessImmediate \<Rightarrow> nat \<Rightarrow> machine \<Rightarrow>
   (byte list \<times> machine) code" where
  "LoadLane cfg ty value slot imm laneidx m =
     bindC (vector_index cfg imm slot (at_size ty) False m) (\<lambda>index.
     bindC (touch (trapping imm (Some index)) imm (Some index) (imm_offset imm) (at_size ty) m) (\<lambda>a.
       let result = take (laneidx * at_size ty) value @ peek a (at_size ty) m
                      @ drop (laneidx * at_size ty + at_size ty) value
       in bindC (maybe_trace cfg False imm (at_rep ty) (Some index) (imm_offset imm) False m) (\<lambda>m.
            Inr (result, m))))"

definition StoreLane ::
  "liftoff_config \<Rightarrow> access_type \<Rightarrow> MemoryAccessImmediate \<Rightarrow> VarState \<Rightarrow> byte list \<Rightarrow> nat \<Rightarrow> machine \<Rightarrow> machine code" where
  "StoreLane cfg ty imm slot value lane m =
     bindC (vector_index cfg imm slot (at_size ty) (force_check_of cfg ty) m) (\<lambda>index.
     bindC (touch (trapping imm (Some index)) imm (Some index) (imm_offset imm) (at_size ty) m) (\<lambda>a.
       maybe_trace cfg True imm (at_rep ty) (Some index) (imm_offset imm) False
         (poke a (take (at_size ty) (drop (lane * at_size ty) value)) m)))"

subsection \<open>Memory size and growth\<close>

definition kWasmPageSizeLog2 :: nat where
  "kWasmPageSizeLog2 = 16"

definition CurrentMemoryPages :: "nat \<Rightarrow> machine \<Rightarrow> u64" where
  "CurrentMemoryPages mem_index m = drop_bit kWasmPageSizeLog2 (word_of_nat (mem_size m mem_index))"

text \<open>The builtin \<open>WasmMemoryGrow\<close> takes 32 bits; a larger count of pages fails without a call.\<close>

definition MemoryGrow ::
  "(nat \<Rightarrow> u32 \<Rightarrow> machine \<Rightarrow> u32 \<times> machine) \<Rightarrow> MemoryAccessImmediate \<Rightarrow> u64 \<Rightarrow> machine \<Rightarrow> u64 \<times> machine" where
  "MemoryGrow WasmMemoryGrow imm num_pages m =
     (if wm_is_memory64 (imm_memory imm) then
        if drop_bit 32 num_pages \<noteq> 0 then (scast (- 1 :: u32), m)
        else let (r, m) = WasmMemoryGrow (imm_mem_index imm) (ucast num_pages) m in (scast r, m)
      else let (r, m) = WasmMemoryGrow (imm_mem_index imm) (ucast num_pages) m in (ucast r, m))"

subsection \<open>Atomic accesses\<close>

definition atomic_index ::
  "liftoff_config \<Rightarrow> MemoryAccessImmediate \<Rightarrow> VarState \<Rightarrow> nat \<Rightarrow> machine \<Rightarrow> (u64 option \<times> u64) code" where
  "atomic_index cfg imm slot access_size m =
     (case IndexStaticallyInBoundsAndAligned (imm_memory imm) slot access_size (imm_offset imm) of
        Some offset \<Rightarrow> Inr (None, offset)
      | None \<Rightarrow>
          bindC (BoundsCheckMem cfg (imm_memory imm) (imm_mem_index imm) access_size (imm_offset imm)
                   (PopToRegister (imm_memory imm) slot) True True m)
            (\<lambda>index. Inr (Some index, imm_offset imm)))"

definition AtomicStoreMem ::
  "liftoff_config \<Rightarrow> access_type \<Rightarrow> MemoryAccessImmediate \<Rightarrow> VarState \<Rightarrow> byte list \<Rightarrow> machine \<Rightarrow> machine code" where
  "AtomicStoreMem cfg ty imm slot value m =
     bindC (atomic_index cfg imm slot (at_size ty) m) (\<lambda>(index, offset).
     bindC (touch False imm index offset (at_size ty) m) (\<lambda>a.
       maybe_trace cfg True imm (at_rep ty) index offset True (poke a (take (at_size ty) value) m)))"

definition AtomicLoadMem ::
  "liftoff_config \<Rightarrow> access_type \<Rightarrow> MemoryAccessImmediate \<Rightarrow> VarState \<Rightarrow> machine \<Rightarrow> (byte list \<times> machine) code" where
  "AtomicLoadMem cfg ty imm slot m =
     bindC (atomic_index cfg imm slot (at_size ty) m) (\<lambda>(index, offset).
     bindC (touch False imm index offset (at_size ty) m) (\<lambda>a.
     bindC (maybe_trace cfg False imm (at_rep ty) index offset True m) (\<lambda>m'. Inr (peek a (at_size ty) m, m'))))"

text \<open>The operation \<open>emit_fn\<close> emits, from the old bytes and the operand to the new bytes.\<close>

definition AtomicBinop ::
  "liftoff_config \<Rightarrow> access_type \<Rightarrow> MemoryAccessImmediate \<Rightarrow> (byte list \<Rightarrow> byte list \<Rightarrow> byte list) \<Rightarrow> VarState \<Rightarrow>
   byte list \<Rightarrow> machine \<Rightarrow> (byte list \<times> machine) code" where
  "AtomicBinop cfg ty imm emit_fn slot value m =
     bindC (atomic_index cfg imm slot (at_size ty) m) (\<lambda>(index, offset).
     bindC (touch False imm index offset (at_size ty) m) (\<lambda>a.
       let old = peek a (at_size ty) m
       in bindC (maybe_trace cfg True imm (at_rep ty) index offset True
                   (poke a (take (at_size ty) (emit_fn old value)) m)) (\<lambda>m. Inr (old, m))))"

definition compare_exchange :: "nat \<Rightarrow> byte list \<Rightarrow> byte list \<Rightarrow> byte list \<Rightarrow> byte list" where
  "compare_exchange n old expected new_value = (if old = take n expected then take n new_value else old)"

definition AtomicCompareExchange ::
  "liftoff_config \<Rightarrow> access_type \<Rightarrow> MemoryAccessImmediate \<Rightarrow> VarState \<Rightarrow> byte list \<Rightarrow> byte list \<Rightarrow> machine \<Rightarrow>
   (byte list \<times> machine) code" where
  "AtomicCompareExchange cfg ty imm slot expected new_value m =
     bindC (atomic_index cfg imm slot (at_size ty) m) (\<lambda>(index, offset).
     bindC (touch False imm index offset (at_size ty) m) (\<lambda>a.
       let old = peek a (at_size ty) m
       in bindC (maybe_trace cfg True imm (at_rep ty) index offset True
                   (poke a (compare_exchange (at_size ty) old expected new_value) m)) (\<lambda>m. Inr (old, m))))"

text \<open>On ia32 the index is added to the start before the access, and the trace gets no index.\<close>

definition AtomicCompareExchange_ia32 ::
  "liftoff_config \<Rightarrow> access_type \<Rightarrow> MemoryAccessImmediate \<Rightarrow> VarState \<Rightarrow> byte list \<Rightarrow> byte list \<Rightarrow> machine \<Rightarrow>
   (byte list \<times> machine) code" where
  "AtomicCompareExchange_ia32 cfg ty imm slot expected new_value m =
     bindC (BoundsCheckMem cfg (imm_memory imm) (imm_mem_index imm) (at_size ty) (imm_offset imm)
              (PopToRegister (imm_memory imm) slot) True True m) (\<lambda>index.
     bindC (touch False imm (Some index) (imm_offset imm) (at_size ty) m) (\<lambda>a.
       let old = peek a (at_size ty) m
       in bindC (maybe_trace cfg True imm (at_rep ty) None (imm_offset imm) True
                   (poke a (compare_exchange (at_size ty) old expected new_value) m)) (\<lambda>m. Inr (old, m))))"

text \<open>The builtins and the C function behind wait and notify, as far as these calls go.\<close>

definition AtomicWait ::
  "(nat \<Rightarrow> nat \<Rightarrow> u64 \<Rightarrow> u64 \<Rightarrow> u64 \<Rightarrow> machine \<Rightarrow> (u32 \<times> machine) code) \<Rightarrow> liftoff_config \<Rightarrow> nat \<Rightarrow>
   MemoryAccessImmediate \<Rightarrow> VarState \<Rightarrow> u64 \<Rightarrow> u64 \<Rightarrow> machine \<Rightarrow> (u32 \<times> machine) code" where
  "AtomicWait WasmAtomicWait cfg kind_size imm slot expected timeout m =
     bindC (BoundsCheckMem cfg (imm_memory imm) (imm_mem_index imm) kind_size (imm_offset imm)
              (PopToRegister (imm_memory imm) slot) True True m) (\<lambda>index_reg.
       let index_plus_offset = index_reg + imm_offset imm
       in WasmAtomicWait kind_size (imm_mem_index imm) index_plus_offset expected timeout m)"

definition AtomicNotify ::
  "(u64 \<Rightarrow> u32 \<Rightarrow> machine \<Rightarrow> (u32 \<times> machine) code) \<Rightarrow> liftoff_config \<Rightarrow>
   MemoryAccessImmediate \<Rightarrow> VarState \<Rightarrow> u32 \<Rightarrow> machine \<Rightarrow> (u32 \<times> machine) code" where
  "AtomicNotify wasm_atomic_notify cfg imm slot num_waiters_to_wake m =
     bindC (BoundsCheckMem cfg (imm_memory imm) (imm_mem_index imm) 4 (imm_offset imm)
              (PopToRegister (imm_memory imm) slot) True True m) (\<lambda>index_reg.
       let addr = index_reg + imm_offset imm + word_of_nat (GetMemoryStart (imm_mem_index imm) m)
       in wasm_atomic_notify addr num_waiters_to_wake m)"

text \<open>The dispatch on the opcode; wait and notify have their own results.\<close>

datatype atomic_op =
    AtomicStoreOp access_type "byte list"
  | AtomicLoadOp access_type
  | AtomicBinopOp access_type "byte list \<Rightarrow> byte list \<Rightarrow> byte list" "byte list"
  | AtomicCompareExchangeOp access_type "byte list" "byte list"

fun AtomicOp ::
  "liftoff_config \<Rightarrow> atomic_op \<Rightarrow> MemoryAccessImmediate \<Rightarrow> VarState \<Rightarrow> machine \<Rightarrow> (byte list \<times> machine) code" where
  "AtomicOp cfg (AtomicStoreOp ty value) imm slot m =
     bindC (AtomicStoreMem cfg ty imm slot value m) (\<lambda>m. Inr ([], m))"
| "AtomicOp cfg (AtomicLoadOp ty) imm slot m = AtomicLoadMem cfg ty imm slot m"
| "AtomicOp cfg (AtomicBinopOp ty emit_fn value) imm slot m = AtomicBinop cfg ty imm emit_fn slot value m"
| "AtomicOp cfg (AtomicCompareExchangeOp ty expected new_value) imm slot m =
     AtomicCompareExchange cfg ty imm slot expected new_value m"

end
