(* ===== verification/LiftoffProps.thy ===== *)
theory LiftoffProps
  imports Liftoff
begin

text \<open>
  Properties of compiled memory accesses: the emitted checks are exact under every strategy, every
  access of a shared memory is followed by the report of exactly its bytes, and where that fails.
\<close>

subsection \<open>Word arithmetic\<close>

lemma bindC_simps [simp]: "bindC m Inr = m"
  by (cases m) simp_all

lemma if_or: "(if P \<or> Q then x else y) = (if P then x else if Q then x else y)"
  by simp

lemma unat_add_small: "unat a + unat b < 18446744073709551616 \<Longrightarrow> unat (a + b) = unat a + unat b" for a b :: u64
  by (simp add: unat_word_ariths)

lemma unat_low32: "unat (ucast x :: u32) = unat x mod 4294967296" for x :: u64
  by (simp add: unsigned_ucast_eq take_bit_eq_mod)

lemma unat_ucast64: "unat (ucast x :: u64) = unat x" for x :: u32
  using unsigned_less [of x, where ?'a = nat] by (simp add: unsigned_ucast_eq take_bit_nat_eq_self)

lemma unat_zero_extend: "unat (zero_extend r) = unat r mod 4294967296"
  by (simp only: zero_extend_def unat_ucast64 unat_low32)

lemma unat_of_size: "n < 18446744073709551616 \<Longrightarrow> unat (word_of_nat n :: u64) = n"
  by (simp add: unat_of_nat)

definition access_sizes :: "nat set" where
  "access_sizes = {1, 2, 4, 8, 16}"

lemma end_offset:
  fixes offset :: u64
  assumes "IsInBounds64 (unat offset) n limit" and "limit < 18446744073709551616" and "n \<in> access_sizes"
  shows "unat (offset + word_of_nat n - 1) = unat offset + n - 1"
proof -
  have n: "1 \<le> n" "unat offset + n \<le> limit" "n < 18446744073709551616"
    using assms by (auto simp: IsInBounds64_def access_sizes_def)
  have s: "unat (word_of_nat (n - 1) :: u64) = n - 1" using n(3) by (intro unat_of_size) simp
  have "offset + word_of_nat n - 1 = offset + word_of_nat (n - 1)"
    using n(1) by (simp add: of_nat_diff)
  also have "unat \<dots> = unat offset + (n - 1)"
    using unat_add_small [of offset "word_of_nat (n - 1)"] s n assms(2) by simp
  finally show ?thesis using n(1) by simp
qed

text \<open>Masking with a size less one is the remainder by the size.\<close>

lemma mask_mod:
  assumes "n \<in> access_sizes"
  shows "unat (and x (word_of_nat n - 1 :: u32)) = unat x mod n"
proof -
  obtain k :: nat where k: "n = 2 ^ k" "k \<le> 4"
    using assms by (auto simp: access_sizes_def intro: that [of 0] that [of 1] that [of 2] that [of 3] that [of 4])
  have "word_of_nat n - 1 = (mask k :: u32)" by (simp add: k(1) mask_eq_decr_exp)
  then show ?thesis by (simp add: k(1) unsigned_take_bit_eq flip: take_bit_eq_mask take_bit_eq_mod)
qed

lemma mask_mod64:
  assumes "n \<in> access_sizes"
  shows "unat (and x (ucast (word_of_nat n - 1 :: u32)) :: u64) = unat x mod n"
proof -
  obtain k :: nat where k: "n = 2 ^ k" "k \<le> 4"
    using assms by (auto simp: access_sizes_def intro: that [of 0] that [of 1] that [of 2] that [of 3] that [of 4])
  have "word_of_nat n - 1 = (mask k :: u32)" by (simp add: k(1) mask_eq_decr_exp)
  moreover have "ucast (mask k :: u32) = (mask k :: u64)" 
    using k(2) by (intro bit_word_eqI) (auto simp: bit_simps)
  ultimately show ?thesis by (simp add: k(1) unsigned_take_bit_eq flip: take_bit_eq_mask take_bit_eq_mod)
qed

lemma AlignmentCheckMem_exact:
  assumes "n \<in> access_sizes"
  shows "AlignmentCheckMem n offset index =
    (if (unat index mod 4294967296 + unat offset) mod n = 0 then Inr () else Inl (Trapped ThrowWasmTrapUnalignedAccess))"
proof (cases "n = 1")
  case False
  have d: "n dvd 4294967296" using assms by (auto simp: access_sizes_def)
  then have low: "unat x mod 4294967296 mod n = unat x mod n" for x :: u64 by (rule mod_mod_cancel)
  let ?mask = "word_of_nat n - 1 :: u32"
  define address where "address = (if and offset (ucast ?mask) = 0 then and (ucast index) ?mask
    else and (ucast index + ucast offset) ?mask)"
  note u = unat_low32
  have "unat address = (unat index mod 4294967296 + unat offset) mod n"
  proof (cases "and offset (ucast ?mask) = 0")
    case True
    then have "unat offset mod n = 0" using mask_mod64 [OF assms, of offset] by simp
    then have "(unat index mod 4294967296 + unat offset) mod n = unat index mod n"
      by (metis add.right_neutral low mod_add_right_eq)
    with True show ?thesis by (simp add: address_def mask_mod [OF assms] u low)
  next
    case False
    have "unat (ucast index + ucast offset :: u32) mod n = (unat index mod 4294967296 + unat offset) mod n"
    proof -
      have "unat (ucast index + ucast offset :: u32) mod n
          = (unat index mod 4294967296 + unat offset mod 4294967296) mod n"
        using mod_mod_cancel [OF d] by (simp add: unat_word_ariths u)
      also have "\<dots> = (unat index mod 4294967296 + unat offset mod 4294967296 mod n) mod n"
        by (rule mod_add_right_eq [symmetric])
      also have "\<dots> = (unat index mod 4294967296 + unat offset mod n) mod n" by (simp only: low)
      also have "\<dots> = (unat index mod 4294967296 + unat offset) mod n" by (rule mod_add_right_eq)
      finally show ?thesis .
    qed
    with False show ?thesis by (simp add: address_def mask_mod [OF assms])
  qed
  then have "address = 0 \<longleftrightarrow> (unat index mod 4294967296 + unat offset) mod n = 0"
    using unsigned_eq_0_iff [of address, where ?'a = nat] by simp
  moreover have "AlignmentCheckMem n offset index =
      (if address \<noteq> 0 then Inl (Trapped ThrowWasmTrapUnalignedAccess) else Inr ())"
    using False by (simp add: AlignmentCheckMem_def Let_def address_def)
  ultimately show ?thesis by simp
qed (simp add: AlignmentCheckMem_def)

subsection \<open>Memories\<close>

text \<open>
  A memory as the engine sets it up: never smaller than the minimum its module declares nor larger than
  the maximum, which fits the index type; with the trap handler, the reservation covers every index.
\<close>

definition memory_ok :: "liftoff_config \<Rightarrow> MemoryAccessImmediate \<Rightarrow> machine \<Rightarrow> bool" where
  "memory_ok cfg imm m \<longleftrightarrow>
     (let memory = imm_memory imm; k = imm_mem_index imm in
      wm_min_memory_size memory \<le> mem_size m k \<and> mem_size m k \<le> wm_max_memory_size memory
    \<and> wm_max_memory_size memory < 18446744073709551616
    \<and> (\<not> wm_is_memory64 memory \<longrightarrow> wm_max_memory_size memory \<le> 4294967296)
    \<and> wm_bounds_checks memory \<noteq> kNoBoundsChecks
    \<and> (wm_bounds_checks memory = kTrapHandler \<longrightarrow>
        (if wm_is_memory64 memory
         then wm_max_memory_size memory \<le> max_memory64_size cfg \<and> max_memory64_size cfg < 18446744073709551616
            \<and> max_memory64_size cfg \<le> mem_reserved m k
         else kFullGuardSize32 \<le> mem_reserved m k)))"

text \<open>The decoder rejects an access that its static offset alone puts out of bounds.\<close>

definition access_ok :: "MemoryAccessImmediate \<Rightarrow> nat \<Rightarrow> bool" where
  "access_ok imm n \<longleftrightarrow> n \<in> access_sizes \<and> IsInBounds64 (unat (imm_offset imm)) n (wm_max_memory_size (imm_memory imm))"

text \<open>The offset in the memory an instruction means: index plus static offset, as numbers.\<close>

definition effective :: "MemoryAccessImmediate \<Rightarrow> VarState \<Rightarrow> nat" where
  "effective imm slot = pointer_index (imm_memory imm) (Some (PopToRegister (imm_memory imm) slot)) + unat (imm_offset imm)"

lemma zero_extend_idem [simp]: "zero_extend (zero_extend r) = zero_extend r"
  by (rule word_unat_eq_iff [THEN iffD2]) (simp add: unat_zero_extend)

lemma pointer_index_less: "pointer_index memory (Some r) < 18446744073709551616"
  "\<not> wm_is_memory64 memory \<Longrightarrow> pointer_index memory (Some r) < 4294967296"
  using unsigned_less [of r, where ?'a = nat] by (auto simp: pointer_index_def unat_zero_extend)

lemma pointer_align:
  assumes "n \<in> access_sizes"
  shows "(unat r mod 4294967296 + k) mod n = (pointer_index memory (Some r) + k) mod n"
proof -
  have "n dvd 4294967296" using assms by (auto simp: access_sizes_def)
  then have "(unat r mod 4294967296) mod n = unat r mod n" by (rule mod_mod_cancel)
  then have "(unat r mod 4294967296 + k) mod n = (unat r + k) mod n" by (rule mod_add_cong) simp
  then show ?thesis by (simp add: pointer_index_def unat_zero_extend)
qed

text \<open>The check that is not left to the trap handler, for every register the index may be in.\<close>

lemma bounds_check_lemma:
  assumes "memory_ok cfg imm m" and "access_ok imm n"
    and "force \<or> wm_bounds_checks (imm_memory imm) = kExplicitBoundsChecks"
  shows "BoundsCheckMem cfg (imm_memory imm) (imm_mem_index imm) n (imm_offset imm) (PopToRegister (imm_memory imm) slot) force align m =
    (if align \<and> effective imm slot mod n \<noteq> 0 then Inl (Trapped ThrowWasmTrapUnalignedAccess)
     else if mem_size m (imm_mem_index imm) < effective imm slot + n then Inl (Trapped ThrowWasmTrapMemOutOfBounds)
     else Inr (if wm_is_memory64 (imm_memory imm) then PopToRegister (imm_memory imm) slot
               else zero_extend (PopToRegister (imm_memory imm) slot)))"
proof -
  let ?mem = "imm_memory imm" and ?s = "mem_size m (imm_mem_index imm)" and ?off = "imm_offset imm"
  let ?r = "PopToRegister ?mem slot"
  let ?eo = "?off + word_of_nat n - 1" and ?i = "if wm_is_memory64 ?mem then ?r else zero_extend ?r"
  have ok: "wm_min_memory_size ?mem \<le> ?s" "?s < 18446744073709551616" "wm_bounds_checks ?mem \<noteq> kNoBoundsChecks"
    "wm_max_memory_size ?mem < 18446744073709551616"
    using assms(1) by (auto simp: memory_ok_def Let_def)
  have n: "n \<in> access_sizes" "IsInBounds64 (unat ?off) n (wm_max_memory_size ?mem)" "1 \<le> n"
    using assms(2) by (auto simp: access_ok_def access_sizes_def)
  have eo: "unat ?eo = unat ?off + n - 1" using end_offset [OF n(2) ok(4) n(1)] .
  have s: "unat (word_of_nat ?s :: u64) = ?s" using ok(2) by (rule unat_of_size)
  have i: "unat ?i = pointer_index ?mem (Some ?r)" by (simp add: pointer_index_def)
  have al: "AlignmentCheckMem n ?off ?r = (if effective imm slot mod n = 0 then Inr () else Inl (Trapped ThrowWasmTrapUnalignedAccess))"
    by (simp add: AlignmentCheckMem_exact [OF n(1)] pointer_align [OF n(1), of ?r _ ?mem] effective_def)
  have "(wm_min_memory_size ?mem < unat ?eo \<and> word_of_nat ?s \<le> ?eo) \<or> word_of_nat ?s - ?eo \<le> ?i
      \<longleftrightarrow> ?s < effective imm slot + n"
  proof (cases "?s \<le> unat ?eo")
    case True
    then have "?s < effective imm slot + n" using eo n(3) by (simp add: effective_def)
    moreover have "word_of_nat ?s - ?eo = 0" if "\<not> wm_min_memory_size ?mem < unat ?eo"
    proof -
      have "unat (word_of_nat ?s :: u64) = unat ?eo" unfolding s using True that ok(1) by simp
      then have "word_of_nat ?s = ?eo" by (simp add: word_unat_eq_iff)
      then show ?thesis by simp
    qed
    moreover have "word_of_nat ?s \<le> ?eo" using True s by (simp add: word_le_nat_alt)
    ultimately show ?thesis by (cases "wm_min_memory_size ?mem < unat ?eo") simp_all
  next
    case False
    then have "?eo \<le> word_of_nat ?s" using s by (simp add: word_le_nat_alt)
    then have "unat (word_of_nat ?s - ?eo) = ?s - unat ?eo" using s by (simp add: unat_sub)
    then have "word_of_nat ?s - ?eo \<le> ?i \<longleftrightarrow> ?s \<le> unat ?i + unat ?eo" using False by (auto simp: word_le_nat_alt)
    moreover have "\<not> word_of_nat ?s \<le> ?eo" using False s by (simp add: word_le_nat_alt)
    moreover have "effective imm slot + n = unat ?i + unat ?eo + 1" using eo i n(3) by (simp add: effective_def)
    ultimately show ?thesis by (simp add: less_Suc_eq_le)
  qed
  note oob = this
  have strategy: "\<not> (\<not> force \<and> wm_bounds_checks ?mem = kTrapHandler)" using assms(3) by auto
  have "BoundsCheckMem cfg ?mem (imm_mem_index imm) n ?off ?r force align m =
      bindC (if align then AlignmentCheckMem n ?off ?r else Inr ()) (\<lambda>_.
        if wm_min_memory_size ?mem < unat ?eo \<and> word_of_nat ?s \<le> ?eo then Inl (Trapped ThrowWasmTrapMemOutOfBounds)
        else if word_of_nat ?s - ?eo \<le> ?i then Inl (Trapped ThrowWasmTrapMemOutOfBounds) else Inr ?i)"
    unfolding BoundsCheckMem_def Let_def if_P [OF n(2)] if_not_P [OF strategy] if_not_P [OF ok(3)] using n(2) by simp
  also have "\<dots> = bindC (if align then AlignmentCheckMem n ?off ?r else Inr ()) (\<lambda>_.
        if ?s < effective imm slot + n then Inl (Trapped ThrowWasmTrapMemOutOfBounds) else Inr ?i)"
    by (intro arg_cong [where f = "bindC _"] ext) (simp only: oob [symmetric] if_or)
  finally show ?thesis unfolding al by (cases align) simp_all
qed

subsection \<open>Where an access goes\<close>

text \<open>An index register and offset that stand for the effective offset of an access in bounds.\<close>

definition stands_for :: "MemoryAccessImmediate \<Rightarrow> VarState \<Rightarrow> u64 option \<Rightarrow> u64 \<Rightarrow> bool" where
  "stands_for imm slot index offset \<longleftrightarrow>
     pointer_index (imm_memory imm) index + unat offset = effective imm slot
   \<and> (\<not> wm_is_memory64 (imm_memory imm) \<longrightarrow> unat offset \<le> UINT32_MAX)"

lemma offset_fits:
  assumes "memory_ok cfg imm m" and "access_ok imm n" and "\<not> wm_is_memory64 (imm_memory imm)"
  shows "unat (imm_offset imm) \<le> UINT32_MAX"
  using assms by (auto simp: memory_ok_def access_ok_def access_sizes_def IsInBounds64_def UINT32_MAX_def Let_def)

lemma static_in_bounds:
  assumes "memory_ok cfg imm m" and "access_ok imm n"
    and "IndexStaticallyInBounds (imm_memory imm) slot n (imm_offset imm) = Some offset"
  shows "stands_for imm slot None offset" and "effective imm slot + n \<le> mem_size m (imm_mem_index imm)"
proof -
  let ?mem = "imm_memory imm" and ?r = "PopToRegister (imm_memory imm) slot"
  obtain c where c: "slot = ConstSlot c" using assms(3) by (cases slot) (auto simp: IndexStaticallyInBounds_def)
  have off: "offset = ?r + imm_offset imm" "\<not> offset < ?r" "IsInBounds64 (unat offset) n (wm_min_memory_size ?mem)"
    using assms(3) by (auto simp: c IndexStaticallyInBounds_def PopToRegister_def Let_def split: if_splits)
  have r: "pointer_index ?mem (Some ?r) = unat ?r"
    using unsigned_less [of c, where ?'a = nat]
    by (auto simp: c pointer_index_def PopToRegister_def unat_zero_extend unat_ucast64)
  have "?r \<le> ?r + imm_offset imm" using off(1,2) by (simp add: not_less)
  then have "unat offset = unat ?r + unat (imm_offset imm)"
    unfolding off(1) by (rule unat_plus_simple [THEN iffD1])
  then have e: "unat offset = effective imm slot" by (simp add: effective_def r)
  moreover have "unat offset + n \<le> wm_min_memory_size ?mem"
    using off(3) assms(2) by (auto simp: IsInBounds64_def)
  moreover have "1 \<le> n" using assms(2) by (auto simp: access_ok_def access_sizes_def)
  ultimately show "effective imm slot + n \<le> mem_size m (imm_mem_index imm)" and "stands_for imm slot None offset"
    using assms(1) by (auto simp: stands_for_def memory_ok_def Let_def UINT32_MAX_def pointer_index_def)
qed

lemma checked_stands_for:
  assumes "memory_ok cfg imm m" and "access_ok imm n"
    and "i = PopToRegister (imm_memory imm) slot \<or> \<not> wm_is_memory64 (imm_memory imm) \<and> i = zero_extend (PopToRegister (imm_memory imm) slot)"
  shows "stands_for imm slot (Some i) (imm_offset imm)"
  using assms(3) offset_fits [OF assms(1,2)] by (auto simp: stands_for_def effective_def pointer_index_def)

lemma touch_stands_for:
  assumes "stands_for imm slot index offset"
  shows "touch registered imm index offset n m =
    (if effective imm slot + n \<le> mem_size m (imm_mem_index imm)
     then Inr (mem_start m (imm_mem_index imm) + effective imm slot)
     else if registered \<and> effective imm slot + n \<le> mem_reserved m (imm_mem_index imm)
     then Inl (Trapped ThrowWasmTrapMemOutOfBounds) else Inl (Broken OutOfBounds))"
  using assms by (simp add: stands_for_def touch_def GetMemoryStart_def Let_def)

text \<open>An unforced check under the trap handler leaves the rest to the fault of the access.\<close>

lemma trap_handler_check:
  assumes "memory_ok cfg imm m" and "access_ok imm n" and "wm_bounds_checks (imm_memory imm) = kTrapHandler"
  shows "bindC (BoundsCheckMem cfg (imm_memory imm) (imm_mem_index imm) n (imm_offset imm) (PopToRegister (imm_memory imm) slot) False False m)
      (\<lambda>i. bindC (touch True imm (Some i) (imm_offset imm) n m) (F i)) =
    (if mem_size m (imm_mem_index imm) < effective imm slot + n then Inl (Trapped ThrowWasmTrapMemOutOfBounds)
     else F (PopToRegister (imm_memory imm) slot) (mem_start m (imm_mem_index imm) + effective imm slot))"
proof -
  let ?mem = "imm_memory imm" and ?s = "mem_size m (imm_mem_index imm)" and ?off = "imm_offset imm"
  let ?r = "PopToRegister ?mem slot" and ?max = "max_memory64_size cfg"
  let ?eo = "?off + word_of_nat n - 1"
  have n: "n \<in> access_sizes" "IsInBounds64 (unat ?off) n (wm_max_memory_size ?mem)" "1 \<le> n"
    using assms(2) by (auto simp: access_ok_def access_sizes_def)
  have ok: "?s \<le> wm_max_memory_size ?mem" "wm_max_memory_size ?mem < 18446744073709551616"
    using assms(1) by (auto simp: memory_ok_def Let_def)
  have eo: "unat ?eo = unat ?off + n - 1" using end_offset [OF n(2) ok(2) n(1)] .
  have T: "touch True imm (Some ?r) ?off n m = (if effective imm slot + n \<le> ?s then Inr (mem_start m (imm_mem_index imm) + effective imm slot)
      else if effective imm slot + n \<le> mem_reserved m (imm_mem_index imm) then Inl (Trapped ThrowWasmTrapMemOutOfBounds) else Inl (Broken OutOfBounds))"
    using touch_stands_for [OF checked_stands_for [OF assms(1,2) disjI1 [OF refl]], where registered = True] by auto
  let ?fires = "wm_is_memory64 ?mem \<and> word_of_nat ?max - ?eo \<le> ?r"
  have B: "BoundsCheckMem cfg ?mem (imm_mem_index imm) n ?off ?r False False m =
      (if ?fires then Inl (Trapped ThrowWasmTrapMemOutOfBounds) else Inr ?r)"
    using n(2) assms(3) by (simp add: BoundsCheckMem_def Let_def)
  show ?thesis
  proof (cases "wm_is_memory64 ?mem")
    case True
    have max: "wm_max_memory_size ?mem \<le> ?max" "?max < 18446744073709551616" "?max \<le> mem_reserved m (imm_mem_index imm)"
      using assms(1,3) True by (auto simp: memory_ok_def Let_def)
    have u: "unat (word_of_nat ?max :: u64) = ?max" using max(2) by (rule unat_of_size)
    have le: "unat ?off + n \<le> ?max" using n(2) max(1) by (auto simp: IsInBounds64_def)
    then have "?eo \<le> word_of_nat ?max" using eo u by (simp add: word_le_nat_alt)
    then have "unat (word_of_nat ?max - ?eo) = ?max - unat ?eo" using u by (simp add: unat_sub)
    then have fires: "?fires \<longleftrightarrow> ?max < effective imm slot + n"
      using True eo n(3) le by (auto simp: word_le_nat_alt effective_def pointer_index_def)
    then show ?thesis using ok(1) max unfolding B fires by (cases "?max < effective imm slot + n") (simp_all add: T)
  next
    case False
    then have "effective imm slot + n \<le> mem_reserved m (imm_mem_index imm)"
      using assms(1,3) n(2) pointer_index_less(2) [of ?mem ?r]
      by (auto simp: memory_ok_def Let_def IsInBounds64_def kFullGuardSize32_def effective_def)
    then show ?thesis using False unfolding B by (simp add: T)
  qed
qed

text \<open>After an explicit check the access is in bounds.\<close>

lemma explicit_check:
  assumes "memory_ok cfg imm m" and "access_ok imm n"
    and "force \<or> wm_bounds_checks (imm_memory imm) = kExplicitBoundsChecks"
  shows "bindC (BoundsCheckMem cfg (imm_memory imm) (imm_mem_index imm) n (imm_offset imm) (PopToRegister (imm_memory imm) slot) force align m)
      (\<lambda>i. bindC (touch (registered i) imm (Some i) (imm_offset imm) n m) (F i)) =
    (if align \<and> effective imm slot mod n \<noteq> 0 then Inl (Trapped ThrowWasmTrapUnalignedAccess)
     else if mem_size m (imm_mem_index imm) < effective imm slot + n then Inl (Trapped ThrowWasmTrapMemOutOfBounds)
     else F (if wm_is_memory64 (imm_memory imm) then PopToRegister (imm_memory imm) slot
             else zero_extend (PopToRegister (imm_memory imm) slot))
            (mem_start m (imm_mem_index imm) + effective imm slot))"
proof -
  let ?i = "if wm_is_memory64 (imm_memory imm) then PopToRegister (imm_memory imm) slot
             else zero_extend (PopToRegister (imm_memory imm) slot)"
  have "stands_for imm slot (Some ?i) (imm_offset imm)" by (rule checked_stands_for [OF assms(1,2)]) simp
  then have "effective imm slot + n \<le> mem_size m (imm_mem_index imm) \<Longrightarrow>
      touch (registered ?i) imm (Some ?i) (imm_offset imm) n m = Inr (mem_start m (imm_mem_index imm) + effective imm slot)"
    by (simp add: touch_stands_for)
  then show ?thesis unfolding bounds_check_lemma [OF assms] by (auto simp: not_less simp del: if_split split: if_split)
qed

text \<open>
  Put together: an access located by the emitted code either stops with the trap its address deserves or
  goes on at the effective address, with a register and an offset that stand for it.
\<close>

lemma register_stands_for:
  assumes "memory_ok cfg imm m" and "access_ok imm n"
  shows "stands_for imm slot (Some (if wm_is_memory64 (imm_memory imm) then PopToRegister (imm_memory imm) slot
             else zero_extend (PopToRegister (imm_memory imm) slot))) (imm_offset imm)"
    and "stands_for imm slot (Some (PopToRegister (imm_memory imm) slot)) (imm_offset imm)"
  by (rule checked_stands_for [OF assms]; simp)+

lemma vector_located:
  assumes "memory_ok cfg imm m" and "access_ok imm n"
  shows "\<exists>i. stands_for imm slot (Some i) (imm_offset imm) \<and>
    bindC (vector_index cfg imm slot n force m) (\<lambda>i. bindC (touch (trapping imm (Some i)) imm (Some i) (imm_offset imm) n m) (F i)) =
    (if mem_size m (imm_mem_index imm) < effective imm slot + n then Inl (Trapped ThrowWasmTrapMemOutOfBounds)
     else F i (mem_start m (imm_mem_index imm) + effective imm slot))"
proof (cases "force \<or> wm_bounds_checks (imm_memory imm) = kExplicitBoundsChecks")
  case True
  then show ?thesis
    using explicit_check [OF assms True, where align = False and registered = "\<lambda>i. trapping imm (Some i)" and slot = slot and F = F]
      register_stands_for(1) [OF assms, of slot]
    by (intro exI conjI) (simp_all add: vector_index_def)
next
  case False
  then have "wm_bounds_checks (imm_memory imm) = kTrapHandler" "\<not> force"
    using assms(1) by (cases "wm_bounds_checks (imm_memory imm)"; auto simp: memory_ok_def Let_def)+
  then show ?thesis
    using trap_handler_check [OF assms, of slot F] register_stands_for(2) [OF assms, of slot]
    by (intro exI conjI) (simp_all add: vector_index_def trapping_def)
qed

lemma bindC_assoc: "bindC (bindC x f) g = bindC x (\<lambda>y. bindC (f y) g)"
  by (cases x) simp_all

lemma bindC_case_prod: "bindC (case_prod f p) g = case_prod (\<lambda>i j. bindC (f i j) g) p"
  by (cases p) simp

lemma plain_located:
  assumes "memory_ok cfg imm m" and "access_ok imm n"
  shows "\<exists>i off. stands_for imm slot i off \<and>
    bindC (plain_index cfg imm slot n force m) (\<lambda>(i, off). bindC (touch (trapping imm i) imm i off n m) (F i off)) =
    (if mem_size m (imm_mem_index imm) < effective imm slot + n then Inl (Trapped ThrowWasmTrapMemOutOfBounds)
     else F i off (mem_start m (imm_mem_index imm) + effective imm slot))"
proof (cases "IndexStaticallyInBounds (imm_memory imm) slot n (imm_offset imm)")
  case (Some off)
  note static = static_in_bounds [OF assms Some]
  then show ?thesis using Some
    by (intro exI [of _ None] exI [of _ off]) (simp add: plain_index_def touch_stands_for)
next
  case None
  obtain i where "stands_for imm slot (Some i) (imm_offset imm)" and
    "bindC (vector_index cfg imm slot n force m) (\<lambda>i. bindC (touch (trapping imm (Some i)) imm (Some i) (imm_offset imm) n m) (F (Some i) (imm_offset imm))) =
    (if mem_size m (imm_mem_index imm) < effective imm slot + n then Inl (Trapped ThrowWasmTrapMemOutOfBounds)
     else F (Some i) (imm_offset imm) (mem_start m (imm_mem_index imm) + effective imm slot))"
    using vector_located [OF assms, where F = "\<lambda>i. F (Some i) (imm_offset imm)"] by blast
  then show ?thesis using None
    by (intro exI [of _ "Some i"] exI [of _ "imm_offset imm"]) (simp add: plain_index_def vector_index_def bindC_assoc)
qed

lemma atomic_located:
  assumes "memory_ok cfg imm m" and "access_ok imm n"
  shows "\<exists>i off. stands_for imm slot i off \<and>
    bindC (atomic_index cfg imm slot n m) (\<lambda>(i, off). bindC (touch False imm i off n m) (F i off)) =
    (if effective imm slot mod n \<noteq> 0 then Inl (Trapped ThrowWasmTrapUnalignedAccess)
     else if mem_size m (imm_mem_index imm) < effective imm slot + n then Inl (Trapped ThrowWasmTrapMemOutOfBounds)
     else F i off (mem_start m (imm_mem_index imm) + effective imm slot))"
proof (cases "IndexStaticallyInBoundsAndAligned (imm_memory imm) slot n (imm_offset imm)")
  case (Some off)
  then have *: "IndexStaticallyInBounds (imm_memory imm) slot n (imm_offset imm) = Some off" "unat off mod n = 0"
    by (auto simp: IndexStaticallyInBoundsAndAligned_def split: option.splits if_splits)
  note static = static_in_bounds [OF assms *(1)]
  moreover from static(1) have "effective imm slot mod n = 0"
    using *(2) by (simp add: stands_for_def pointer_index_def)
  ultimately show ?thesis using Some
    by (intro exI [of _ None] exI [of _ off]) (simp add: atomic_index_def touch_stands_for)
next
  case None
  then show ?thesis
    using explicit_check [OF assms disjI1 [OF TrueI], where align = True and registered = "\<lambda>_. False" and slot = slot
        and F = "\<lambda>i. F (Some i) (imm_offset imm)"]
      register_stands_for(1) [OF assms, of slot]
    by (intro exI conjI) (simp_all add: atomic_index_def bindC_assoc)
qed

subsection \<open>The meaning of an access\<close>

text \<open>The report an access of a traced memory makes, of its effective offset.\<close>

definition report_access ::
  "liftoff_config \<Rightarrow> bool \<Rightarrow> bool \<Rightarrow> MemoryAccessImmediate \<Rightarrow> byte \<Rightarrow> nat \<Rightarrow> machine \<Rightarrow> machine code" where
  "report_access cfg is_store is_atomic imm rep at m =
     (if \<not> trace_enabled cfg (imm_memory imm) then Inr m
      else bindC (runtime_call (Runtime_WasmTraceMemory (mem_rep_size cfg) (ram m) (js cfg) (v8_flags cfg) (caller m)
               (Some \<lparr>ti_offset = at, ti_mem_index = imm_mem_index imm, ti_is_store = (if is_store then 1 else 0),
                 ti_mem_rep = rep, ti_is_atomic = (if is_atomic then 1 else 0)\<rparr>) (runtime m)))
             (\<lambda>s. Inr (m\<lparr>runtime := s\<rparr>)))"

lemma maybe_trace_exact:
  assumes "memory_ok cfg imm m\<^sub>0" and "stands_for imm slot index offset"
    and "effective imm slot < mem_size m\<^sub>0 (imm_mem_index imm)"
  shows "maybe_trace cfg is_store imm rep index offset is_atomic m = report_access cfg is_store is_atomic imm rep (effective imm slot) m"
proof -
  let ?mem = "imm_memory imm"
  let ?r = "case index of None \<Rightarrow> 0 | Some r \<Rightarrow> r"
  have less: "effective imm slot < 18446744073709551616" "\<not> wm_is_memory64 ?mem \<Longrightarrow> effective imm slot < 4294967296"
    using assms(1,3) by (auto simp: memory_ok_def Let_def)
  have eff: "effective imm slot = pointer_index ?mem index + unat offset" using assms(2) by (simp add: stands_for_def)
  have "unat (if wm_is_memory64 ?mem then offset + ?r
      else ucast (ucast offset + (case index of None \<Rightarrow> 0 | Some r \<Rightarrow> ucast r) :: u32)) = effective imm slot"
  proof (cases "wm_is_memory64 ?mem")
    case True
    have "unat ?r = pointer_index ?mem index" using True by (simp add: pointer_index_def split: option.split)
    then have "unat (offset + ?r) = effective imm slot"
      using less(1) unat_add_small [of offset ?r] by (simp add: eff)
    then show ?thesis using True by simp
  next
    case False
    have "(case index of None \<Rightarrow> 0 | Some r \<Rightarrow> ucast r) = (ucast ?r :: u32)" by (simp split: option.split)
    moreover have "unat (ucast ?r :: u32) = pointer_index ?mem index"
      using False by (simp add: pointer_index_def unat_low32 unat_zero_extend split: option.split)
    moreover have "unat (ucast offset :: u32) = unat offset" using less(2) [OF False] by (simp add: unat_low32 eff)
    ultimately show ?thesis using False less(2) [OF False] by (simp add: unat_ucast64 unat_word_ariths eff)
  qed
  moreover have "\<not> (\<not> wm_is_memory64 ?mem \<and> \<not> unat offset \<le> UINT32_MAX)" using assms(2) by (auto simp: stands_for_def)
  ultimately show ?thesis
    by (auto simp: maybe_trace_def report_access_def TraceMemoryOperation_def trace_enabled_def Let_def)
qed

text \<open>The instructions that access memory, and for each the access it means.\<close>

datatype mem_instr =
    Load access_type
  | Store access_type "byte list"
  | TransformLoad access_type LoadTransformationKind
  | LaneLoad access_type "byte list" nat
  | LaneStore access_type "byte list" nat
  | Atomic atomic_op

definition emitted ::
  "liftoff_config \<Rightarrow> byte \<Rightarrow> (LoadTransformationKind \<Rightarrow> access_type \<Rightarrow> byte list \<Rightarrow> byte list) \<Rightarrow> mem_instr \<Rightarrow>
   MemoryAccessImmediate \<Rightarrow> VarState \<Rightarrow> machine \<Rightarrow> (byte list \<times> machine) code" where
  "emitted cfg kWord64 transform_value instr imm slot m =
     (case instr of
        Load ty \<Rightarrow> LoadMem cfg ty imm slot m
      | Store ty value \<Rightarrow> bindC (StoreMem cfg ty imm slot value m) (\<lambda>m. Inr ([], m))
      | TransformLoad ty t \<Rightarrow> LoadTransform cfg kWord64 transform_value ty t imm slot m
      | LaneLoad ty value lane \<Rightarrow> LoadLane cfg ty value slot imm lane m
      | LaneStore ty value lane \<Rightarrow> bindC (StoreLane cfg ty imm slot value lane m) (\<lambda>m. Inr ([], m))
      | Atomic a \<Rightarrow> AtomicOp cfg a imm slot m)"

text \<open>The access: whether atomic, whether a store, its type, and its effect at an address.\<close>

record access =
  acc_atomic :: bool
  acc_store :: bool
  acc_size :: nat
  acc_rep :: byte
  acc_effect :: "addr \<Rightarrow> machine \<Rightarrow> byte list \<times> machine"

definition plain_access_of :: "bool \<Rightarrow> access_type \<Rightarrow> (addr \<Rightarrow> machine \<Rightarrow> byte list \<times> machine) \<Rightarrow> access" where
  "plain_access_of st ty eff = \<lparr>acc_atomic = False, acc_store = st, acc_size = at_size ty, acc_rep = at_rep ty, acc_effect = eff\<rparr>"

definition atomic_access_of :: "bool \<Rightarrow> access_type \<Rightarrow> (addr \<Rightarrow> machine \<Rightarrow> byte list \<times> machine) \<Rightarrow> access" where
  "atomic_access_of st ty eff = \<lparr>acc_atomic = True, acc_store = st, acc_size = at_size ty, acc_rep = at_rep ty, acc_effect = eff\<rparr>"

lemmas access_of_defs = plain_access_of_def atomic_access_of_def

definition stored_type :: "liftoff_config \<Rightarrow> access_type \<Rightarrow> access_type" where
  "stored_type cfg ty = (if at_is_f16 ty \<and> \<not> supports_f16_mem_access cfg then i32_store16 cfg else ty)"

definition stored_value :: "liftoff_config \<Rightarrow> access_type \<Rightarrow> byte list \<Rightarrow> byte list" where
  "stored_value cfg ty value = (if at_is_f16 ty \<and> \<not> supports_f16_mem_access cfg then float32_to_float16 cfg value else value)"

fun atomic_access :: "atomic_op \<Rightarrow> access" where
  "atomic_access (AtomicStoreOp ty value) = atomic_access_of True ty (\<lambda>a m. ([], poke a (take (at_size ty) value) m))"
| "atomic_access (AtomicLoadOp ty) = atomic_access_of False ty (\<lambda>a m. (peek a (at_size ty) m, m))"
| "atomic_access (AtomicBinopOp ty f value) = atomic_access_of True ty
     (\<lambda>a m. let old = peek a (at_size ty) m in (old, poke a (take (at_size ty) (f old value)) m))"
| "atomic_access (AtomicCompareExchangeOp ty expected new_value) = atomic_access_of True ty
     (\<lambda>a m. let old = peek a (at_size ty) m in (old, poke a (compare_exchange (at_size ty) old expected new_value) m))"

fun meaning ::
  "liftoff_config \<Rightarrow> byte \<Rightarrow> (LoadTransformationKind \<Rightarrow> access_type \<Rightarrow> byte list \<Rightarrow> byte list) \<Rightarrow> mem_instr \<Rightarrow> access" where
  "meaning cfg w tv (Load ty) = plain_access_of False ty (\<lambda>a m. (peek a (at_size ty) m, m))"
| "meaning cfg w tv (Store ty value) = plain_access_of True (stored_type cfg ty)
     (\<lambda>a m. ([], poke a (take (at_size (stored_type cfg ty)) (stored_value cfg ty value)) m))"
| "meaning cfg w tv (TransformLoad ty t) =
     (let ty' = (if t = kExtend then ty\<lparr>at_size := 8, at_rep := w\<rparr> else ty)
      in plain_access_of False ty' (\<lambda>a m. (tv t ty (peek a (at_size ty') m), m)))"
| "meaning cfg w tv (LaneLoad ty value lane) = plain_access_of False ty
     (\<lambda>a m. (take (lane * at_size ty) value @ peek a (at_size ty) m @ drop (lane * at_size ty + at_size ty) value, m))"
| "meaning cfg w tv (LaneStore ty value lane) = plain_access_of True ty
     (\<lambda>a m. ([], poke a (take (at_size ty) (drop (lane * at_size ty) value)) m))"
| "meaning cfg w tv (Atomic a) = atomic_access a"

definition perform :: "liftoff_config \<Rightarrow> access \<Rightarrow> MemoryAccessImmediate \<Rightarrow> VarState \<Rightarrow> machine \<Rightarrow> (byte list \<times> machine) code" where
  "perform cfg acc imm slot m =
     (let at = effective imm slot in
      if acc_atomic acc \<and> at mod acc_size acc \<noteq> 0 then Inl (Trapped ThrowWasmTrapUnalignedAccess)
      else if mem_size m (imm_mem_index imm) < at + acc_size acc then Inl (Trapped ThrowWasmTrapMemOutOfBounds)
      else let (value, m') = acc_effect acc (mem_start m (imm_mem_index imm) + at) m
           in bindC (report_access cfg (acc_store acc) (acc_atomic acc) imm (acc_rep acc) at m') (\<lambda>m''. Inr (value, m'')))"

lemma located_trace:
  assumes "memory_ok cfg imm m" and "stands_for imm slot i off" and "access_ok imm n"
    and "\<not> mem_size m (imm_mem_index imm) < effective imm slot + n"
  shows "maybe_trace cfg st imm rep i off at m' = report_access cfg st at imm rep (effective imm slot) m'"
  using assms by (intro maybe_trace_exact) (auto simp: access_ok_def access_sizes_def)

lemma plain_access_performed:
  assumes "memory_ok cfg imm m" and "access_ok imm (acc_size acc)" and "\<not> acc_atomic acc"
  shows "bindC (plain_index cfg imm slot (acc_size acc) force m) (\<lambda>(i, off).
      bindC (touch (trapping imm i) imm i off (acc_size acc) m) (\<lambda>a.
        bindC (maybe_trace cfg (acc_store acc) imm (acc_rep acc) i off False (snd (acc_effect acc a m)))
          (\<lambda>m'. Inr (fst (acc_effect acc a m), m')))) = perform cfg acc imm slot m"
  using plain_located [OF assms(1,2), of slot force "\<lambda>i off a.
        bindC (maybe_trace cfg (acc_store acc) imm (acc_rep acc) i off False (snd (acc_effect acc a m)))
          (\<lambda>m'. Inr (fst (acc_effect acc a m), m'))"] located_trace [OF assms(1) _ assms(2)] assms(3)
  by (auto simp: perform_def Let_def split_beta)

lemma vector_access_performed:
  assumes "memory_ok cfg imm m" and "access_ok imm (acc_size acc)" and "\<not> acc_atomic acc"
  shows "bindC (vector_index cfg imm slot (acc_size acc) force m) (\<lambda>i.
      bindC (touch (trapping imm (Some i)) imm (Some i) (imm_offset imm) (acc_size acc) m) (\<lambda>a.
        bindC (maybe_trace cfg (acc_store acc) imm (acc_rep acc) (Some i) (imm_offset imm) False (snd (acc_effect acc a m)))
          (\<lambda>m'. Inr (fst (acc_effect acc a m), m')))) = perform cfg acc imm slot m"
  using vector_located [OF assms(1,2), of slot force "\<lambda>i a.
        bindC (maybe_trace cfg (acc_store acc) imm (acc_rep acc) (Some i) (imm_offset imm) False (snd (acc_effect acc a m)))
          (\<lambda>m'. Inr (fst (acc_effect acc a m), m'))"] located_trace [OF assms(1) _ assms(2)] assms(3)
  by (auto simp: perform_def Let_def split_beta)

lemma atomic_access_performed:
  assumes "memory_ok cfg imm m" and "access_ok imm (acc_size acc)" and "acc_atomic acc"
  shows "bindC (atomic_index cfg imm slot (acc_size acc) m) (\<lambda>(i, off).
      bindC (touch False imm i off (acc_size acc) m) (\<lambda>a.
        bindC (maybe_trace cfg (acc_store acc) imm (acc_rep acc) i off True (snd (acc_effect acc a m)))
          (\<lambda>m'. Inr (fst (acc_effect acc a m), m')))) = perform cfg acc imm slot m"
  using atomic_located [OF assms(1,2), of slot "\<lambda>i off a.
        bindC (maybe_trace cfg (acc_store acc) imm (acc_rep acc) i off True (snd (acc_effect acc a m)))
          (\<lambda>m'. Inr (fst (acc_effect acc a m), m'))"] located_trace [OF assms(1) _ assms(2)] assms(3)
  by (auto simp: perform_def Let_def split_beta)

subsection \<open>Compiled code does what the instruction means\<close>

text \<open>A half-float load that the target cannot do is compiled to a C call, and is treated below.\<close>

definition no_f16_call :: "liftoff_config \<Rightarrow> mem_instr \<Rightarrow> bool" where
  "no_f16_call cfg instr = (case instr of Load ty \<Rightarrow> \<not> at_is_f16 ty \<or> supports_f16_mem_access cfg | _ \<Rightarrow> True)"

lemma emitted_is_performed:
  assumes "memory_ok cfg imm m" and "acc = meaning cfg w tv instr" and "access_ok imm (acc_size acc)"
    and "no_f16_call cfg instr"
  shows "emitted cfg w tv instr imm slot m = perform cfg acc imm slot m"
proof (cases instr)
  case (Load ty)
  then show ?thesis
    using plain_access_performed [OF assms(1,3), of slot False] assms(2,4)
    by (auto simp: emitted_def LoadMem_def access_of_defs no_f16_call_def Let_def)
next
  case (Store ty v)
  then show ?thesis
    using plain_access_performed [OF assms(1,3), of slot "force_check_of cfg (stored_type cfg ty)"] assms(2)
    by (cases "at_is_f16 ty"; cases "supports_f16_mem_access cfg")
      (simp_all add: emitted_def StoreMem_def access_of_defs bindC_assoc bindC_case_prod stored_type_def stored_value_def Let_def)
next
  case (TransformLoad ty t)
  then show ?thesis
    using vector_access_performed [OF assms(1,3), of slot False] assms(2)
    by (cases "t = kExtend") (simp_all add: emitted_def LoadTransform_def access_of_defs Let_def)
next
  case (LaneLoad ty v lane)
  then show ?thesis
    using vector_access_performed [OF assms(1,3), of slot False] assms(2)
    by (simp add: emitted_def LoadLane_def access_of_defs Let_def)
next
  case (LaneStore ty v lane)
  then show ?thesis
    using vector_access_performed [OF assms(1,3), of slot "force_check_of cfg ty"] assms(2)
    by (simp add: emitted_def StoreLane_def access_of_defs bindC_assoc)
next
  case (Atomic a)
  then show ?thesis
    using atomic_access_performed [OF assms(1,3), of slot] assms(2)
    by (cases a) (simp_all add: emitted_def AtomicStoreMem_def AtomicLoadMem_def AtomicBinop_def
        AtomicCompareExchange_def access_of_defs bindC_assoc bindC_case_prod Let_def)
qed


text \<open>An effect changes no more of the machine than the contents of memory.\<close>

lemma effect_sel:
  "runtime (snd (acc_effect (meaning cfg w tv instr) a m)) = runtime m"
  "caller (snd (acc_effect (meaning cfg w tv instr) a m)) = caller m"
  by (cases instr; (cases "case instr of Atomic x \<Rightarrow> x | _ \<Rightarrow> undefined")?;
      simp add: access_of_defs poke_def Let_def)+

text \<open>What a report of a plain access does to the detector: one \<open>MemoryAccess\<close> and no more.\<close>

lemma tsan_plain_engine:
  assumes "g_callbacks E = webtsan_callbacks" and "\<not> s_in_race_report E"
    and "wasm_access_cb bs len off n st (eng E) = Inr D"
    and "\<And>msg E. eng (call_error env msg E) = eng E"
  shows "\<exists>E'. tsan_plain env bs len off n st E = Inr E' \<and> fst (eng E') = fst D"
proof -
  obtain c D' where c: "consume_race_cb 512 D = (c, D')" by (cases "consume_race_cb 512 D")
  then have "fst D' = fst D" by (cases D) (auto simp: consume_race_cb_def split: if_splits)
  moreover have "eng (report_to_console env msg E) = eng E" for msg E
    using assms(4) by (simp add: report_to_console_def clear_exception_def Let_def)
  ultimately show ?thesis
    using assms(1-3) c by (cases c) (simp_all add: tsan_plain_def webtsan_callbacks_def on_eng_def)
qed


subsection \<open>Reports that are not of the access\<close>

text \<open>
  A half-float load compiled to a C call reports whatever the call left in the index register, here
  \<open>junk\<close>, plus the static offset: in a 32-bit memory an offset that has nothing to do with the access.
\<close>

lemma f16_load_reports_junk:
  assumes "memory_ok cfg imm m" and "access_ok imm (at_size (i32_load16u cfg))"
    and "at_is_f16 ty" and "\<not> supports_f16_mem_access cfg" and "\<And>x. after_c_call cfg x = junk"
    and "effective imm (ValueSlot r) + at_size (i32_load16u cfg) \<le> mem_size m (imm_mem_index imm)"
    and "\<not> wm_is_memory64 (imm_memory imm)"
  shows "LoadMem cfg ty imm (ValueSlot r) m =
    bindC (report_access cfg False False imm (at_rep (i32_load16u cfg))
             ((unat (imm_offset imm) + unat junk) mod 4294967296) m)
      (\<lambda>m'. Inr (float16_to_float32 cfg
         (peek (mem_start m (imm_mem_index imm) + effective imm (ValueSlot r)) (at_size (i32_load16u cfg)) m), m'))"
proof -
  let ?n = "at_size (i32_load16u cfg)" and ?a = "mem_start m (imm_mem_index imm) + effective imm (ValueSlot r)"
  let ?F = "\<lambda>i off a. bindC (maybe_trace cfg False imm (at_rep (i32_load16u cfg)) (map_option (after_c_call cfg) i) off False m)
      (\<lambda>m'. Inr (float16_to_float32 cfg (peek a ?n m), m'))"
  have none: "IndexStaticallyInBounds (imm_memory imm) (ValueSlot r) ?n (imm_offset imm) = None"
    by (simp add: IndexStaticallyInBounds_def)
  obtain i where i: "bindC (vector_index cfg imm (ValueSlot r) ?n False m)
      (\<lambda>i. bindC (touch (trapping imm (Some i)) imm (Some i) (imm_offset imm) ?n m) (?F (Some i) (imm_offset imm))) =
      ?F (Some i) (imm_offset imm) ?a"
    using vector_located [OF assms(1,2), of "ValueSlot r" False "\<lambda>i. ?F (Some i) (imm_offset imm)"] assms(6) by auto
  have "LoadMem cfg ty imm (ValueSlot r) m = ?F (Some i) (imm_offset imm) ?a"
    using assms(3,4) none i by (simp add: LoadMem_def plain_index_def vector_index_def bindC_assoc Let_def)
  moreover have "unat (ucast (ucast (imm_offset imm) + ucast junk :: u32) :: u64) = (unat (imm_offset imm) + unat junk) mod 4294967296"
    by (simp add: unat_ucast64 unat_word_ariths unat_low32 mod_add_eq)
  moreover have "unat (imm_offset imm) \<le> UINT32_MAX" by (rule offset_fits [OF assms(1,2,7)])
  ultimately show ?thesis
    using assms(5,7) by (auto simp: maybe_trace_def report_access_def TraceMemoryOperation_def trace_enabled_def Let_def)
qed

text \<open>
  C39: on ia32 an atomic compare-exchange reports the wrong place. Its code adds the index to the start of
  memory and so passes no index to the trace: the access is at start plus index plus offset, but the
  report is of the static offset alone, whatever the index. The clocks of all the locations that one
  instruction reaches are mixed, and the location itself is never told.
\<close>

theorem compare_exchange_ia32_reports_static_offset:
  assumes "memory_ok cfg imm m" and "access_ok imm (at_size ty)" and "\<not> wm_is_memory64 (imm_memory imm)"
    and "effective imm slot mod at_size ty = 0"
    and "effective imm slot + at_size ty \<le> mem_size m (imm_mem_index imm)"
    and "a = mem_start m (imm_mem_index imm) + effective imm slot" and "old = peek a (at_size ty) m"
  shows "AtomicCompareExchange_ia32 cfg ty imm slot expected new_value m =
    bindC (report_access cfg True True imm (at_rep ty) (unat (imm_offset imm))
             (poke a (compare_exchange (at_size ty) old expected new_value) m)) (\<lambda>m'. Inr (old, m'))"
proof -
  have off: "unat (imm_offset imm) \<le> UINT32_MAX" by (rule offset_fits [OF assms(1-3)])
  then have "unat (ucast (ucast (imm_offset imm) :: u32) :: u64) = unat (imm_offset imm)"
    by (simp add: unat_ucast64 unat_low32 UINT32_MAX_def)
  then have "maybe_trace cfg True imm (at_rep ty) None (imm_offset imm) True m' =
      report_access cfg True True imm (at_rep ty) (unat (imm_offset imm)) m'" for m'
    using off assms(3) by (auto simp: maybe_trace_def report_access_def TraceMemoryOperation_def trace_enabled_def Let_def)
  then show ?thesis
    using explicit_check [OF assms(1,2) disjI1 [OF TrueI], where align = True and registered = "\<lambda>_. False" and slot = slot
        and F = "\<lambda>index a. let old = peek a (at_size ty) m
          in bindC (maybe_trace cfg True imm (at_rep ty) None (imm_offset imm) True
                   (poke a (compare_exchange (at_size ty) old expected new_value) m)) (\<lambda>m. Inr (old, m))"] assms(4-7)
    by (simp add: AtomicCompareExchange_ia32_def Let_def)
qed

text \<open>
  Wait and notify agree: the offset a wait hands on, and the address a notify wakes, are those of one
  location, for every aligned access in bounds; any other traps.
\<close>

lemma checked_index:
  assumes "memory_ok cfg imm m" and "access_ok imm n"
  shows "bindC (BoundsCheckMem cfg (imm_memory imm) (imm_mem_index imm) n (imm_offset imm) (PopToRegister (imm_memory imm) slot) True True m)
      (\<lambda>i. F (i + imm_offset imm)) =
    (if effective imm slot mod n \<noteq> 0 then Inl (Trapped ThrowWasmTrapUnalignedAccess)
     else if mem_size m (imm_mem_index imm) < effective imm slot + n then Inl (Trapped ThrowWasmTrapMemOutOfBounds)
     else F (word_of_nat (effective imm slot)))"
proof -
  let ?i = "if wm_is_memory64 (imm_memory imm) then PopToRegister (imm_memory imm) slot
             else zero_extend (PopToRegister (imm_memory imm) slot)"
  have "word_of_nat (effective imm slot) = ?i + imm_offset imm"
    by (simp add: effective_def pointer_index_def)
  then show ?thesis by (simp only: bounds_check_lemma [OF assms disjI1 [OF TrueI]] bindC.simps if_distrib [of "\<lambda>x. bindC x _"] simp_thms)
qed

lemma AtomicWait_exact:
  assumes "memory_ok cfg imm m" and "access_ok imm n"
  shows "AtomicWait wait cfg n imm slot expected timeout m =
    (if effective imm slot mod n \<noteq> 0 then Inl (Trapped ThrowWasmTrapUnalignedAccess)
     else if mem_size m (imm_mem_index imm) < effective imm slot + n then Inl (Trapped ThrowWasmTrapMemOutOfBounds)
     else wait n (imm_mem_index imm) (word_of_nat (effective imm slot)) expected timeout m)"
  unfolding AtomicWait_def Let_def by (rule checked_index [OF assms])

lemma AtomicNotify_exact:
  assumes "memory_ok cfg imm m" and "access_ok imm 4"
  shows "AtomicNotify notify cfg imm slot num m =
    (if effective imm slot mod 4 \<noteq> 0 then Inl (Trapped ThrowWasmTrapUnalignedAccess)
     else if mem_size m (imm_mem_index imm) < effective imm slot + 4 then Inl (Trapped ThrowWasmTrapMemOutOfBounds)
     else notify (word_of_nat (mem_start m (imm_mem_index imm) + effective imm slot)) num m)"
  using checked_index [OF assms, of slot "\<lambda>x. notify (x + word_of_nat (GetMemoryStart (imm_mem_index imm) m)) num m"]
  by (simp add: AtomicNotify_def GetMemoryStart_def add.commute)

subsection \<open>Examples\<close>

definition demo_cfg :: "bool \<Rightarrow> liftoff_config" where
  "demo_cfg trace =
     \<lparr>v8_flags = \<lparr>flag_trace_wasm_memory = trace, flag_trace_wasm_globals = False, flag_wasm_tsan = True, flag_fuzzing = False\<rparr>,
      wasm_memory64_trap_handling = True, max_memory64_size = 17179869184, supports_f16_mem_access = True,
      kPartialOOBWritesAreNoops = True, i32_load16u = \<lparr>at_size = 2, at_rep = 2, at_is_f16 = False\<rparr>,
      i32_store16 = \<lparr>at_size = 2, at_rep = 2, at_is_f16 = False\<rparr>, after_c_call = (\<lambda>_. 0), float16_to_float32 = id,
      float32_to_float16 = id, mem_rep_size = unat,
      js = plain_env\<lparr>call_error := (\<lambda>m E. E\<lparr>console_lines := console_lines E @ [m]\<rparr>)\<rparr>\<rparr>"

definition demo_imm :: MemoryAccessImmediate where
  "demo_imm = \<lparr>imm_mem_index = 0, imm_offset = 4,
     imm_memory = \<lparr>wm_is_shared = True, wm_is_memory64 = False, wm_min_memory_size = 65536, wm_max_memory_size = 131072,
       wm_bounds_checks = kTrapHandler\<rparr>\<rparr>"

definition demo_type :: "nat \<Rightarrow> access_type" where
  "demo_type n = \<lparr>at_size = n, at_rep = word_of_nat n, at_is_f16 = False\<rparr>"

definition demo_machine :: "addr \<Rightarrow> engine \<Rightarrow> machine" where
  "demo_machine start E =
     \<lparr>ram = (\<lambda>_. 0), mem_start = (\<lambda>_. start), mem_size = (\<lambda>_. 65536), mem_reserved = (\<lambda>_. kFullGuardSize32),
      caller = \<lparr>fr_function_index = 0, fr_position = 0, fr_tier = 0, fr_buffer_start = (\<lambda>_. start),
        fr_byte_length = (\<lambda>_. 65536), fr_native_context = 0, fr_global_kind = (\<lambda>_. ReferenceKind), fr_global_bytes = (\<lambda>_. [])\<rparr>,
      runtime = \<lparr>wasm_engine = E, wasm_traces = \<lparr>global_trace = [], memory_trace = [], should_store_trace = False\<rparr>,
        memory_printed = [], global_printed = [], webtsan_globals_installed = False, realm_globals = Map.empty\<rparr>\<rparr>"

lemma demo_memory_ok: "memory_ok (demo_cfg trace) demo_imm (demo_machine start E)"
  by (simp add: memory_ok_def demo_imm_def demo_machine_def Let_def)

lemma demo_access_ok: "n \<in> access_sizes \<Longrightarrow> access_ok demo_imm n"
  by (auto simp: access_ok_def access_sizes_def demo_imm_def IsInBounds64_def)

lemma demo_effective: "r < 4294967296 \<Longrightarrow> effective demo_imm (ValueSlot (word_of_nat r)) = r + 4"
  by (simp add: effective_def demo_imm_def pointer_index_def PopToRegister_def unat_zero_extend unat_of_nat)


lemma demo_shared: "wm_is_shared (imm_memory demo_imm)"
  by (simp add: demo_imm_def)


theorem compare_exchange_ia32_reports_static_offset_witness:
  "\<exists>v m'. AtomicCompareExchange_ia32 (demo_cfg True) (demo_type 4) demo_imm (ValueSlot 8) [0, 0, 0, 0] [1, 2, 3, 4]
       (demo_machine 0 new_engine) = Inr (v, m') \<and>
     map mt_offset (memory_printed (runtime m')) = [4] \<and> ram m' 12 = 1"
proof -
  have eff: "effective demo_imm (ValueSlot 8) = 12" using demo_effective [of 8] by simp
  have ok: "access_ok demo_imm (at_size (demo_type 4))" by (simp add: demo_access_ok access_sizes_def demo_type_def)
  have "\<not> wm_is_memory64 (imm_memory demo_imm)" by (simp add: demo_imm_def)
  from compare_exchange_ia32_reports_static_offset [OF demo_memory_ok [of True 0 new_engine] ok this _ _ refl refl,
      where slot = "ValueSlot 8"
        and expected = "[0, 0, 0, 0]" and new_value = "[1, 2, 3, 4]"] eff
  show ?thesis
    by (simp add: demo_type_def demo_machine_def demo_cfg_def demo_imm_def report_access_def trace_enabled_def
        Runtime_WasmTraceMemory_def runtime_call_def record_memory_trace_def trace_entry_def compare_exchange_def
        peek_def poke_def Let_def upt_rec)
qed

end
