(* ===== verification/LiftoffBulk.thy ===== *)
theory LiftoffBulk
  imports LiftoffProps WasmBulkProps
begin

text \<open>
  The bulk memory instructions of the baseline compiler (\<open>liftoff-compiler.cc\<close>): the code emitted for
  them calls the functions of \<open>wasm-external-refs.cc\<close> that \<open>WasmBulk\<close> models, and traps on their result.
  On a 64-bit target; the state is the one those functions work on.
\<close>

subsection \<open>The emitted code\<close>

text \<open>An index on the value stack, with 64 bits or 32, as a pointer-sized value.\<close>

definition PopIndexToVarState :: "bool \<Rightarrow> VarState \<Rightarrow> u64" where
  "PopIndexToVarState is_64bit_value slot =
     (if is_64bit_value then (case slot of ConstSlot c \<Rightarrow> scast c | ValueSlot r \<Rightarrow> r)
      else (case slot of
              ConstSlot c \<Rightarrow> if 0 <=s c then scast c else zero_extend (scast c)
            | ValueSlot r \<Rightarrow> zero_extend r))"

text \<open>A 32-bit slot passed to C code.\<close>

definition slot_u32 :: "VarState \<Rightarrow> u32" where
  "slot_u32 slot = (case slot of ConstSlot c \<Rightarrow> c | ValueSlot r \<Rightarrow> ucast r)"

definition trap_on_zero :: "(int \<times> WasmBulk.wasm_state) result \<Rightarrow> WasmBulk.wasm_state code" where
  "trap_on_zero res =
     bindC (runtime_call res) (\<lambda>(result, S).
       if result = 0 then Inl (Trapped ThrowWasmTrapMemOutOfBounds) else Inr S)"

definition MemoryInit ::
  "v8_lib \<Rightarrow> WasmMemory \<Rightarrow> nat \<Rightarrow> nat \<Rightarrow> VarState \<Rightarrow> VarState \<Rightarrow> VarState \<Rightarrow> WasmBulk.wasm_state \<Rightarrow>
   WasmBulk.wasm_state code" where
  "MemoryInit L memory mem_index data_segment dst src len S =
     trap_on_zero (memory_init_wrapper L mem_index (unat (PopIndexToVarState (wm_is_memory64 memory) dst))
       (unat (slot_u32 src)) data_segment (unat (slot_u32 len)) S)"

definition DataDrop :: "bool \<Rightarrow> (nat \<Rightarrow> bool) \<Rightarrow> nat \<Rightarrow> WasmBulk.wasm_state \<Rightarrow> WasmBulk.wasm_state code" where
  "DataDrop has_shared segment_shared i S =
     (if has_shared \<and> segment_shared i then Inl (Broken CheckFailed) else Inr (data_drop_wrapper i S))"

definition MemoryCopy ::
  "v8_lib \<Rightarrow> bool \<Rightarrow> WasmMemory \<Rightarrow> nat \<Rightarrow> WasmMemory \<Rightarrow> nat \<Rightarrow> VarState \<Rightarrow> VarState \<Rightarrow> VarState \<Rightarrow>
   WasmBulk.wasm_state \<Rightarrow> WasmBulk.wasm_state code" where
  "MemoryCopy L wasm_tsan memory_dst dst_index memory_src src_index dst src len S =
     (let len = PopIndexToVarState (wm_is_memory64 memory_dst \<and> wm_is_memory64 memory_src) len;
          src = PopIndexToVarState (wm_is_memory64 memory_src) src;
          dst = PopIndexToVarState (wm_is_memory64 memory_dst) dst
      in trap_on_zero (memory_copy_wrapper L wasm_tsan dst_index src_index (unat dst) (unat src) (unat len) S))"

definition MemoryFill ::
  "v8_lib \<Rightarrow> bool \<Rightarrow> WasmMemory \<Rightarrow> nat \<Rightarrow> VarState \<Rightarrow> VarState \<Rightarrow> VarState \<Rightarrow> WasmBulk.wasm_state \<Rightarrow>
   WasmBulk.wasm_state code" where
  "MemoryFill L wasm_tsan memory mem_index dst fill_value len S =
     (let len = PopIndexToVarState (wm_is_memory64 memory) len;
          dst = PopIndexToVarState (wm_is_memory64 memory) dst
      in trap_on_zero (memory_fill_wrapper L wasm_tsan mem_index (unat dst) (ucast (slot_u32 fill_value)) (unat len) S))"

subsection \<open>Indices\<close>

text \<open>A bulk instruction reads an index as a plain access does: 32 bits of it for a 32-bit memory.\<close>

lemma last_bit:
  fixes c :: u32
  assumes "bit c n" and "31 \<le> n"
  shows "n = 31"
  using bit_imp_le_length [OF assms(1)] assms(2) by simp

lemma scast_nonneg: "0 <=s c \<Longrightarrow> (scast c :: u64) = ucast c" for c :: u32
proof (rule bit_word_eqI)
  fix n
  assume "0 <=s c" and n: "n < LENGTH(64)"
  then have "\<not> bit c 31" using bit_last_iff [of c] by (simp add: word_sle_eq)
  then show "bit (scast c :: u64) n \<longleftrightarrow> bit (ucast c :: u64) n"
    using n last_bit [of c n] by (cases "31 \<le> n") (auto simp: bit_simps min_def)
qed

lemma zero_extend_ucast [simp]: "zero_extend (ucast c) = ucast c" for c :: u32
proof -
  have "(ucast (ucast c :: u64) :: u32) = c" by (intro bit_word_eqI) (auto simp: bit_simps)
  then show ?thesis by (simp add: zero_extend_def)
qed

lemma zero_extend_scast [simp]: "zero_extend (scast c) = ucast c" for c :: u32
proof -
  have "(ucast (scast c :: u64) :: u32) = c"
  proof (rule bit_word_eqI)
    fix n
    assume "n < LENGTH(32)"
    then show "bit (ucast (scast c :: u64) :: u32) n \<longleftrightarrow> bit c n"
      by (cases "n = 31") (auto simp: bit_simps min_def)
  qed
  then show ?thesis by (simp add: zero_extend_def)
qed

lemma PopIndex_pointer:
  "unat (PopIndexToVarState (wm_is_memory64 memory) slot) = pointer_index memory (Some (PopToRegister memory slot))"
  by (simp add: PopIndexToVarState_def pointer_index_def PopToRegister_def scast_nonneg split: VarState.split)

subsection \<open>What the detector sees\<close>

text \<open>One report of a bulk operation: the memory, the direction, the byte.\<close>

definition report_byte :: "tid \<Rightarrow> BackingStore \<times> bool \<times> nat \<Rightarrow> engine \<Rightarrow> engine result" where
  "report_byte t = (\<lambda>(b, w, i). on_eng (OnSABRangeUnsuppressed (buffer_start b) (bs_byte_length b) i 1 t w))"

lemma runE_map: "runE f (map g xs) E = runE (\<lambda>x. f (g x)) xs E"
proof (induction xs arbitrary: E)
  case (Cons x xs)
  then show ?case by (cases "f (g x) E") simp_all
qed simp

text \<open>A report changes neither the callbacks nor who the current thread is.\<close>

lemma report_byte_keeps:
  assumes "report_byte t x E = Inr E'"
  shows "g_callbacks E' = g_callbacks E \<and> WebTSanGetCurrentTid (eng E') = WebTSanGetCurrentTid (eng E)"
proof -
  obtain b w i where x: "x = (b, w, i)" by (cases x)
  from assms obtain D where D: "OnSABRangeUnsuppressed (buffer_start b) (bs_byte_length b) i 1 t w (eng E) = Inr D"
    and E': "E' = E\<lparr>eng := D\<rparr>"
    by (auto simp: x report_byte_def on_eng_def elim!: bindE_InrE)
  from D have "g_current_tsan_tid (snd D) = g_current_tsan_tid (snd (eng E))"
    using MemoryAccess_tls by (auto simp: OnSABRangeUnsuppressed_def split: if_splits)
  then show ?thesis by (simp add: E' WebTSanGetCurrentTid_def)
qed

lemma reports_keep:
  assumes "runE (report_byte t) xs E = Inr E'"
  shows "g_callbacks E' = g_callbacks E \<and> WebTSanGetCurrentTid (eng E') = WebTSanGetCurrentTid (eng E)"
  by (rule runE_invariant [where P = "\<lambda>F. g_callbacks F = g_callbacks E \<and> WebTSanGetCurrentTid (eng F) = WebTSanGetCurrentTid (eng E)", OF _ _ assms])
    (use report_byte_keeps in auto)

text \<open>The reports of a bulk operation on a range of a memory, which are none unless it is shared.\<close>

definition range_reports :: "BackingStore option \<Rightarrow> bool \<Rightarrow> nat \<Rightarrow> nat \<Rightarrow> (BackingStore \<times> bool \<times> nat) list" where
  "range_reports backing w offset n =
     (case backing of None \<Rightarrow> []
      | Some b \<Rightarrow> if bs_is_shared b \<and> 0 < n then map (\<lambda>i. (b, w, i)) (sample_points offset n) else [])"

lemma MaybeReport_reports:
  assumes "g_callbacks E = webtsan_callbacks" and "WebTSanGetCurrentTid (eng E) = t" and "t \<noteq> UINT32_MAX"
    and "offset + n < 18446744073709551616"
  shows "MaybeReportTSanBulkRange True td k offset n w E = runE (report_byte t) (range_reports (memory_backing td k) w offset n) E"
proof (cases "memory_backing td k")
  case None
  with assms(1) show ?thesis by (simp add: MaybeReportTSanBulkRange_def range_reports_def webtsan_callbacks_def)
next
  case (Some b)
  show ?thesis
  proof (cases "bs_is_shared b \<and> 0 < n")
    case True
    then show ?thesis
      using bulk_range_sampled_parts(1) [OF assms(1) Some, of n offset w] assms(2-4) Some
      by (simp add: range_reports_def runE_map report_byte_def)
  next
    case False
    with assms(1) Some show ?thesis
      by (auto simp: MaybeReportTSanBulkRange_def range_reports_def webtsan_callbacks_def)
  qed
qed

subsection \<open>The instructions\<close>

text \<open>The check of the base library, on numbers.\<close>

definition bounds_law :: "v8_lib \<Rightarrow> bool" where
  "bounds_law L \<longleftrightarrow> (\<forall>i n limit. IsInBounds L i n limit \<longleftrightarrow> i + n \<le> limit)"

text \<open>The number an index slot stands for.\<close>

definition slot_number :: "bool \<Rightarrow> VarState \<Rightarrow> nat" where
  "slot_number wide slot = unat (PopIndexToVarState wide slot)"

lemma bulk_codes: "kOutOfBounds = 0" "kMemOpSuccess \<noteq> 0"
  by (simp_all add: kOutOfBounds_def kMemOpSuccess_def)

lemma bindE_runtime: "runtime_call (bindE x f) = bindC (runtime_call x) (\<lambda>y. runtime_call (f y))"
  by (cases x) (simp_all add: runtime_call_def)

lemma runtime_call_Inr [simp]: "runtime_call (Inr x) = Inr x"
  by (simp add: runtime_call_def)

text \<open>
  C40: a compiled \<open>memory.copy\<close>. It traps, with nothing moved and nothing reported, exactly when either
  range is not in its memory. Otherwise the bytes are moved as if through a buffer, and the detector is
  told first of the bytes read, then of the bytes written, each in its own memory as far as that is
  shared: all of them for up to 64 bytes, 64 of them beyond.
\<close>

theorem compiled_copy:
  assumes "bounds_law L" and "g_callbacks (wengine S) = webtsan_callbacks"
    and "WebTSanGetCurrentTid (eng (wengine S)) = t" and "t \<noteq> UINT32_MAX"
    and "memory_size (instance_data S) di < 18446744073709551616" and "memory_size (instance_data S) si < 18446744073709551616"
    and "d = slot_number (wm_is_memory64 md) dst" and "s = slot_number (wm_is_memory64 ms) src"
    and "n = slot_number (wm_is_memory64 md \<and> wm_is_memory64 ms) len"
  shows "MemoryCopy L True md di ms si dst src len S =
    (if memory_size (instance_data S) di < d + n \<or> memory_size (instance_data S) si < s + n
     then Inl (Trapped ThrowWasmTrapMemOutOfBounds)
     else bindC (runtime_call (runE (report_byte t)
              (range_reports (memory_backing (instance_data S) si) False s n @
               range_reports (memory_backing (instance_data S) di) True d n) (wengine S)))
            (\<lambda>E. Inr (S\<lparr>wengine := E, wmem :=
               mem_move (memory_base (instance_data S) di + d) (memory_base (instance_data S) si + s) n (wmem S)\<rparr>)))"
proof (cases "memory_size (instance_data S) di < d + n \<or> memory_size (instance_data S) si < s + n")
  case True
  then show ?thesis
    using assms(1,7-9) by (auto simp: MemoryCopy_def memory_copy_wrapper_def trap_on_zero_def slot_number_def
        bounds_law_def bulk_codes Let_def)
next
  case False
  then have less: "d + n < 18446744073709551616" "s + n < 18446744073709551616" using assms(5,6) by simp_all
  note first = MaybeReport_reports [OF assms(2-4) less(2)]
  have second: "MaybeReportTSanBulkRange True (instance_data S) di d n True E =
      runE (report_byte t) (range_reports (memory_backing (instance_data S) di) True d n) E"
    if "runE (report_byte t) xs (wengine S) = Inr E" for xs E
    using reports_keep [OF that] assms(2-4) less(1) by (intro MaybeReport_reports) simp_all
  let ?reads = "range_reports (memory_backing (instance_data S) si) False s n"
  have "MemoryCopy L True md di ms si dst src len S = trap_on_zero (memory_copy_wrapper L True di si d s n S)"
    by (simp add: MemoryCopy_def assms(7-9) slot_number_def Let_def)
  also have "\<dots> = bindC (runtime_call (bindE (runE (report_byte t) ?reads (wengine S))
      (MaybeReportTSanBulkRange True (instance_data S) di d n True)))
      (\<lambda>E. Inr (S\<lparr>wengine := E, wmem :=
         mem_move (memory_base (instance_data S) di + d) (memory_base (instance_data S) si + s) n (wmem S)\<rparr>))"
    using False assms(1) by (simp add: memory_copy_wrapper_def trap_on_zero_def bounds_law_def bulk_codes Let_def first
        bindE_runtime bindC_assoc EffectiveAddress_def)
  also have "bindE (runE (report_byte t) ?reads (wengine S)) (MaybeReportTSanBulkRange True (instance_data S) di d n True) =
      runE (report_byte t) (?reads @ range_reports (memory_backing (instance_data S) di) True d n) (wengine S)"
    using second [of ?reads] by (cases "runE (report_byte t) ?reads (wengine S)") (simp_all add: runE_append)
  finally show ?thesis using False by simp
qed

text \<open>A compiled \<open>memory.fill\<close>, likewise.\<close>

lemma compiled_fill:
  assumes "bounds_law L" and "g_callbacks (wengine S) = webtsan_callbacks"
    and "WebTSanGetCurrentTid (eng (wengine S)) = t" and "t \<noteq> UINT32_MAX"
    and "memory_size (instance_data S) k < 18446744073709551616"
    and "d = slot_number (wm_is_memory64 memory) dst" and "n = slot_number (wm_is_memory64 memory) len"
  shows "MemoryFill L True memory k dst v len S =
    (if memory_size (instance_data S) k < d + n then Inl (Trapped ThrowWasmTrapMemOutOfBounds)
     else bindC (runtime_call (runE (report_byte t) (range_reports (memory_backing (instance_data S) k) True d n) (wengine S)))
            (\<lambda>E. Inr (S\<lparr>wengine := E, wmem := mem_set (memory_base (instance_data S) k + d) (ucast (slot_u32 v)) n (wmem S)\<rparr>)))"
proof (cases "memory_size (instance_data S) k < d + n")
  case False
  then have "MaybeReportTSanBulkRange True (instance_data S) k d n True (wengine S) =
      runE (report_byte t) (range_reports (memory_backing (instance_data S) k) True d n) (wengine S)"
    using assms(2-5) by (intro MaybeReport_reports) simp_all
  with False show ?thesis
    using assms(1,6,7) by (simp add: MemoryFill_def memory_fill_wrapper_def trap_on_zero_def slot_number_def bounds_law_def
        bulk_codes Let_def bindE_runtime bindC_assoc EffectiveAddress_def)
qed (use assms(1,6,7) in \<open>simp add: MemoryFill_def memory_fill_wrapper_def trap_on_zero_def slot_number_def bounds_law_def
        bulk_codes Let_def\<close>)

text \<open>A compiled \<open>memory.init\<close> writes to a memory, shared or not, and tells the detector nothing.\<close>

lemma compiled_init_unreported:
  assumes "MemoryInit L memory k seg dst src len S = Inr S'"
  shows "wengine S' = wengine S"
  using assms by (auto simp: MemoryInit_def memory_init_wrapper_def trap_on_zero_def runtime_call_def Let_def
      split: if_splits prod.splits sum.splits elim!: bindE_InrE)

text \<open>Copying 2 bytes between two memories, of which only the source is shared; and out of bounds.\<close>

definition demo_copy_state :: WasmBulk.wasm_state where
  "demo_copy_state = \<lparr>wmem = (\<lambda>a. if a = 4106 then 7 else 0),
     instance_data = \<lparr>memory_base = (\<lambda>i. if i = 0 then 4096 else 200000), memory_size = (\<lambda>_. 65536),
       memory_backing = (\<lambda>i. if i = 0 then Some WasmBulkProps.demo_shared else None), data_segments = (\<lambda>_. (0, 0)), wire_bytes = 0\<rparr>,
     wengine = demo_user, write_barriers = []\<rparr>"

definition demo_memory :: WasmMemory where
  "demo_memory = \<lparr>wm_is_shared = True, wm_is_memory64 = False, wm_min_memory_size = 65536, wm_max_memory_size = 65536,
     wm_bounds_checks = kExplicitBoundsChecks\<rparr>"

lemma demo_slot: "slot_number wide (ConstSlot 10) = 10" "slot_number wide (ConstSlot 2) = 2"
    "slot_number False (ConstSlot 65535) = 65535"
  by (cases wide; simp add: slot_number_def PopIndexToVarState_def word_sle_eq)+

theorem compiled_copy_witness:
  "MemoryCopy demo_lib True demo_memory 1 demo_memory 0 (ConstSlot 65535) (ConstSlot 10) (ConstSlot 2) demo_copy_state =
     Inl (Trapped ThrowWasmTrapMemOutOfBounds) \<and>
   MemoryCopy demo_lib True demo_memory 1 demo_memory 0 (ConstSlot 10) (ConstSlot 10) (ConstSlot 2) demo_copy_state =
     bindC (runtime_call (runE (report_byte 1) [(WasmBulkProps.demo_shared, False, 10), (WasmBulkProps.demo_shared, False, 11)] demo_user))
       (\<lambda>E. Inr (demo_copy_state\<lparr>wengine := E, wmem := mem_move 200010 4106 2 (wmem demo_copy_state)\<rparr>))"
proof -
  let ?S = demo_copy_state
  have law: "bounds_law demo_lib" by (simp add: bounds_law_def demo_lib_def)
  have e: "g_callbacks (wengine ?S) = webtsan_callbacks" "WebTSanGetCurrentTid (eng (wengine ?S)) = 1" "(1::nat) \<noteq> UINT32_MAX"
    "memory_size (instance_data ?S) i < 18446744073709551616" for i
    by (simp_all add: demo_copy_state_def demo_user_sel UINT32_MAX_def)
  note c = compiled_copy [OF law e(1-3) e(4) [of 1] e(4) [of 0] refl refl refl]
  have m: "\<not> wm_is_memory64 demo_memory" by (simp add: demo_memory_def)
  have r: "range_reports (memory_backing (instance_data ?S) 0) False 10 2 =
      [(WasmBulkProps.demo_shared, False, 10), (WasmBulkProps.demo_shared, False, 11)]"
    "range_reports (memory_backing (instance_data ?S) 1) True 10 2 = []"
    by (simp_all add: range_reports_def demo_copy_state_def WasmBulkProps.demo_shared_def sample_points_def upt_rec)
  have s: "memory_size (instance_data ?S) i = 65536" "memory_base (instance_data ?S) 0 = 4096"
    "memory_base (instance_data ?S) 1 = 200000" "wengine ?S = demo_user" for i
    by (simp_all add: demo_copy_state_def)
  show ?thesis
    using c [where md = demo_memory and ms = demo_memory and dst = "ConstSlot 65535" and src = "ConstSlot 10" and len = "ConstSlot 2"]
      c [where md = demo_memory and ms = demo_memory and dst = "ConstSlot 10" and src = "ConstSlot 10" and len = "ConstSlot 2"]
    by (simp only: m demo_slot s r append_Nil2 simp_thms) simp
qed

end
