(* ===== verification/EngineRuns.thy ===== *)
theory EngineRuns
  imports HBSpec WasmBulkProps WasmTrace
begin

text \<open>
  The engine and the detector together. Any number of threads of a process enter the engine through
  its runtime functions, the reports of WebAssembly accesses and bulk operations, the installed
  JavaScript functions, waits, notifications, messages, workers and freed buffers, in any
  interleaving. Whatever they do to the detector is a run of the operations of \<open>HBSpec\<close>, of a
  length that the entries bound; so its soundness holds for the engine.
\<close>

subsection \<open>Runs with a budget\<close>

text \<open>Reachability in at most so many operations, with what follows for sequences of steps.\<close>

locale budget =
  fixes reach :: "nat \<Rightarrow> 's \<Rightarrow> 's \<Rightarrow> bool"
  assumes stay: "reach 0 s s"
    and join: "reach k s t \<Longrightarrow> reach l t u \<Longrightarrow> reach (k + l) s u"
    and mono: "reach k s t \<Longrightarrow> k \<le> l \<Longrightarrow> reach l s t"
begin

lemma stay_any: "reach k s s"
  using stay by (rule mono) simp

lemma run:
  assumes "\<And>x s t. x \<in> set xs \<Longrightarrow> f x s = Inr t \<Longrightarrow> reach k s t" and "runE f xs s = Inr t"
  shows "reach (length xs * k) s t"
  using assms
proof (induction xs arbitrary: s)
  case Nil
  then show ?case by (simp add: stay)
next
  case (Cons x xs)
  then obtain u where u: "f x s = Inr u" "runE f xs u = Inr t" by (auto elim: bindE_InrE)
  have "reach (length xs * k) u t" by (rule Cons.IH [OF _ u(2)]) (rule Cons.prems(1); simp)
  moreover have "reach k s u" by (rule Cons.prems(1) [of x]) (simp_all add: u(1))
  ultimately show ?case by (metis join length_Cons mult_Suc)
qed

lemma bind_join:
  assumes "bindE m f = Inr t" and "\<And>u. m = Inr u \<Longrightarrow> reach k s u" and "\<And>u. m = Inr u \<Longrightarrow> f u = Inr t \<Longrightarrow> reach l u t"
  shows "reach (k + l) s t"
  using assms by (auto elim!: bindE_InrE intro: join)

end

text \<open>What a thread does to the detector never depends on its thread-local state, given the operation.\<close>

lemma report_race_W: "fst (report_race bs r (W, T)) = fst (report_race bs r (W, T2))"
  by (simp add: report_race_def Let_def)

lemma exec_tls:
  assumes "exec x (W, T) = Inr (W', T')"
  shows "\<exists>T2'. exec x (W, T2) = Inr (W', T2')"
proof (cases x)
  case (Access bs len off n t w)
  have "\<exists>S. report_race bs r (U, T2) = (W', S)" if "report_race bs r (U, T) = (W', T')" for r U
    using report_race_W [of bs r U T T2] that by (metis fst_conv prod.collapse)
  with assms Access show ?thesis
    by (auto simp: MemoryAccess_def Let_def bindE_eq_Inr split: if_splits option.splits prod.splits)
qed (use assms in \<open>auto simp: bindE_eq_Inr split: prod.splits\<close>)

lemma runE_exec_tls: "runE exec ops (W, T) = Inr (W', T') \<Longrightarrow> \<exists>T2'. runE exec ops (W, T2) = Inr (W', T2')"
proof (induction ops arbitrary: W T T2)
  case (Cons x xs)
  then obtain W1 T1 where 1: "exec x (W, T) = Inr (W1, T1)" "runE exec xs (W1, T1) = Inr (W', T')"
    by (auto elim!: bindE_InrE)
  with exec_tls obtain T3 where "exec x (W, T2) = Inr (W1, T3)" by blast
  with Cons.IH [OF 1(2)] show ?case by simp
qed simp

definition drives :: "nat \<Rightarrow> dstate \<Rightarrow> dstate \<Rightarrow> bool" where
  "drives k D D' \<longleftrightarrow> (\<exists>ops T. length ops \<le> k \<and> list_all op_ok ops \<and> runE exec ops D = Inr (fst D', T))"

lemma drives_join: "drives k A B \<Longrightarrow> drives l B C \<Longrightarrow> drives (k + l) A C"
proof -
  assume "drives k A B" and "drives l B C"
  then obtain xs S ys T where xs: "length xs \<le> k" "list_all op_ok xs" "runE exec xs A = Inr (fst B, S)"
    and ys: "length ys \<le> l" "list_all op_ok ys" "runE exec ys B = Inr (fst C, T)"
    by (auto simp: drives_def)
  have "runE exec ys (fst B, snd B) = Inr (fst C, T)" using ys(3) by simp
  from runE_exec_tls [OF this] obtain T2 where "runE exec ys (fst B, S) = Inr (fst C, T2)" by blast
  with xs ys show "drives (k + l) A C"
    by (intro drives_def [THEN iffD2] exI [of _ "xs @ ys"] exI [of _ T2]) (simp add: runE_append)
qed

text \<open>On the engine: the callbacks of the detector stay registered.\<close>

definition tells :: "nat \<Rightarrow> engine \<Rightarrow> engine \<Rightarrow> bool" where
  "tells k E E' \<longleftrightarrow> (g_callbacks E = webtsan_callbacks \<longrightarrow>
     g_callbacks E' = webtsan_callbacks \<and> drives k (eng E) (eng E'))"

interpretation db: budget drives
proof unfold_locales
  show "drives 0 s s" for s
    by (cases s) (auto simp: drives_def intro!: exI [of _ "[]"])
  show "drives k s t \<Longrightarrow> drives l t u \<Longrightarrow> drives (k + l) s u" for k l s t u by (rule drives_join)
  show "drives k s t \<Longrightarrow> k \<le> l \<Longrightarrow> drives l s t" for k l s t
    unfolding drives_def by (meson le_trans)
qed

interpretation tb: budget tells
  by unfold_locales (auto simp: tells_def intro: db.stay db.join db.mono)

lemma drives_same: "fst D' = fst D \<Longrightarrow> drives k D D'"
  by (cases D) (auto simp: drives_def intro!: exI [of _ "[]"])

lemma drives_op:
  assumes "exec x D = Inr (fst D', T)" and "op_ok x" and "0 < k"
  shows "drives k D D'"
  using assms by (auto simp: drives_def intro!: exI [of _ "[x]"])

lemma tells_same: "fst (eng E') = fst (eng E) \<Longrightarrow> g_callbacks E' = g_callbacks E \<Longrightarrow> tells k E E'"
  by (simp add: tells_def drives_same)

lemma tells_on_eng:
  assumes "on_eng f E = Inr E'" and "\<And>D'. f (eng E) = Inr D' \<Longrightarrow> drives k (eng E) D'"
  shows "tells k E E'"
  using assms by (auto simp: on_eng_def tells_def elim!: bindE_InrE)

subsection \<open>The hooks\<close>

lemma callE_exec:
  assumes "callE f D = Inr D'" and "\<And>W T. exec x (W, T) = bindE (f W) (\<lambda>W'. Inr (W', T))" and "op_ok x"
  shows "drives 1 D D'"
  using assms by (cases D) (auto simp: callE_def elim!: bindE_InrE intro!: drives_op [of x])

lemma call_exec:
  assumes "\<And>W T. exec x (W, T) = Inr (f W, T)" and "op_ok x"
  shows "drives 1 D (call f D)"
  using assms by (cases D) (auto simp: call_def intro!: drives_op [of x])

lemma OnSABRange_drives:
  assumes "OnSABRangeUnsuppressed bs len off n t w D = Inr D'" and "off + n \<le> 18446744073709551616"
  shows "drives 1 D D'"
  using assms by (cases D; cases D')
    (auto simp: OnSABRangeUnsuppressed_def drives_same intro!: drives_op [of "Access bs len off n t w"] split: if_splits)

lemma OnSABAccess_drives:
  assumes "OnSABAccess bs len off n t w D = Inr D'" and "off + n \<le> 18446744073709551616"
  shows "drives 1 D D'"
  using assms call_exec [of Count IncrementSuppressedCount D] by (cases D; cases D')
    (auto simp: OnSABAccess_def drives_same intro!: drives_op [of "Access bs len off n t w"] split: if_splits)

lemma atomics_drive:
  "OnAtomicsLoad t a D = Inr D' \<Longrightarrow> drives 1 D D'"
  "OnAtomicsStore t a D = Inr D' \<Longrightarrow> drives 1 D D'"
  "OnAtomicsWaitComplete t a D = Inr D' \<Longrightarrow> drives 1 D D'"
  "OnAtomicsNotify t a D = Inr D' \<Longrightarrow> drives 1 D D'"
  using callE_exec [of "Acquire t a" D D' "Acq t a"] callE_exec [of "Release t a" D D' "Rel t a"]
  by (auto simp: hook_defs drives_same split: if_splits)

lemma OnAtomicsRMW_drives:
  assumes "OnAtomicsRMW t a D = Inr D'"
  shows "drives 2 D D'"
proof (cases "enabled (fst D)")
  case True
  with assms obtain D1 where "callE (Acquire t a) D = Inr D1" and "callE (Release t a) D1 = Inr D'"
    by (auto simp: OnAtomicsRMW_def elim!: bindE_InrE)
  then have "drives 1 D D1" and "drives 1 D1 D'"
    using callE_exec [of "Acquire t a" D D1 "Acq t a"] callE_exec [of "Release t a" D1 D' "Rel t a"] by simp_all
  from db.join [OF this] show ?thesis by (simp only: one_add_one)
qed (use assms in \<open>simp add: OnAtomicsRMW_def db.stay_any\<close>)

lemma messages_drive:
  "OnPostMessageSend t D = Inr (e, D') \<Longrightarrow> drives 1 D D'"
  "OnPostMessageReceive t e D = Inr D' \<Longrightarrow> drives 1 D D'"
proof -
  show "OnPostMessageSend t D = Inr (e, D') \<Longrightarrow> drives 1 D D'"
    by (cases D) (auto simp: OnPostMessageSend_def drives_same bindE_eq_Inr split: if_splits intro!: drives_op [of "Send t"])
  show "OnPostMessageReceive t e D = Inr D' \<Longrightarrow> drives 1 D D'"
    using callE_exec [of "HappensAfter t e" D D' "Receive t e"]
    by (auto simp: OnPostMessageReceive_def drives_same split: if_splits)
qed

lemma mutexes_drive:
  "drives 1 D (OnMutexCreate a D)" "drives 1 D (OnMutexDestroy a D)" "drives 1 D (OnMutexPreLock t a D)"
  "drives 1 D (OnMutexPostLock t a D)" "drives 1 D (OnMutexUnlock t a D)" "drives 1 D (OnMutexReadLock t a D)"
  "drives 1 D (OnMutexReadUnlock t a D)"
  using call_exec [of "MCreate a" "MutexCreate a"] call_exec [of "MDestroy a" "MutexDestroy a"]
    call_exec [of "MPreLock t a" "MutexPreLock t a"] call_exec [of "MLock t a" "MutexPostLock t a"]
    call_exec [of "MUnlock t a" "MutexUnlock t a"] call_exec [of "MReadLock t a" "MutexReadLock t a"]
    call_exec [of "MReadUnlock t a" "MutexReadUnlock t a"]
  by (auto simp: hook_defs drives_same)

lemma threads_drive:
  "OnPthreadCreate p D = Inr (t, D') \<Longrightarrow> drives 1 D D'"
  "OnWorkerCreate D = Inr (t, D') \<Longrightarrow> drives 1 D D'"
  "OnWorkerDestroy t D = Inr D' \<Longrightarrow> drives 1 D D'"
  "drives 1 D (OnPthreadJoin j c D)"
  "drives 1 D (OnPthreadDetach c D)"
proof -
  show "OnPthreadCreate p D = Inr (t, D') \<Longrightarrow> drives 1 D D'"
    by (cases D) (auto simp: OnPthreadCreate_def bindE_eq_Inr intro!: drives_op [of "Create p"])
  show "OnWorkerCreate D = Inr (t, D') \<Longrightarrow> drives 1 D D'"
    by (cases D) (auto simp: OnWorkerCreate_def bindE_eq_Inr intro!: drives_op [of "Create UINT32_MAX"])
  show "OnWorkerDestroy t D = Inr D' \<Longrightarrow> drives 1 D D'"
    using callE_exec [of "ThreadDestroy t" D D' "Destroy t"] by (simp add: OnWorkerDestroy_def)
  show "drives 1 D (OnPthreadJoin j c D)" "drives 1 D (OnPthreadDetach c D)"
    using call_exec [of "JoinOp j c" "ThreadJoin j c"] call_exec [of "Detach c" "ThreadDetach c"]
    by (auto simp: hook_defs drives_same)
qed

lemmas hooks_drive = OnSABRange_drives OnSABAccess_drives atomics_drive OnAtomicsRMW_drives messages_drive
  mutexes_drive threads_drive

subsection \<open>The entries\<close>

text \<open>
  A console whose JavaScript makes at most \<open>c\<close> operations a call, and leaves the callbacks registered.
\<close>

definition console_ok :: "nat \<Rightarrow> js_env \<Rightarrow> bool" where
  "console_ok c env \<longleftrightarrow> (\<forall>m E. tells c E (call_error env m E))"

lemma consume_fst: "fst (snd (consume_race_cb n D)) = fst D"
  by (cases D) (simp add: consume_race_cb_def)

lemma clear_exception_sel [simp]: "eng (clear_exception E) = eng E" "g_callbacks (clear_exception E) = g_callbacks E"
  by (simp_all add: clear_exception_def)

lemma tells_console:
  assumes "console_ok c env" and "fst (eng E1) = fst (eng E)" and "g_callbacks E1 = g_callbacks E"
    and "eng E2 = eng (call_error env m E1)" and "g_callbacks E2 = g_callbacks (call_error env m E1)"
  shows "tells c E E2"
proof -
  have "tells c E1 (call_error env m E1)" using assms(1) by (simp add: console_ok_def)
  then have "tells c E1 E2" using assms(4,5) by (simp add: tells_def)
  moreover have "tells 0 E E1" using assms(2,3) by (intro tells_same)
  ultimately show ?thesis using tb.join [of 0 E E1 c E2] by simp
qed

lemma webtsan_sel:
  "get_current_tid webtsan_callbacks = Some WebTSanGetCurrentTid"
  "on_sab_access webtsan_callbacks = Some (\<lambda>bs len off sz tid w. OnSABAccess bs len off sz tid (w \<noteq> 0))"
  "on_atomics_load webtsan_callbacks = Some OnAtomicsLoad"
  "on_atomics_store webtsan_callbacks = Some OnAtomicsStore"
  "on_atomics_rmw webtsan_callbacks = Some OnAtomicsRMW"
  "on_atomics_wait_complete webtsan_callbacks = Some OnAtomicsWaitComplete"
  "on_atomics_notify webtsan_callbacks = Some OnAtomicsNotify"
  "remove_shadow webtsan_callbacks = Some (\<lambda>bs. call (RemoveShadow bs))"
  "wasm_access webtsan_callbacks = Some wasm_access_cb"
  "consume_race webtsan_callbacks = Some consume_race_cb"
  by (simp_all add: webtsan_callbacks_def)

lemma MaybeThrowRace_tells:
  assumes "console_ok c env"
  shows "tells c E (MaybeThrowRace env E)"
proof (cases "g_callbacks E = webtsan_callbacks")
  case True
  obtain msg D where c: "consume_race_cb 512 (eng E) = (msg, D)" by (cases "consume_race_cb 512 (eng E)")
  with consume_fst [of 512 "eng E"] have D: "fst D = fst (eng E)" by simp
  have "tells c E (E\<lparr>eng := D\<rparr>)" using D by (intro tells_same) simp_all
  moreover have "tells c E (clear_exception (call_error env m (E\<lparr>eng := D\<rparr>)))" for m
    using D by (intro tells_console [OF assms, of "E\<lparr>eng := D\<rparr>" E _ m]) simp_all
  ultimately show ?thesis
    using True c by (cases msg) (simp_all add: MaybeThrowRace_def webtsan_sel Let_def)
qed (simp add: tells_def)

lemma Flush_tells:
  assumes "console_ok c env"
  shows "tells c E (FlushPendingRaceToConsole env E)"
proof -
  obtain W T where E: "eng E = (W, T)" by (cases "eng E")
  let ?E1 = "E\<lparr>s_in_flush := True, eng := (W, T\<lparr>g_race_detected := False, g_race_message := ''''\<rparr>)\<rparr>"
  have "tells c E (?E1\<lparr>s_in_flush := False\<rparr>)" "tells c E E" by (intro tells_same; simp add: E)+
  moreover have "tells c E ((clear_exception (call_error env m ?E1))\<lparr>s_in_flush := False\<rparr>)" for m
    by (intro tells_console [OF assms, of ?E1 E _ m]) (simp_all add: E)
  ultimately show ?thesis by (simp add: FlushPendingRaceToConsole_def E Let_def)
qed

lemma tells_then:
  assumes "bindE (on_eng f E) (\<lambda>E. Inr (g E)) = Inr E'"
    and "\<And>D. f (eng E) = Inr D \<Longrightarrow> drives k (eng E) D" and "\<And>E. tells c E (g E)"
  shows "tells (k + c) E E'"
  using assms(1) by (rule tb.bind_join) (use assms(2,3) in \<open>auto intro: tells_on_eng\<close>)

text \<open>An access of an element that lies in the address space.\<close>

definition element_ok :: "typed_array \<Rightarrow> int \<Rightarrow> bool" where
  "element_ok a i \<longleftrightarrow> element_offset a i + element_size a \<le> 18446744073709551616"

text \<open>The frame the runtime functions share: flag, shared array, thread with an id, hook, report.\<close>

lemma guarded_entry:
  assumes "(if \<not> wt then Inr E else if \<not> sh then Inr E else let tid = GetTid E in if tid = UINT32_MAX then Inr E
      else bindE (on_eng (f tid) E) (\<lambda>E. Inr (MaybeThrowRace env E))) = Inr E'"
    and "console_ok c env" and "\<And>t D. f t (eng E) = Inr D \<Longrightarrow> drives k (eng E) D"
  shows "tells (k + c) E E'"
proof (cases "wt \<and> sh \<and> GetTid E \<noteq> UINT32_MAX")
  case True
  with assms(1) have "bindE (on_eng (f (GetTid E)) E) (\<lambda>E. Inr (MaybeThrowRace env E)) = Inr E'" by simp
  then show ?thesis by (rule tells_then) (rule assms(3), assumption, rule MaybeThrowRace_tells [OF assms(2)])
next
  case False
  with assms(1) have "E' = E" by (auto simp: Let_def split: if_splits)
  then show ?thesis by (simp add: tb.stay_any)
qed

lemma runtime_functions_tell:
  assumes "console_ok c env" and "g_callbacks E = webtsan_callbacks"
  shows "element_ok a i \<Longrightarrow> Runtime_WebTSanRecordRead wt env a i E = Inr E' \<Longrightarrow> tells (1 + c) E E'"
    and "element_ok a i \<Longrightarrow> Runtime_WebTSanRecordWrite wt env a i E = Inr E' \<Longrightarrow> tells (1 + c) E E'"
    and "Runtime_WebTSanAtomicsLoad wt env a i E = Inr E' \<Longrightarrow> tells (1 + c) E E'"
    and "Runtime_WebTSanAtomicsStore wt env a i E = Inr E' \<Longrightarrow> tells (1 + c) E E'"
    and "Runtime_WebTSanAtomicsRMW wt env a i E = Inr E' \<Longrightarrow> tells (2 + c) E E'"
proof -
  show "tells (1 + c) E E'" if "element_ok a i" and "Runtime_WebTSanRecordRead wt env a i E = Inr E'"
    using that(2) unfolding Runtime_WebTSanRecordRead_def assms(2) webtsan_sel option.case
    by (rule guarded_entry [OF _ assms(1)]) (erule OnSABAccess_drives, use that(1) in \<open>simp add: element_ok_def\<close>)
  show "tells (1 + c) E E'" if "element_ok a i" and "Runtime_WebTSanRecordWrite wt env a i E = Inr E'"
    using that(2) unfolding Runtime_WebTSanRecordWrite_def assms(2) webtsan_sel option.case
    by (rule guarded_entry [OF _ assms(1)]) (erule OnSABAccess_drives, use that(1) in \<open>simp add: element_ok_def\<close>)
  show "tells (1 + c) E E'" if "Runtime_WebTSanAtomicsLoad wt env a i E = Inr E'"
    using that unfolding Runtime_WebTSanAtomicsLoad_def assms(2) webtsan_sel option.case
    by (rule guarded_entry [OF _ assms(1)]) (erule atomics_drive)
  show "tells (1 + c) E E'" if "Runtime_WebTSanAtomicsStore wt env a i E = Inr E'"
    using that unfolding Runtime_WebTSanAtomicsStore_def assms(2) webtsan_sel option.case
    by (rule guarded_entry [OF _ assms(1)]) (erule atomics_drive)
  show "tells (2 + c) E E'" if "Runtime_WebTSanAtomicsRMW wt env a i E = Inr E'"
    using that unfolding Runtime_WebTSanAtomicsRMW_def assms(2) webtsan_sel option.case
    by (rule guarded_entry [OF _ assms(1)]) (erule OnAtomicsRMW_drives)
qed

subsection \<open>WebAssembly\<close>

lemma tsan_atomic_tells:
  assumes "g_callbacks E = webtsan_callbacks" and "tsan_atomic loc st E = Inr E'"
  shows "tells 2 E E'"
proof -
  have "tells 1 E F" if "on_eng (OnAtomicsLoad t loc) E = Inr F" for t F
    using that by (rule tells_on_eng) (erule atomics_drive)
  then have load: "tells 2 E F" if "on_eng (OnAtomicsLoad t loc) E = Inr F" for t F
    using that tb.mono [of 1 E F 2] by simp
  have rmw: "tells 2 E F" if "on_eng (OnAtomicsRMW t loc) E = Inr F" for t F
    using that by (rule tells_on_eng) (erule OnAtomicsRMW_drives)
  show ?thesis
    using assms load rmw by (auto simp: tsan_atomic_def webtsan_sel Let_def tb.stay_any split: if_splits)
qed

lemma report_to_console_tells:
  assumes "console_ok c env"
  shows "tells c E (report_to_console env msg E)"
proof -
  let ?E1 = "E\<lparr>s_in_race_report := True\<rparr>"
  have "tells c E (?E1\<lparr>s_in_race_report := False\<rparr>)" by (intro tells_same) simp_all
  moreover have "tells c E ((clear_exception (call_error env m ?E1))\<lparr>s_in_race_report := False\<rparr>)" for m
    by (intro tells_console [OF assms, of ?E1 E _ m]) simp_all
  ultimately show ?thesis by (simp add: report_to_console_def Let_def)
qed

lemma wasm_access_drives:
  assumes "wasm_access_cb bs len off n st D = Inr D'" and "off + n \<le> 18446744073709551616"
  shows "drives 1 D D'"
proof (cases "WebTSanGetCurrentTid D = UINT32_MAX")
  case False
  with assms(1) have "OnSABAccess bs len off n (WebTSanGetCurrentTid D) (st \<noteq> 0) D = Inr D'"
    by (simp add: wasm_access_cb_def Let_def)
  then show ?thesis using assms(2) by (rule OnSABAccess_drives)
qed (use assms in \<open>simp add: wasm_access_cb_def db.stay_any\<close>)

text \<open>What follows the access: consume a report and print it.\<close>

definition consume_and_report :: "js_env \<Rightarrow> engine \<Rightarrow> engine" where
  "consume_and_report env E =
     (case consume_race_cb 512 (eng E) of
        (None, D) \<Rightarrow> E\<lparr>eng := D\<rparr>
      | (Some msg, D) \<Rightarrow> report_to_console env msg (E\<lparr>eng := D\<rparr>))"

lemma consume_and_report_tells:
  assumes "console_ok c env"
  shows "tells c E (consume_and_report env E)"
proof -
  obtain msg D where c: "consume_race_cb 512 (eng E) = (msg, D)" by (cases "consume_race_cb 512 (eng E)")
  with consume_fst [of 512 "eng E"] have D: "fst D = fst (eng E)" by simp
  have "tells 0 E (E\<lparr>eng := D\<rparr>)" "tells c E (E\<lparr>eng := D\<rparr>)" using D by (intro tells_same; simp)+
  moreover have "tells c (E\<lparr>eng := D\<rparr>) (report_to_console env m (E\<lparr>eng := D\<rparr>))" for m
    by (rule report_to_console_tells [OF assms])
  ultimately show ?thesis
    using c tb.join [of 0 E "E\<lparr>eng := D\<rparr>" c] by (cases msg) (simp_all add: consume_and_report_def)
qed

lemma tsan_plain_tells:
  assumes "g_callbacks E = webtsan_callbacks" and "console_ok c env" and "off + n \<le> 18446744073709551616"
    and "tsan_plain env bs len off n st E = Inr E'"
  shows "tells (1 + c) E E'"
proof (cases "s_in_race_report E")
  case False
  have "g_callbacks F = webtsan_callbacks" if "on_eng f E = Inr F" for f F
    using that assms(1) by (auto simp: on_eng_def elim!: bindE_InrE)
  then have "bindE (on_eng (wasm_access_cb bs len off n st) E) (\<lambda>E. Inr (consume_and_report env E)) = Inr E'"
    using assms(1,4) False
    by (auto simp: tsan_plain_def webtsan_sel consume_and_report_def split: prod.splits option.splits elim!: bindE_InrE)
  then show ?thesis
    by (rule tells_then) (erule wasm_access_drives, rule assms(3), rule consume_and_report_tells [OF assms(2)])
qed (use assms in \<open>simp add: tsan_plain_def webtsan_sel tb.stay_any\<close>)

lemma WasmTraceMemory_tells:
  assumes "g_callbacks (wasm_engine s) = webtsan_callbacks" and "console_ok c env"
    and "ti_offset info + rep_size (ti_mem_rep info) \<le> 18446744073709551616"
    and "Runtime_WasmTraceMemory rep_size mem env fl frame (Some info) s = Inr s'"
  shows "tells (2 + c) (wasm_engine s) (wasm_engine s')"
proof -
  have kept: "wasm_engine (install_once frame (if b then record_memory_trace e s else s)) = wasm_engine s" for b e
    by (simp add: install_once_def record_memory_trace_def split: option.split)
  let ?tells = "tells (2 + c) (wasm_engine s)"
  have plain: "?tells E'" if "tsan_plain env bs len (ti_offset info) (rep_size (ti_mem_rep info)) st (wasm_engine s) = Inr E'"
    for bs len st E' using tsan_plain_tells [OF assms(1-3) that] by (rule tb.mono) simp
  have atomic: "?tells E'" if "tsan_atomic loc st (wasm_engine s) = Inr E'" for loc st E'
    using tsan_atomic_tells [OF assms(1) that] by (rule tb.mono) simp
  have recorded: "wasm_engine (record_memory_trace e s) = wasm_engine s" for e by (simp add: record_memory_trace_def)
  show ?thesis
    using assms(4) kept [of True] kept [of False] plain atomic recorded
    by (auto simp: Runtime_WasmTraceMemory_def on_wasm_engine_def Let_def tb.stay_any split: if_splits elim!: bindE_InrE)
qed

lemma sample_loop_tells:
  assumes "sample_loop (\<lambda>o'. on_eng (OnSABRangeUnsuppressed bs len o' 1 t w)) offset n stride is E = Inr E'"
  shows "tells (length is) E E'"
  using assms
proof (induction "is" arbitrary: E)
  case (Cons i "is")
  let ?o = "size_t (offset + i * stride)"
  show ?case
  proof (cases "size_t (offset + n) \<le> ?o")
    case False
    with Cons.prems obtain F where F: "on_eng (OnSABRangeUnsuppressed bs len ?o 1 t w) E = Inr F"
      and rest: "sample_loop (\<lambda>o'. on_eng (OnSABRangeUnsuppressed bs len o' 1 t w)) offset n stride is F = Inr E'"
      by (auto simp: Let_def elim!: bindE_InrE)
    have "?o + 1 \<le> 18446744073709551616" by (simp add: less_eq_Suc_le [symmetric])
    then have "tells 1 E F" using F by - (rule tells_on_eng, assumption, erule OnSABRange_drives)
    from tb.join [OF this Cons.IH [OF rest]] show ?thesis by simp
  qed (use Cons.prems in \<open>simp add: Let_def tb.stay_any\<close>)
qed (simp add: tb.stay_any)

lemma bulk_tells:
  assumes "g_callbacks E = webtsan_callbacks" and "MaybeReportTSanBulkRange wt td k offset n w E = Inr E'"
  shows "tells 64 E E'"
proof -
  have loop: "tells 64 E E'"
    if "sample_loop (\<lambda>o'. on_eng (OnSABRangeUnsuppressed bs len o' 1 t v)) offset n stride is E = Inr E'" and "length is \<le> 64"
    for bs len t v stride "is"
    using tb.mono [OF sample_loop_tells [OF that(1)] that(2)] .
  have "record_range webtsan_callbacks = Some (\<lambda>bs len off sz tid w. OnSABRangeUnsuppressed bs len off sz tid (w \<noteq> 0))"
    by (simp add: webtsan_callbacks_def)
  then show ?thesis
    using assms by (cases w) (auto simp: MaybeReportTSanBulkRange_def webtsan_sel Let_def kMaxSamples_def tb.stay_any
        simp del: One_nat_def split: if_splits option.splits intro: loop)
qed

subsection \<open>The installed functions\<close>

lemma tells_eng: "drives k (eng E) D \<Longrightarrow> tells k E (E\<lparr>eng := D\<rparr>)"
  by (simp add: tells_def)

lemma arg_uint32_less: "fallback < 4294967296 \<Longrightarrow> arg_uint32 api v fallback < 4294967296"
  using unsigned_less [where ?'b = 32 and ?'a = nat] by (auto simp: arg_uint32_def split: option.split)

lemma record_range_tells:
  assumes "console_ok c env" and "record_range_js api env info E = Inr E'"
  shows "tells (1 + c) E E'"
proof -
  let ?off = "arg_uint32 api (info ! 1) 0" and ?sz = "arg_uint32 api (info ! 2) 0"
  have "?off + ?sz \<le> 18446744073709551616"
    using arg_uint32_less [of 0 api "info ! 1"] arg_uint32_less [of 0 api "info ! 2"] by simp
  then have run: "tells (1 + c) E F"
    if "bindE (on_eng (OnSABRangeUnsuppressed bs len ?off ?sz t w) E) (\<lambda>E. Inr (FlushPendingRaceToConsole env E)) = Inr F"
    for bs len t w F
    using that by - (rule tells_then, assumption, erule OnSABRange_drives, assumption, rule Flush_tells [OF assms(1)])
  show ?thesis
  proof (cases "length info < 4 \<or> \<not> IsSharedArrayBuffer api (info ! 0) \<or> ?sz = 0 \<or> WebTSanGetCurrentTid (eng E) = UINT32_MAX")
    case True
    with assms(2) have "E' = E" by (auto simp: record_range_js_def Let_def split: if_splits)
    then show ?thesis by (simp add: tb.stay_any)
  next
    case False
    with assms(2) show ?thesis by (intro run) (simp add: record_range_js_def Let_def)
  qed
qed

lemma other_callbacks_tell:
  "clear_shadow_js api info E = Inr E' \<Longrightarrow> tells 1 E E'"
  "thread_finish_js E = Inr E' \<Longrightarrow> tells 1 E E'"
  "mutex_addr_js hook api info E = Inr E' \<Longrightarrow> (\<And>a. drives 1 (eng E) (hook a (eng E))) \<Longrightarrow> tells 1 E E'"
  "mutex_js hook' api info E = Inr E' \<Longrightarrow> (\<And>t a. drives 1 (eng E) (hook' t a (eng E))) \<Longrightarrow> tells 1 E E'"
  "pthread_create_js E = Inr (t, E') \<Longrightarrow> tells 1 E E'"
  "set_current_tid_js api info E = Inr E' \<Longrightarrow> tells 1 E E'"
  "pthread_join_js api info E = Inr E' \<Longrightarrow> tells 1 E E'"
  "pthread_detach_js api info E = Inr E' \<Longrightarrow> tells 1 E E'"
proof -
  have clear: "drives 1 D (call (ClearShadow bs off n) D)" for D bs off n
    by (rule call_exec [of "Clear bs off n"]) simp_all
  have finish: "drives 1 D (call (ThreadFinish t) D)" for D t by (rule call_exec [of "Finish t"]) simp_all
  have absorb: "drives 1 D (WebTSanSetCurrentTid u (call (ThreadAbsorb d s) D))" for D d s u
    using call_exec [of "Absorb d s" "ThreadAbsorb d s" D] by (simp add: drives_def WebTSanSetCurrentTid_def)
  note ends = tb.stay_any tells_eng clear finish
  show "clear_shadow_js api info E = Inr E' \<Longrightarrow> tells 1 E E'"
    by (auto simp: clear_shadow_js_def Let_def simp del: One_nat_def split: if_splits intro: ends)
  show "thread_finish_js E = Inr E' \<Longrightarrow> tells 1 E E'"
    by (auto simp: thread_finish_js_def Let_def simp del: One_nat_def split: if_splits intro: ends)
  show "mutex_addr_js hook api info E = Inr E' \<Longrightarrow> (\<And>a. drives 1 (eng E) (hook a (eng E))) \<Longrightarrow> tells 1 E E'"
    by (auto simp: mutex_addr_js_def simp del: One_nat_def split: if_splits intro: ends)
  show "mutex_js hook' api info E = Inr E' \<Longrightarrow> (\<And>t a. drives 1 (eng E) (hook' t a (eng E))) \<Longrightarrow> tells 1 E E'"
    by (auto simp: mutex_js_def Let_def simp del: One_nat_def split: if_splits intro: ends)
  show "pthread_create_js E = Inr (t, E') \<Longrightarrow> tells 1 E E'"
    by (auto simp: pthread_create_js_def bindE_eq_Inr simp del: One_nat_def intro!: tells_eng dest: threads_drive(1))
  show "set_current_tid_js api info E = Inr E' \<Longrightarrow> tells 1 E E'"
    by (auto simp: set_current_tid_js_def Let_def simp del: One_nat_def split: if_splits
        intro!: tb.stay_any tells_eng absorb drives_same) (simp add: WebTSanSetCurrentTid_def)+
  show "pthread_join_js api info E = Inr E' \<Longrightarrow> tells 1 E E'"
    by (auto simp: pthread_join_js_def Let_def simp del: One_nat_def split: if_splits intro: ends threads_drive(4))
  show "pthread_detach_js api info E = Inr E' \<Longrightarrow> tells 1 E E'"
    by (auto simp: pthread_detach_js_def Let_def simp del: One_nat_def split: if_splits intro: ends threads_drive(5))
qed

lemma run_callback_tells:
  assumes "console_ok c env" and "run_callback api env cb info E = Inr E'"
  shows "tells (1 + c) E E'"
proof -
  have one: "tells (1 + c) E E'" if "tells 1 E E'" using that by (rule tb.mono) simp
  show ?thesis
  proof (cases cb)
    case RecordRangeCallback
    with assms(2) have "record_range_js api env info E = Inr E'" by (simp add: run_callback_def)
    then show ?thesis by (rule record_range_tells [OF assms(1)])
  next
    case PushSuppressCallback
    with assms(2) show ?thesis by (auto simp: run_callback_def WebTSanPushSuppress_def intro!: tells_same)
  next
    case PopSuppressCallback
    with assms(2) show ?thesis by (auto simp: run_callback_def WebTSanPopSuppress_def intro!: tells_same)
  next
    case PthreadCreateCallback
    with assms(2) obtain t where "pthread_create_js E = Inr (t, E')"
      by (auto simp: run_callback_def elim!: bindE_InrE)
    then show ?thesis by (intro one) (rule other_callbacks_tell(5))
  qed (use assms(2) in \<open>auto simp: run_callback_def simp del: One_nat_def intro!: one intro: other_callbacks_tell mutexes_drive\<close>)
qed

subsection \<open>The process\<close>

text \<open>
  What a thread can do to the detector: the runtime functions of \<open>runtime-tsan.cc\<close> and
  \<open>runtime-test-wasm.cc\<close>, the reports of \<open>wasm-external-refs.cc\<close>, the hooks of waits, notifications and
  freed buffers, the installed functions, and the hooks of messages and workers.
\<close>

datatype 'v entry =
    RecordRead bool js_env typed_array int
  | RecordWrite bool js_env typed_array int
  | AtomicsLoadHook bool js_env typed_array int
  | AtomicsStoreHook bool js_env typed_array int
  | AtomicsRMWHook bool js_env typed_array int
  | WasmAccess "byte \<Rightarrow> nat" "addr \<Rightarrow> byte" js_env wasm_flags wasm_frame MemoryTracingInfo
  | BulkRange bool trusted_data nat nat nat bool
  | JavaScriptCall js_env js_callback "'v list"
  | WaitComplete addr
  | NotifyAt addr
  | BufferFreed addr
  | SendMessage
  | ReceiveEdge u64
  | WorkerStarts
  | WorkerEnds

definition hook_with_tid :: "(tid \<Rightarrow> addr \<Rightarrow> dstate \<Rightarrow> dstate result) \<Rightarrow> addr \<Rightarrow> engine \<Rightarrow> engine result" where
  "hook_with_tid hook loc E = (if GetTid E = UINT32_MAX then Inr E else on_eng (hook (GetTid E) loc) E)"

definition worker_starts :: "engine \<Rightarrow> engine result" where
  "worker_starts E =
     (if enabled (fst (eng E))
      then bindE (OnWorkerCreate (eng E)) (\<lambda>(t, D). Inr (E\<lparr>eng := WebTSanSetCurrentTid t D\<rparr>)) else Inr E)"

definition worker_ends :: "engine \<Rightarrow> engine result" where
  "worker_ends E =
     (let t = WebTSanGetCurrentTid (eng E) in
      if t \<noteq> UINT32_MAX
      then bindE (OnWorkerDestroy t (eng E)) (\<lambda>D. Inr (E\<lparr>eng := WebTSanSetCurrentTid UINT32_MAX D\<rparr>)) else Inr E)"

fun enter :: "'v v8_api \<Rightarrow> 'v entry \<Rightarrow> WasmTrace.wasm_state \<Rightarrow> WasmTrace.wasm_state result" where
  "enter api (RecordRead wt env a i) s = on_wasm_engine (Runtime_WebTSanRecordRead wt env a i) s"
| "enter api (RecordWrite wt env a i) s = on_wasm_engine (Runtime_WebTSanRecordWrite wt env a i) s"
| "enter api (AtomicsLoadHook wt env a i) s = on_wasm_engine (Runtime_WebTSanAtomicsLoad wt env a i) s"
| "enter api (AtomicsStoreHook wt env a i) s = on_wasm_engine (Runtime_WebTSanAtomicsStore wt env a i) s"
| "enter api (AtomicsRMWHook wt env a i) s = on_wasm_engine (Runtime_WebTSanAtomicsRMW wt env a i) s"
| "enter api (WasmAccess rep_size mem env fl frame info) s = Runtime_WasmTraceMemory rep_size mem env fl frame (Some info) s"
| "enter api (BulkRange wt td k off n w) s = on_wasm_engine (MaybeReportTSanBulkRange wt td k off n w) s"
| "enter api (JavaScriptCall env cb info) s = on_wasm_engine (run_callback api env cb info) s"
| "enter api (WaitComplete loc) s = on_wasm_engine (hook_with_tid OnAtomicsWaitComplete loc) s"
| "enter api (NotifyAt loc) s = on_wasm_engine (hook_with_tid OnAtomicsNotify loc) s"
| "enter api (BufferFreed bs) s = on_wasm_engine (\<lambda>E. Inr (E\<lparr>eng := call (RemoveShadow bs) (eng E)\<rparr>)) s"
| "enter api SendMessage s = on_wasm_engine (\<lambda>E.
     bindE (OnPostMessageSend (WebTSanGetCurrentTid (eng E)) (eng E)) (\<lambda>(_, D). Inr (E\<lparr>eng := D\<rparr>))) s"
| "enter api (ReceiveEdge e) s = on_wasm_engine (\<lambda>E. on_eng (OnPostMessageReceive (WebTSanGetCurrentTid (eng E)) e) E) s"
| "enter api WorkerStarts s = on_wasm_engine worker_starts s"
| "enter api WorkerEnds s = on_wasm_engine worker_ends s"

text \<open>Accesses lie in the address space, and printing a report makes at most \<open>c\<close> operations.\<close>

fun entry_ok :: "nat \<Rightarrow> 'v entry \<Rightarrow> bool" where
  "entry_ok c (RecordRead wt env a i) = (console_ok c env \<and> element_ok a i)"
| "entry_ok c (RecordWrite wt env a i) = (console_ok c env \<and> element_ok a i)"
| "entry_ok c (AtomicsLoadHook wt env a i) = console_ok c env"
| "entry_ok c (AtomicsStoreHook wt env a i) = console_ok c env"
| "entry_ok c (AtomicsRMWHook wt env a i) = console_ok c env"
| "entry_ok c (WasmAccess rep_size mem env fl frame info) =
     (console_ok c env \<and> ti_offset info + rep_size (ti_mem_rep info) \<le> 18446744073709551616)"
| "entry_ok c (JavaScriptCall env cb info) = console_ok c env"
| "entry_ok c _ = True"

text \<open>A thread enters: it finds the detector as the others left it, and its own thread-local state.\<close>

type_synonym process_state = "WebTSan \<times> (nat \<Rightarrow> WasmTrace.wasm_state)"

definition at_detector :: "WebTSan \<Rightarrow> WasmTrace.wasm_state \<Rightarrow> WasmTrace.wasm_state" where
  "at_detector W s = s\<lparr>wasm_engine := (wasm_engine s)\<lparr>eng := (W, snd (eng (wasm_engine s)))\<rparr>\<rparr>"

definition process_step :: "'v v8_api \<Rightarrow> nat \<times> 'v entry \<Rightarrow> process_state \<Rightarrow> process_state result" where
  "process_step api = (\<lambda>(i, e) (W, threads).
     bindE (enter api e (at_detector W (threads i))) (\<lambda>s. Inr (fst (eng (wasm_engine s)), threads(i := s))))"

lemma on_wasm_engine_tells:
  assumes "on_wasm_engine f s = Inr s'" and "\<And>E'. f (wasm_engine s) = Inr E' \<Longrightarrow> tells k (wasm_engine s) E'"
  shows "tells k (wasm_engine s) (wasm_engine s')"
  using assms by (auto simp: on_wasm_engine_def elim!: bindE_InrE)

lemma tells_up: "tells k E E' \<Longrightarrow> k \<le> 64 + c \<Longrightarrow> tells (64 + c) E E'"
  by (rule tb.mono)

lemma hook_with_tid_tells:
  assumes "hook_with_tid hook loc E = Inr E'" and "\<And>t D D'. hook t loc D = Inr D' \<Longrightarrow> drives 1 D D'"
  shows "tells 1 E E'"
proof (cases "GetTid E = UINT32_MAX")
  case False
  with assms(1) have "on_eng (hook (GetTid E) loc) E = Inr E'" by (simp add: hook_with_tid_def)
  then show ?thesis by (rule tells_on_eng) (rule assms(2))
qed (use assms in \<open>simp add: hook_with_tid_def tb.stay_any\<close>)

lemma workers_tell:
  "worker_starts E = Inr E' \<Longrightarrow> tells 1 E E'"
  "worker_ends E = Inr E' \<Longrightarrow> tells 1 E E'"
proof -
  have set: "drives 1 D (WebTSanSetCurrentTid u D')" if "drives 1 D D'" for D D' u
    using that by (simp add: drives_def WebTSanSetCurrentTid_def)
  show "worker_starts E = Inr E' \<Longrightarrow> tells 1 E E'"
    by (auto simp: worker_starts_def bindE_eq_Inr simp del: One_nat_def split: if_splits
        intro!: tb.stay_any tells_eng set dest: threads_drive(2))
  show "worker_ends E = Inr E' \<Longrightarrow> tells 1 E E'"
    by (auto simp: worker_ends_def bindE_eq_Inr Let_def simp del: One_nat_def split: if_splits
        intro!: tb.stay_any tells_eng set dest: threads_drive(3))
qed

lemma enter_tells:
  assumes "entry_ok c e" and "g_callbacks (wasm_engine s) = webtsan_callbacks" and "enter api e s = Inr s'"
  shows "tells (64 + c) (wasm_engine s) (wasm_engine s')"
proof (cases e)
  case (RecordRead wt env a i)
  with assms show ?thesis
    by (auto intro!: tells_up [OF on_wasm_engine_tells [OF _ runtime_functions_tell(1)]])
next
  case (RecordWrite wt env a i)
  with assms show ?thesis
    by (auto intro!: tells_up [OF on_wasm_engine_tells [OF _ runtime_functions_tell(2)]])
next
  case (AtomicsLoadHook wt env a i)
  with assms show ?thesis
    by (auto intro!: tells_up [OF on_wasm_engine_tells [OF _ runtime_functions_tell(3)]])
next
  case (AtomicsStoreHook wt env a i)
  with assms show ?thesis
    by (auto intro!: tells_up [OF on_wasm_engine_tells [OF _ runtime_functions_tell(4)]])
next
  case (AtomicsRMWHook wt env a i)
  with assms show ?thesis
    by (auto intro!: tells_up [OF on_wasm_engine_tells [OF _ runtime_functions_tell(5)]])
next
  case (WasmAccess rep_size mem env fl frame info)
  with assms have "Runtime_WasmTraceMemory rep_size mem env fl frame (Some info) s = Inr s'" "console_ok c env"
    "ti_offset info + rep_size (ti_mem_rep info) \<le> 18446744073709551616" by simp_all
  from tells_up [OF WasmTraceMemory_tells [OF assms(2) this(2,3,1)]] show ?thesis by simp
next
  case (BulkRange wt td k off n w)
  with assms(3) have "on_wasm_engine (MaybeReportTSanBulkRange wt td k off n w) s = Inr s'" by simp
  from on_wasm_engine_tells [OF this bulk_tells [OF assms(2)]] show ?thesis by (rule tells_up) simp_all
next
  case (JavaScriptCall env cb info)
  with assms have "on_wasm_engine (run_callback api env cb info) s = Inr s'" "console_ok c env" by simp_all
  from on_wasm_engine_tells [OF this(1) run_callback_tells [OF this(2)]] show ?thesis by (rule tells_up) simp_all
next
  case (WaitComplete loc)
  with assms(3) have "on_wasm_engine (hook_with_tid OnAtomicsWaitComplete loc) s = Inr s'" by simp
  from on_wasm_engine_tells [OF this hook_with_tid_tells [OF _ atomics_drive(3)]] show ?thesis by (rule tells_up) simp_all
next
  case (NotifyAt loc)
  with assms(3) have "on_wasm_engine (hook_with_tid OnAtomicsNotify loc) s = Inr s'" by simp
  from on_wasm_engine_tells [OF this hook_with_tid_tells [OF _ atomics_drive(4)]] show ?thesis by (rule tells_up) simp_all
next
  case (BufferFreed bs)
  have "drives 1 (eng (wasm_engine s)) (call (RemoveShadow bs) (eng (wasm_engine s)))"
    by (rule call_exec [of "Remove bs"]) simp_all
  from tells_eng [OF this] show ?thesis
    using assms(3) BufferFreed by (auto simp: on_wasm_engine_def intro: tells_up)
next
  case SendMessage
  with assms(3) have "on_wasm_engine (\<lambda>E. bindE (OnPostMessageSend (WebTSanGetCurrentTid (eng E)) (eng E))
      (\<lambda>(_, D). Inr (E\<lparr>eng := D\<rparr>))) s = Inr s'" by simp
  then have "tells 1 (wasm_engine s) (wasm_engine s')"
    by (rule on_wasm_engine_tells)
      (auto simp: bindE_eq_Inr simp del: One_nat_def intro!: tells_eng dest: messages_drive(1))
  then show ?thesis by (rule tells_up) simp
next
  case (ReceiveEdge e)
  with assms(3) have "on_wasm_engine (\<lambda>E. on_eng (OnPostMessageReceive (WebTSanGetCurrentTid (eng E)) e) E) s = Inr s'" by simp
  from on_wasm_engine_tells [OF this tells_on_eng [OF _ messages_drive(2)]] show ?thesis by (rule tells_up) simp_all
next
  case WorkerStarts
  with assms(3) have "on_wasm_engine worker_starts s = Inr s'" by simp
  from on_wasm_engine_tells [OF this workers_tell(1)] show ?thesis by (rule tells_up) simp_all
next
  case WorkerEnds
  with assms(3) have "on_wasm_engine worker_ends s = Inr s'" by simp
  from on_wasm_engine_tells [OF this workers_tell(2)] show ?thesis by (rule tells_up) simp_all
qed

subsection \<open>No false positives, for the engine\<close>

lemma drives_tls:
  assumes "drives k D D'" and "fst C = fst D" and "fst C' = fst D'"
  shows "drives k C C'"
proof -
  from assms(1) obtain ops T where ops: "length ops \<le> k" "list_all op_ok ops" "runE exec ops (fst D, snd D) = Inr (fst D', T)"
    by (auto simp: drives_def)
  from runE_exec_tls [OF ops(3)] obtain T2 where "runE exec ops (fst D, snd C) = Inr (fst D', T2)" by blast
  then have "runE exec ops C = Inr (fst C', T2)" using assms(2,3) by (cases C) simp
  with ops(1,2) show ?thesis by (auto simp: drives_def)
qed

definition process_drives :: "nat \<Rightarrow> process_state \<Rightarrow> process_state \<Rightarrow> bool" where
  "process_drives k P P' \<longleftrightarrow> ((\<forall>i. g_callbacks (wasm_engine (snd P i)) = webtsan_callbacks) \<longrightarrow>
     (\<forall>i. g_callbacks (wasm_engine (snd P' i)) = webtsan_callbacks) \<and> drives k (fst P, init_tls) (fst P', init_tls))"

interpretation pb: budget process_drives
  by unfold_locales (auto simp: process_drives_def intro: db.stay db.join db.mono)

lemma process_step_drives:
  assumes "entry_ok c (snd x)" and "process_step api x P = Inr P'"
  shows "process_drives (64 + c) P P'"
proof -
  obtain i e W th where x: "x = (i, e)" and P: "P = (W, th)" by (cases x; cases P)
  let ?s = "at_detector W (th i)"
  from assms(2) obtain s where s: "enter api e ?s = Inr s" and P': "P' = (fst (eng (wasm_engine s)), th(i := s))"
    by (auto simp: x P process_step_def elim!: bindE_InrE)
  show ?thesis
  proof (cases "g_callbacks (wasm_engine (th i)) = webtsan_callbacks")
    case True
    then have cb: "g_callbacks (wasm_engine ?s) = webtsan_callbacks" by (simp add: at_detector_def)
    from assms(1) x have "entry_ok c e" by simp
    from enter_tells [OF this cb s] cb have "g_callbacks (wasm_engine s) = webtsan_callbacks"
      "drives (64 + c) (eng (wasm_engine ?s)) (eng (wasm_engine s))" by (simp_all add: tells_def)
    moreover from this(2) have "drives (64 + c) (W, init_tls) (fst (eng (wasm_engine s)), init_tls)"
      by (rule drives_tls) (simp_all add: at_detector_def)
    ultimately show ?thesis by (simp add: process_drives_def P P')
  qed (auto simp: process_drives_def P)
qed

lemma start_drives:
  assumes "eng E0 = (SetRaceCallback True new_WebTSan, init_tls)" and "InitializeWebTSan True E0 = Inr E1"
  shows "drives 1 (started, init_tls) (fst (eng E1), init_tls)"
proof -
  from assms obtain t W where "ThreadCreate UINT32_MAX (Enable (SetRaceCallback True new_WebTSan)) = Inr (t, W)"
    and "fst (eng E1) = W"
    by (auto simp: InitializeWebTSan_def RegisterCallbacks_def call_def WebTSanSetCurrentTid_def Let_def elim!: bindE_InrE)
  moreover have "started = Enable (SetRaceCallback True new_WebTSan)"
    by (simp add: started_def Enable_def SetRaceCallback_def)
  ultimately show ?thesis by (intro drives_op [of "Create UINT32_MAX"]) simp_all
qed


text \<open>Two threads write one byte: the main thread, and a worker started by the second entry.\<close>

definition demo_array :: typed_array where
  "demo_array = \<lparr>is_shared = True, backing_store = 4096, byte_length = 64, byte_offset = 8, element_size = 1\<rparr>"

definition demo_thread :: "nat \<Rightarrow> WasmTrace.wasm_state" where
  "demo_thread t = \<lparr>wasm_engine = new_engine\<lparr>g_callbacks := webtsan_callbacks, eng := (new_WebTSan, init_tls\<lparr>g_current_tsan_tid := t\<rparr>)\<rparr>,
     wasm_traces = \<lparr>global_trace = [], memory_trace = [], should_store_trace = False\<rparr>,
     memory_printed = [], global_printed = [], webtsan_globals_installed = False, realm_globals = Map.empty\<rparr>"

definition demo_threads :: "nat \<Rightarrow> WasmTrace.wasm_state" where
  "demo_threads i = demo_thread (if i = 0 then 0 else UINT32_MAX)"

definition demo_entries :: "(nat \<times> nat entry) list" where
  "demo_entries = [(1, WorkerStarts), (0, RecordWrite True plain_env demo_array 0), (1, RecordWrite True plain_env demo_array 0)]"

lemma plain_console: "console_ok 0 plain_env"
  by (auto simp: console_ok_def plain_env_def intro!: tells_same)

lemma MaybeThrowRace_fst: "fst (eng (MaybeThrowRace plain_env E)) = fst (eng E)" if "g_callbacks E = webtsan_callbacks"
proof -
  obtain msg D where c: "consume_race_cb 512 (eng E) = (msg, D)" by (cases "consume_race_cb 512 (eng E)")
  with consume_fst [of 512 "eng E"] have "fst D = fst (eng E)" by simp
  then show ?thesis using c that
    by (cases msg) (simp_all add: MaybeThrowRace_def webtsan_sel plain_env_def Let_def)
qed

lemma write_step:
  assumes "at_detector W (threads i) = at_detector W (demo_thread t)" and "t \<noteq> UINT32_MAX" and "enabled W"
    and "exec (Access 4096 64 8 1 t True) (W, T) = Inr (W', T')"
  shows "\<exists>s. process_step api (i, RecordWrite True plain_env demo_array 0) (W, threads) = Inr (W', threads(i := s))"
proof -
  let ?E = "wasm_engine (at_detector W (demo_thread t))"
  from exec_tls [OF assms(4)] obtain T1
    where "MemoryAccess 4096 64 8 1 t True (W, init_tls\<lparr>g_current_tsan_tid := t\<rparr>) = Inr (W', T1)" by fastforce
  then have "OnSABAccess 4096 64 8 1 t True (eng ?E) = Inr (W', T1)"
    using assms(3) by (simp add: OnSABAccess_def at_detector_def demo_thread_def WebTSanIsSuppressed_def init_tls_def)
  then have "Runtime_WebTSanRecordWrite True plain_env demo_array 0 ?E = Inr (MaybeThrowRace plain_env (?E\<lparr>eng := (W', T1)\<rparr>))"
    using assms(2) by (simp add: Runtime_WebTSanRecordWrite_def demo_array_def element_offset_def GetTid_def on_eng_def
        at_detector_def demo_thread_def webtsan_sel WebTSanGetCurrentTid_def Let_def)
  then show ?thesis
    using MaybeThrowRace_fst [of "?E\<lparr>eng := (W', T1)\<rparr>"]
    by (simp add: process_step_def on_wasm_engine_def assms(1)) (simp add: at_detector_def demo_thread_def, rule exI, rule refl)
qed


end
