(* ===== verification/Spec2Isabelle.thy ===== *)
theory Spec2Isabelle
  imports FlatShadow HBSpec WasmTrace FutexTeardown BackingStoreProps WasmSimdProps WasmBulkProps AtomicsProps WorkerMessages LiftoffBulk EngineRuns
begin

text \<open>
  WebTSan: a data-race detector for SharedArrayBuffers in Chromium, as a library of theories over the
  C++ of the patches to V8 and Blink. The detector lives in Blink (\<open>core/tsan/\<close>); V8 reaches it only
  through a table of callbacks. A thread of a renderer process tells it of plain accesses, which go to
  shadow memory, and of synchronisation, which moves vector clocks; a race found is kept for the
  thread, consumed by the next runtime function of V8 and printed to the JavaScript console. Names of
  types, fields and functions are those of the code.

  \<^bold>\<open>Theories and sources.\<close>

  \<^item> \<open>Prelude\<close>: machine types, failures (\<open>crash\<close>: a failed check, an index out of bounds, a bad pointer, a
    loop out of fuel), sequencing \<open>bindE\<close>, \<open>runE\<close>, number formats, lemmas on folds and maps.
  \<^item> \<open>VClock\<close>, \<open>ShadowBuffer\<close>, \<open>WebTSan\<close>: \<open>web_tsan.h\<close> and \<open>web_tsan.cc\<close>. A clock is an instance of the
    library's bounded semilattices; the locale \<open>causal_clock\<close> states what happens-before needs of a
    clock and is interpreted on \<open>VClock\<close>; \<open>shadow_memory\<close> states what an access needs of the shadow.
    \<open>FlatShadow\<close> is the flat detector of \<open>tests/web_tsan_test.cc\<close>, which the paged one refines.
    \<open>HBSpec\<close> runs the detector beside a happens-before specification that knows no clocks: soundness of
    every report, exactness for programs of locks and atomics.
  \<^item> \<open>Hooks\<close>, \<open>Callbacks\<close>, \<open>RuntimeTsan\<close>, \<open>Init\<close>: \<open>web_tsan_hooks.h\<close>, \<open>runtime-tsan.h\<close>, \<open>runtime-tsan.cc\<close>,
    \<open>web_tsan_init.cc\<close>: thread-local state, inline hooks, the callback table, V8's runtime functions, the
    start-up switch, the sixteen JavaScript functions, the way of a report to the console.
  \<^item> \<open>Futex\<close> and \<open>FutexLists\<close>, \<open>FutexProps\<close>, \<open>FutexResolve\<close>, \<open>FutexTeardown\<close>: \<open>futex-emulation.cc\<close> on a heap of list
    nodes. \<open>repr S qs rs\<close> abstracts the heap to queues of waiters per location; every operation is
    described on the queues.
  \<^item> \<open>BackingStore\<close>, \<open>BackingStoreProps\<close>: \<open>backing-store.cc\<close>; concurrent grows as a step relation, the shadow
    of a destroyed buffer, the global registry.
  \<^item> \<open>Atomics\<close>, \<open>AtomicsProps\<close>: \<open>builtins-sharedarraybuffer-gen.cc\<close>, with the JavaScript that conversions of
    arguments may run and the other threads' stores as parameters; total-correctness triples.
  \<^item> \<open>Ieee\<close>, \<open>WasmNumeric\<close>, \<open>WasmSimd\<close>, \<open>WasmBulk\<close> and their \<open>Props\<close>: \<open>wasm-external-refs.cc\<close>, on an executable
    model of binary floating point and a byte memory.
  \<^item> \<open>WasmTrace\<close>: \<open>wasm-tracing.h\<close> and the trace functions of \<open>runtime-test-wasm.cc\<close>.
  \<^item> \<open>Liftoff\<close>, \<open>LiftoffProps\<close>, \<open>LiftoffBulk\<close>: the memory instructions of \<open>liftoff-compiler.cc\<close>. A function that
    emits code is modelled by what the code does on a 64-bit target; every load, store and atomic
    operation is proved equal to one reference meaning (\<open>perform\<close>): trap, or effect and exactly one report.
  \<^item> \<open>Workers\<close>, \<open>WorkersProps\<close>, \<open>WorkerMessages\<close>: \<open>worker_thread.cc\<close>, \<open>message_port.cc\<close>, the dedicated worker's
    files and \<open>blink_transferable_message.h\<close>: a process as a state, the actions of parent, workers and
    event loops as a step relation \<open>reaches\<close>; the locale \<open>life_steps\<close> states what an action may change
    and is interpreted for each invariant.
  \<^item> \<open>EngineRuns\<close>: all entries of the engine into the detector, by any threads in any order, are runs of the
    operations of \<open>HBSpec\<close>, with a bound on their number (locale \<open>budget\<close>); so its soundness holds end to
    end. An entry is one step: other threads' steps inside it would be further operations of a run.

  \<^bold>\<open>Conventions.\<close> A function that may fail returns a sum: \<open>Inl\<close> a crash, \<open>Inr\<close> the new state; the compiled
  code's \<open>Inl\<close> is a trap or a crash, the builtins' a thrown exception too. Addresses and sizes are natural
  numbers, reduced where the C++ type wraps (\<open>size_t\<close>), and so are thread ids; epochs, WebAssembly values
  and registers are words. A mutex held for a whole function makes it one step. \<open>DCHECK\<close>s of a modelled function
  are failures of the model, which the theorems exclude.

  \<^bold>\<open>Bounds and fuel.\<close> \<open>kMaxThreads\<close> is 64; soundness is for runs of at most \<open>UINT64_MAX\<close> operations, since an
  epoch is a 64-bit counter that no operation raises by more than one; in \<open>EngineRuns\<close> an entry makes at most
  64 operations (the samples of a bulk range) and those of the console. List loops of the futex emulation
  have the number of nodes ever allocated as fuel, which no list exceeds; the theorems show that the loops
  return. \<open>array.fill\<close> doubles the part filled, so 32 rounds are enough for a 32-bit length. The loops of
  growing memories run over a list of what the other threads do between the steps; with a finite list of
  interferences and no spurious failure they are proved to return. \<open>clear_loop\<close> terminates by a measure.

  \<^bold>\<open>Parameters.\<close> What is outside the sources is an argument: JavaScript run by the console or a conversion
  (\<open>js_env\<close>, \<open>v8_api\<close>), the page and array allocators, the engine's registries (\<open>platform\<close>), the assembler and
  builtins behind compiled code, the base library's half-precision and power functions (\<open>v8_lib\<close>), object layouts
  (\<open>heap_layout\<close>). What is relied on of them is a named hypothesis, with a witness on a concrete instance.

  \<^bold>\<open>Not modelled.\<close> The rest of \<open>liftoff-compiler.cc\<close> (control flow, arithmetic, tables, garbage-collected
  objects, register allocation, debugging, 32-bit register pairs) makes no call that reaches the detector. Of
  \<open>runtime-test-wasm.cc\<close> the testing intrinsics, of \<open>wasm-external-refs.cc\<close> the stack switching, whose work is done by
  classes that are not in the sources. \<open>render_process_host_impl.cc\<close>, \<open>render_thread_impl.cc\<close> and
  \<open>flag-definitions.h\<close> are changed by a line or two, which pass the switch on or declare the flag the model
  takes as the argument \<open>wasm_tsan\<close>; \<open>local_window_proxy.cc\<close> and \<open>blink_initializer.cc\<close> only call functions of \<open>Init\<close>;
  \<open>runtime.h\<close> is a list of declarations. Memory-order effects of the C++ program itself, garbage
  collection and the serialisation of messages between processes, which drops the edge of a message,
  are left out.
\<close>

end
